(* ===== verification/Prelude.thy ===== *)
theory Prelude
  imports Main
begin

text \<open>
  Shared vocabulary of the development: Go's \<open>int64\<close> arithmetic, its byte strings and the
  functions of package \<open>strings\<close> / \<open>bytes\<close> the code calls, times, results, and the generic
  list and map lemmas that the component proofs rely on. A Go string or \<open>[]byte\<close> is a
  \<open>string\<close>, whose characters are bytes.
\<close>

named_theorems acct_simps \<open>how an operation changes a counter or a reservation\<close>
named_theorems frame_simps \<open>what an operation leaves unchanged\<close>

section \<open>Integers and time\<close>

text \<open>A Go \<open>int64\<close> is an \<open>int\<close>; where the code can overflow, the result goes through
  \<open>wrap64\<close>, two's complement wrap-around.\<close>

definition max_int64 :: int where
  "max_int64 = 9223372036854775807"

definition in_int64 :: "int \<Rightarrow> bool" where
  "in_int64 x \<longleftrightarrow> - max_int64 - 1 \<le> x \<and> x \<le> max_int64"

definition wrap64 :: "int \<Rightarrow> int" where
  "wrap64 x = (x + 9223372036854775808) mod 18446744073709551616 - 9223372036854775808"

lemma wrap64_id: "in_int64 x \<Longrightarrow> wrap64 x = x"
  unfolding in_int64_def wrap64_def max_int64_def by (simp add: mod_pos_pos_trivial)

lemma wrap64_in: "in_int64 (wrap64 x)"
proof -
  have "0 \<le> (x + 9223372036854775808) mod 18446744073709551616"
    and "(x + 9223372036854775808) mod 18446744073709551616 < 18446744073709551616"
    by simp_all
  then show ?thesis unfolding in_int64_def wrap64_def max_int64_def by linarith
qed

text \<open>\<open>int32(x)\<close> keeps the low 32 bits.\<close>

definition wrap32 :: "int \<Rightarrow> int" where
  "wrap32 x = (x + 2147483648) mod 4294967296 - 2147483648"

lemma wrap32_id: "- 2147483648 \<le> x \<Longrightarrow> x \<le> 2147483647 \<Longrightarrow> wrap32 x = x"
  unfolding wrap32_def by (simp add: mod_pos_pos_trivial)

lemma wrap32_range: "- 2147483648 \<le> wrap32 x" "wrap32 x \<le> 2147483647"
proof -
  have "0 \<le> (x + 2147483648) mod 4294967296" and "(x + 2147483648) mod 4294967296 < 4294967296"
    by simp_all
  then show "- 2147483648 \<le> wrap32 x" "wrap32 x \<le> 2147483647" unfolding wrap32_def by linarith+
qed

text \<open>Go's integer division truncates towards zero.\<close>

definition trunc_div :: "int \<Rightarrow> int \<Rightarrow> int" where
  "trunc_div a b =
     (let magnitude = abs a div abs b in if (a < 0) = (b < 0) then magnitude else - magnitude)"

lemma trunc_div_nonneg: "0 \<le> a \<Longrightarrow> 0 < b \<Longrightarrow> trunc_div a b = a div b"
  by (simp add: trunc_div_def)

text \<open>A \<open>time.Time\<close> is its distance from the Unix epoch in nanoseconds, a \<open>time.Duration\<close>
  a number of nanoseconds; \<open>Time.Unix\<close> rounds down to seconds.\<close>

type_synonym time = int
type_synonym duration = int

definition second :: duration where "second = 1000000000"
definition minute :: duration where "minute = 60 * second"
definition hour :: duration where "hour = 60 * minute"

definition unix_seconds :: "time \<Rightarrow> int" where
  "unix_seconds t = t div second"

section \<open>Bytes and strings\<close>

abbreviation byte :: "char \<Rightarrow> nat" where
  "byte c \<equiv> of_char c"

text \<open>\<open>strings.HasPrefix\<close>, \<open>strings.Contains\<close>, \<open>strings.TrimPrefix\<close>.\<close>

fun has_prefix :: "string \<Rightarrow> string \<Rightarrow> bool" where
  "has_prefix [] s = True"
| "has_prefix (p # ps) [] = False"
| "has_prefix (p # ps) (c # cs) = (p = c \<and> has_prefix ps cs)"

fun str_contains :: "string \<Rightarrow> string \<Rightarrow> bool" where
  "str_contains sub [] = (sub = [])"
| "str_contains sub (c # cs) = (has_prefix sub (c # cs) \<or> str_contains sub cs)"

definition trim_prefix :: "string \<Rightarrow> string \<Rightarrow> string" where
  "trim_prefix p s = (if has_prefix p s then drop (length p) s else s)"

lemma has_prefix_iff: "has_prefix p s \<longleftrightarrow> (\<exists>t. s = p @ t)"
  by (induction p s rule: has_prefix.induct) auto

lemma str_contains_iff: "str_contains sub s \<longleftrightarrow> (\<exists>u v. s = u @ sub @ v)"
proof (induction s)
  case Nil
  then show ?case by simp
next
  case IH: (Cons c cs)
  show ?case
  proof
    assume "str_contains sub (c # cs)"
    then consider "has_prefix sub (c # cs)" | "str_contains sub cs" by auto
    then show "\<exists>u v. c # cs = u @ sub @ v"
    proof cases
      case 1
      then show ?thesis by (metis append_Nil has_prefix_iff)
    next
      case 2
      then show ?thesis using IH by (metis append_Cons)
    qed
  next
    assume "\<exists>u v. c # cs = u @ sub @ v"
    then obtain u v where "c # cs = u @ sub @ v" by blast
    then show "str_contains sub (c # cs)"
    proof (cases u)
      case Nil
      with \<open>c # cs = u @ sub @ v\<close> have "has_prefix sub (c # cs)"
        by (auto simp: has_prefix_iff)
      then show ?thesis by simp
    next
      case (Cons d ds)
      with \<open>c # cs = u @ sub @ v\<close> have "cs = ds @ sub @ v" by simp
      then have "str_contains sub cs" using IH by blast
      then show ?thesis by simp
    qed
  qed
qed

text \<open>
  \<open>strings.TrimSpace\<close> drops leading and trailing runes that \<open>unicode.IsSpace\<close> accepts. A
  rune is its UTF-8 bytes: \<open>space_run\<close> is the length of the white-space rune a string starts
  with (0 if there is none), \<open>space_run_rev\<close> the same for the reversed string.
\<close>

definition ascii_space :: "char \<Rightarrow> bool" where
  "ascii_space c \<longleftrightarrow> (byte c = 32 \<or> (9 \<le> byte c \<and> byte c \<le> 13))"

definition space2 :: "char \<Rightarrow> char \<Rightarrow> bool" where
  "space2 a b \<longleftrightarrow> byte a = 194 \<and> (byte b = 133 \<or> byte b = 160)"

definition space3 :: "char \<Rightarrow> char \<Rightarrow> char \<Rightarrow> bool" where
  "space3 a b c \<longleftrightarrow>
     (byte a = 225 \<and> byte b = 154 \<and> byte c = 128)
   \<or> (byte a = 226 \<and> byte b = 128 \<and>
        ((128 \<le> byte c \<and> byte c \<le> 138) \<or> byte c = 168 \<or> byte c = 169 \<or> byte c = 175))
   \<or> (byte a = 226 \<and> byte b = 129 \<and> byte c = 159)
   \<or> (byte a = 227 \<and> byte b = 128 \<and> byte c = 128)"

fun space_run :: "string \<Rightarrow> nat" where
  "space_run [] = 0"
| "space_run (a # s) =
     (if ascii_space a then 1
      else case s of [] \<Rightarrow> 0
      | b # t \<Rightarrow> (if space2 a b then 2
                  else case t of [] \<Rightarrow> 0 | c # _ \<Rightarrow> (if space3 a b c then 3 else 0)))"

fun space_run_rev :: "string \<Rightarrow> nat" where
  "space_run_rev [] = 0"
| "space_run_rev (a # s) =
     (if ascii_space a then 1
      else case s of [] \<Rightarrow> 0
      | b # t \<Rightarrow> (if space2 b a then 2
                  else case t of [] \<Rightarrow> 0 | c # _ \<Rightarrow> (if space3 c b a then 3 else 0)))"

lemma drop_space_run: "0 < space_run s \<Longrightarrow> length (drop (space_run s) s) < length s"
  by (cases s) auto

lemma drop_space_run_rev: "0 < space_run_rev s \<Longrightarrow> length (drop (space_run_rev s) s) < length s"
  by (cases s) auto

function trim_left :: "string \<Rightarrow> string" where
  "trim_left s = (if 0 < space_run s then trim_left (drop (space_run s) s) else s)"
  by pat_completeness auto
termination
  by (relation "measure length") (use drop_space_run in auto)

function trim_left_rev :: "string \<Rightarrow> string" where
  "trim_left_rev s =
     (if 0 < space_run_rev s then trim_left_rev (drop (space_run_rev s) s) else s)"
  by pat_completeness auto
termination
  by (relation "measure length") (use drop_space_run_rev in auto)

declare trim_left.simps [simp del]
declare trim_left_rev.simps [simp del]

definition trim_space :: "string \<Rightarrow> string" where
  "trim_space s = rev (trim_left_rev (rev (trim_left s)))"

lemma trim_left_id: "space_run s = 0 \<Longrightarrow> trim_left s = s"
  by (simp add: trim_left.simps)

lemma trim_left_rev_id: "space_run_rev s = 0 \<Longrightarrow> trim_left_rev s = s"
  by (simp add: trim_left_rev.simps)

lemma trim_space_id: "space_run s = 0 \<Longrightarrow> space_run_rev (rev s) = 0 \<Longrightarrow> trim_space s = s"
  by (simp add: trim_space_def trim_left_id trim_left_rev_id)

lemma trim_left_run: "space_run (trim_left s) = 0"
proof (induction s rule: trim_left.induct)
  case (1 s)
  then show ?case by (subst trim_left.simps) simp
qed

lemma trim_left_rev_run: "space_run_rev (trim_left_rev s) = 0"
proof (induction s rule: trim_left_rev.induct)
  case (1 s)
  then show ?case by (subst trim_left_rev.simps) simp
qed

lemma space_run_prefix: "space_run (p @ q) = 0 \<Longrightarrow> space_run p = 0"
  by (cases p; cases "tl p"; cases "tl (tl p)") (auto split: if_splits list.splits)

lemma trim_left_rev_suffix: "\<exists>w. s = w @ trim_left_rev s"
proof (induction s rule: trim_left_rev.induct)
  case (1 s)
  show ?case
  proof (cases "0 < space_run_rev s")
    case True
    let ?d = "drop (space_run_rev s) s"
    from 1 [OF True] obtain w where "?d = w @ trim_left_rev ?d" ..
    then have "s = (take (space_run_rev s) s @ w) @ trim_left_rev ?d"
      by (metis append.assoc append_take_drop_id)
    moreover have "trim_left_rev s = trim_left_rev ?d"
      using True by (subst trim_left_rev.simps) (rule if_P)
    ultimately show ?thesis by metis
  qed (simp add: trim_left_rev_id)
qed

lemma trim_space_idem: "trim_space (trim_space s) = trim_space s"
proof (rule trim_space_id)
  obtain w where "rev (trim_left s) = w @ trim_left_rev (rev (trim_left s))"
    using trim_left_rev_suffix by blast
  then have "trim_left s = trim_space s @ rev w"
    by (metis rev_append rev_rev_ident trim_space_def)
  then show "space_run (trim_space s) = 0" using trim_left_run [of s] by (metis space_run_prefix)
  show "space_run_rev (rev (trim_space s)) = 0" by (simp add: trim_space_def trim_left_rev_run)
qed

text \<open>
  \<open>strings.ToLower\<close>, as the code uses it (a search for ASCII phrases in the result): ASCII
  letters are lowered, as are the two runes outside ASCII whose lower case is an ASCII letter
  (U+212A, the Kelvin sign, and U+0130); every other byte keeps its value.
\<close>

definition lower_char :: "char \<Rightarrow> char" where
  "lower_char c = (if 65 \<le> byte c \<and> byte c \<le> 90 then char_of (byte c + 32) else c)"

fun to_lower :: "string \<Rightarrow> string" where
  "to_lower [] = []"
| "to_lower (a # s) =
     (case s of
        b # c # t \<Rightarrow>
          (if byte a = 226 \<and> byte b = 132 \<and> byte c = 170 then CHR ''k'' # to_lower t
           else if byte a = 196 \<and> byte b = 176 then CHR ''i'' # to_lower (c # t)
           else lower_char a # to_lower s)
      | [b] \<Rightarrow> (if byte a = 196 \<and> byte b = 176 then [CHR ''i'']
                else lower_char a # to_lower s)
      | [] \<Rightarrow> [lower_char a])"

section \<open>Results, options, maps and lists\<close>

text \<open>The number of elements that satisfy a predicate, and how it follows a list update.\<close>

definition count_if :: "('a \<Rightarrow> bool) \<Rightarrow> 'a list \<Rightarrow> nat" where
  "count_if P xs = length (filter P xs)"

lemma count_if_simps [simp]:
  "count_if P [] = 0"
  "count_if P (x # xs) = (if P x then Suc (count_if P xs) else count_if P xs)"
  "count_if P (xs @ ys) = count_if P xs + count_if P ys"
  by (simp_all add: count_if_def)

lemma count_if_cong:
  "(\<And>x. x \<in> set xs \<Longrightarrow> P x = Q x) \<Longrightarrow> count_if P xs = count_if Q xs"
  unfolding count_if_def by (metis filter_cong)

lemma count_if_le_length: "count_if P xs \<le> length xs"
  by (simp add: count_if_def)

lemma count_if_remove1:
  "x \<in> set xs \<Longrightarrow> count_if P (remove1 x xs) = count_if P xs - (if P x then 1 else 0)"
proof (induction xs)
  case Nil
  then show ?case by simp
next
  case (Cons y ys)
  have "P x \<Longrightarrow> x \<in> set ys \<Longrightarrow> 0 < count_if P ys"
    by (auto simp: count_if_def filter_empty_conv)
  with Cons show ?case by (auto simp: Suc_diff_Suc)
qed

end
