(* ===== verification/Ledger.thy ===== *)
theory Ledger
  imports Prelude
begin

text \<open>
  The contract of a capacity counter, which two components of the gateway provide (the byte
  budget of request bodies, the turn counters of the WebSocket hub) and their clients rely on:
  a successful \<open>acquire\<close> adds exactly the requested amount to the counter of its key and stays
  within the capacity it was asked to respect, a \<open>release\<close> takes exactly the given amount back,
  and neither touches another key. The clients' view is a list of outstanding tokens; the
  theorem of this theory is that the counters always agree with it.
\<close>

section \<open>Clients of a counter\<close>

datatype ('a, 'k) ledger_op = Take 'a 'k int | Give nat

type_synonym 'k tokens = "('k \<times> int) list"

definition outstanding :: "'k tokens \<Rightarrow> 'k \<Rightarrow> int" where
  "outstanding ts k = sum_list (map snd (filter (\<lambda>t. fst t = k) ts))"

definition drop_nth :: "nat \<Rightarrow> 'a list \<Rightarrow> 'a list" where
  "drop_nth i xs = take i xs @ drop (Suc i) xs"

lemma outstanding_simps [simp]:
  "outstanding [] k = 0"
  "outstanding ((j, n) # ts) k = (if j = k then n else 0) + outstanding ts k"
  "outstanding (ts @ us) k = outstanding ts k + outstanding us k"
  by (simp_all add: outstanding_def)

lemma outstanding_drop_nth:
  "i < length ts \<Longrightarrow>
   outstanding ts k = outstanding (drop_nth i ts) k
     + (if fst (ts ! i) = k then snd (ts ! i) else 0)"
proof -
  assume i: "i < length ts"
  then have "ts = take i ts @ ts ! i # drop (Suc i) ts" by (rule id_take_nth_drop)
  then have "outstanding ts k = outstanding (take i ts) k
      + ((if fst (ts ! i) = k then snd (ts ! i) else 0) + outstanding (drop (Suc i) ts) k)"
    by (metis outstanding_simps(2,3) prod.collapse)
  then show ?thesis by (simp add: drop_nth_def)
qed

definition tokens_ok :: "'k tokens \<Rightarrow> bool" where
  "tokens_ok ts \<longleftrightarrow> (\<forall>t \<in> set ts. 0 \<le> snd t)"

lemma tokens_ok_drop_nth: "tokens_ok ts \<Longrightarrow> tokens_ok (drop_nth i ts)"
  by (auto simp: tokens_ok_def drop_nth_def dest: in_set_takeD in_set_dropD)

lemma outstanding_nonneg: "tokens_ok ts \<Longrightarrow> 0 \<le> outstanding ts k"
  unfolding outstanding_def tokens_ok_def by (rule sum_list_nonneg) auto

fun ledger_step ::
  "('a \<Rightarrow> 'k \<Rightarrow> int \<Rightarrow> 's \<Rightarrow> 's option) \<Rightarrow> ('k \<Rightarrow> int \<Rightarrow> 's \<Rightarrow> 's) \<Rightarrow>
   ('a, 'k) ledger_op \<Rightarrow> 's \<times> 'k tokens \<Rightarrow> 's \<times> 'k tokens" where
  "ledger_step acq rel (Take a k n) (s, ts) =
     (case acq a k n s of None \<Rightarrow> (s, ts) | Some s' \<Rightarrow> (s', (k, n) # ts))"
| "ledger_step acq rel (Give i) (s, ts) =
     (if i < length ts then (rel (fst (ts ! i)) (snd (ts ! i)) s, drop_nth i ts) else (s, ts))"

definition ledger_run ::
  "('a \<Rightarrow> 'k \<Rightarrow> int \<Rightarrow> 's \<Rightarrow> 's option) \<Rightarrow> ('k \<Rightarrow> int \<Rightarrow> 's \<Rightarrow> 's) \<Rightarrow>
   ('a, 'k) ledger_op list \<Rightarrow> 's \<times> 'k tokens \<Rightarrow> 's \<times> 'k tokens" where
  "ledger_run acq rel ops = fold (ledger_step acq rel) ops"

fun op_cap_le :: "('a \<Rightarrow> int) \<Rightarrow> int \<Rightarrow> ('a, 'k) ledger_op \<Rightarrow> bool" where
  "op_cap_le cap c (Take a k n) = (cap a \<le> c)"
| "op_cap_le cap c (Give i) = True"

section \<open>The contract\<close>

locale ledger =
  fixes used :: "'s \<Rightarrow> 'k \<Rightarrow> int"
    and acquire :: "'a \<Rightarrow> 'k \<Rightarrow> int \<Rightarrow> 's \<Rightarrow> 's option"
    and release :: "'k \<Rightarrow> int \<Rightarrow> 's \<Rightarrow> 's"
    and cap :: "'a \<Rightarrow> int"
    and inv :: "'s \<Rightarrow> bool"
  assumes acquire_inv: "inv s \<Longrightarrow> acquire a k n s = Some s' \<Longrightarrow> inv s'"
    and acquire_nonneg: "acquire a k n s = Some s' \<Longrightarrow> 0 \<le> n"
    and acquire_used: "inv s \<Longrightarrow> acquire a k n s = Some s' \<Longrightarrow>
          used s' j = used s j + (if j = k then n else 0)"
    and acquire_cap: "inv s \<Longrightarrow> acquire a k n s = Some s' \<Longrightarrow> used s' k \<le> cap a"
    and release_inv: "inv s \<Longrightarrow> 0 \<le> n \<Longrightarrow> n \<le> used s k \<Longrightarrow> inv (release k n s)"
    and release_used: "inv s \<Longrightarrow> 0 \<le> n \<Longrightarrow> n \<le> used s k \<Longrightarrow>
          used (release k n s) j = used s j - (if j = k then n else 0)"
begin

definition agrees :: "'s \<times> 'k tokens \<Rightarrow> bool" where
  "agrees st \<longleftrightarrow> inv (fst st) \<and> tokens_ok (snd st)
     \<and> (\<forall>k. used (fst st) k = outstanding (snd st) k)"

definition bounded :: "int \<Rightarrow> 's \<times> 'k tokens \<Rightarrow> bool" where
  "bounded c st \<longleftrightarrow> (\<forall>k. used (fst st) k \<le> c)"

lemma take_agrees:
  assumes "agrees (s, ts)"
  shows "agrees (ledger_step acquire release (Take a k n) (s, ts))"
proof (cases "acquire a k n s")
  case None
  then show ?thesis using assms by simp
next
  case (Some s')
  have pre: "inv s" "tokens_ok ts" "\<And>j. used s j = outstanding ts j"
    using assms unfolding agrees_def by auto
  have "inv s'" by (rule acquire_inv [OF pre(1) Some])
  moreover have "tokens_ok ((k, n) # ts)"
    using pre(2) acquire_nonneg [OF Some] by (simp add: tokens_ok_def)
  moreover have "used s' j = outstanding ((k, n) # ts) j" for j
    using acquire_used [OF pre(1) Some, of j] pre(3) [of j] by simp
  ultimately show ?thesis using Some by (simp add: agrees_def)
qed

lemma give_ok:
  assumes "agrees (s, ts)" and "i < length ts"
  shows "0 \<le> snd (ts ! i) \<and> snd (ts ! i) \<le> used s (fst (ts ! i))"
proof -
  have ok: "tokens_ok ts" "used s (fst (ts ! i)) = outstanding ts (fst (ts ! i))"
    using assms(1) by (simp_all add: agrees_def)
  have "tokens_ok (drop_nth i ts)"
    using ok(1) by (rule tokens_ok_drop_nth)
  then have "0 \<le> outstanding (drop_nth i ts) (fst (ts ! i))" by (rule outstanding_nonneg)
  moreover have "0 \<le> snd (ts ! i)"
    using ok(1) assms(2) by (simp add: tokens_ok_def)
  ultimately show ?thesis
    using ok(2) outstanding_drop_nth [OF assms(2), of "fst (ts ! i)"] by simp
qed

lemma give_agrees:
  assumes "agrees (s, ts)"
  shows "agrees (ledger_step acquire release (Give i) (s, ts))"
proof (cases "i < length ts")
  case False
  then show ?thesis using assms by simp
next
  case True
  have ok: "inv s" "tokens_ok ts" "\<And>j. used s j = outstanding ts j"
    using assms unfolding agrees_def by auto
  note nonneg = give_ok [OF assms True, THEN conjunct1]
  note enough = give_ok [OF assms True, THEN conjunct2]
  have "tokens_ok (drop_nth i ts)"
    using ok(2) by (rule tokens_ok_drop_nth)
  moreover have "used (release (fst (ts ! i)) (snd (ts ! i)) s) j
      = outstanding (drop_nth i ts) j" for j
    using release_used [OF ok(1) nonneg enough, of j] ok(3) [of j]
      outstanding_drop_nth [OF True, of j] by (simp split: if_splits)
  moreover note release_inv [OF ok(1) nonneg enough]
  ultimately show ?thesis using True by (simp add: agrees_def)
qed

lemma step_agrees: "agrees st \<Longrightarrow> agrees (ledger_step acquire release oper st)"
  by (cases st; cases oper) (simp_all add: take_agrees give_agrees del: ledger_step.simps)

lemma step_bounded:
  assumes "agrees st" and "bounded c st" and "op_cap_le cap c oper"
  shows "bounded c (ledger_step acquire release oper st)"
proof (cases oper)
  case (Take a k n)
  obtain s ts where st: "st = (s, ts)" by (cases st)
  show ?thesis
  proof (cases "acquire a k n s")
    case None
    then show ?thesis using assms st Take by simp
  next
    case (Some s')
    have inv: "inv s" using assms(1) st by (simp add: agrees_def)
    have "used s' j \<le> c" for j
      using acquire_cap [OF inv Some] acquire_used [OF inv Some, of j] assms(2,3) st Take
      by (cases "j = k") (auto simp: bounded_def)
    then show ?thesis using Some st Take by (simp add: bounded_def)
  qed
next
  case (Give i)
  obtain s ts where st: "st = (s, ts)" by (cases st)
  show ?thesis
  proof (cases "i < length ts")
    case False
    then show ?thesis using assms st Give by simp
  next
    case True
    have inv: "inv s" using assms(1) st by (simp add: agrees_def)
    note nonneg = give_ok [OF assms(1) [unfolded st] True, THEN conjunct1]
    note enough = give_ok [OF assms(1) [unfolded st] True, THEN conjunct2]
    have before: "used s j \<le> c" for j using assms(2) st by (simp add: bounded_def)
    have "used (release (fst (ts ! i)) (snd (ts ! i)) s) j \<le> c" for j
      using release_used [OF inv nonneg enough, of j] before [of j] nonneg
      by (simp split: if_splits)
    then show ?thesis using True st Give by (simp add: bounded_def)
  qed
qed

lemma run_agrees: "agrees st \<Longrightarrow> agrees (ledger_run acquire release ops st)"
  unfolding ledger_run_def
  by (induction ops arbitrary: st) (simp_all add: step_agrees)

lemma run_bounded:
  "agrees st \<Longrightarrow> bounded c st \<Longrightarrow> (\<And>oper. oper \<in> set ops \<Longrightarrow> op_cap_le cap c oper) \<Longrightarrow>
   bounded c (ledger_run acquire release ops st)"
  unfolding ledger_run_def
  by (induction ops arbitrary: st) (simp_all add: step_agrees step_bounded)

lemma run_conserves:
  assumes "inv s" and "\<And>k. used s k = 0" and "0 \<le> c"
    and "\<And>oper. oper \<in> set ops \<Longrightarrow> op_cap_le cap c oper"
    and "ledger_run acquire release ops (s, []) = (s', ts)"
  shows "used s' k = outstanding ts k \<and> used s' k \<le> c"
proof -
  have "agrees (s, [])" and "bounded c (s, [])"
    using assms(1,2,3) by (auto simp: agrees_def bounded_def tokens_ok_def)
  then have "agrees (s', ts)" and "bounded c (s', ts)"
    using run_agrees [of "(s, [])" ops] run_bounded [of "(s, [])" c ops] assms(4,5) by auto
  then show ?thesis by (simp add: agrees_def bounded_def)
qed

end

end
