(* ===== verification/Domain.thy ===== *)
theory Domain
  imports Prelude
begin

text \<open>
  Package \<open>internal/domain\<close>: the provider, credential, status and health constants of
  \<open>model.go\<close>, the records the routing code passes around, and \<open>request_limits.go\<close>, the
  request-size settings with their merge and validation. Fields that no modelled operation
  reads (HMACs, ciphertexts, display data) are left out of the records.
\<close>

section \<open>model.go\<close>

definition provider_codex :: string where "provider_codex = ''codex''"
definition provider_copilot :: string where "provider_copilot = ''copilot''"
definition provider_antigravity :: string where "provider_antigravity = ''antigravity''"
definition provider_openai_compatible :: string where
  "provider_openai_compatible = ''openai_compatible''"
definition provider_mixed :: string where "provider_mixed = ''mixed''"
definition credential_subscription :: string where
  "credential_subscription = ''subscription_oauth''"
definition credential_api_key :: string where "credential_api_key = ''api_key''"
definition account_active :: string where "account_active = ''active''"
definition account_cooling_down :: string where "account_cooling_down = ''cooling_down''"
definition account_exhausted :: string where "account_exhausted = ''exhausted''"
definition account_auth_failed :: string where "account_auth_failed = ''auth_failed''"
definition account_disabled :: string where "account_disabled = ''disabled''"
definition health_unknown :: string where "health_unknown = ''unknown''"
definition health_healthy :: string where "health_healthy = ''healthy''"
definition health_unhealthy :: string where "health_unhealthy = ''unhealthy''"

lemmas domain_consts = provider_codex_def provider_copilot_def provider_antigravity_def
  provider_openai_compatible_def provider_mixed_def credential_subscription_def
  credential_api_key_def account_active_def account_cooling_down_def account_exhausted_def
  account_auth_failed_def account_disabled_def health_unknown_def health_healthy_def
  health_unhealthy_def

section \<open>request_limits.go\<close>

record settings =
  max_keys_per_account :: int
  max_request_body :: int
  max_inflight_body :: int

record settings_update =
  upd_max_keys :: int
  upd_max_body :: "int option"
  upd_max_inflight :: "int option"

datatype limits_error = KeysOutOfRange | BodyNotPositiveOrTooLarge | InflightTooSmall

definition default_max_request_body :: int where
  "default_max_request_body = 268435456"

definition default_max_inflight_body :: int where
  "default_max_inflight_body = 1073741824"

text \<open>\<open>maxBytes*4\<close> is an \<open>int64\<close> product, so it is written with its wrap-around.\<close>

definition validate_body_limits :: "int \<Rightarrow> int \<Rightarrow> limits_error option" where
  "validate_body_limits max_bytes inflight_bytes =
     (if max_bytes \<le> 0 \<or> max_bytes > trunc_div max_int64 4 then Some BodyNotPositiveOrTooLarge
      else if inflight_bytes < wrap64 (max_bytes * 4) then Some InflightTooSmall
      else None)"

definition with_body_defaults :: "settings \<Rightarrow> int \<Rightarrow> int \<Rightarrow> settings" where
  "with_body_defaults s max_bytes inflight_bytes =
     (if max_request_body s = 0 \<and> max_inflight_body s = 0
      then s\<lparr>max_request_body := max_bytes, max_inflight_body := inflight_bytes\<rparr>
      else s)"

definition apply_update ::
  "settings_update \<Rightarrow> settings \<Rightarrow> settings \<Rightarrow> limits_error + settings" where
  "apply_update u s defaults =
     (if upd_max_keys u < 1 \<or> upd_max_keys u > 100 then Inl KeysOutOfRange
      else
        let s1 = s\<lparr>max_keys_per_account := upd_max_keys u\<rparr> in
        if upd_max_body u = None \<and> upd_max_inflight u = None then Inr s1
        else
          let s2 = with_body_defaults s1 (max_request_body defaults) (max_inflight_body defaults);
              s3 = (case upd_max_body u of None \<Rightarrow> s2 | Some b \<Rightarrow> s2\<lparr>max_request_body := b\<rparr>);
              s4 = (case upd_max_inflight u of None \<Rightarrow> s3
                    | Some b \<Rightarrow> s3\<lparr>max_inflight_body := b\<rparr>)
          in (case validate_body_limits (max_request_body s4) (max_inflight_body s4) of
                Some e \<Rightarrow> Inl e
              | None \<Rightarrow> Inr s4))"

lemma trunc_div_max_int64: "trunc_div max_int64 4 = 2305843009213693951"
  by (simp add: trunc_div_def max_int64_def)

lemma validate_body_limits_None:
  "validate_body_limits m i = None \<longleftrightarrow> 0 < m \<and> 4 * m \<le> i \<and> m \<le> trunc_div max_int64 4"
proof (cases "0 < m \<and> m \<le> trunc_div max_int64 4")
  case True
  then have "0 < m \<and> m \<le> 2305843009213693951" by (simp add: trunc_div_max_int64)
  then have "in_int64 (m * 4)" by (simp add: in_int64_def max_int64_def)
  then show ?thesis
    using True by (auto simp: validate_body_limits_def wrap64_id)
next
  case False
  then show ?thesis by (auto simp: validate_body_limits_def)
qed

definition limits_unset :: "settings \<Rightarrow> bool" where
  "limits_unset s \<longleftrightarrow> max_request_body s = 0 \<and> max_inflight_body s = 0"

definition limits_valid :: "settings \<Rightarrow> bool" where
  "limits_valid s \<longleftrightarrow> 0 < max_request_body s \<and> 4 * max_request_body s \<le> max_inflight_body s
     \<and> max_request_body s \<le> trunc_div max_int64 4"

lemma with_body_defaults_valid:
  "limits_valid d \<Longrightarrow> limits_unset s \<or> limits_valid s \<Longrightarrow>
   limits_valid (with_body_defaults s (max_request_body d) (max_inflight_body d))"
  by (auto simp: with_body_defaults_def limits_valid_def limits_unset_def)

text \<open>An accepted settings update keeps the stored limits usable: they are still unset (the
  deployment defaults apply) or a positive request size with an in-flight budget of at least four
  buffered copies, exactly, with no overflow of the product; and the key capacity is 1 to 100.\<close>

theorem apply_update_keeps_limits:
  assumes "limits_unset s \<or> limits_valid s" and "apply_update u s d = Inr s'"
  shows "(limits_unset s' \<or> limits_valid s') \<and> 1 \<le> max_keys_per_account s'
     \<and> max_keys_per_account s' \<le> 100"
  using assms
  by (auto simp: apply_update_def Let_def limits_unset_def limits_valid_def with_body_defaults_def
      validate_body_limits_None split: if_splits option.splits)

theorem apply_update_keeps_limits_witness:
  "\<exists>s'. apply_update \<lparr>upd_max_keys = 5, upd_max_body = Some 64, upd_max_inflight = Some 256\<rparr>
      \<lparr>max_keys_per_account = 1, max_request_body = 0, max_inflight_body = 0\<rparr>
      \<lparr>max_keys_per_account = 1, max_request_body = 128, max_inflight_body = 512\<rparr> = Inr s'
    \<and> (limits_unset s' \<or> limits_valid s')"
proof -
  let ?u = "\<lparr>upd_max_keys = 5, upd_max_body = Some 64, upd_max_inflight = Some 256\<rparr>"
  let ?s = "\<lparr>max_keys_per_account = 1, max_request_body = 0, max_inflight_body = 0\<rparr>"
  let ?d = "\<lparr>max_keys_per_account = 1, max_request_body = 128, max_inflight_body = 512\<rparr>"
  let ?r = "\<lparr>max_keys_per_account = 5, max_request_body = 64, max_inflight_body = 256\<rparr>"
  have u: "limits_unset ?s \<or> limits_valid ?s" by (simp add: limits_unset_def)
  have r: "apply_update ?u ?s ?d = Inr ?r"
    by (simp add: apply_update_def with_body_defaults_def validate_body_limits_def
        trunc_div_max_int64 wrap64_def)
  from apply_update_keeps_limits [OF u r] r show ?thesis by blast
qed

text \<open>A partial update never touches a field it does not supply: without body fields the
  stored limits are unchanged, and a supplied field ends up with the supplied value.\<close>

theorem apply_update_merges:
  assumes "apply_update u s d = Inr s'"
  shows "max_keys_per_account s' = upd_max_keys u
    \<and> (upd_max_body u = None \<and> upd_max_inflight u = None \<longrightarrow>
         max_request_body s' = max_request_body s \<and> max_inflight_body s' = max_inflight_body s)
    \<and> (\<forall>b. upd_max_body u = Some b \<longrightarrow> max_request_body s' = b)
    \<and> (\<forall>b. upd_max_inflight u = Some b \<longrightarrow> max_inflight_body s' = b)
    \<and> (upd_max_body u = None \<and> \<not> limits_unset s \<longrightarrow> max_request_body s' = max_request_body s)
    \<and> (upd_max_inflight u = None \<and> \<not> limits_unset s \<longrightarrow>
         max_inflight_body s' = max_inflight_body s)"
  using assms
  by (auto simp: apply_update_def Let_def with_body_defaults_def limits_unset_def
      split: if_splits option.splits)

theorem apply_update_merges_witness:
  "max_inflight_body \<lparr>max_keys_per_account = 5, max_request_body = 64, max_inflight_body = 512\<rparr>
     = 512"
proof -
  let ?u = "\<lparr>upd_max_keys = 5, upd_max_body = Some 64, upd_max_inflight = None\<rparr>"
  let ?s = "\<lparr>max_keys_per_account = 1, max_request_body = 128, max_inflight_body = 512\<rparr>"
  let ?r = "\<lparr>max_keys_per_account = 5, max_request_body = 64, max_inflight_body = 512\<rparr>"
  have "apply_update ?u ?s ?s = Inr ?r"
    by (simp add: apply_update_def with_body_defaults_def validate_body_limits_def
        trunc_div_max_int64 wrap64_def)
  from apply_update_merges [OF this] show ?thesis by (simp add: limits_unset_def)
qed

end
