(* ===== verification/Body_Budget.thy ===== *)
theory Body_Budget
  imports Ledger Domain
begin

text \<open>
  \<open>internal/gateway/request_body.go\<close> and \<open>request_body_compact.go\<close>: the process-wide budget
  of request buffers, the reservation each request holds in it, and the loop that reads a body
  while growing its reservation. Every method of the budget is one atomic operation on its
  counter (the compare-and-swap loop of \<open>tryAcquireWithin\<close> retries until it is), so it is a
  function on the counter. Releasing more than is reserved panics in Go; the model records that
  in \<open>b_panicked\<close>.
\<close>

section \<open>The budget\<close>

record budget =
  b_limit :: int
  b_used :: int
  b_panicked :: bool

definition new_byte_budget :: "int \<Rightarrow> budget" where
  "new_byte_budget limit = \<lparr>b_limit = limit, b_used = 0, b_panicked = False\<rparr>"

definition try_acquire_within :: "int \<Rightarrow> int \<Rightarrow> budget \<Rightarrow> budget option" where
  "try_acquire_within bytes limit b =
     (if bytes < 0 \<or> bytes > limit then None
      else if bytes > wrap64 (limit - b_used b) then None
      else Some (b\<lparr>b_used := wrap64 (b_used b + bytes)\<rparr>))"

definition try_acquire :: "int \<Rightarrow> budget \<Rightarrow> budget option" where
  "try_acquire bytes b = try_acquire_within bytes (b_limit b) b"

definition budget_release :: "int \<Rightarrow> budget \<Rightarrow> budget" where
  "budget_release bytes b =
     (if bytes \<le> 0 then b
      else let remaining = wrap64 (b_used b - bytes)
           in b\<lparr>b_used := remaining, b_panicked := b_panicked b \<or> remaining < 0\<rparr>)"

definition budget_ok :: "budget \<Rightarrow> bool" where
  "budget_ok b \<longleftrightarrow> 0 \<le> b_used b \<and> in_int64 (b_used b) \<and> \<not> b_panicked b"

lemma try_acquire_within_Some:
  assumes "budget_ok b" and "in_int64 limit" and "try_acquire_within n limit b = Some b'"
  shows "b' = b\<lparr>b_used := b_used b + n\<rparr> \<and> 0 \<le> n \<and> b_used b + n \<le> limit"
proof -
  have n: "0 \<le> n" "n \<le> limit" and le: "n \<le> wrap64 (limit - b_used b)"
    and b': "b' = b\<lparr>b_used := wrap64 (b_used b + n)\<rparr>"
    using assms(3) by (auto simp: try_acquire_within_def split: if_splits)
  have "in_int64 (limit - b_used b)"
    using assms(1,2) n by (auto simp: budget_ok_def in_int64_def)
  then have sum: "b_used b + n \<le> limit" using le by (simp add: wrap64_id)
  then have "in_int64 (b_used b + n)"
    using assms(1,2) n by (auto simp: budget_ok_def in_int64_def)
  then show ?thesis using n sum b' by (simp add: wrap64_id)
qed

lemma budget_release_ok:
  assumes "budget_ok b" and "0 \<le> n" and "n \<le> b_used b"
  shows "budget_release n b = b\<lparr>b_used := b_used b - n\<rparr>"
proof -
  have "in_int64 (b_used b - n)" using assms by (auto simp: budget_ok_def in_int64_def)
  then show ?thesis
    using assms by (auto simp: budget_release_def Let_def wrap64_id budget_ok_def)
qed

lemma budget_ok_update:
  "budget_ok b \<Longrightarrow> 0 \<le> u \<Longrightarrow> in_int64 u \<Longrightarrow> budget_ok (b\<lparr>b_used := u\<rparr>)"
  by (simp add: budget_ok_def)

lemma in_int64_between: "0 \<le> x \<Longrightarrow> x \<le> y \<Longrightarrow> in_int64 y \<Longrightarrow> in_int64 x"
  by (simp add: in_int64_def max_int64_def)

text \<open>The budget as a provider of the counter contract: one key, and the limit of the request as
  the capacity (each request brings the limit it snapshotted).\<close>

definition budget_acquire :: "int \<Rightarrow> unit \<Rightarrow> int \<Rightarrow> budget \<Rightarrow> budget option" where
  "budget_acquire limit k n b = (if in_int64 limit then try_acquire_within n limit b else None)"

interpretation body: ledger "\<lambda>b k. b_used b" budget_acquire "\<lambda>k. budget_release" "\<lambda>l. l" budget_ok
proof unfold_locales
  fix s s' :: budget and a n :: int and k :: unit
  assume ok: "budget_ok s" and acq: "budget_acquire a k n s = Some s'"
  from acq have a: "in_int64 a" and "try_acquire_within n a s = Some s'"
    by (auto simp: budget_acquire_def split: if_splits)
  note r = try_acquire_within_Some [OF ok this]
  show "budget_ok s'"
    using r ok in_int64_between [OF _ _ a, of "b_used s + n"]
    by (auto simp: budget_ok_def)
  show "b_used s' \<le> a" using r by simp
  show "b_used s' = b_used s + (if j = k then n else 0)" for j :: unit using r by simp
next
  fix s s' :: budget and a n :: int and k :: unit
  assume "budget_acquire a k n s = Some s'"
  then show "0 \<le> n" by (auto simp: budget_acquire_def try_acquire_within_def split: if_splits)
next
  fix s :: budget and n :: int
  assume ok: "budget_ok s" and n: "0 \<le> n" "n \<le> b_used s"
  note r = budget_release_ok [OF ok n]
  show "budget_ok (budget_release n s)"
    using r ok n in_int64_between [of "b_used s - n" "b_used s"] by (auto simp: budget_ok_def)
  show "b_used (budget_release n s) = b_used s - (if j = k then n else 0)" for j k :: unit
    using r by simp
qed

text \<open>C6. Whatever the interleaving of reservations and releases of concurrent requests, each
  asking under the limit it snapshotted from the settings, the budget's counter equals the bytes
  still reserved and never passes the largest limit any of them used.\<close>

theorem budget_conserved:
  assumes "\<And>oper. oper \<in> set ops \<Longrightarrow> op_cap_le (\<lambda>l. l) c oper" and "0 \<le> c"
    and "ledger_run budget_acquire (\<lambda>k. budget_release) ops (new_byte_budget l, []) = (b, ts)"
  shows "b_used b = outstanding ts () \<and> b_used b \<le> c"
proof (rule body.run_conserves [OF _ _ assms(2) _ assms(3)])
  show "budget_ok (new_byte_budget l)"
    by (simp add: budget_ok_def new_byte_budget_def in_int64_def max_int64_def)
qed (simp_all add: new_byte_budget_def assms(1))

theorem budget_conserved_witness:
  "b_used (fst (ledger_run budget_acquire (\<lambda>k. budget_release)
      [Take 100 () 60, Take 100 () 60, Take 200 () 80, Give 1] (new_byte_budget 0, []))) = 80"
proof -
  let ?ops = "[Take 100 () 60, Take 100 () 60, Take 200 () 80, Give 1]"
  have run: "ledger_run budget_acquire (\<lambda>k. budget_release) ?ops (new_byte_budget 0, [])
    = (\<lparr>b_limit = 0, b_used = 80, b_panicked = False\<rparr>, [((), 80)])"
    by (simp add: ledger_run_def budget_acquire_def try_acquire_within_def new_byte_budget_def
        budget_release_def in_int64_def max_int64_def wrap64_def drop_nth_def Let_def)
  from budget_conserved [OF _ _ run, of 200] run show ?thesis by auto
qed

section \<open>Reservations\<close>

record reservation =
  r_limit :: int
  r_bytes :: int
  r_released :: bool

definition res_resize :: "int \<Rightarrow> budget \<times> reservation \<Rightarrow> budget \<times> reservation" where
  "res_resize bytes br =
     (let (b, r) = br in
      if bytes \<ge> r_bytes r then (b, r)
      else (budget_release (r_bytes r - bytes) b, r\<lparr>r_bytes := bytes\<rparr>))"

definition res_grow :: "int \<Rightarrow> budget \<times> reservation \<Rightarrow> (budget \<times> reservation) option" where
  "res_grow bytes br =
     (let (b, r) = br in
      if bytes \<le> r_bytes r then Some (b, r)
      else (case try_acquire_within (bytes - r_bytes r) (r_limit r) b of
              None \<Rightarrow> None
            | Some b' \<Rightarrow> Some (b', r\<lparr>r_bytes := bytes\<rparr>)))"

definition res_release :: "budget \<times> reservation \<Rightarrow> budget \<times> reservation" where
  "res_release br =
     (let (b, r) = br in
      if r_released r then (b, r)
      else (budget_release (r_bytes r) b, r\<lparr>r_released := True\<rparr>))"

definition request_body_cost :: "int \<Rightarrow> int \<Rightarrow> int option" where
  "request_body_cost bytes copies =
     (if bytes < 0 \<or> copies \<le> 0 \<or> bytes > trunc_div max_int64 copies then None
      else Some (bytes * copies))"

lemma request_body_cost_Some:
  "request_body_cost n c = Some x \<Longrightarrow> x = n * c \<and> 0 \<le> x \<and> in_int64 x"
proof -
  assume "request_body_cost n c = Some x"
  then have h: "0 \<le> n" "0 < c" "n \<le> trunc_div max_int64 c" "x = n * c"
    by (auto simp: request_body_cost_def split: if_splits)
  have "n \<le> max_int64 div c"
    using h(2,3) trunc_div_nonneg [of max_int64 c] by (simp add: max_int64_def)
  then have "n * c \<le> (max_int64 div c) * c" using h(2) by (simp add: mult_right_mono)
  also have "\<dots> \<le> max_int64"
    using div_mult_mod_eq [of max_int64 c] h(2) pos_mod_sign [of c max_int64] by linarith
  finally have "n * c \<le> max_int64" .
  moreover have "0 \<le> n * c" using h(1,2) by simp
  ultimately show ?thesis using h(4) by (simp add: in_int64_def max_int64_def)
qed

lemma request_body_cost_mono:
  assumes "request_body_cost m c = Some x" and "0 \<le> n" and "n \<le> m"
  shows "request_body_cost n c = Some (n * c) \<and> n * c \<le> x"
  using assms by (auto simp: request_body_cost_def mult_right_mono split: if_splits)

text \<open>\<open>held b0 b r\<close>: the reservation \<open>r\<close> is live and accounts for exactly the bytes that
  the budget \<open>b\<close> holds beyond those of the budget \<open>b0\<close>.\<close>

definition held :: "budget \<Rightarrow> budget \<times> reservation \<Rightarrow> bool" where
  "held b0 br \<longleftrightarrow> (let (b, r) = br in
     budget_ok b0 \<and> 0 \<le> r_bytes r \<and> in_int64 (r_limit r) \<and> in_int64 (b_used b0 + r_bytes r)
     \<and> \<not> r_released r \<and> b = b0\<lparr>b_used := b_used b0 + r_bytes r\<rparr>)"

lemma held_budget_ok: "held b0 (b, r) \<Longrightarrow> budget_ok b"
  by (auto simp: held_def budget_ok_def)

lemma res_resize_held:
  assumes "held b0 (b, r)" and "0 \<le> n"
  shows "held b0 (res_resize n (b, r)) \<and> r_bytes (snd (res_resize n (b, r))) = min n (r_bytes r)
     \<and> r_limit (snd (res_resize n (b, r))) = r_limit r"
proof (cases "n \<ge> r_bytes r")
  case True
  then show ?thesis using assms by (simp add: res_resize_def)
next
  case False
  have "b_used b = b_used b0 + r_bytes r" "0 \<le> b_used b0"
    using assms by (auto simp: held_def budget_ok_def)
  then have "budget_release (r_bytes r - n) b = b\<lparr>b_used := b_used b - (r_bytes r - n)\<rparr>"
    using False assms(2) by (intro budget_release_ok held_budget_ok [OF assms(1)]) auto
  moreover have "in_int64 (b_used b0 + n)"
    using assms False in_int64_between [of "b_used b0 + n" "b_used b0 + r_bytes r"]
    by (auto simp: held_def budget_ok_def)
  ultimately show ?thesis using False assms by (auto simp: res_resize_def held_def)
qed

lemma res_grow_held:
  assumes "held b0 (b, r)" and "res_grow n (b, r) = Some (b', r')"
  shows "held b0 (b', r') \<and> r_bytes r' = max n (r_bytes r) \<and> r_limit r' = r_limit r
     \<and> (r_bytes r' = r_bytes r \<or> b_used b' \<le> r_limit r)"
proof (cases "n \<le> r_bytes r")
  case True
  then show ?thesis using assms by (auto simp: res_grow_def)
next
  case False
  then have acq: "try_acquire_within (n - r_bytes r) (r_limit r) b = Some b'"
    and r': "r' = r\<lparr>r_bytes := n\<rparr>"
    using assms(2) by (auto simp: res_grow_def split: option.splits)
  have lim: "in_int64 (r_limit r)" using assms(1) by (simp add: held_def)
  note a = try_acquire_within_Some [OF held_budget_ok [OF assms(1)] lim acq]
  have "b_used b = b_used b0 + r_bytes r" using assms(1) by (simp add: held_def)
  with a have le: "b_used b0 + n \<le> r_limit r" by simp
  have "in_int64 (b_used b0 + n)"
    by (rule in_int64_between [OF _ le lim])
      (use assms(1) False in \<open>auto simp: held_def budget_ok_def\<close>)
  then show ?thesis using a r' le False assms(1) by (auto simp: held_def)
qed

lemma res_release_held:
  assumes "held b0 (b, r)"
  shows "res_release (b, r) = (b0, r\<lparr>r_released := True\<rparr>)"
proof -
  have h: "b = b0\<lparr>b_used := b_used b0 + r_bytes r\<rparr>" "0 \<le> r_bytes r" "budget_ok b0"
    "\<not> r_released r"
    using assms by (auto simp: held_def)
  have "budget_release (r_bytes r) b = b\<lparr>b_used := b_used b - r_bytes r\<rparr>"
    using h by (intro budget_release_ok held_budget_ok [OF assms]) (auto simp: budget_ok_def)
  then show ?thesis using h by (simp add: res_release_def)
qed

lemma res_release_twice: "res_release (res_release br) = res_release br"
  by (cases br) (simp add: res_release_def)

section \<open>Reading a body\<close>

text \<open>
  An \<open>io.Reader\<close> is a parameter: called with its state and the size of the buffer it may fill,
  it returns the bytes it wrote, the error it reported and its next state. \<open>io.Reader\<close>'s
  documented contract is \<open>reader_ok\<close>: never more bytes than the buffer holds. Slicing the buffer
  out of range panics in Go, which is \<open>BodyPanic\<close>.
\<close>

datatype read_err = EOF | ReadFailed

datatype body_error = BodyTooLarge | BodyCapacity | BodyNoProgress | BodyReadError | BodyPanic

type_synonym 'r reader = "'r \<Rightarrow> int \<Rightarrow> (string \<times> read_err option) \<times> 'r"

definition reader_ok :: "'r reader \<Rightarrow> bool" where
  "reader_ok rd \<longleftrightarrow> (\<forall>r n. 0 \<le> n \<longrightarrow> int (length (fst (fst (rd r n)))) \<le> n)"

definition read_buffer_size :: int where "read_buffer_size = 65536"

definition observed_cost :: "int \<Rightarrow> int \<Rightarrow> int" where
  "observed_cost n copies = (case request_body_cost n copies of None \<Rightarrow> 0 | Some c \<Rightarrow> c)"

type_synonym body_outcome = "(body_error + string) \<times> (budget \<times> reservation)"

function read_loop ::
  "'r reader \<Rightarrow> int \<Rightarrow> int \<Rightarrow> int \<Rightarrow> string \<Rightarrow> nat \<Rightarrow> budget \<times> reservation \<Rightarrow> 'r \<Rightarrow> body_outcome"
where
  "read_loop rd max_bytes declared copies body empties br rs =
    (let remaining = max_bytes - int (length body) in
     if remaining = 0 then
       let ((got, err), rs') = rd rs 1 in
       if got \<noteq> [] then (Inl BodyTooLarge, res_release br)
       else if err = Some EOF then
         (Inr body, res_resize (observed_cost (int (length body)) copies) br)
       else if err \<noteq> None then (Inl BodyReadError, res_release br)
       else if empties + 1 \<ge> 100 then (Inl BodyNoProgress, res_release br)
       else read_loop rd max_bytes declared copies body (empties + 1) br rs'
     else
       let read_size = min remaining read_buffer_size in
       case request_body_cost (int (length body) + read_size) copies of
         None \<Rightarrow> (Inl BodyCapacity, res_release br)
       | Some target \<Rightarrow>
          (case res_grow target br of
             None \<Rightarrow> (Inl BodyCapacity, res_release br)
           | Some br1 \<Rightarrow>
              if read_size < 0 then (Inl BodyPanic, br1)
              else
                let ((got, err), rs') = rd rs read_size in
                if int (length got) > read_buffer_size then (Inl BodyPanic, br1)
                else
                  let body' = body @ got;
                      br2 = (if declared < 0
                             then res_resize (observed_cost (int (length body')) copies) br1
                             else br1)
                  in
                  if got = [] \<and> err = None \<and> empties + 1 \<ge> 100
                  then (Inl BodyNoProgress, res_release br2)
                  else if err = Some EOF then
                    (Inr body', res_resize (observed_cost (int (length body')) copies) br2)
                  else if err \<noteq> None then (Inl BodyReadError, res_release br2)
                  else read_loop rd max_bytes declared copies body'
                         (if got = [] then empties + 1 else 0) br2 rs'))"
  by pat_completeness auto
termination
  by (relation "measures [\<lambda>(rd, m, d, c, body, e, br, rs). nat (m - int (length body)),
        \<lambda>(rd, m, d, c, body, e, br, rs). 100 - e]")
    (auto simp: read_buffer_size_def)

declare read_loop.simps [simp del]

text \<open>\<open>readBufferedBodyWithLimits\<close>: the declared length is reserved first; with no reservation to
  return (Go's \<open>nil\<close>) the second component is \<open>None\<close>.\<close>

definition read_buffered_body ::
  "'r reader \<Rightarrow> int \<Rightarrow> int \<Rightarrow> settings \<Rightarrow> budget \<Rightarrow> 'r \<Rightarrow>
   (body_error + string) \<times> budget \<times> reservation option" where
  "read_buffered_body rd declared copies limits b rs =
     (let max_bytes = max_request_body limits;
          start = (\<lambda>b0 cost.
            let (res, (b1, r1)) = read_loop rd max_bytes declared copies [] 0
                  (b0, \<lparr>r_limit = max_inflight_body limits, r_bytes = cost, r_released = False\<rparr>) rs
            in (res, b1, (if \<not> isl res then Some r1 else None)))
      in
      if declared > max_bytes then (Inl BodyTooLarge, b, None)
      else if declared \<ge> 0 then
        (case request_body_cost declared copies of
           None \<Rightarrow> (Inl BodyCapacity, b, None)
         | Some cost \<Rightarrow>
            (case try_acquire_within cost (max_inflight_body limits) b of
               None \<Rightarrow> (Inl BodyCapacity, b, None)
             | Some b0 \<Rightarrow> start b0 cost))
      else start b 0)"

subsection \<open>Correctness of the loop\<close>

lemma request_body_cost_fits:
  assumes "0 \<le> n" and "0 < c" and "n * c \<le> max_int64"
  shows "request_body_cost n c = Some (n * c)"
proof -
  have "n \<le> max_int64 div c"
    using zdiv_mono1 [OF assms(3,2)] assms(2) by simp
  then show ?thesis
    using assms trunc_div_nonneg [of max_int64 c]
    by (auto simp: request_body_cost_def max_int64_def)
qed

definition read_inv :: "budget \<Rightarrow> int \<Rightarrow> int \<Rightarrow> string \<Rightarrow> budget \<times> reservation \<Rightarrow> bool" where
  "read_inv b0 max_bytes copies body br \<longleftrightarrow>
     held b0 br \<and> 0 < copies \<and> int (length body) \<le> max_bytes
     \<and> int (length body) * copies \<le> r_bytes (snd br)"

definition good_outcome ::
  "budget \<Rightarrow> int \<Rightarrow> int \<Rightarrow> string \<Rightarrow> body_outcome \<Rightarrow> bool" where
  "good_outcome b0 max_bytes copies body out \<longleftrightarrow>
     (case fst out of
        Inl e \<Rightarrow> e \<noteq> BodyPanic \<and> fst (snd out) = b0 \<and> r_released (snd (snd out))
      | Inr body' \<Rightarrow> (\<exists>ext. body' = body @ ext) \<and> int (length body') \<le> max_bytes
          \<and> held b0 (snd out) \<and> r_bytes (snd (snd out)) = int (length body') * copies)"

lemma held_bytes_int64: "held b0 (b, r) \<Longrightarrow> r_bytes r \<le> max_int64"
  by (auto simp: held_def budget_ok_def in_int64_def)

lemma observed_cost_held:
  assumes "read_inv b0 m c body (b, r)"
  shows "observed_cost (int (length body)) c = int (length body) * c"
proof -
  have "int (length body) * c \<le> max_int64"
    using assms held_bytes_int64 [of b0 b r] by (simp add: read_inv_def)
  then show ?thesis
    using assms request_body_cost_fits [of "int (length body)" c]
    by (simp add: observed_cost_def read_inv_def)
qed

lemma finish_good:
  assumes "read_inv b0 m c (body @ got) br"
  shows "good_outcome b0 m c body
    (Inr (body @ got), res_resize (observed_cost (int (length (body @ got))) c) br)"
proof -
  obtain b r where br: "br = (b, r)" by (cases br)
  have inv: "held b0 (b, r)" "0 < c" "int (length (body @ got)) \<le> m"
    "int (length (body @ got)) * c \<le> r_bytes r"
    using assms br by (auto simp: read_inv_def)
  note rs = res_resize_held [OF inv(1), of "int (length (body @ got)) * c"]
  show ?thesis
    using rs inv observed_cost_held [OF assms [unfolded br]] br
    by (auto simp: good_outcome_def min_def)
qed

lemma fail_good:
  assumes "held b0 br" and "e \<noteq> BodyPanic"
  shows "good_outcome b0 m c body (Inl e, res_release br)"
  using assms res_release_held [of b0] by (cases br) (simp add: good_outcome_def)

lemma good_outcome_extend:
  "good_outcome b0 m c (body @ got) out \<Longrightarrow> good_outcome b0 m c body out"
  by (auto simp: good_outcome_def split: sum.splits)

lemma grow_inv:
  assumes "read_inv b0 m c body br" and "request_body_cost (int (length body) + n) c = Some t"
    and "res_grow t br = Some br1" and "int (length got) \<le> n"
    and "int (length body) + n \<le> m"
  shows "read_inv b0 m c (body @ got) br1"
proof -
  obtain b r b1 r1 where br: "br = (b, r)" "br1 = (b1, r1)" by (cases br; cases br1)
  have held: "held b0 (b, r)" and c: "0 < c" using assms(1) br by (auto simp: read_inv_def)
  note g = res_grow_held [OF held, of t b1 r1]
  have t: "t = (int (length body) + n) * c" using request_body_cost_Some [OF assms(2)] by simp
  have "int (length (body @ got)) * c \<le> (int (length body) + n) * c"
    using assms(4) c by (intro mult_right_mono) auto
  then have "int (length (body @ got)) * c \<le> r_bytes r1"
    using g assms(3) br t by (simp add: max_def split: if_splits)
  then show ?thesis using g assms(3,4,5) br c by (auto simp: read_inv_def)
qed

lemma resize_inv:
  assumes "read_inv b0 m c body br"
  shows "read_inv b0 m c body
    (if d then res_resize (observed_cost (int (length body)) c) br else br)"
proof -
  obtain b r where br: "br = (b, r)" by (cases br)
  have inv: "held b0 (b, r)" "0 < c" "int (length body) * c \<le> r_bytes r"
    using assms br by (auto simp: read_inv_def)
  note rs = res_resize_held [OF inv(1), of "int (length body) * c"]
  show ?thesis
    using rs inv assms observed_cost_held [OF assms [unfolded br]] br
    by (auto simp: read_inv_def min_def)
qed

lemma reader_ok_length:
  "reader_ok rd \<Longrightarrow> rd rs n = ((got, err), rs') \<Longrightarrow> 0 \<le> n \<Longrightarrow> int (length got) \<le> n"
  unfolding reader_ok_def by (metis fst_conv)

lemma read_loop_good:
  assumes "reader_ok rd" and "read_inv b0 m c body br"
  shows "good_outcome b0 m c body (read_loop rd m d c body e br rs)"
  using assms
proof (induction rd m d c body e br rs rule: read_loop.induct)
  case (1 rd m d c body e br rs)
  note inv = \<open>read_inv b0 m c body br\<close>
  have held: "held b0 br" and c: "0 < c" and len: "int (length body) \<le> m"
    using inv by (auto simp: read_inv_def)
  show ?case
  proof (cases "m - int (length body) = 0")
    case True
    obtain got err rs' where rd: "rd rs 1 = ((got, err), rs')"
      by (metis prod.collapse)
    note IH = "1.IH"(1) [OF refl True rd [symmetric] refl]
    show ?thesis
      using True rd finish_good [of b0 m c body "[]"] inv fail_good [OF held] IH "1.prems"
      by (subst read_loop.simps) (auto simp: Let_def)
  next
    case False
    define n where "n = min (m - int (length body)) read_buffer_size"
    have n: "0 < n" "int (length body) + n \<le> m" "n \<le> read_buffer_size"
      using False len by (auto simp: n_def read_buffer_size_def)
    show ?thesis
    proof (cases "request_body_cost (int (length body) + n) c")
      case None
      then show ?thesis
        using False fail_good [OF held]
        by (subst read_loop.simps) (simp add: Let_def n_def)
    next
      case cost: (Some t)
      show ?thesis
      proof (cases "res_grow t br")
        case None
        then show ?thesis
          using False cost fail_good [OF held]
          by (subst read_loop.simps) (simp add: Let_def n_def)
      next
        case grow: (Some br1)
        obtain got err rs' where rd: "rd rs n = ((got, err), rs')"
          by (metis prod.collapse)
        have got: "int (length got) \<le> n"
          by (rule reader_ok_length [OF "1.prems"(1) rd]) (use n in simp)
        define br2 where "br2 = (if d < 0
            then res_resize (observed_cost (int (length (body @ got))) c) br1 else br1)"
        have inv2: "read_inv b0 m c (body @ got) br2"
          unfolding br2_def
          by (rule resize_inv) (rule grow_inv [OF inv cost grow got n(2)])
        then have held2: "held b0 br2" by (simp add: read_inv_def)
        note IH = "1.IH"(2) [OF refl False n_def cost grow _ refl rd [symmetric] refl _ refl br2_def]
        have unf: "read_loop rd m d c body e br rs =
          (if got = [] \<and> err = None \<and> e + 1 \<ge> 100 then (Inl BodyNoProgress, res_release br2)
           else if err = Some EOF then
             (Inr (body @ got), res_resize (observed_cost (int (length (body @ got))) c) br2)
           else if err \<noteq> None then (Inl BodyReadError, res_release br2)
           else read_loop rd m d c (body @ got) (if got = [] then e + 1 else 0) br2 rs')"
          using False cost grow rd n got
          by (subst read_loop.simps) (simp add: Let_def n_def [symmetric] br2_def)
        show ?thesis
        proof (cases "err = None \<and> \<not> (got = [] \<and> e + 1 \<ge> 100)")
          case True
          have "good_outcome b0 m c (body @ got)
              (read_loop rd m d c (body @ got) (if got = [] then e + 1 else 0) br2 rs')"
            by (rule IH) (use True n got "1.prems"(1) inv2 in simp_all)
          then show ?thesis
            unfolding unf using True by (auto intro: good_outcome_extend)
        next
          case False
          then show ?thesis
            unfolding unf using finish_good [OF inv2] fail_good [OF held2]
            by (cases err) auto
        qed
      qed
    qed
  qed
qed

lemma held_start:
  assumes "budget_ok b" and "in_int64 l" and "0 \<le> n" and "in_int64 (b_used b + n)"
  shows "held b (b\<lparr>b_used := b_used b + n\<rparr>, \<lparr>r_limit = l, r_bytes = n, r_released = False\<rparr>)"
  using assms by (simp add: held_def)

definition accounted ::
  "budget \<Rightarrow> int \<Rightarrow> int \<Rightarrow> (body_error + string) \<times> budget \<times> reservation option \<Rightarrow> bool" where
  "accounted b m copies out \<longleftrightarrow>
     (case out of
        (Inl e, b', r) \<Rightarrow> e \<noteq> BodyPanic \<and> b' = b \<and> r = None
      | (Inr body, b', r) \<Rightarrow> int (length body) \<le> m
          \<and> b_used b' = b_used b + int (length body) * copies \<and> budget_ok b'
          \<and> (\<exists>r1. r = Some r1 \<and> r_bytes r1 = int (length body) * copies
                \<and> fst (res_release (b', r1)) = b))"

lemma accounted_outcome:
  assumes "good_outcome b m c [] (res, b1, r1)"
  shows "accounted b m c (res, b1, if \<not> isl res then Some r1 else None)"
proof (cases res)
  case (Inl e)
  then show ?thesis using assms by (auto simp: good_outcome_def accounted_def)
next
  case (Inr body)
  then have held: "held b (b1, r1)" using assms by (simp add: good_outcome_def)
  then have "b_used b1 = b_used b + r_bytes r1" by (simp add: held_def)
  then show ?thesis
    using Inr assms res_release_held [OF held] held_budget_ok [OF held]
    by (auto simp: good_outcome_def accounted_def)
qed

lemma read_loop_accounted:
  assumes "reader_ok rd" and "0 < copies" and "0 \<le> m" and "budget_ok b" and "in_int64 l"
    and "0 \<le> n" and "in_int64 (b_used b + n)"
    and "read_loop rd m d copies [] 0 (b\<lparr>b_used := b_used b + n\<rparr>,
           \<lparr>r_limit = l, r_bytes = n, r_released = False\<rparr>) rs = (res, b1, r1)"
  shows "accounted b m copies (res, b1, if \<not> isl res then Some r1 else None)"
proof -
  have "read_inv b m copies [] (b\<lparr>b_used := b_used b + n\<rparr>,
      \<lparr>r_limit = l, r_bytes = n, r_released = False\<rparr>)"
    using held_start [OF assms(4,5,6,7)] assms(2,3,6) by (simp add: read_inv_def)
  from read_loop_good [OF assms(1) this, of d 0 rs] show ?thesis
    unfolding assms(8) by (rule accounted_outcome)
qed

text \<open>C7. Reading a request body keeps the byte budget exact. A refused or failed read gives
  everything back (the budget is the one it started from) and never slices out of range; an
  accepted body is no longer than the limit, holds exactly \<open>copies\<close> times its length in the
  budget, and releasing its reservation restores the budget.\<close>

theorem read_buffered_body_accounts:
  assumes "reader_ok rd" and "0 < copies" and "0 \<le> max_request_body limits"
    and "in_int64 (max_inflight_body limits)" and "budget_ok b"
  shows "accounted b (max_request_body limits) copies
           (read_buffered_body rd declared copies limits b rs)"
proof -
  have none: "accounted b (max_request_body limits) copies (Inl e, b, None)"
    if "e \<noteq> BodyPanic" for e
    using that by (simp add: accounted_def)
  note run = read_loop_accounted [OF assms(1,2,3,5,4)]
  show ?thesis
  proof (cases "declared > max_request_body limits")
    case True
    then show ?thesis using none by (simp add: read_buffered_body_def Let_def)
  next
    case False
    show ?thesis
    proof (cases "declared \<ge> 0")
      case neg: False
      have "in_int64 (b_used b + 0)" using assms(5) by (simp add: budget_ok_def)
      from run [OF _ this] show ?thesis
        using False neg by (auto simp: read_buffered_body_def Let_def split: prod.splits)
    next
      case pos: True
      show ?thesis
      proof (cases "request_body_cost declared copies")
        case None
        then show ?thesis using False pos none by (simp add: read_buffered_body_def Let_def)
      next
        case cost: (Some n)
        show ?thesis
        proof (cases "try_acquire_within n (max_inflight_body limits) b")
          case None
          then show ?thesis
            using False pos cost none by (simp add: read_buffered_body_def Let_def)
        next
          case acq: (Some b0)
          note a = try_acquire_within_Some [OF assms(5,4) acq]
          have "in_int64 (b_used b + n)"
            by (rule in_int64_between [OF _ _ assms(4)])
              (use a assms(5) in \<open>auto simp: budget_ok_def\<close>)
          from run [OF _ this] show ?thesis
            using False pos cost acq a
            by (auto simp: read_buffered_body_def Let_def split: prod.splits)
        qed
      qed
    qed
  qed
qed

text \<open>A reader over a string, delivering as much as the buffer holds: the standard library's
  \<open>bytes.Reader\<close>.\<close>

definition str_reader :: "string reader" where
  "str_reader s n =
     (if s = [] then (([], Some EOF), []) else ((take (nat n) s, None), drop (nat n) s))"

lemma str_reader_ok: "reader_ok str_reader"
  by (auto simp: reader_ok_def str_reader_def min_def)

theorem read_buffered_body_accounts_witness:
  "accounted (new_byte_budget 0) 10 2
     (read_buffered_body str_reader (- 1) 2
        \<lparr>max_keys_per_account = 1, max_request_body = 10, max_inflight_body = 40\<rparr>
        (new_byte_budget 0) ''abc'')"
proof -
  have ok: "budget_ok (new_byte_budget 0)"
    by (simp add: budget_ok_def new_byte_budget_def in_int64_def max_int64_def)
  let ?l = "\<lparr>max_keys_per_account = 1, max_request_body = 10, max_inflight_body = 40\<rparr>"
  have "0 < (2::int)" "0 \<le> max_request_body ?l" "in_int64 (max_inflight_body ?l)"
    by (simp_all add: in_int64_def max_int64_def)
  from read_buffered_body_accounts [OF str_reader_ok this ok, of "- 1" "''abc''"]
  show ?thesis by simp
qed

subsection \<open>Which bodies are accepted\<close>

lemma res_grow_fits:
  assumes "held b0 (b, r)" and "0 \<le> n" and "b_used b0 + n \<le> r_limit r"
  shows "\<exists>br'. res_grow n (b, r) = Some br'"
proof (cases "n \<le> r_bytes r")
  case True
  then show ?thesis by (simp add: res_grow_def)
next
  case False
  have h: "b_used b = b_used b0 + r_bytes r" "0 \<le> r_bytes r" "in_int64 (r_limit r)"
    "0 \<le> b_used b0"
    using assms(1) by (auto simp: held_def budget_ok_def)
  have "in_int64 (r_limit r - b_used b)"
    using h assms False by (auto simp: in_int64_def)
  then have "n - r_bytes r \<le> wrap64 (r_limit r - b_used b)"
    using h assms by (simp add: wrap64_id)
  then show ?thesis using False h assms by (simp add: res_grow_def try_acquire_within_def)
qed

lemma read_loop_accepts:
  assumes "read_inv b0 m c body br" and "int (length body + length s) \<le> m"
    and "b_used b0 + m * c \<le> r_limit (snd br)"
  shows "fst (read_loop str_reader m d c body e br s) = Inr (body @ s)"
  using assms
proof (induction "length s" arbitrary: body br e s rule: less_induct)
  case less
  note inv = less.prems(1) and fits = less.prems(2) and room = less.prems(3)
  obtain b r where br: "br = (b, r)" by (cases br)
  have held: "held b0 (b, r)" and c: "0 < c" and len: "int (length body) \<le> m"
    using inv br by (auto simp: read_inv_def)
  show ?case
  proof (cases "m - int (length body) = 0")
    case True
    then have "s = []" using fits by simp
    then show ?thesis
      using True by (subst read_loop.simps) (simp add: str_reader_def Let_def)
  next
    case False
    define n where "n = min (m - int (length body)) read_buffer_size"
    have n: "0 < n" "int (length body) + n \<le> m" "n \<le> read_buffer_size"
      using False len by (auto simp: n_def read_buffer_size_def)
    let ?t = "(int (length body) + n) * c"
    have le: "?t \<le> m * c" using n c by (intro mult_right_mono) auto
    have lim: "in_int64 (r_limit r)" "0 \<le> b_used b0"
      using held by (auto simp: held_def budget_ok_def)
    then have "?t \<le> max_int64" using le room br by (simp add: in_int64_def)
    then have cost: "request_body_cost (int (length body) + n) c = Some ?t"
      using n c by (intro request_body_cost_fits) auto
    have "0 \<le> ?t" using n c by simp
    then obtain br1 where grow: "res_grow ?t br = Some br1"
      using res_grow_fits [OF held, of ?t] le room br by auto
    have lim1: "r_limit (snd br1) = r_limit (snd br)"
      using res_grow_held [OF held, of ?t] grow br by (cases br1) auto
    show ?thesis
    proof (cases "s = []")
      case True
      then show ?thesis
        using False cost grow n
        by (subst read_loop.simps) (simp add: Let_def n_def [symmetric] str_reader_def)
    next
      case nonempty: False
      define got where "got = take (nat n) s"
      have got: "got \<noteq> []" "int (length got) \<le> n" "int (length got) \<le> read_buffer_size"
        using nonempty n by (auto simp: got_def)
      define br2 where "br2 = (if d < 0
          then res_resize (observed_cost (int (length (body @ got))) c) br1 else br1)"
      have inv1: "read_inv b0 m c (body @ got) br1"
        by (rule grow_inv [OF inv cost grow got(2) n(2)])
      then have inv2: "read_inv b0 m c (body @ got) br2"
        unfolding br2_def by (rule resize_inv)
      obtain b1 r1 where br1: "br1 = (b1, r1)" by (cases br1)
      have "observed_cost (int (length (body @ got))) c = int (length (body @ got)) * c"
        using observed_cost_held inv1 br1 by blast
      then have lim2: "r_limit (snd br2) = r_limit (snd br)"
        using res_resize_held [of b0 b1 r1 "int (length (body @ got)) * c"] inv1 c br1 lim1
        by (auto simp: br2_def read_inv_def)
      have rest: "length (drop (nat n) s) < length s" using nonempty n by simp
      have "fst (read_loop str_reader m d c (body @ got) 0 br2 (drop (nat n) s))
          = Inr ((body @ got) @ drop (nat n) s)"
        by (rule less.hyps [OF rest inv2]) (use fits room lim2 got_def in auto)
      then have IH: "fst (read_loop str_reader m d c (body @ got) 0 br2 (drop (nat n) s))
          = Inr (body @ s)" by (simp add: got_def)
      have rd: "str_reader s n = ((got, None), drop (nat n) s)"
        using nonempty by (simp add: str_reader_def got_def)
      show ?thesis
        using False cost grow n got IH [unfolded br2_def]
        by (subst read_loop.simps) (simp add: Let_def n_def [symmetric] rd)
    qed
  qed
qed

text \<open>A body of admissible size that fits the free budget is read completely and unchanged,
  whether or not its length was declared, and a declared length over the limit is refused before
  anything is reserved.\<close>

theorem read_buffered_body_accepts:
  assumes "budget_ok b" and "in_int64 (max_inflight_body limits)" and "0 < copies"
    and "b_used b + max_request_body limits * copies \<le> max_inflight_body limits"
    and "int (length s) \<le> max_request_body limits"
    and "declared < 0 \<or> declared = int (length s)"
  shows "fst (read_buffered_body str_reader declared copies limits b s) = Inr s
    \<and> (\<forall>d > max_request_body limits.
         read_buffered_body str_reader d copies limits b s = (Inl BodyTooLarge, b, None))"
proof -
  let ?m = "max_request_body limits"
  define n where "n = (if declared < 0 then 0 else declared * copies)"
  have le: "0 \<le> n" "n \<le> ?m * copies"
    using assms(3,5,6) by (auto simp: n_def intro!: mult_right_mono)
  have fits: "b_used b + n \<le> max_inflight_body limits" using le assms(4) by simp
  have used: "0 \<le> b_used b" using assms(1) by (simp add: budget_ok_def)
  have i64: "in_int64 (b_used b + n)"
    by (rule in_int64_between [OF _ fits assms(2)]) (use used le in simp)
  let ?r = "\<lparr>r_limit = max_inflight_body limits, r_bytes = n, r_released = False\<rparr>"
  have "read_inv b ?m copies [] (b\<lparr>b_used := b_used b + n\<rparr>, ?r)"
    using held_start [OF assms(1,2) le(1) i64] assms(3,5) le by (simp add: read_inv_def)
  then have run: "fst (read_loop str_reader ?m declared copies [] 0
      (b\<lparr>b_used := b_used b + n\<rparr>, ?r) s) = Inr s"
    using read_loop_accepts [of b ?m copies "[]" _ s declared 0] assms(4,5) by simp
  have "fst (read_buffered_body str_reader declared copies limits b s) = Inr s"
  proof (cases "declared < 0")
    case True
    then show ?thesis
      using run assms(5) by (auto simp: read_buffered_body_def Let_def n_def split: prod.splits)
  next
    case False
    have "n \<le> max_int64" using fits used assms(2) by (simp add: in_int64_def)
    then have cost: "request_body_cost declared copies = Some n"
      using False assms(3) by (simp add: n_def request_body_cost_fits)
    have "in_int64 (max_inflight_body limits - b_used b)"
      using fits le used assms(2) by (auto simp: in_int64_def)
    then have "try_acquire_within n (max_inflight_body limits) b
        = Some (b\<lparr>b_used := b_used b + n\<rparr>)"
      using fits le used i64 by (simp add: try_acquire_within_def wrap64_id)
    then show ?thesis
      using run cost False assms(5,6)
      by (auto simp: read_buffered_body_def Let_def split: prod.splits)
  qed
  then show ?thesis by (simp add: read_buffered_body_def)
qed

theorem read_buffered_body_accepts_witness:
  "fst (read_buffered_body str_reader 3 2
     \<lparr>max_keys_per_account = 1, max_request_body = 10, max_inflight_body = 40\<rparr>
     (new_byte_budget 0) ''abc'') = Inr ''abc''"
proof -
  let ?l = "\<lparr>max_keys_per_account = 1, max_request_body = 10, max_inflight_body = 40\<rparr>"
  have "budget_ok (new_byte_budget 0)"
    by (simp add: budget_ok_def new_byte_budget_def in_int64_def max_int64_def)
  moreover have "in_int64 (max_inflight_body ?l)" by (simp add: in_int64_def max_int64_def)
  ultimately show ?thesis
    using read_buffered_body_accepts [of "new_byte_budget 0" ?l 2 "''abc''" 3]
    by (simp add: new_byte_budget_def)
qed

section \<open>Transcript buffers of a compaction\<close>

text \<open>\<open>request_body_compact.go\<close>: an HTTP compaction grows the reservation of its own request (the
  context value, \<open>None\<close> for a WebSocket turn) and shrinks it back afterwards; a WebSocket turn
  reserves separately, within the limits of the settings (\<open>None\<close> when they cannot be read).\<close>

definition compact_copies :: int where "compact_copies = 8"

definition reserve_transcript_ctx ::
  "int \<Rightarrow> budget \<times> reservation option \<Rightarrow> ((budget \<times> reservation) \<times> int) option" where
  "reserve_transcript_ctx bytes st =
     (case st of
        (b, None) \<Rightarrow> None
      | (b, Some r) \<Rightarrow>
          (case request_body_cost bytes compact_copies of
             None \<Rightarrow> None
           | Some cost \<Rightarrow>
              (case res_grow cost (b, r) of None \<Rightarrow> None | Some br \<Rightarrow> Some (br, r_bytes r))))"

definition reserve_transcript ::
  "int \<Rightarrow> settings option \<Rightarrow> budget \<Rightarrow> (budget \<times> int) option" where
  "reserve_transcript bytes limits b =
     (case limits of
        None \<Rightarrow> None
      | Some l \<Rightarrow>
          (case request_body_cost bytes compact_copies of
             None \<Rightarrow> None
           | Some cost \<Rightarrow>
              (case try_acquire_within cost (max_inflight_body l) b of
                 None \<Rightarrow> None
               | Some b' \<Rightarrow> Some (b', cost))))"

definition release_transcript_ctx :: "int \<Rightarrow> budget \<times> reservation \<Rightarrow> budget \<times> reservation" where
  "release_transcript_ctx previous br = res_resize previous br"

text \<open>A compaction's extra buffers are lent, not kept: releasing the transcript reservation
  brings the request back to the bytes it held before (never below, never above), and the
  separate reservation of a WebSocket turn is given back in full.\<close>

theorem transcript_roundtrip:
  assumes "held b0 (b, r)"
  shows "(\<forall>br previous. reserve_transcript_ctx bytes (b, Some r) = Some (br, previous) \<longrightarrow>
            release_transcript_ctx previous br = (b, r))
    \<and> (\<forall>l b' cost. in_int64 (max_inflight_body l) \<longrightarrow>
            reserve_transcript bytes (Some l) b = Some (b', cost) \<longrightarrow>
            budget_release cost b' = b)"
proof (intro conjI allI impI)
  fix br previous
  assume res: "reserve_transcript_ctx bytes (b, Some r) = Some (br, previous)"
  then obtain cost where grow: "res_grow cost (b, r) = Some br" and p: "previous = r_bytes r"
    by (auto simp: reserve_transcript_ctx_def split: option.splits)
  obtain b1 r1 where br: "br = (b1, r1)" by (cases br)
  have g: "held b0 (b1, r1)" "r_bytes r1 = max cost (r_bytes r)" "r_limit r1 = r_limit r"
    using res_grow_held [OF assms] grow br by auto
  have r0: "0 \<le> r_bytes r" using assms by (simp add: held_def)
  obtain b2 r2 where rs: "res_resize (r_bytes r) (b1, r1) = (b2, r2)" by fastforce
  have s: "held b0 (b2, r2)" "r_bytes r2 = r_bytes r" "r_limit r2 = r_limit r1"
    using res_resize_held [OF g(1) r0] rs g(2) by auto
  have "b2 = b" using s assms by (simp add: held_def)
  moreover have "r2 = r" using s g(3) assms by (cases r2; cases r) (simp add: held_def)
  ultimately show "release_transcript_ctx previous br = (b, r)"
    using rs p br by (simp add: release_transcript_ctx_def)
next
  fix l b' cost
  assume l: "in_int64 (max_inflight_body l)"
    and res: "reserve_transcript bytes (Some l) b = Some (b', cost)"
  then have acq: "try_acquire_within cost (max_inflight_body l) b = Some b'"
    by (auto simp: reserve_transcript_def split: option.splits)
  note ok = held_budget_ok [OF assms]
  note a = try_acquire_within_Some [OF ok l acq]
  have i: "in_int64 (b_used b + cost)"
    by (rule in_int64_between [OF _ _ l]) (use a ok in \<open>auto simp: budget_ok_def\<close>)
  have "budget_ok b'" using a ok i by (auto simp: budget_ok_def)
  then have "budget_release cost b' = b'\<lparr>b_used := b_used b' - cost\<rparr>"
    by (rule budget_release_ok) (use a ok in \<open>auto simp: budget_ok_def\<close>)
  then show "budget_release cost b' = b" using a by (simp)
qed

theorem transcript_roundtrip_witness:
  "reserve_transcript_ctx 100
      (\<lparr>b_limit = 2000, b_used = 300, b_panicked = False\<rparr>,
       Some \<lparr>r_limit = 2000, r_bytes = 200, r_released = False\<rparr>)
    = Some ((\<lparr>b_limit = 2000, b_used = 900, b_panicked = False\<rparr>,
       \<lparr>r_limit = 2000, r_bytes = 800, r_released = False\<rparr>), 200)
   \<and> release_transcript_ctx 200 (\<lparr>b_limit = 2000, b_used = 900, b_panicked = False\<rparr>,
       \<lparr>r_limit = 2000, r_bytes = 800, r_released = False\<rparr>)
    = (\<lparr>b_limit = 2000, b_used = 300, b_panicked = False\<rparr>,
       \<lparr>r_limit = 2000, r_bytes = 200, r_released = False\<rparr>)"
proof -
  let ?start = "\<lparr>b_limit = 2000, b_used = 100, b_panicked = False\<rparr>"
  let ?b = "\<lparr>b_limit = 2000, b_used = 300, b_panicked = False\<rparr>"
  let ?r = "\<lparr>r_limit = 2000, r_bytes = 200, r_released = False\<rparr>"
  have held: "held ?start (?b, ?r)"
    unfolding held_def Let_def prod.case
    by (intro conjI) (simp_all add: budget_ok_def in_int64_def max_int64_def)
  have "reserve_transcript_ctx 100 (?b, Some ?r)
    = Some ((?b\<lparr>b_used := 900\<rparr>, ?r\<lparr>r_bytes := 800\<rparr>), 200)"
    by (simp add: reserve_transcript_ctx_def request_body_cost_def compact_copies_def
        trunc_div_def max_int64_def res_grow_def try_acquire_within_def wrap64_def)
  moreover from transcript_roundtrip [OF held, of 100, THEN conjunct1, rule_format, OF this]
  have "release_transcript_ctx 200 (?b\<lparr>b_used := 900\<rparr>, ?r\<lparr>r_bytes := 800\<rparr>) = (?b, ?r)" .
  ultimately show ?thesis by simp
qed

end
