(* ===== verification/Json.thy ===== *)
theory Json
  imports Complex_Main "HOL-Library.Log_Nat" Prelude
begin

text \<open>
  What the code uses of package \<open>encoding/json\<close>: a parser of JSON text that follows Go's scanner
  (grammar, control characters, nesting limit) and its string unquoting (escapes, surrogate
  pairs, invalid UTF-8 replaced by U+FFFD), and decoding of a value into the fields of a struct
  (keys matched without regard to case, later keys over earlier ones, \<open>null\<close> leaving a field as
  it is, a value of the wrong type being an error) or into \<open>map[string]any\<close>.

  An object keeps its members in source order, duplicates included; a number keeps its literal.
  A \<open>float64\<close> is a rational number, the one its literal rounds to.
\<close>

datatype json =
    JNull
  | JBool bool
  | JNum string
  | JStr string
  | JArr "json list"
  | JObj "(string \<times> json) list"

section \<open>UTF-8\<close>

definition cont :: "char \<Rightarrow> bool" where
  "cont c \<longleftrightarrow> 128 \<le> byte c \<and> byte c \<le> 191"

text \<open>The length of the valid UTF-8 sequence a string starts with, 0 if there is none
  (\<open>utf8.DecodeRune\<close> then consumes one byte and yields U+FFFD).\<close>

definition utf8_len :: "string \<Rightarrow> nat" where
  "utf8_len s =
     (case s of
        [] \<Rightarrow> 0
      | a # s1 \<Rightarrow>
         if byte a < 128 then 1
         else (case s1 of [] \<Rightarrow> 0
         | b # s2 \<Rightarrow>
            if 194 \<le> byte a \<and> byte a \<le> 223 then (if cont b then 2 else 0)
            else (case s2 of [] \<Rightarrow> 0
            | c # s3 \<Rightarrow>
               if 224 \<le> byte a \<and> byte a \<le> 239 then
                 (if cont b \<and> cont c \<and> (byte a = 224 \<longrightarrow> 160 \<le> byte b)
                     \<and> (byte a = 237 \<longrightarrow> byte b \<le> 159) then 3 else 0)
               else (case s3 of [] \<Rightarrow> 0
               | d # _ \<Rightarrow>
                  if 240 \<le> byte a \<and> byte a \<le> 244 \<and> cont b \<and> cont c \<and> cont d
                     \<and> (byte a = 240 \<longrightarrow> 144 \<le> byte b) \<and> (byte a = 244 \<longrightarrow> byte b \<le> 143)
                  then 4 else 0))))"

definition replacement :: string where
  "replacement = [char_of (239::nat), char_of (191::nat), char_of (189::nat)]"

definition utf8_encode :: "nat \<Rightarrow> string" where
  "utf8_encode r =
     (if r < 128 then [char_of r]
      else if r < 2048 then [char_of (192 + r div 64), char_of (128 + r mod 64)]
      else if r < 65536 then
        [char_of (224 + r div 4096), char_of (128 + r div 64 mod 64), char_of (128 + r mod 64)]
      else
        [char_of (240 + r div 262144), char_of (128 + r div 4096 mod 64),
         char_of (128 + r div 64 mod 64), char_of (128 + r mod 64)])"

section \<open>Tokens\<close>

definition json_space :: "char \<Rightarrow> bool" where
  "json_space c \<longleftrightarrow> byte c = 32 \<or> byte c = 9 \<or> byte c = 10 \<or> byte c = 13"

definition skip_ws :: "string \<Rightarrow> string" where
  "skip_ws s = dropWhile json_space s"

text \<open>\<open>expect c s\<close>: what follows the character \<open>c\<close>, which is the first after white space.\<close>

definition expect :: "char \<Rightarrow> string \<Rightarrow> string option" where
  "expect c s = (case skip_ws s of [] \<Rightarrow> None | d # t \<Rightarrow> (if d = c then Some t else None))"

definition quote :: char where "quote = CHR 0x22"
definition backslash :: char where "backslash = CHR 0x5C"

definition is_digit :: "char \<Rightarrow> bool" where
  "is_digit c \<longleftrightarrow> 48 \<le> byte c \<and> byte c \<le> 57"

definition hex_val :: "char \<Rightarrow> nat option" where
  "hex_val c =
     (if is_digit c then Some (byte c - 48)
      else if 97 \<le> byte c \<and> byte c \<le> 102 then Some (byte c - 87)
      else if 65 \<le> byte c \<and> byte c \<le> 70 then Some (byte c - 55)
      else None)"

fun hex4 :: "string \<Rightarrow> (nat \<times> string) option" where
  "hex4 (a # b # c # d # t) =
     (case (hex_val a, hex_val b, hex_val c, hex_val d) of
        (Some w, Some x, Some y, Some z) \<Rightarrow> Some (((w * 16 + x) * 16 + y) * 16 + z, t)
      | _ \<Rightarrow> None)"
| "hex4 _ = None"

lemma hex4_length: "hex4 s = Some (r, t) \<Longrightarrow> length t + 4 = length s"
  by (induction s rule: hex4.induct) (auto split: option.splits)

text \<open>The escapes of one letter.\<close>

definition escape_char :: "char \<Rightarrow> char option" where
  "escape_char e =
     (if e = quote \<or> e = backslash \<or> e = CHR ''/'' then Some e
      else if e = CHR ''b'' then Some (char_of (8::nat))
      else if e = CHR ''f'' then Some (char_of (12::nat))
      else if e = CHR ''n'' then Some (char_of (10::nat))
      else if e = CHR ''r'' then Some (char_of (13::nat))
      else if e = CHR ''t'' then Some (char_of (9::nat))
      else None)"

text \<open>A \<open>\u\<close> escape: the rune it stands for and what is left after it. A surrogate takes the
  second half of its pair when one follows, and is U+FFFD otherwise.\<close>

definition second_half :: "string \<Rightarrow> (nat \<times> string) option" where
  "second_half s =
     (case s of
        a # b # t \<Rightarrow>
          (if a = backslash \<and> b = CHR ''u'' then
             (case hex4 t of
                Some (r, u) \<Rightarrow> (if 56320 \<le> r \<and> r < 57344 then Some (r, u) else None)
              | None \<Rightarrow> None)
           else None)
      | _ \<Rightarrow> None)"

definition unicode_escape :: "string \<Rightarrow> (string \<times> string) option" where
  "unicode_escape s =
     (case hex4 s of
        None \<Rightarrow> None
      | Some (r, t) \<Rightarrow>
          if r < 55296 \<or> 57344 \<le> r then Some (utf8_encode r, t)
          else if r < 56320 then
            (case second_half t of
               Some (r2, u) \<Rightarrow>
                 Some (utf8_encode (65536 + (r - 55296) * 1024 + (r2 - 56320)), u)
             | None \<Rightarrow> Some (replacement, t))
          else Some (replacement, t))"

lemma unicode_escape_length:
  "unicode_escape s = Some (x, t) \<Longrightarrow> length t < length s"
  by (auto simp: unicode_escape_def second_half_def split: option.splits if_splits list.splits
      dest!: hex4_length)

text \<open>The inside of a string literal after its opening quote: its value, and the rest after the
  closing quote.\<close>

definition push :: "string \<Rightarrow> (string \<times> string) option \<Rightarrow> (string \<times> string) option" where
  "push x r = (case r of None \<Rightarrow> None | Some (v, rest) \<Rightarrow> Some (x @ v, rest))"

function string_body :: "string \<Rightarrow> (string \<times> string) option" where
  "string_body [] = None"
| "string_body (c # s) =
     (if c = quote then Some ([], s)
      else if c = backslash then
        (case s of
           [] \<Rightarrow> None
         | e # t \<Rightarrow>
             (if e = CHR ''u'' then
                (case unicode_escape t of
                   None \<Rightarrow> None
                 | Some (x, u) \<Rightarrow> push x (string_body u))
              else
                (case escape_char e of
                   None \<Rightarrow> None
                 | Some d \<Rightarrow> push [d] (string_body t))))
      else if byte c < 32 then None
      else if utf8_len (c # s) = 0 then push replacement (string_body s)
      else push (take (utf8_len (c # s)) (c # s)) (string_body (drop (utf8_len (c # s) - 1) s)))"
  by pat_completeness auto
termination
  by (relation "measure length") (auto dest: unicode_escape_length)

declare string_body.simps(2) [simp del]

text \<open>Numbers: sign, integer part without leading zeros, fraction, exponent.\<close>

definition scan_sign :: "string \<Rightarrow> string" where
  "scan_sign s = (case s of [] \<Rightarrow> [] | c # t \<Rightarrow> (if c = CHR ''-'' then t else s))"

definition scan_int :: "string \<Rightarrow> string option" where
  "scan_int s =
     (case s of
        [] \<Rightarrow> None
      | c # t \<Rightarrow> (if c = CHR ''0'' then Some t
                  else if is_digit c then Some (dropWhile is_digit t) else None))"

definition scan_digits1 :: "string \<Rightarrow> string option" where
  "scan_digits1 s =
     (case s of
        [] \<Rightarrow> None
      | c # t \<Rightarrow> (if is_digit c then Some (dropWhile is_digit t) else None))"

definition scan_frac :: "string \<Rightarrow> string option" where
  "scan_frac s = (case s of [] \<Rightarrow> Some [] | c # t \<Rightarrow> (if c = CHR ''.'' then scan_digits1 t else Some s))"

definition scan_exp :: "string \<Rightarrow> string option" where
  "scan_exp s =
     (case s of
        [] \<Rightarrow> Some []
      | c # t \<Rightarrow>
          (if c = CHR ''e'' \<or> c = CHR ''E'' then
             (case t of
                [] \<Rightarrow> None
              | d # u \<Rightarrow> (if d = CHR ''+'' \<or> d = CHR ''-'' then scan_digits1 u else scan_digits1 t))
           else Some s))"

definition scan_number :: "string \<Rightarrow> (string \<times> string) option" where
  "scan_number s =
     (case Option.bind (Option.bind (scan_int (scan_sign s)) scan_frac) scan_exp of
        None \<Rightarrow> None
      | Some rest \<Rightarrow> Some (take (length s - length rest) s, rest))"

section \<open>The parser\<close>

definition parse_scalar :: "char \<Rightarrow> string \<Rightarrow> (json \<times> string) option" where
  "parse_scalar c t =
     (if c = quote then map_option (\<lambda>(k, u). (JStr k, u)) (string_body t)
      else if has_prefix ''true'' (c # t) then Some (JBool True, drop 4 (c # t))
      else if has_prefix ''false'' (c # t) then Some (JBool False, drop 5 (c # t))
      else if has_prefix ''null'' (c # t) then Some (JNull, drop 4 (c # t))
      else map_option (\<lambda>(l, u). (JNum l, u)) (scan_number (c # t)))"

text \<open>\<open>fuel\<close> bounds the recursion, \<open>depth\<close> is how many more levels of nesting Go's scanner
  accepts (\<open>maxNestingDepth\<close> in all).\<close>

fun parse_value :: "nat \<Rightarrow> nat \<Rightarrow> string \<Rightarrow> (json \<times> string) option"
  and parse_members :: "nat \<Rightarrow> nat \<Rightarrow> string \<Rightarrow> ((string \<times> json) list \<times> string) option"
  and parse_elems :: "nat \<Rightarrow> nat \<Rightarrow> string \<Rightarrow> (json list \<times> string) option"
where
  "parse_value 0 depth s = None"
| "parse_value (Suc fuel) depth s =
     (case skip_ws s of
        [] \<Rightarrow> None
      | c # t \<Rightarrow>
          if c = CHR ''{'' then
            (if depth = 0 then None
             else (case expect (CHR ''}'') t of
                     Some u \<Rightarrow> Some (JObj [], u)
                   | None \<Rightarrow> map_option (\<lambda>(ms, u). (JObj ms, u)) (parse_members fuel (depth - 1) t)))
          else if c = CHR ''['' then
            (if depth = 0 then None
             else (case expect (CHR '']'') t of
                     Some u \<Rightarrow> Some (JArr [], u)
                   | None \<Rightarrow> map_option (\<lambda>(xs, u). (JArr xs, u)) (parse_elems fuel (depth - 1) t)))
          else parse_scalar c t)"
| "parse_members 0 depth s = None"
| "parse_members (Suc fuel) depth s =
     (case expect quote s of
        None \<Rightarrow> None
      | Some t \<Rightarrow>
         (case string_body t of
            None \<Rightarrow> None
          | Some (k, u) \<Rightarrow>
             (case expect (CHR '':'') u of
                None \<Rightarrow> None
              | Some v \<Rightarrow>
                 (case parse_value fuel depth v of
                    None \<Rightarrow> None
                  | Some (x, w) \<Rightarrow>
                     (case expect (CHR '','') w of
                        Some y \<Rightarrow> map_option (\<lambda>(ms, z). ((k, x) # ms, z)) (parse_members fuel depth y)
                      | None \<Rightarrow>
                         (case expect (CHR ''}'') w of
                            Some y \<Rightarrow> Some ([(k, x)], y)
                          | None \<Rightarrow> None))))))"
| "parse_elems 0 depth s = None"
| "parse_elems (Suc fuel) depth s =
     (case parse_value fuel depth s of
        None \<Rightarrow> None
      | Some (x, w) \<Rightarrow>
         (case expect (CHR '','') w of
            Some y \<Rightarrow> map_option (\<lambda>(xs, z). (x # xs, z)) (parse_elems fuel depth y)
          | None \<Rightarrow>
             (case expect (CHR '']'') w of
                Some y \<Rightarrow> Some ([x], y)
              | None \<Rightarrow> None)))"

definition max_nesting :: nat where "max_nesting = 10000"

definition json_fuel :: "string \<Rightarrow> nat" where "json_fuel s = 2 * length s + 2"

definition json_parse :: "string \<Rightarrow> json option" where
  "json_parse s =
     (case parse_value (json_fuel s) max_nesting s of
        None \<Rightarrow> None
      | Some (v, rest) \<Rightarrow> (if skip_ws rest = [] then Some v else None))"

definition json_valid :: "string \<Rightarrow> bool" where
  "json_valid s \<longleftrightarrow> json_parse s \<noteq> None"

section \<open>Numbers\<close>

definition digits_val :: "string \<Rightarrow> int" where
  "digits_val s = fold (\<lambda>c n. n * 10 + (int (byte c) - 48)) s 0"

text \<open>\<open>strconv.ParseInt\<close> on a literal: a sign and digits only, within 64 bits.\<close>

definition num_int64 :: "string \<Rightarrow> int option" where
  "num_int64 lit =
     (let body = scan_sign lit;
          n = (if body = lit then digits_val body else - digits_val body)
      in if body \<noteq> [] \<and> list_all is_digit body \<and> in_int64 n then Some n else None)"

text \<open>\<open>strconv.ParseFloat\<close> on a literal; \<open>None\<close> when it overflows a \<open>float64\<close>.\<close>

definition lit_frac_part :: "string \<Rightarrow> string" where
  "lit_frac_part s =
     (case s of [] \<Rightarrow> [] | c # t \<Rightarrow> (if c = CHR ''.'' then takeWhile is_digit t else []))"

definition lit_exp_part :: "string \<Rightarrow> int" where
  "lit_exp_part s =
     (case dropWhile (\<lambda>c. is_digit c \<or> c = CHR ''.'') s of
        [] \<Rightarrow> 0
      | _ # t \<Rightarrow>
         (case t of
            [] \<Rightarrow> 0
          | d # u \<Rightarrow> (if d = CHR ''-'' then - digits_val u
                      else if d = CHR ''+'' then digits_val u else digits_val t)))"

definition pow10 :: "int \<Rightarrow> rat" where
  "pow10 e = (if 0 \<le> e then 10 ^ nat e else 1 / 10 ^ nat (- e))"

definition max_float :: rat where
  "max_float = 2 ^ 1024 - 2 ^ 970"

text \<open>Rounding to the nearest \<open>float64\<close>, ties to even: \<open>float_exp\<close> is the binary exponent of a
  positive number, and a \<open>float64\<close> keeps 53 bits from there down (fewer below \<open>2 ^ - 1022\<close>).\<close>

definition pow2 :: "int \<Rightarrow> rat" where
  "pow2 e = (if 0 \<le> e then 2 ^ nat e else 1 / 2 ^ nat (- e))"

definition float_exp :: "rat \<Rightarrow> int" where
  "float_exp q =
     (let (n, d) = quotient_of q; e = bitlen n - bitlen d in if pow2 e \<le> q then e else e - 1)"

definition round_even :: "rat \<Rightarrow> int" where
  "round_even q =
     (let f = \<lfloor>q\<rfloor>; r = q - of_int f
      in if r < 1 / 2 then f else if r > 1 / 2 then f + 1 else if even f then f else f + 1)"

definition float64 :: "rat \<Rightarrow> rat" where
  "float64 q =
     (if q = 0 then 0
      else let u = pow2 (max (float_exp \<bar>q\<bar>) (- 1022) - 52);
               v = of_int (round_even (\<bar>q\<bar> / u)) * u
           in if q < 0 then - v else v)"

lemma bitlen_53: assumes "0 < n" "n < 2 ^ 53" shows "0 \<le> bitlen n - 1" "bitlen n - 1 \<le> 52"
proof -
  have "2 ^ nat (bitlen n - 1) < (2 :: int) ^ 53"
    using bitlen_bounds [OF assms(1)] assms(2) by simp
  then have "nat (bitlen n - 1) < 53" by (rule power_less_imp_less_exp [rotated]) simp
  then have "bitlen n \<le> 53" by simp
  moreover have "0 < bitlen n"
    using bitlen_eq_zero_iff [of n] bitlen_nonneg [of n] assms(1) by simp
  ultimately show "0 \<le> bitlen n - 1" "bitlen n - 1 \<le> 52" by simp_all
qed

lemma round_even_int [simp]: "round_even (of_int n) = n"
  by (simp add: round_even_def)

lemma float64_pos: assumes "0 < n" "n < 2 ^ 53" shows "float64 (of_int n) = of_int n"
proof -
  define e where "e = float_exp (of_int n)"
  have q: "quotient_of (of_int n) = (n, 1)" by simp
  have one: "bitlen 1 = 1" by (simp add: compute_bitlen [of 1])
  have e: "-1 \<le> e" "e \<le> 52"
    using bitlen_53 [OF assms] by (simp_all add: e_def float_exp_def q Let_def one)
  have u: "pow2 (e - 52) = 1 / 2 ^ nat (52 - e)" using e(2) by (auto simp: pow2_def)
  have "of_int n / pow2 (e - 52) = of_int (n * 2 ^ nat (52 - e))" by (simp add: u)
  then have "round_even (of_int n / pow2 (e - 52)) = n * 2 ^ nat (52 - e)"
    by (metis round_even_int)
  then show ?thesis
    using assms e by (simp add: float64_def Let_def e_def [symmetric] max_def u)
qed

lemma float64_int: assumes "\<bar>n\<bar> < 2 ^ 53" shows "float64 (of_int n) = of_int n"
proof (cases n "0 :: int" rule: linorder_cases)
  case less
  then have "float64 (of_int (- n)) = of_int (- n)" using assms by (intro float64_pos) simp_all
  moreover have "float64 (of_int n) = - float64 (of_int (- n))"
    using less by (simp add: float64_def Let_def)
  ultimately show ?thesis by simp
next
  case equal
  then show ?thesis by (simp add: float64_def)
next
  case greater
  then show ?thesis using assms float64_pos by simp
qed

definition num_float :: "string \<Rightarrow> rat option" where
  "num_float lit =
     (let body = scan_sign lit;
          ip = takeWhile is_digit body;
          fp = lit_frac_part (dropWhile is_digit body);
          mant = of_int (digits_val (ip @ fp));
          q = mant * pow10 (lit_exp_part body - int (length fp));
          v = (if body = lit then q else - q)
      in if \<bar>v\<bar> < max_float then Some (float64 v) else None)"

section \<open>Decoding\<close>

text \<open>Into \<open>map[string]any\<close>: every number must be a \<open>float64\<close>; the last of duplicate keys
  counts.\<close>

fun any_ok :: "json \<Rightarrow> bool" where
  "any_ok (JNum l) = (num_float l \<noteq> None)"
| "any_ok (JArr xs) = list_all any_ok xs"
| "any_ok (JObj ms) = list_all (\<lambda>m. any_ok (snd m)) ms"
| "any_ok _ = True"

definition jget :: "string \<Rightarrow> (string \<times> json) list \<Rightarrow> json option" where
  "jget k ms = map_of (rev ms) k"

definition jget_obj :: "string \<Rightarrow> (string \<times> json) list \<Rightarrow> (string \<times> json) list option" where
  "jget_obj k ms = (case jget k ms of Some (JObj ns) \<Rightarrow> Some ns | _ \<Rightarrow> None)"

definition jget_str :: "string \<Rightarrow> (string \<times> json) list \<Rightarrow> string option" where
  "jget_str k ms = (case jget k ms of Some (JStr s) \<Rightarrow> Some s | _ \<Rightarrow> None)"

definition jset :: "string \<Rightarrow> json \<Rightarrow> (string \<times> json) list \<Rightarrow> (string \<times> json) list" where
  "jset k v ms = filter (\<lambda>m. fst m \<noteq> k) ms @ [(k, v)]"

definition jdel :: "string \<Rightarrow> (string \<times> json) list \<Rightarrow> (string \<times> json) list" where
  "jdel k ms = filter (\<lambda>m. fst m \<noteq> k) ms"

text \<open>\<open>json.Unmarshal\<close> into a \<open>map[string]any\<close> variable; JSON \<open>null\<close> leaves it \<open>nil\<close>, which
  reads as an empty map.\<close>

definition unmarshal_map :: "string \<Rightarrow> (string \<times> json) list option" where
  "unmarshal_map s =
     (case json_parse s of
        Some (JObj ms) \<Rightarrow> (if any_ok (JObj ms) then Some ms else None)
      | Some JNull \<Rightarrow> Some []
      | _ \<Rightarrow> None)"

text \<open>Into a struct: a key names a field when both fold to the same name (\<open>foldName\<close>: ASCII case,
  and the two runes outside ASCII that fold to the letters K and S).\<close>

fun fold_name :: "string \<Rightarrow> string" where
  "fold_name [] = []"
| "fold_name (a # s) =
     (case s of
        b # c # t \<Rightarrow>
          (if byte a = 226 \<and> byte b = 132 \<and> byte c = 170 then CHR ''k'' # fold_name t
           else if byte a = 197 \<and> byte b = 191 then CHR ''s'' # fold_name (c # t)
           else lower_char a # fold_name s)
      | [b] \<Rightarrow> (if byte a = 197 \<and> byte b = 191 then [CHR ''s'']
                else lower_char a # fold_name s)
      | [] \<Rightarrow> [lower_char a])"

lemma fold_name_ascii: "list_all (\<lambda>c. byte c < 128) s \<Longrightarrow> fold_name s = map lower_char s"
proof (induction s rule: fold_name.induct)
  case (2 a s)
  then show ?case by (cases s rule: remdups_adj.cases) simp_all
qed simp

definition field_vals :: "string \<Rightarrow> (string \<times> json) list \<Rightarrow> json list" where
  "field_vals name ms = map snd (filter (\<lambda>m. fold_name (fst m) = fold_name name) ms)"

text \<open>The value of a field after all its occurrences have been stored, starting from the value
  before; \<open>None\<close> for an \<open>UnmarshalTypeError\<close>.\<close>

definition decode_field :: "(json \<Rightarrow> 'a \<Rightarrow> 'a option) \<Rightarrow> json list \<Rightarrow> 'a \<Rightarrow> 'a option" where
  "decode_field store vs x0 =
     fold (\<lambda>v r. case r of None \<Rightarrow> None | Some x \<Rightarrow> (if v = JNull then Some x else store v x)) vs (Some x0)"

definition store_string :: "json \<Rightarrow> string \<Rightarrow> string option" where
  "store_string v x = (case v of JStr s \<Rightarrow> Some s | _ \<Rightarrow> None)"

definition store_bool :: "json \<Rightarrow> bool \<Rightarrow> bool option" where
  "store_bool v x = (case v of JBool b \<Rightarrow> Some b | _ \<Rightarrow> None)"

definition store_int64 :: "json \<Rightarrow> int \<Rightarrow> int option" where
  "store_int64 v x = (case v of JNum l \<Rightarrow> num_int64 l | _ \<Rightarrow> None)"

definition store_float :: "json \<Rightarrow> rat \<Rightarrow> rat option" where
  "store_float v x = (case v of JNum l \<Rightarrow> num_float l | _ \<Rightarrow> None)"

definition str_field :: "string \<Rightarrow> (string \<times> json) list \<Rightarrow> string option" where
  "str_field name ms = decode_field store_string (field_vals name ms) ''''"

text \<open>A pointer field: \<open>null\<close> makes it \<open>nil\<close> again, any other value is decoded into what it points
  to (a fresh zero value when it was \<open>nil\<close>).\<close>

definition decode_ptr :: "(json \<Rightarrow> 'a \<Rightarrow> 'a option) \<Rightarrow> 'a \<Rightarrow> json list \<Rightarrow> 'a option option" where
  "decode_ptr store zero vs =
     fold (\<lambda>v r. case r of None \<Rightarrow> None
        | Some p \<Rightarrow> (if v = JNull then Some None
                     else map_option Some (store v (case p of None \<Rightarrow> zero | Some x \<Rightarrow> x))))
       vs (Some None)"

text \<open>The members of the value a struct is decoded from: \<open>null\<close> has no effect, anything but an
  object is an error.\<close>

definition struct_members :: "json \<Rightarrow> (string \<times> json) list option" where
  "struct_members v = (case v of JObj ms \<Rightarrow> Some ms | JNull \<Rightarrow> Some [] | _ \<Rightarrow> None)"

end
