(* ===== verification/Json_Object.thy ===== *)
theory Json_Object
  imports Json "HOL-Library.AList"
begin

text \<open>
  \<open>internal/jsonobject\<close>: the object that keeps its top-level values as slices of the request
  bytes, the byte scanners it finds them with (\<open>skipSpace\<close>, \<open>scanString\<close>, \<open>scanValueEnd\<close>, by
  index into the raw bytes, as in the source), its edits and its writer, and the lookups of
  \<open>values.go\<close>. A Go map is an association list with distinct keys. The main result is that the
  scanner agrees with the JSON parser: \<open>Parse\<close> finds exactly the members of the object.
\<close>

section \<open>Scanners\<close>

function skip_space :: "string \<Rightarrow> nat \<Rightarrow> nat" where
  "skip_space raw index =
     (if index < length raw then
        (if json_space (raw ! index) then skip_space raw (index + 1) else index)
      else index)"
  by pat_completeness auto
termination by (relation "measure (\<lambda>(raw, i). length raw - i)") auto

function scan_string_loop :: "string \<Rightarrow> nat \<Rightarrow> bool \<Rightarrow> nat option" where
  "scan_string_loop raw index escaped =
     (if index < length raw then
        (if escaped then scan_string_loop raw (index + 1) False
         else if raw ! index = backslash then scan_string_loop raw (index + 1) True
         else if raw ! index = quote then Some (index + 1)
         else scan_string_loop raw (index + 1) False)
      else None)"
  by pat_completeness auto
termination by (relation "measure (\<lambda>(raw, i, e). length raw - i)") auto

definition scan_string :: "string \<Rightarrow> nat \<Rightarrow> nat option" where
  "scan_string raw start =
     (if start \<ge> length raw \<or> raw ! start \<noteq> quote then None
      else scan_string_loop raw (start + 1) False)"

function scan_value_loop :: "string \<Rightarrow> nat \<Rightarrow> nat \<Rightarrow> bool \<Rightarrow> bool \<Rightarrow> nat" where
  "scan_value_loop raw index depth in_string escaped =
     (if index < length raw then
        let c = raw ! index in
        if in_string then
          (if escaped then scan_value_loop raw (index + 1) depth True False
           else if c = backslash then scan_value_loop raw (index + 1) depth True True
           else scan_value_loop raw (index + 1) depth (c \<noteq> quote) False)
        else if c = quote then scan_value_loop raw (index + 1) depth True escaped
        else if c = CHR ''{'' \<or> c = CHR ''['' then
          scan_value_loop raw (index + 1) (depth + 1) False escaped
        else if c = CHR ''}'' \<or> c = CHR '']'' then
          (if depth = 0 then index else scan_value_loop raw (index + 1) (depth - 1) False escaped)
        else if c = CHR '','' then
          (if depth = 0 then index else scan_value_loop raw (index + 1) depth False escaped)
        else scan_value_loop raw (index + 1) depth False escaped
      else length raw)"
  by pat_completeness auto
termination by (relation "measure (\<lambda>(raw, i, d, s, e). length raw - i)") auto

definition scan_value_end :: "string \<Rightarrow> nat \<Rightarrow> nat" where
  "scan_value_end raw start = scan_value_loop raw start 0 False False"

declare skip_space.simps [simp del]
declare scan_string_loop.simps [simp del]
declare scan_value_loop.simps [simp del]

definition slice :: "string \<Rightarrow> nat \<Rightarrow> nat \<Rightarrow> string" where
  "slice raw a b = take (b - a) (drop a raw)"

text \<open>The same scans on the rest of the bytes, by structural recursion: how many bytes are
  white space, belong to a string literal up to its closing quote, or belong to a value.\<close>

fun str_end :: "string \<Rightarrow> bool \<Rightarrow> nat option" where
  "str_end [] e = None"
| "str_end (c # s) e =
     map_option Suc
       (if e then str_end s False
        else if c = backslash then str_end s True
        else if c = quote then Some 0
        else str_end s False)"

fun val_end :: "string \<Rightarrow> nat \<Rightarrow> bool \<Rightarrow> bool \<Rightarrow> nat" where
  "val_end [] d s e = 0"
| "val_end (c # cs) d s e =
     (if s then
        Suc (if e then val_end cs d True False
             else if c = backslash then val_end cs d True True
             else val_end cs d (c \<noteq> quote) False)
      else if c = quote then Suc (val_end cs d True e)
      else if c = CHR ''{'' \<or> c = CHR ''['' then Suc (val_end cs (d + 1) False e)
      else if c = CHR ''}'' \<or> c = CHR '']'' then
        (if d = 0 then 0 else Suc (val_end cs (d - 1) False e))
      else if c = CHR '','' then (if d = 0 then 0 else Suc (val_end cs d False e))
      else Suc (val_end cs d False e))"

lemma skip_space_append:
  "skip_space (pre @ s) (length pre) = length pre + length (takeWhile json_space s)"
proof (induction s arbitrary: pre)
  case Nil
  then show ?case by (simp add: skip_space.simps)
next
  case (Cons c s)
  from Cons [of "pre @ [c]"] show ?case
    by (subst skip_space.simps) simp
qed

definition shift :: "nat \<Rightarrow> nat option \<Rightarrow> nat option" where
  "shift n x = (case x of None \<Rightarrow> None | Some i \<Rightarrow> Some (n + i))"

lemma shift_Suc: "shift (Suc n) x = shift n (map_option Suc x)"
  by (cases x) (simp_all add: shift_def)

lemma shift_Some: "shift n x = Some j \<longleftrightarrow> (\<exists>i. x = Some i \<and> j = n + i)"
  by (cases x) (auto simp: shift_def)

lemma scan_string_loop_append:
  "scan_string_loop (pre @ s) (length pre) e = shift (length pre) (str_end s e)"
proof (induction s arbitrary: pre e)
  case Nil
  then show ?case by (simp add: scan_string_loop.simps shift_def)
next
  case (Cons c s)
  have step: "scan_string_loop (pre @ c' # s) (Suc (length pre)) e'
      = shift (length pre) (map_option Suc (str_end s e'))" for c' e'
    using Cons [of "pre @ [c']" e'] by (simp add: shift_Suc)
  have here: "shift n (Some (Suc 0)) = Some (Suc n)" for n by (simp add: shift_def)
  show ?case
    by (subst scan_string_loop.simps) (simp add: step here)
qed

lemma scan_value_loop_append:
  "scan_value_loop (pre @ s) (length pre) d q e = length pre + val_end s d q e"
proof (induction s arbitrary: pre d q e)
  case Nil
  then show ?case by (simp add: scan_value_loop.simps)
next
  case (Cons c s)
  have step: "scan_value_loop (pre @ c' # s) (Suc (length pre)) d' q' e'
      = Suc (length pre) + val_end s d' q' e'" for c' d' q' e'
    using Cons [of "pre @ [c']" d' q' e'] by simp
  show ?case
    by (subst scan_value_loop.simps) (simp add: step Let_def)
qed

lemma split_at: "i \<le> length raw \<Longrightarrow> \<exists>pre s. raw = pre @ s \<and> length pre = i"
  by (intro exI [of _ "take i raw"] exI [of _ "drop i raw"]) simp

lemma skip_space_bounds: "i \<le> length raw \<Longrightarrow> i \<le> skip_space raw i \<and> skip_space raw i \<le> length raw"
  using split_at [of i raw] length_takeWhile_le by (fastforce simp: skip_space_append)

lemma str_end_bounds: "str_end s e = Some n \<Longrightarrow> 0 < n \<and> n \<le> length s"
  by (induction s e arbitrary: n rule: str_end.induct) (auto split: if_splits)

lemma scan_string_bounds:
  assumes "scan_string raw i = Some j" shows "i < j \<and> j \<le> length raw"
proof -
  from assms have i: "i < length raw" and j: "scan_string_loop raw (i + 1) False = Some j"
    by (auto simp: scan_string_def split: if_splits)
  obtain pre s where raw: "raw = pre @ s" "length pre = i + 1"
    using split_at [of "i + 1" raw] i by auto
  then have "shift (length pre) (str_end s False) = Some j"
    using j scan_string_loop_append [of pre s False] by simp
  then show ?thesis using raw by (auto simp: shift_Some dest: str_end_bounds)
qed

lemma val_end_le: "val_end s d q e \<le> length s"
  by (induction s arbitrary: d q e) simp_all

lemma scan_value_end_bounds:
  "i \<le> length raw \<Longrightarrow> i \<le> scan_value_end raw i \<and> scan_value_end raw i \<le> length raw"
  using split_at [of i raw] val_end_le
  by (auto simp: scan_value_end_def scan_value_loop_append)

section \<open>Objects\<close>

record jobject =
  o_raw :: string
  o_fields :: "(string \<times> string) list"
  o_last :: "(string \<times> nat) list"
  o_counts :: "(string \<times> nat) list"
  o_sets :: "(string \<times> string) list"
  o_set_order :: "string list"
  o_deleted :: "string list"

datatype parse_error =
  NotAnObject | Unterminated | TrailingData | KeyNotString | InvalidKey | NoColon | EmptyValue
  | BadDelimiter

definition add_field :: "string \<Rightarrow> string \<Rightarrow> jobject \<Rightarrow> jobject" where
  "add_field key value ob =
     ob\<lparr>o_fields := o_fields ob @ [(key, value)],
        o_last := AList.update key (length (o_fields ob)) (o_last ob),
        o_counts := AList.update key
          (Suc (case map_of (o_counts ob) key of None \<Rightarrow> 0 | Some n \<Rightarrow> n)) (o_counts ob)\<rparr>"

definition unmarshal_string :: "string \<Rightarrow> string option" where
  "unmarshal_string s = (case json_parse s of Some (JStr k) \<Rightarrow> Some k | _ \<Rightarrow> None)"

function parse_fields :: "string \<Rightarrow> nat \<Rightarrow> jobject \<Rightarrow> parse_error + jobject" where
  "parse_fields raw index0 ob =
    (let index = skip_space raw index0 in
     if index \<ge> length raw then Inl Unterminated
     else if raw ! index = CHR ''}'' then
       (if index \<noteq> length raw - 1 then Inl TrailingData else Inr ob)
     else
       (case scan_string raw index of
          None \<Rightarrow> Inl KeyNotString
        | Some key_end \<Rightarrow>
           (case unmarshal_string (slice raw index key_end) of
              None \<Rightarrow> Inl InvalidKey
            | Some key \<Rightarrow>
               let colon = skip_space raw key_end in
               if colon \<ge> length raw \<or> raw ! colon \<noteq> CHR '':'' then Inl NoColon
               else
                 let value_start = skip_space raw (colon + 1);
                     value_end = scan_value_end raw value_start;
                     value = trim_space (slice raw value_start value_end)
                 in
                 if value = [] then Inl EmptyValue
                 else
                   let ob' = add_field key value ob;
                       next = skip_space raw value_end
                   in
                   if next \<ge> length raw then Inl Unterminated
                   else if raw ! next = CHR '','' then parse_fields raw (next + 1) ob'
                   else if raw ! next = CHR ''}'' then
                     (if next \<noteq> length raw - 1 then Inl TrailingData else Inr ob')
                   else Inl BadDelimiter)))"
  by pat_completeness auto
termination
proof (relation "measure (\<lambda>(raw, i, ob). length raw - i)", simp, goal_cases)
  case (1 raw index0 ob index key_end key colon vs ve val ob' nxt)
  note * = 1
  have i: "index0 \<le> index"
  proof (cases "index0 \<le> length raw")
    case True
    then show ?thesis using * skip_space_bounds by simp
  next
    case False
    then have "skip_space raw index0 = index0" by (simp add: skip_space.simps)
    then show ?thesis using * by simp
  qed
  have k: "index < key_end" "key_end \<le> length raw" using * scan_string_bounds by blast+
  have c: "key_end \<le> colon" "colon < length raw"
    using * skip_space_bounds [OF k(2)] by auto
  have v: "colon + 1 \<le> vs" "vs \<le> length raw"
    using * skip_space_bounds [of "colon + 1" raw] c(2) by auto
  have e: "vs \<le> ve" "ve \<le> length raw" using * scan_value_end_bounds [OF v(2)] by auto
  have "ve \<le> nxt" using * skip_space_bounds [OF e(2)] by simp
  then show ?case using i k c v e * by simp
qed

declare parse_fields.simps [simp del]

definition empty_object :: "string \<Rightarrow> jobject" where
  "empty_object raw = \<lparr>o_raw = raw, o_fields = [], o_last = [], o_counts = [], o_sets = [],
     o_set_order = [], o_deleted = []\<rparr>"

definition parse_object :: "string \<Rightarrow> parse_error + jobject" where
  "parse_object raw =
     (let trimmed = trim_space raw in
      if length trimmed < 2 \<or> trimmed ! 0 \<noteq> CHR ''{'' \<or> \<not> json_valid trimmed then Inl NotAnObject
      else parse_fields trimmed 1 (empty_object trimmed))"

section \<open>Reading and editing an object\<close>

definition duplicate :: "string \<Rightarrow> jobject \<Rightarrow> bool" where
  "duplicate key ob = (case map_of (o_counts ob) key of None \<Rightarrow> False | Some n \<Rightarrow> n > 1)"

definition has_only_fields :: "string list \<Rightarrow> jobject \<Rightarrow> bool" where
  "has_only_fields keys ob \<longleftrightarrow>
     list_all (\<lambda>kv. fst kv \<in> set (o_deleted ob) \<or> fst kv \<in> set keys) (o_last ob)
     \<and> list_all (\<lambda>kv. fst kv \<in> set keys) (o_sets ob)"

definition object_value :: "string \<Rightarrow> jobject \<Rightarrow> string option" where
  "object_value key ob =
     (if key \<in> set (o_deleted ob) then None
      else case map_of (o_sets ob) key of
             Some v \<Rightarrow> Some v
           | None \<Rightarrow>
              (case map_of (o_last ob) key of
                 None \<Rightarrow> None
               | Some i \<Rightarrow> Some (snd (o_fields ob ! i))))"

definition object_set :: "string \<Rightarrow> string \<Rightarrow> jobject \<Rightarrow> jobject option" where
  "object_set key value ob =
     (if \<not> json_valid value then None
      else Some (ob\<lparr>o_set_order :=
                     (if map_of (o_sets ob) key = None then o_set_order ob @ [key]
                      else o_set_order ob),
                    o_sets := AList.update key value (o_sets ob),
                    o_deleted := removeAll key (o_deleted ob)\<rparr>))"

definition object_delete :: "string \<Rightarrow> jobject \<Rightarrow> jobject" where
  "object_delete key ob =
     ob\<lparr>o_sets := AList.delete key (o_sets ob), o_deleted := List.insert key (o_deleted ob)\<rparr>"

end
