(* ===== verification/Json_Scan.thy ===== *)
theory Json_Scan
  imports Json_Object
begin

text \<open>
  The byte scanners of \<open>internal/jsonobject\<close> against the JSON parser: on text the parser accepts,
  \<open>scanString\<close> stops after the closing quote the parser found and \<open>scanValueEnd\<close> runs over the
  whole value. Text is classified by what the scanners do over it: \<open>strbits\<close> (inside a string
  literal), \<open>strlit\<close> (up to and with the closing quote), \<open>bal\<close> (a value, at any depth),
  \<open>bal1\<close> (the inside of an object or array, where commas do not stop the scan).
\<close>

definition strbits :: "string \<Rightarrow> bool" where
  "strbits b \<longleftrightarrow> (\<forall>rest d.
     str_end (b @ rest) False = shift (length b) (str_end rest False)
     \<and> val_end (b @ rest) d True False = length b + val_end rest d True False)"

definition strlit :: "string \<Rightarrow> bool" where
  "strlit b \<longleftrightarrow> (\<forall>rest d.
     str_end (b @ rest) False = Some (length b)
     \<and> val_end (b @ rest) d True False = length b + val_end rest d False False)"

definition bal :: "string \<Rightarrow> bool" where
  "bal b \<longleftrightarrow> (\<forall>rest d. val_end (b @ rest) d False False = length b + val_end rest d False False)"

definition bal1 :: "string \<Rightarrow> bool" where
  "bal1 b \<longleftrightarrow> (\<forall>rest d. val_end (b @ rest) (Suc d) False False
     = length b + val_end rest (Suc d) False False)"

named_theorems scan_intros \<open>how scanned text is composed\<close>

lemma shift_simps [simp]:
  "shift 0 x = x" "shift m (shift n x) = shift (m + n) x" "map_option Suc x = shift (Suc 0) x"
  "shift n (Some i) = Some (n + i)"
  by (cases x; simp add: shift_def)+

lemma strbits_Nil [scan_intros]: "strbits []"
  by (simp add: strbits_def)

lemma strbits_append [scan_intros]: "strbits a \<Longrightarrow> strbits b \<Longrightarrow> strbits (a @ b)"
  unfolding strbits_def append_assoc
  by simp

lemma strbits_char [scan_intros]: "c \<noteq> quote \<Longrightarrow> c \<noteq> backslash \<Longrightarrow> strbits [c]"
  by (simp add: strbits_def)

lemma strbits_escape [scan_intros]: "strbits [backslash, e]"
  by (simp add: strbits_def backslash_def quote_def)

lemma strlit_quote [scan_intros]: "strlit [quote]"
  by (simp add: strlit_def backslash_def quote_def)

lemma strlit_append [scan_intros]: "strbits a \<Longrightarrow> strlit b \<Longrightarrow> strlit (a @ b)"
  unfolding strbits_def strlit_def append_assoc by simp

lemma bal_Nil [scan_intros]: "bal []"
  by (simp add: bal_def)

lemma bal_append [scan_intros]: "bal a \<Longrightarrow> bal b \<Longrightarrow> bal (a @ b)"
  unfolding bal_def append_assoc by simp

lemma bal1_append [scan_intros]: "bal1 a \<Longrightarrow> bal1 b \<Longrightarrow> bal1 (a @ b)"
  unfolding bal1_def append_assoc by simp

lemma bal_bal1 [scan_intros]: "bal a \<Longrightarrow> bal1 a"
  unfolding bal_def bal1_def by simp

lemma bal1_comma [scan_intros]: "bal1 [CHR '','']"
  by (simp add: bal1_def quote_def)

lemma bal_string [scan_intros]: "strlit b \<Longrightarrow> bal (quote # b)"
  unfolding strlit_def bal_def by simp

lemma bal_object [scan_intros]: "bal1 b \<Longrightarrow> bal (CHR ''{'' # b @ [CHR ''}''])"
  unfolding bal1_def bal_def by (simp add: quote_def)

lemma bal_array [scan_intros]: "bal1 b \<Longrightarrow> bal (CHR ''['' # b @ [CHR '']''])"
  unfolding bal1_def bal_def by (simp add: quote_def)

definition plain_char :: "char \<Rightarrow> bool" where
  "plain_char c \<longleftrightarrow> c \<notin> {quote, CHR ''{'', CHR ''['', CHR ''}'', CHR '']'', CHR '',''}"

lemma bal_plain_char: "plain_char c \<Longrightarrow> bal [c]"
  by (simp add: plain_char_def bal_def)

lemma bal_plain: "list_all plain_char cs \<Longrightarrow> bal cs"
proof (induction cs)
  case Nil
  show ?case by (rule bal_Nil)
next
  case (Cons c cs)
  then have "bal ([c] @ cs)" by (intro bal_append bal_plain_char) simp_all
  then show ?case by simp
qed

lemma strbits_plain: "list_all (\<lambda>c. c \<noteq> quote \<and> c \<noteq> backslash) cs \<Longrightarrow> strbits cs"
proof (induction cs)
  case Nil
  show ?case by (rule strbits_Nil)
next
  case (Cons c cs)
  then have "strbits ([c] @ cs)" by (intro strbits_append strbits_char) simp_all
  then show ?case by simp
qed

section \<open>String literals\<close>

lemma hex_val_plain: "hex_val c \<noteq> None \<Longrightarrow> c \<noteq> quote \<and> c \<noteq> backslash"
  by (auto simp: hex_val_def is_digit_def quote_def backslash_def)

lemma hex4_strbits:
  assumes "hex4 s = Some (r, t)" shows "\<exists>h. s = h @ t \<and> strbits h"
proof -
  from assms obtain a b c d where s: "s = a # b # c # d # t"
    and v: "hex_val a \<noteq> None" "hex_val b \<noteq> None" "hex_val c \<noteq> None" "hex_val d \<noteq> None"
    by (auto elim!: hex4.elims split: option.splits)
  have "strbits [a, b, c, d]"
    using v hex_val_plain by (intro strbits_plain) simp
  then show ?thesis using s by (intro exI [of _ "[a, b, c, d]"]) simp
qed

lemma second_half_strbits:
  assumes "second_half s = Some (r, t)" shows "\<exists>h. s = h @ t \<and> strbits h"
proof -
  from assms obtain a b u where s: "s = a # b # u" and a: "a = backslash"
    and h: "hex4 u = Some (r, t)"
    by (auto simp: second_half_def split: list.splits if_splits option.splits)
  from hex4_strbits [OF h] obtain h' where "u = h' @ t" "strbits h'" by blast
  moreover have "strbits ([backslash, b] @ h')"
    using \<open>strbits h'\<close> by (intro strbits_append strbits_escape)
  ultimately show ?thesis using s a by (intro exI [of _ "[backslash, b] @ h'"]) simp
qed

lemma unicode_escape_strbits:
  assumes "unicode_escape s = Some (x, t)" shows "\<exists>h. s = h @ t \<and> strbits h"
proof -
  obtain r u where h: "hex4 s = Some (r, u)" and
    rest: "t = u \<or> (\<exists>r2. second_half u = Some (r2, t))"
    using assms by (auto simp: unicode_escape_def split: option.splits if_splits)
  from hex4_strbits [OF h] obtain h1 where h1: "s = h1 @ u" "strbits h1" by blast
  show ?thesis
  proof (cases "t = u")
    case True
    then show ?thesis using h1 by blast
  next
    case False
    then obtain h2 where "u = h2 @ t" "strbits h2"
      using rest second_half_strbits by blast
    then have "s = (h1 @ h2) @ t" "strbits (h1 @ h2)"
      using h1 by (simp_all add: strbits_append)
    then show ?thesis by blast
  qed
qed

lemma cont_plain: "cont c \<Longrightarrow> c \<noteq> quote \<and> c \<noteq> backslash"
  by (auto simp: cont_def quote_def backslash_def)

lemma utf8_len_rest:
  "utf8_len (c # s) = Suc n \<Longrightarrow> n \<le> length s \<and> list_all cont (take n s)"
  by (auto simp: utf8_len_def split: if_splits list.splits)

lemma push_Some: "push x r = Some (v, u) \<longleftrightarrow> (\<exists>w. r = Some (w, u) \<and> v = x @ w)"
  by (auto simp: push_def split: option.splits)

subsection \<open>The end of a literal decides its value\<close>

text \<open>Over text that ends with a quote, no token looks past the end.\<close>

lemma hex_val_quote [simp]: "hex_val quote = None"
  by (simp add: hex_val_def is_digit_def quote_def)

lemma hex4_quote:
  assumes "b \<noteq> []" and "last b = quote"
  shows "hex4 (b @ u) = map_option (\<lambda>(r, t). (r, t @ u)) (hex4 b)"
proof -
  consider w where "b = [w]" | w x where "b = [w, x]" | w x y where "b = [w, x, y]"
    | w x y z t where "b = w # x # y # z # t"
    using assms(1) by (metis list.exhaust)
  then show ?thesis
  proof cases
    case 1
    with assms show ?thesis
      by (cases "u"; cases "tl u"; cases "tl (tl u)") (auto split: option.splits)
  next
    case 2
    with assms show ?thesis by (cases "u"; cases "tl u") (auto split: option.splits)
  next
    case 3
    with assms show ?thesis by (cases "u") (auto split: option.splits)
  next
    case 4
    then show ?thesis by (auto split: option.splits)
  qed
qed

lemma hex4_rest_quote:
  assumes "b \<noteq> []" and "last b = quote" and "hex4 b = Some (r, t)"
  shows "t \<noteq> [] \<and> last t = quote"
proof -
  from assms(3) obtain w x y z where b: "b = w # x # y # z # t"
    and v: "hex_val z \<noteq> None"
    by (auto elim!: hex4.elims split: option.splits)
  show ?thesis
  proof (cases t)
    case Nil
    then have "z = quote" using assms(2) b by simp
    then show ?thesis using v by simp
  next
    case Cons
    then show ?thesis using assms(2) b by simp
  qed
qed

lemma second_half_quote:
  assumes "b \<noteq> []" and "last b = quote"
  shows "second_half (b @ u) = map_option (\<lambda>(r, t). (r, t @ u)) (second_half b)"
proof (cases b)
  case Nil
  then show ?thesis using assms by simp
next
  case (Cons x c)
  show ?thesis
  proof (cases c)
    case Nil
    then have "x = quote" using Cons assms by simp
    then show ?thesis
      using Cons Nil by (cases u) (simp_all add: second_half_def quote_def backslash_def)
  next
    case (Cons y d)
    show ?thesis
    proof (cases "d = []")
      case True
      then have "y = quote" using \<open>b = x # c\<close> \<open>c = y # d\<close> assms by simp
      then show ?thesis
        using \<open>b = x # c\<close> \<open>c = y # d\<close> True by (simp add: second_half_def quote_def)
    next
      case False
      then have "last d = quote" using \<open>b = x # c\<close> \<open>c = y # d\<close> assms by simp
      from hex4_quote [OF False this, of u] show ?thesis
        using \<open>b = x # c\<close> \<open>c = y # d\<close> by (auto simp: second_half_def split: option.splits)
    qed
  qed
qed

lemma unicode_escape_quote:
  assumes "b \<noteq> []" and "last b = quote"
  shows "unicode_escape (b @ u) = map_option (\<lambda>(x, t). (x, t @ u)) (unicode_escape b)"
proof (cases "hex4 b")
  case None
  then show ?thesis using hex4_quote [OF assms, of u] by (simp add: unicode_escape_def)
next
  case (Some rt)
  obtain r t where rt: "rt = (r, t)" by (cases rt)
  have t: "t \<noteq> []" "last t = quote" using hex4_rest_quote [OF assms] Some rt by auto
  show ?thesis
    using Some rt hex4_quote [OF assms, of u] second_half_quote [OF t, of u]
    by (auto simp: unicode_escape_def split: option.splits)
qed

lemma utf8_len_quote:
  assumes "b \<noteq> []" and "last b = quote"
  shows "utf8_len (c # b @ u) = utf8_len (c # b)"
proof -
  have q: "\<not> cont quote" by (simp add: cont_def quote_def)
  consider x where "b = [x]" | x y where "b = [x, y]" | x y z t where "b = x # y # z # t"
    using assms(1) by (metis list.exhaust)
  then show ?thesis
    using assms(2) q by cases (auto simp: utf8_len_def split: list.splits)
qed

lemma string_body_strlit:
  "string_body t = Some (k, u) \<Longrightarrow>
   \<exists>b. t = b @ u \<and> strlit b \<and> b \<noteq> [] \<and> last b = quote
     \<and> (\<forall>u'. string_body (b @ u') = Some (k, u'))"
proof (induction t arbitrary: k rule: string_body.induct)
  case 1
  then show ?case by simp
next
  case (2 c s)
  note body = "2.prems" [unfolded string_body.simps(2)]
  consider (close) "c = quote"
    | (esc) e t where "c = backslash" "c \<noteq> quote" "s = e # t"
    | (plain) "c \<noteq> quote" "c \<noteq> backslash" "\<not> byte c < 32"
    using body by (cases s) (auto split: if_splits)
  then show ?case
  proof cases
    case close
    then show ?thesis
      using body strlit_quote by (intro exI [of _ "[quote]"]) (simp add: string_body.simps(2))
  next
    case esc
    show ?thesis
    proof (cases "e = CHR ''u''")
      case True
      then obtain x w v where ue: "unicode_escape t = Some (x, w)"
        and rest: "string_body w = Some (v, u)" and k: "k = x @ v"
        using body esc by (auto simp: push_Some split: option.splits)
      obtain h where h: "t = h @ w" "strbits h" using unicode_escape_strbits [OF ue] by blast
      obtain b where b: "w = b @ u" "strlit b" "b \<noteq> []" "last b = quote"
        "\<And>u'. string_body (b @ u') = Some (v, u')"
        using "2.IH"(1) [OF esc(2,1,3) True ue refl rest] by blast
      have hb: "h @ b \<noteq> []" "last (h @ b) = quote" using b by simp_all
      have "unicode_escape (h @ b) = Some (x, b)"
        using unicode_escape_quote [OF hb, of u] ue h(1) b(1) by auto
      then have "unicode_escape ((h @ b) @ u') = Some (x, b @ u')" for u'
        using unicode_escape_quote [OF hb, of u'] by simp
      then have "string_body (([backslash, e] @ h @ b) @ u') = Some (k, u')" for u'
        using True esc b(5) k by (simp add: string_body.simps(2) push_def)
      moreover have "strlit ([backslash, e] @ h @ b)"
        by (intro strlit_append strbits_escape h b)
      ultimately show ?thesis
        using esc h b by (intro exI [of _ "[backslash, e] @ h @ b"]) simp
    next
      case False
      then obtain d v where ec: "escape_char e = Some d" and rest: "string_body t = Some (v, u)"
        and k: "k = d # v"
        using body esc by (auto simp: push_Some split: option.splits)
      obtain b where b: "t = b @ u" "strlit b" "b \<noteq> []" "last b = quote"
        "\<And>u'. string_body (b @ u') = Some (v, u')"
        using "2.IH"(2) [OF esc(2,1,3) False ec rest] by blast
      have "string_body (([backslash, e] @ b) @ u') = Some (k, u')" for u'
        using False esc b(5) ec k by (simp add: string_body.simps(2) push_def)
      moreover have "strlit ([backslash, e] @ b)" by (intro strlit_append strbits_escape b)
      ultimately show ?thesis
        using esc b by (intro exI [of _ "[backslash, e] @ b"]) simp
    qed
  next
    case plain
    show ?thesis
    proof (cases "utf8_len (c # s)")
      case 0
      then obtain v where rest: "string_body s = Some (v, u)" and k: "k = replacement @ v"
        using body plain by (auto simp: push_Some)
      obtain b where b: "s = b @ u" "strlit b" "b \<noteq> []" "last b = quote"
        "\<And>u'. string_body (b @ u') = Some (v, u')"
        using "2.IH"(3) [OF plain 0 rest] by blast
      have "utf8_len (c # b @ u') = 0" for u'
        using 0 utf8_len_quote [OF b(3,4)] b(1) by simp
      then have "string_body (([c] @ b) @ u') = Some (k, u')" for u'
        using plain b(5) k by (simp add: string_body.simps(2) push_def)
      moreover have "strlit ([c] @ b)" by (intro strlit_append strbits_char plain b)
      ultimately show ?thesis using b by (intro exI [of _ "[c] @ b"]) simp
    next
      case (Suc n)
      then obtain v where rest: "string_body (drop n s) = Some (v, u)"
        and k: "k = c # take n s @ v"
        using body plain by (auto simp: push_Some)
      have ne: "utf8_len (c # s) \<noteq> 0" using Suc by simp
      obtain b where b: "drop n s = b @ u" "strlit b" "b \<noteq> []" "last b = quote"
        "\<And>u'. string_body (b @ u') = Some (v, u')"
        using "2.IH"(4) [OF plain ne] rest Suc by auto
      have n: "n \<le> length s" and cont: "list_all cont (take n s)"
        using utf8_len_rest [OF Suc] by simp_all
      define p where "p = take n s"
      have p: "length p = n" "s = p @ b @ u"
        using n b append_take_drop_id [of n s] by (simp_all add: p_def)
      have "utf8_len (c # (p @ b) @ u') = Suc n" for u'
        using Suc utf8_len_quote [of "p @ b" c] b(3,4) p(2) by simp
      then have "string_body (((c # p) @ b) @ u') = Some (k, u')" for u'
        using plain b(5) k p by (simp add: string_body.simps(2) push_def)
      moreover have "strbits (c # p)"
        using plain cont cont_plain by (intro strbits_plain) (auto simp: list_all_iff p_def)
      then have "strlit ((c # p) @ b)" using b by (intro strlit_append)
      ultimately show ?thesis using b p by (intro exI [of _ "(c # p) @ b"]) simp
    qed
  qed
qed

section \<open>Fuel and depth\<close>

lemma skip_ws_length: "length (skip_ws s) \<le> length s"
  by (simp add: skip_ws_def length_dropWhile_le)

lemma expect_length: "expect c s = Some t \<Longrightarrow> length t < length s"
  using skip_ws_length [of s] by (auto simp: expect_def split: list.splits if_splits)

lemma string_body_length: "string_body t = Some (k, u) \<Longrightarrow> length u < length t"
  using string_body_strlit [of t k u] by fastforce

lemma drop_length_less: "0 < n \<Longrightarrow> s \<noteq> [] \<Longrightarrow> length (drop n s) < length s"
  by (cases s) auto

text \<open>The parser's equations, one per shape of the input.\<close>

lemma parse_value_empty: "skip_ws s = [] \<Longrightarrow> parse_value f d s = None"
  by (cases f) simp_all

lemma parse_value_object:
  "skip_ws s = CHR ''{'' # t \<Longrightarrow> parse_value (Suc f) d s =
     (if d = 0 then None
      else case expect (CHR ''}'') t of
             Some u \<Rightarrow> Some (JObj [], u)
           | None \<Rightarrow> map_option (\<lambda>(ms, u). (JObj ms, u)) (parse_members f (d - 1) t))"
  by simp

lemma parse_value_array:
  "skip_ws s = CHR ''['' # t \<Longrightarrow> parse_value (Suc f) d s =
     (if d = 0 then None
      else case expect (CHR '']'') t of
             Some u \<Rightarrow> Some (JArr [], u)
           | None \<Rightarrow> map_option (\<lambda>(xs, u). (JArr xs, u)) (parse_elems f (d - 1) t))"
  by simp

lemma parse_value_scalar:
  "skip_ws s = c # t \<Longrightarrow> c \<noteq> CHR ''{'' \<Longrightarrow> c \<noteq> CHR ''['' \<Longrightarrow>
   parse_value (Suc f) d s = parse_scalar c t"
  by simp

lemmas parse_value_eqs = parse_value_empty parse_value_object parse_value_array
  parse_value_scalar

declare parse_value.simps(2) [simp del]

lemma value_shape:
  obtains "skip_ws s = []" | t where "skip_ws s = CHR ''{'' # t" | t where "skip_ws s = CHR ''['' # t"
    | c t where "skip_ws s = c # t" "c \<noteq> CHR ''{''" "c \<noteq> CHR ''[''"
  by (cases "skip_ws s") auto

text \<open>More depth, and more fuel, never change a result.\<close>

lemma parse_mono:
  "f \<le> g \<Longrightarrow> d \<le> e \<Longrightarrow>
     (\<forall>s r. parse_value f d s = Some r \<longrightarrow> parse_value g e s = Some r)
     \<and> (\<forall>s r. parse_members f d s = Some r \<longrightarrow> parse_members g e s = Some r)
     \<and> (\<forall>s r. parse_elems f d s = Some r \<longrightarrow> parse_elems g e s = Some r)"
proof (induction f arbitrary: g d e)
  case 0
  then show ?case by simp
next
  case (Suc f)
  from Suc.prems(1) obtain h where g: "g = Suc h" and fh: "f \<le> h" by (cases g) auto
  note IH = Suc.IH [OF fh]
  have "parse_value g e s = Some r" if r: "parse_value (Suc f) d s = Some r" for s r
  proof (cases s rule: value_shape)
    case 1
    then show ?thesis using r by (simp add: parse_value_empty)
  next
    case (2 t)
    then show ?thesis
      using r Suc.prems(2) IH [of "d - 1" "e - 1"]
      by (auto simp: g parse_value_object split: if_splits option.splits)
  next
    case (3 t)
    then show ?thesis
      using r Suc.prems(2) IH [of "d - 1" "e - 1"]
      by (auto simp: g parse_value_array split: if_splits option.splits)
  next
    case (4 c t)
    then show ?thesis using r by (simp add: g parse_value_scalar)
  qed
  moreover have "parse_members g e s = Some r" if r: "parse_members (Suc f) d s = Some r" for s r
    using r IH [OF Suc.prems(2)] by (auto simp: g split: option.splits)
  moreover have "parse_elems g e s = Some r" if r: "parse_elems (Suc f) d s = Some r" for s r
    using r IH [OF Suc.prems(2)] by (fastforce simp: g split: option.splits)
  ultimately show ?case by blast
qed

lemma parse_value_mono:
  "f \<le> g \<Longrightarrow> d \<le> e \<Longrightarrow> parse_value f d s = Some r \<Longrightarrow> parse_value g e s = Some r"
  using parse_mono by blast

section \<open>Number literals\<close>

definition no_digit :: "string \<Rightarrow> bool" where
  "no_digit t \<longleftrightarrow> t = [] \<or> \<not> is_digit (hd t)"

definition ends_ok :: "string \<Rightarrow> bool" where
  "ends_ok t \<longleftrightarrow> t = [] \<or> json_space (hd t) \<or> hd t \<in> {CHR '','', CHR ''}'', CHR '']''}"

definition num_char :: "char \<Rightarrow> bool" where
  "num_char c \<longleftrightarrow> is_digit c \<or> c \<in> {CHR ''-'', CHR ''+'', CHR ''.'', CHR ''e'', CHR ''E''}"

lemma is_digit_chars [simp]:
  "\<not> is_digit (CHR ''-'')" "\<not> is_digit (CHR ''+'')" "\<not> is_digit (CHR ''.'')"
  "\<not> is_digit (CHR ''e'')" "\<not> is_digit (CHR ''E'')" "is_digit (CHR ''0'')"
  "\<not> is_digit (CHR '','')" "\<not> is_digit (CHR ''}'')" "\<not> is_digit (CHR '']'')"
  by (simp_all add: is_digit_def)

lemma json_space_not: "json_space c \<Longrightarrow> \<not> is_digit c \<and> c \<noteq> CHR ''.'' \<and> c \<noteq> CHR ''e'' \<and> c \<noteq> CHR ''E''"
  by (auto simp: json_space_def is_digit_def)

lemma ends_ok_no: 
  assumes "ends_ok t"
  shows "no_digit t" and "t \<noteq> [] \<Longrightarrow> hd t \<notin> {CHR ''.'', CHR ''e'', CHR ''E''}"
  using assms json_space_not [of "hd t"] by (auto simp: ends_ok_def no_digit_def)

lemma dropWhile_digits:
  "list_all is_digit p \<Longrightarrow> no_digit t \<Longrightarrow> dropWhile is_digit (p @ t) = t"
  by (induction p) (cases t; auto simp: no_digit_def)+

lemma digits_split:
  "\<exists>p. t = p @ dropWhile is_digit t \<and> list_all is_digit p \<and> no_digit (dropWhile is_digit t)"
proof (intro exI conjI)
  show "t = takeWhile is_digit t @ dropWhile is_digit t" by simp
  show "list_all is_digit (takeWhile is_digit t)"
    by (auto simp: list_all_iff dest: set_takeWhileD)
  show "no_digit (dropWhile is_digit t)"
    using hd_dropWhile [of is_digit t] by (auto simp: no_digit_def)
qed

lemma last_digits: "list_all is_digit p \<Longrightarrow> p \<noteq> [] \<Longrightarrow> is_digit (last p)"
  by (simp add: list_all_iff)

lemma scan_digits1_shape:
  assumes "scan_digits1 s = Some t"
  shows "\<exists>p. s = p @ t \<and> p \<noteq> [] \<and> list_all is_digit p
    \<and> (\<forall>t'. no_digit t' \<longrightarrow> scan_digits1 (p @ t') = Some t')"
proof -
  from assms obtain c u where s: "s = c # u" "is_digit c" "t = dropWhile is_digit u"
    by (auto simp: scan_digits1_def split: list.splits if_splits)
  obtain p where p: "u = p @ t" "list_all is_digit p" using digits_split [of u] s(3) by auto
  then show ?thesis
    using s(1,2) dropWhile_digits
    by (intro exI [of _ "c # p"]) (auto simp: scan_digits1_def)
qed

lemma scan_int_shape:
  assumes "scan_int s = Some t"
  shows "\<exists>p. s = p @ t \<and> p \<noteq> [] \<and> list_all is_digit p
    \<and> (\<forall>t'. no_digit t' \<longrightarrow> scan_int (p @ t') = Some t')"
proof -
  from assms obtain c u where s: "s = c # u" "is_digit c"
    and t: "(c = CHR ''0'' \<and> t = u) \<or> (c \<noteq> CHR ''0'' \<and> t = dropWhile is_digit u)"
    by (auto simp: scan_int_def split: list.splits if_splits)
  show ?thesis
  proof (cases "c = CHR ''0''")
    case True
    then show ?thesis using s t by (intro exI [of _ "[c]"]) (auto simp: scan_int_def)
  next
    case False
    obtain p where p: "u = p @ t" "list_all is_digit p"
      using digits_split [of u] t False by auto
    then show ?thesis
      using s False dropWhile_digits
      by (intro exI [of _ "c # p"]) (auto simp: scan_int_def)
  qed
qed

lemma digits_num_char: "list_all is_digit p \<Longrightarrow> list_all num_char p"
  by (auto simp: list_all_iff num_char_def)

lemma scan_frac_shape:
  assumes "scan_frac s = Some t"
  shows "\<exists>p. s = p @ t \<and> list_all num_char p
    \<and> (p = [] \<or> (hd p = CHR ''.'' \<and> is_digit (last p)))
    \<and> (\<forall>t'. no_digit t' \<longrightarrow> (t' \<noteq> [] \<longrightarrow> hd t' \<noteq> CHR ''.'') \<longrightarrow> scan_frac (p @ t') = Some t')"
proof (cases "s \<noteq> [] \<and> hd s = CHR ''.''")
  case False
  then have "t = s" using assms by (cases s) (auto simp: scan_frac_def)
  moreover have "scan_frac t' = Some t'" if "t' \<noteq> [] \<longrightarrow> hd t' \<noteq> CHR ''.''" for t'
    using that by (cases t') (auto simp: scan_frac_def)
  ultimately show ?thesis by (intro exI [of _ "[]"]) auto
next
  case True
  then obtain u where s: "s = CHR ''.'' # u" by (cases s) auto
  then have "scan_digits1 u = Some t" using assms by (simp add: scan_frac_def)
  from scan_digits1_shape [OF this] obtain p where p: "u = p @ t" "p \<noteq> []" "list_all is_digit p"
    "\<And>t'. no_digit t' \<Longrightarrow> scan_digits1 (p @ t') = Some t'" by blast
  then show ?thesis
    using s last_digits [OF p(3,2)] digits_num_char [OF p(3)]
    by (intro exI [of _ "CHR ''.'' # p"]) (auto simp: scan_frac_def num_char_def)
qed

lemma scan_exp_shape:
  assumes "scan_exp s = Some t"
  shows "\<exists>p. s = p @ t \<and> list_all num_char p
    \<and> (p = [] \<or> (hd p \<in> {CHR ''e'', CHR ''E''} \<and> is_digit (last p)))
    \<and> (\<forall>t'. ends_ok t' \<longrightarrow> scan_exp (p @ t') = Some t')"
proof (cases "s \<noteq> [] \<and> hd s \<in> {CHR ''e'', CHR ''E''}")
  case False
  then have "t = s" using assms by (cases s) (auto simp: scan_exp_def)
  moreover have "scan_exp t' = Some t'" if "ends_ok t'" for t'
    using ends_ok_no(2) [OF that] by (cases t') (auto simp: scan_exp_def)
  ultimately show ?thesis by (intro exI [of _ "[]"]) auto
next
  case True
  then obtain c u where s: "s = c # u" "c \<in> {CHR ''e'', CHR ''E''}" by (cases s) auto
  then obtain d v where u: "u = d # v"
    and sd: "scan_digits1 (if d = CHR ''+'' \<or> d = CHR ''-'' then v else u) = Some t"
    using assms by (auto simp: scan_exp_def split: list.splits if_splits)
  from scan_digits1_shape [OF sd] obtain p where
    p: "(if d = CHR ''+'' \<or> d = CHR ''-'' then v else u) = p @ t" "p \<noteq> []" "list_all is_digit p"
    "\<And>t'. no_digit t' \<Longrightarrow> scan_digits1 (p @ t') = Some t'" by blast
  show ?thesis
  proof (cases "d = CHR ''+'' \<or> d = CHR ''-''")
    case True
    then have "v = p @ t" using p(1) by simp
    then show ?thesis
      using True s u p(2,3,4) last_digits [OF p(3,2)] digits_num_char [OF p(3)] ends_ok_no(1)
      by (intro exI [of _ "c # d # p"]) (auto simp: scan_exp_def num_char_def)
  next
    case False
    then have v: "u = p @ t" using p(1) by simp
    then obtain q where q: "p = d # q" using p(2) u by (cases p) auto
    then show ?thesis
      using False s v p(3,4) last_digits [OF p(3,2)] digits_num_char [OF p(3)] ends_ok_no(1)
      by (intro exI [of _ "c # p"]) (auto simp: scan_exp_def num_char_def)
  qed
qed

lemma scan_number_shape:
  assumes "scan_number s = Some (l, rest)"
  shows "s = l @ rest \<and> l \<noteq> [] \<and> list_all num_char l \<and> is_digit (last l)
    \<and> (\<forall>t'. ends_ok t' \<longrightarrow> scan_number (l @ t') = Some (l, t'))"
proof -
  from assms obtain t1 t2 where i: "scan_int (scan_sign s) = Some t1"
    and f: "scan_frac t1 = Some t2" and e: "scan_exp t2 = Some rest"
    and l: "l = take (length s - length rest) s"
    by (auto simp: scan_number_def split: option.splits bind_splits)
  obtain p1 where p1: "scan_sign s = p1 @ t1" "p1 \<noteq> []" "list_all is_digit p1"
    "\<And>t'. no_digit t' \<Longrightarrow> scan_int (p1 @ t') = Some t'"
    using scan_int_shape [OF i] by blast
  obtain p2 where p2: "t1 = p2 @ t2" "list_all num_char p2"
    "p2 = [] \<or> (hd p2 = CHR ''.'' \<and> is_digit (last p2))"
    "\<And>t'. no_digit t' \<Longrightarrow> (t' \<noteq> [] \<longrightarrow> hd t' \<noteq> CHR ''.'') \<Longrightarrow> scan_frac (p2 @ t') = Some t'"
    using scan_frac_shape [OF f] by blast
  obtain p3 where p3: "t2 = p3 @ rest" "list_all num_char p3"
    "p3 = [] \<or> (hd p3 \<in> {CHR ''e'', CHR ''E''} \<and> is_digit (last p3))"
    "\<And>t'. ends_ok t' \<Longrightarrow> scan_exp (p3 @ t') = Some t'"
    using scan_exp_shape [OF e] by blast
  define sg where "sg = (if s \<noteq> [] \<and> hd s = CHR ''-'' then ''-'' else [])"
  have sg: "s = sg @ scan_sign s" "sg = [] \<or> sg = ''-''"
    by (cases s; simp add: sg_def scan_sign_def)+
  have s: "s = (sg @ p1 @ p2 @ p3) @ rest" using sg(1) p1(1) p2(1) p3(1) by simp
  then have l': "l = sg @ p1 @ p2 @ p3" unfolding l by simp
  have last: "is_digit (last l)"
    using last_digits [OF p1(3,2)] p1(2) p2(3) p3(3) by (auto simp: l' last_append)
  have chars: "list_all num_char l"
    using digits_num_char [OF p1(3)] p2(2) p3(2) sg(2) by (auto simp: l' num_char_def)
  have h1: "hd p1 \<noteq> CHR ''-''" using p1(2,3) by (cases p1) auto
  have again: "scan_number (l @ t') = Some (l, t')" if ok: "ends_ok t'" for t'
  proof -
    have "scan_sign (l @ t') = p1 @ p2 @ p3 @ t'"
      using sg(2) h1 p1(2) by (cases p1) (auto simp: l' scan_sign_def)
    moreover have "scan_int (p1 @ p2 @ p3 @ t') = Some (p2 @ p3 @ t')"
      using p2(3) p3(3) ends_ok_no(1) [OF ok]
      by (intro p1(4)) (cases p2; cases p3; auto simp: no_digit_def)
    moreover have "scan_frac (p2 @ p3 @ t') = Some (p3 @ t')"
      using p3(3) ends_ok_no [OF ok] 
      by (intro p2(4)) (cases p3; auto simp: no_digit_def)+
    moreover have "scan_exp (p3 @ t') = Some t'" by (rule p3(4) [OF ok])
    ultimately show ?thesis by (simp add: scan_number_def)
  qed
  show ?thesis using s l' p1(2) last chars again by auto
qed

section \<open>Values\<close>

definition edge :: "char \<Rightarrow> bool" where
  "edge c \<longleftrightarrow> byte c < 128 \<and> \<not> ascii_space c"

lemma edge_chars [simp]:
  "edge quote" "edge (CHR ''{'')" "edge (CHR ''['')" "edge (CHR ''}'')" "edge (CHR '']'')"
  "edge (CHR ''e'')" "edge (CHR ''l'')" "edge (CHR ''t'')" "edge (CHR ''f'')" "edge (CHR ''n'')"
  by (simp_all add: edge_def ascii_space_def quote_def)

lemma edge_num_char: "num_char c \<Longrightarrow> edge c"
  by (auto simp: num_char_def edge_def ascii_space_def is_digit_def)

lemma edge_not_space: "edge c \<Longrightarrow> \<not> json_space c"
  by (auto simp: edge_def ascii_space_def json_space_def)

lemma plain_num_char: "num_char c \<Longrightarrow> plain_char c"
  by (auto simp: num_char_def plain_char_def is_digit_def quote_def)

lemma plain_space: "json_space c \<Longrightarrow> plain_char c"
  by (auto simp: json_space_def plain_char_def quote_def)

lemma bal_space: "list_all json_space w \<Longrightarrow> bal w"
  by (rule bal_plain) (auto simp: list_all_iff plain_space)

lemma skip_ws_append [simp]: "list_all json_space w \<Longrightarrow> skip_ws (w @ s) = skip_ws s"
  by (induction w) (simp_all add: skip_ws_def)

lemma skip_ws_edge [simp]: "edge c \<Longrightarrow> skip_ws (c # t) = c # t"
  by (simp add: skip_ws_def edge_not_space)

lemma skip_ws_split:
  assumes "skip_ws s = c # t"
  shows "\<exists>w. s = w @ c # t \<and> list_all json_space w \<and> \<not> json_space c"
proof (intro exI conjI)
  show "s = takeWhile json_space s @ c # t"
    using assms by (metis skip_ws_def takeWhile_dropWhile_id)
  show "list_all json_space (takeWhile json_space s)"
    by (auto simp: list_all_iff dest: set_takeWhileD)
  show "\<not> json_space c"
    using assms hd_dropWhile [of json_space s] by (simp add: skip_ws_def)
qed

lemma expect_split: "expect c s = Some t \<Longrightarrow> \<exists>w. s = w @ c # t \<and> list_all json_space w"
  using skip_ws_split by (fastforce simp: expect_def split: list.splits if_splits)

lemma expect_append: "list_all json_space w \<Longrightarrow> \<not> json_space c \<Longrightarrow> expect c (w @ c # t) = Some t"
  by (simp add: expect_def) (simp add: skip_ws_def)

lemma expect_other: "expect c s = Some t \<Longrightarrow> c' \<noteq> c \<Longrightarrow> expect c' s = None"
  by (auto simp: expect_def split: list.splits if_splits)

lemma not_space_chars [simp]:
  "\<not> json_space quote" "\<not> json_space (CHR '':'')" "\<not> json_space (CHR '','')"
  "\<not> json_space (CHR ''}'')" "\<not> json_space (CHR '']'')"
  by (simp_all add: json_space_def quote_def)

lemma quote_other [simp]:
  "CHR ''}'' \<noteq> quote" "CHR '']'' \<noteq> quote" "CHR '','' \<noteq> quote" "CHR '':'' \<noteq> quote"
  "quote \<noteq> CHR ''}''" "quote \<noteq> CHR '']''" "quote \<noteq> CHR '',''" "quote \<noteq> CHR '':''"
  "quote \<noteq> CHR ''{''" "quote \<noteq> CHR ''[''"
  by (simp_all add: quote_def)

lemma parse_value_not_close: "expect (CHR '']'') s = Some u \<Longrightarrow> parse_value f d s = None"
  by (cases f) (auto simp: expect_def parse_value_scalar parse_scalar_def scan_number_def
      scan_sign_def scan_int_def split: list.splits if_splits)

lemma literal_shape:
  assumes "has_prefix lit s"
  shows "s = lit @ drop (length lit) s"
  using assms by (auto simp: has_prefix_iff)

lemma parse_literal_shape:
  assumes p: "has_prefix lit (c # t)" and lit: "lit = c # l" "list_all plain_char lit"
      "edge c" "edge (last lit)"
    and r: "rest = drop (length lit) (c # t)"
    and again: "\<And>r'. parse_scalar c (l @ r') = Some (x, r')"
  shows "\<exists>tx. c # t = c # tx @ rest \<and> edge c \<and> edge (last (c # tx)) \<and> bal (c # tx)
    \<and> (\<forall>rest'. ends_ok rest' \<longrightarrow> parse_scalar c (tx @ rest') = Some (x, rest'))"
proof -
  have "c # t = c # l @ rest" using literal_shape [OF p] lit(1) r by simp
  moreover have "bal (c # l)" using bal_plain [OF lit(2)] lit(1) by simp
  ultimately show ?thesis using lit again by (intro exI [of _ l]) auto
qed

lemma parse_scalar_shape:
  assumes "parse_scalar c t = Some (v, rest)"
  shows "\<exists>tx. c # t = c # tx @ rest \<and> edge c \<and> edge (last (c # tx)) \<and> bal (c # tx)
    \<and> (\<forall>rest'. ends_ok rest' \<longrightarrow> parse_scalar c (tx @ rest') = Some (v, rest'))"
proof -
  consider (str) k where "c = quote" "string_body t = Some (k, rest)" "v = JStr k"
    | (tr) "has_prefix ''true'' (c # t)" "v = JBool True" "rest = drop 4 (c # t)"
    | (fa) "has_prefix ''false'' (c # t)" "v = JBool False" "rest = drop 5 (c # t)"
    | (nu) "has_prefix ''null'' (c # t)" "v = JNull" "rest = drop 4 (c # t)"
    | (num) l where "c \<noteq> quote" "scan_number (c # t) = Some (l, rest)" "v = JNum l"
    using assms unfolding parse_scalar_def by (auto split: if_splits simp del: has_prefix.simps)
  then show ?thesis
  proof cases
    case str
    from string_body_strlit [OF str(2)] obtain b where b: "t = b @ rest" "strlit b" "b \<noteq> []"
      "last b = quote" "\<And>u'. string_body (b @ u') = Some (k, u')" by blast
    then show ?thesis
      using str bal_string [OF b(2)] by (intro exI [of _ b]) (simp add: parse_scalar_def)
  next
    case tr
    then show ?thesis
      unfolding tr(2)
      by (intro parse_literal_shape [of "''true''" c t "''rue''"])
        (auto simp: parse_scalar_def plain_char_def quote_def eval_nat_numeral)
  next
    case fa
    then show ?thesis
      unfolding fa(2)
      by (intro parse_literal_shape [of "''false''" c t "''alse''"])
        (auto simp: parse_scalar_def plain_char_def quote_def eval_nat_numeral)
  next
    case nu
    then show ?thesis
      unfolding nu(2)
      by (intro parse_literal_shape [of "''null''" c t "''ull''"])
        (auto simp: parse_scalar_def plain_char_def quote_def eval_nat_numeral)
  next
    case num
    note n = scan_number_shape [OF num(2)]
    obtain l' where l: "l = c # l'" using n by (cases l) auto
    have c: "num_char c" using n l by simp
    then have notlit: "\<not> has_prefix ''true'' (c # r)" "\<not> has_prefix ''false'' (c # r)"
      "\<not> has_prefix ''null'' (c # r)" for r
      by (auto simp: num_char_def is_digit_def)
    have "bal l" using n by (intro bal_plain) (auto simp: list_all_iff plain_num_char)
    moreover have "edge (last l)" using n by (auto intro!: edge_num_char simp: num_char_def)
    ultimately show ?thesis
      using n num l notlit edge_num_char [OF c]
      by (intro exI [of _ l']) (auto simp: parse_scalar_def simp del: has_prefix.simps)
  qed
qed

text \<open>What the parser consumes for a value: white space, then a text on which the scanners are
  balanced, and which alone decides the value.\<close>

definition value_text :: "nat \<Rightarrow> nat \<Rightarrow> string \<Rightarrow> json \<Rightarrow> string \<Rightarrow> string \<Rightarrow> string \<Rightarrow> bool" where
  "value_text f d s v w tx rest \<longleftrightarrow>
     s = w @ tx @ rest \<and> list_all json_space w \<and> tx \<noteq> [] \<and> edge (hd tx) \<and> edge (last tx)
     \<and> bal tx
     \<and> (\<forall>w' rest'. list_all json_space w' \<longrightarrow> ends_ok rest' \<longrightarrow>
          parse_value f d (w' @ tx @ rest') = Some (v, rest'))"

definition members_text ::
  "nat \<Rightarrow> nat \<Rightarrow> string \<Rightarrow> (string \<times> json) list \<Rightarrow> string \<Rightarrow> string \<Rightarrow> bool" where
  "members_text f d s ms b rest \<longleftrightarrow> s = b @ CHR ''}'' # rest \<and> bal1 b
     \<and> (\<forall>rest'. parse_members f d (b @ CHR ''}'' # rest') = Some (ms, rest'))"

definition elems_text :: "nat \<Rightarrow> nat \<Rightarrow> string \<Rightarrow> json list \<Rightarrow> string \<Rightarrow> string \<Rightarrow> bool" where
  "elems_text f d s xs b rest \<longleftrightarrow> s = b @ CHR '']'' # rest \<and> bal1 b
     \<and> (\<forall>rest'. parse_elems f d (b @ CHR '']'' # rest') = Some (xs, rest'))"

lemma ends_ok_intro:
  "list_all json_space w \<Longrightarrow> c \<in> {CHR '','', CHR ''}'', CHR '']''} \<Longrightarrow> ends_ok (w @ c # t)"
  by (cases w) (auto simp: ends_ok_def)

lemma value_textI:
  assumes "s = w @ c # t @ rest" and "list_all json_space w" and "edge c" and "edge (last (c # t))"
    and "bal (c # t)"
    and "\<And>w' rest'. list_all json_space w' \<Longrightarrow> ends_ok rest' \<Longrightarrow>
          parse_value f d (w' @ c # t @ rest') = Some (v, rest')"
  shows "value_text f d s v w (c # t) rest"
  using assms by (simp add: value_text_def)

lemma expect_quote_not_close: "parse_members f d s = Some r \<Longrightarrow> expect (CHR ''}'') s = None"
  by (cases f) (auto split: option.splits intro: expect_other [where c = quote])

lemma parse_elems_not_close: "parse_elems f d s = Some r \<Longrightarrow> expect (CHR '']'') s = None"
proof (rule ccontr)
  assume r: "parse_elems f d s = Some r" and "expect (CHR '']'') s \<noteq> None"
  then obtain u where "expect (CHR '']'') s = Some u" by auto
  then have "parse_value g d s = None" for g by (rule parse_value_not_close)
  then show False using r by (cases f) (auto split: option.splits)
qed

lemma object_value_text:
  assumes s: "s = w @ CHR ''{'' # b @ CHR ''}'' # rest" and w: "list_all json_space w"
    and b: "bal1 b" and d: "d \<noteq> 0"
    and again: "\<And>rest'. (case expect (CHR ''}'') (b @ CHR ''}'' # rest') of
         Some u \<Rightarrow> Some (JObj [], u)
       | None \<Rightarrow> map_option (\<lambda>(ms, u). (JObj ms, u)) (parse_members f (d - 1) (b @ CHR ''}'' # rest')))
       = Some (v, rest')"
  shows "value_text (Suc f) d s v w (CHR ''{'' # b @ ''}'') rest"
  by (rule value_textI)
    (use s w bal_object [OF b] d again in \<open>simp_all add: parse_value_object\<close>)

lemma array_value_text:
  assumes s: "s = w @ CHR ''['' # b @ CHR '']'' # rest" and w: "list_all json_space w"
    and b: "bal1 b" and d: "d \<noteq> 0"
    and again: "\<And>rest'. (case expect (CHR '']'') (b @ CHR '']'' # rest') of
         Some u \<Rightarrow> Some (JArr [], u)
       | None \<Rightarrow> map_option (\<lambda>(ms, u). (JArr ms, u)) (parse_elems f (d - 1) (b @ CHR '']'' # rest')))
       = Some (v, rest')"
  shows "value_text (Suc f) d s v w (CHR ''['' # b @ '']'') rest"
  by (rule value_textI)
    (use s w bal_array [OF b] d again in \<open>simp_all add: parse_value_array\<close>)

lemma parse_value_step:
  assumes r: "parse_value (Suc f) d s = Some (v, rest)"
    and mem: "\<And>d s ms rest. parse_members f d s = Some (ms, rest) \<Longrightarrow> \<exists>b. members_text f d s ms b rest"
    and elm: "\<And>d s xs rest. parse_elems f d s = Some (xs, rest) \<Longrightarrow> \<exists>b. elems_text f d s xs b rest"
  shows "\<exists>w tx. value_text (Suc f) d s v w tx rest"
proof (cases s rule: value_shape)
  case 1
  then show ?thesis using r by (simp add: parse_value_empty)
next
  case (2 t)
  obtain w where w: "s = w @ CHR ''{'' # t" "list_all json_space w"
    using skip_ws_split [OF 2] by blast
  have d: "d \<noteq> 0" using r 2 by (cases d) (auto simp: parse_value_object)
  show ?thesis
  proof (cases "expect (CHR ''}'') t")
    case (Some u)
    then have v: "v = JObj []" "rest = u" using r 2 d by (auto simp: parse_value_object)
    obtain b where b: "t = b @ CHR ''}'' # u" "list_all json_space b"
      using expect_split [OF Some] by blast
    have "value_text (Suc f) d s v w (CHR ''{'' # b @ ''}'') rest"
      by (rule object_value_text)
        (use w b v d bal_bal1 [OF bal_space] expect_append in auto)
    then show ?thesis by blast
  next
    case None
    then obtain ms where ms: "parse_members f (d - 1) t = Some (ms, rest)" "v = JObj ms"
      using r 2 d by (auto simp: parse_value_object)
    obtain b where b: "t = b @ CHR ''}'' # rest" "bal1 b"
      "\<And>rest'. parse_members f (d - 1) (b @ CHR ''}'' # rest') = Some (ms, rest')"
      using mem [OF ms(1)] by (auto simp: members_text_def)
    have "value_text (Suc f) d s v w (CHR ''{'' # b @ ''}'') rest"
      by (rule object_value_text)
        (use w b ms d expect_quote_not_close [OF b(3)] in auto)
    then show ?thesis by blast
  qed
next
  case (3 t)
  obtain w where w: "s = w @ CHR ''['' # t" "list_all json_space w"
    using skip_ws_split [OF 3] by blast
  have d: "d \<noteq> 0" using r 3 by (cases d) (auto simp: parse_value_array)
  show ?thesis
  proof (cases "expect (CHR '']'') t")
    case (Some u)
    then have v: "v = JArr []" "rest = u" using r 3 d by (auto simp: parse_value_array)
    obtain b where b: "t = b @ CHR '']'' # u" "list_all json_space b"
      using expect_split [OF Some] by blast
    have "value_text (Suc f) d s v w (CHR ''['' # b @ '']'') rest"
      by (rule array_value_text)
        (use w b v d bal_bal1 [OF bal_space] expect_append in auto)
    then show ?thesis by blast
  next
    case None
    then obtain xs where xs: "parse_elems f (d - 1) t = Some (xs, rest)" "v = JArr xs"
      using r 3 d by (auto simp: parse_value_array)
    obtain b where b: "t = b @ CHR '']'' # rest" "bal1 b"
      "\<And>rest'. parse_elems f (d - 1) (b @ CHR '']'' # rest') = Some (xs, rest')"
      using elm [OF xs(1)] by (auto simp: elems_text_def)
    have "value_text (Suc f) d s v w (CHR ''['' # b @ '']'') rest"
      by (rule array_value_text)
        (use w b xs d parse_elems_not_close [OF b(3)] in auto)
    then show ?thesis by blast
  qed
next
  case (4 c t)
  obtain w where w: "s = w @ c # t" "list_all json_space w"
    using skip_ws_split [OF 4(1)] by blast
  have "parse_scalar c t = Some (v, rest)" using r 4 by (simp add: parse_value_scalar)
  from parse_scalar_shape [OF this] obtain tx where tx: "t = tx @ rest" "edge c"
    "edge (last (c # tx))" "bal (c # tx)"
    "\<And>rest'. ends_ok rest' \<Longrightarrow> parse_scalar c (tx @ rest') = Some (v, rest')" by auto
  have "value_text (Suc f) d s v w (c # tx) rest"
    by (rule value_textI) (use w tx 4 in \<open>simp_all add: parse_value_scalar\<close>)
  then show ?thesis by blast
qed

lemma parse_elems_step:
  assumes r: "parse_elems (Suc f) d s = Some (xs, rest)"
    and val: "\<And>d s v rest. parse_value f d s = Some (v, rest) \<Longrightarrow> \<exists>w tx. value_text f d s v w tx rest"
    and elm: "\<And>d s xs rest. parse_elems f d s = Some (xs, rest) \<Longrightarrow> \<exists>b. elems_text f d s xs b rest"
  shows "\<exists>b. elems_text (Suc f) d s xs b rest"
proof -
  from r obtain x u where x: "parse_value f d s = Some (x, u)"
    by (auto split: option.splits)
  obtain w tx where tx: "value_text f d s x w tx u" using val [OF x] by blast
  have balw: "bal (w @ tx)" using tx by (auto simp: value_text_def intro: bal_append bal_space)
  show ?thesis
  proof (cases "expect (CHR '','') u")
    case (Some y)
    obtain ys where ys: "parse_elems f d y = Some (ys, rest)" "xs = x # ys"
      using r x Some by (auto split: option.splits)
    obtain b where b: "y = b @ CHR '']'' # rest" "bal1 b"
      "\<And>rest'. parse_elems f d (b @ CHR '']'' # rest') = Some (ys, rest')"
      using elm [OF ys(1)] by (auto simp: elems_text_def)
    obtain w2 where w2: "u = w2 @ CHR '','' # y" "list_all json_space w2"
      using expect_split [OF Some] by blast
    have again: "parse_elems (Suc f) d (w @ tx @ w2 @ CHR '','' # b @ CHR '']'' # rest')
        = Some (xs, rest')" for rest'
      using tx ends_ok_intro [OF w2(2)] expect_append [OF w2(2), of "CHR '',''"] b(3) ys(2)
      by (auto simp: value_text_def)
    have "bal1 ((w @ tx) @ w2 @ [CHR '',''] @ b)"
      by (intro bal1_append bal_bal1 balw bal_space w2 bal1_comma b)
    then have "elems_text (Suc f) d s xs (w @ tx @ w2 @ CHR '','' # b) rest"
      using tx w2 b again by (simp add: elems_text_def value_text_def)
    then show ?thesis by blast
  next
    case None
    then obtain y where y: "expect (CHR '']'') u = Some y" "xs = [x]" "y = rest"
      using r x by (auto split: option.splits)
    obtain w2 where w2: "u = w2 @ CHR '']'' # y" "list_all json_space w2"
      using expect_split [OF y(1)] by blast
    have "parse_elems (Suc f) d (w @ tx @ w2 @ CHR '']'' # rest') = Some (xs, rest')" for rest'
    proof -
      have e: "expect (CHR '']'') (w2 @ CHR '']'' # rest') = Some rest'"
        using w2 by (intro expect_append) auto
      then have "expect (CHR '','') (w2 @ CHR '']'' # rest') = None" by (rule expect_other) simp
      then show ?thesis
        using tx ends_ok_intro [OF w2(2)] e y(2) by (auto simp: value_text_def)
    qed
    moreover have "bal1 ((w @ tx) @ w2)"
      by (intro bal1_append bal_bal1 balw bal_space w2)
    ultimately have "elems_text (Suc f) d s xs (w @ tx @ w2) rest"
      using tx w2 y by (simp add: elems_text_def value_text_def)
    then show ?thesis by blast
  qed
qed

text \<open>One member: white space, the literal of the key, a colon between white space, a value; what
  follows it starts with white space, a comma or a closing brace.\<close>

definition member_text ::
  "nat \<Rightarrow> nat \<Rightarrow> string \<Rightarrow> string \<Rightarrow> json \<Rightarrow> string \<Rightarrow> string \<Rightarrow> string \<Rightarrow> string \<Rightarrow> string \<Rightarrow> string \<Rightarrow> bool"
where
  "member_text f d s k v w0 lit w1 w2 tx rest \<longleftrightarrow>
     s = w0 @ quote # lit @ w1 @ CHR '':'' # w2 @ tx @ rest
     \<and> list_all json_space w0 \<and> list_all json_space w1
     \<and> strlit lit \<and> lit \<noteq> [] \<and> last lit = quote \<and> (\<forall>u'. string_body (lit @ u') = Some (k, u'))
     \<and> value_text f d (w2 @ tx @ rest) v w2 tx rest"

lemma member_parse:
  assumes "member_text f d s k v w0 lit w1 w2 tx rest" and "ends_ok rest'"
  shows "expect quote (w0 @ quote # lit @ w1 @ CHR '':'' # w2 @ tx @ rest')
      = Some (lit @ w1 @ CHR '':'' # w2 @ tx @ rest')"
    and "expect (CHR '':'') (w1 @ CHR '':'' # w2 @ tx @ rest') = Some (w2 @ tx @ rest')"
    and "string_body (lit @ w1 @ CHR '':'' # w2 @ tx @ rest') = Some (k, w1 @ CHR '':'' # w2 @ tx @ rest')"
    and "parse_value f d (w2 @ tx @ rest') = Some (v, rest')"
  using assms expect_append by (auto simp: member_text_def value_text_def)

lemma member_bal:
  assumes "member_text f d s k v w0 lit w1 w2 tx rest"
  shows "bal (w0 @ quote # lit @ w1 @ CHR '':'' # w2 @ tx)"
proof -
  have "bal w0" "bal w1" "bal w2" "bal (quote # lit)" "bal tx"
    using assms by (auto simp: member_text_def value_text_def intro: bal_space bal_string)
  moreover have "bal [CHR '':'']" by (rule bal_plain_char) (simp add: plain_char_def)
  ultimately have "bal (w0 @ (quote # lit) @ w1 @ [CHR '':''] @ w2 @ tx)"
    by (intro bal_append)
  then show ?thesis by simp
qed

lemma parse_members_first:
  assumes r: "parse_members (Suc f) d s = Some (ms, rest)"
    and val: "\<And>d s v rest. parse_value f d s = Some (v, rest) \<Longrightarrow> \<exists>w tx. value_text f d s v w tx rest"
  obtains k v ms' w0 lit w1 w2 tx w3 u c where
    "member_text f d s k v w0 lit w1 w2 tx (w3 @ c # u)" and "list_all json_space w3"
    and "ms = (k, v) # ms'"
    and "(c = CHR '','' \<and> parse_members f d u = Some (ms', rest)) \<or> (c = CHR ''}'' \<and> ms' = [] \<and> u = rest)"
proof -
  from r obtain t k u1 v1 v w where a: "expect quote s = Some t" "string_body t = Some (k, u1)"
    "expect (CHR '':'') u1 = Some v1" "parse_value f d v1 = Some (v, w)"
    by (auto split: option.splits)
  obtain w0 where w0: "s = w0 @ quote # t" "list_all json_space w0" using expect_split [OF a(1)] by blast
  obtain lit where lit: "t = lit @ u1" "strlit lit" "lit \<noteq> []" "last lit = quote"
    "\<forall>u'. string_body (lit @ u') = Some (k, u')"
    using string_body_strlit [OF a(2)] by blast
  obtain w1 where w1: "u1 = w1 @ CHR '':'' # v1" "list_all json_space w1"
    using expect_split [OF a(3)] by blast
  obtain w2 tx where tx: "value_text f d v1 v w2 tx w" using val [OF a(4)] by blast
  then have v1: "v1 = w2 @ tx @ w" by (simp add: value_text_def)
  have m: "member_text f d s k v w0 lit w1 w2 tx w"
    using w0 lit w1 tx v1 by (simp add: member_text_def)
  show thesis
  proof (cases "expect (CHR '','') w")
    case (Some y)
    then obtain ms' where "parse_members f d y = Some (ms', rest)" "ms = (k, v) # ms'"
      using r a by (auto split: option.splits)
    moreover obtain w3 where "w = w3 @ CHR '','' # y" "list_all json_space w3"
      using expect_split [OF Some] by blast
    ultimately show thesis using that m by blast
  next
    case None
    then have "expect (CHR ''}'') w = Some rest" "ms = [(k, v)]"
      using r a by (auto split: option.splits)
    moreover then obtain w3 where "w = w3 @ CHR ''}'' # rest" "list_all json_space w3"
      using expect_split by blast
    ultimately show thesis using that m by blast
  qed
qed

lemma parse_members_step:
  assumes r: "parse_members (Suc f) d s = Some (ms, rest)"
    and val: "\<And>d s v rest. parse_value f d s = Some (v, rest) \<Longrightarrow> \<exists>w tx. value_text f d s v w tx rest"
    and mem: "\<And>d s ms rest. parse_members f d s = Some (ms, rest) \<Longrightarrow> \<exists>b. members_text f d s ms b rest"
  shows "\<exists>b. members_text (Suc f) d s ms b rest"
proof (rule parse_members_first [OF r val])
  fix k v ms' w0 lit w1 w2 tx w3 u c
  assume m: "member_text f d s k v w0 lit w1 w2 tx (w3 @ c # u)" and w3: "list_all json_space w3"
    and ms: "ms = (k, v) # ms'"
    and c: "(c = CHR '','' \<and> parse_members f d u = Some (ms', rest)) \<or> (c = CHR ''}'' \<and> ms' = [] \<and> u = rest)"
  define q where "q = w0 @ quote # lit @ w1 @ CHR '':'' # w2 @ tx"
  have q: "bal q" unfolding q_def by (rule member_bal [OF m])
  have s: "s = q @ w3 @ c # u" using m by (simp add: member_text_def q_def)
  from c show ?thesis
  proof
    assume c: "c = CHR '','' \<and> parse_members f d u = Some (ms', rest)"
    then obtain b where b: "u = b @ CHR ''}'' # rest" "bal1 b"
      "\<And>rest'. parse_members f d (b @ CHR ''}'' # rest') = Some (ms', rest')"
      using mem [of d u ms' rest] by (auto simp: members_text_def)
    have "parse_members (Suc f) d (q @ w3 @ CHR '','' # b @ CHR ''}'' # rest') = Some (ms, rest')"
      for rest'
      using member_parse [OF m ends_ok_intro [OF w3, of "CHR '',''"]] b(3) ms
        expect_append [OF w3, of "CHR '',''"]
      by (simp add: q_def)
    moreover have "bal1 (q @ w3 @ [CHR '',''] @ b)"
      by (intro bal1_append bal_bal1 q bal_space w3 bal1_comma b)
    ultimately have "members_text (Suc f) d s ms (q @ w3 @ CHR '','' # b) rest"
      using s c b by (simp add: members_text_def)
    then show ?thesis by blast
  next
    assume c: "c = CHR ''}'' \<and> ms' = [] \<and> u = rest"
    have "parse_members (Suc f) d (q @ w3 @ CHR ''}'' # rest') = Some (ms, rest')" for rest'
    proof -
      have e: "expect (CHR ''}'') (w3 @ CHR ''}'' # rest') = Some rest'"
        using w3 by (intro expect_append) auto
      then have "expect (CHR '','') (w3 @ CHR ''}'' # rest') = None" by (rule expect_other) simp
      then show ?thesis
        using member_parse [OF m ends_ok_intro [OF w3, of "CHR ''}''"]] e ms c
        by (simp add: q_def)
    qed
    moreover have "bal1 (q @ w3)" by (intro bal1_append bal_bal1 q bal_space w3)
    ultimately have "members_text (Suc f) d s ms (q @ w3) rest"
      using s c by (simp add: members_text_def)
    then show ?thesis by blast
  qed
qed

lemma parse_texts:
  "(\<forall>d s v rest. parse_value f d s = Some (v, rest) \<longrightarrow> (\<exists>w tx. value_text f d s v w tx rest))
   \<and> (\<forall>d s ms rest. parse_members f d s = Some (ms, rest) \<longrightarrow> (\<exists>b. members_text f d s ms b rest))
   \<and> (\<forall>d s xs rest. parse_elems f d s = Some (xs, rest) \<longrightarrow> (\<exists>b. elems_text f d s xs b rest))"
proof (induction f)
  case 0
  then show ?case by simp
next
  case (Suc f)
  have val: "\<exists>w tx. value_text f d s v w tx rest" if "parse_value f d s = Some (v, rest)" for d s v rest
    using Suc that by blast
  have mem: "\<exists>b. members_text f d s ms b rest" if "parse_members f d s = Some (ms, rest)" for d s ms rest
    using Suc that by blast
  have elm: "\<exists>b. elems_text f d s xs b rest" if "parse_elems f d s = Some (xs, rest)" for d s xs rest
    using Suc that by blast
  have "\<exists>w tx. value_text (Suc f) d s v w tx rest"
    if "parse_value (Suc f) d s = Some (v, rest)" for d s v rest
    by (rule parse_value_step [OF that mem elm])
  moreover have "\<exists>b. members_text (Suc f) d s ms b rest"
    if "parse_members (Suc f) d s = Some (ms, rest)" for d s ms rest
    by (rule parse_members_step [OF that val mem])
  moreover have "\<exists>b. elems_text (Suc f) d s xs b rest"
    if "parse_elems (Suc f) d s = Some (xs, rest)" for d s xs rest
    by (rule parse_elems_step [OF that val elm])
  ultimately show ?case by blast
qed

lemmas parse_value_text = parse_texts [THEN conjunct1, rule_format]

lemma parse_value_length: "parse_value f d s = Some (v, rest) \<Longrightarrow> length rest < length s"
  using parse_value_text [of f d s v rest] by (auto simp: value_text_def)

section \<open>Enough fuel\<close>

lemma parse_fuel_enough:
  "(\<forall>d s g. 2 * length s < f \<longrightarrow> 2 * length s < g \<longrightarrow> parse_value f d s = parse_value g d s)
   \<and> (\<forall>d s g. 2 * length s < f \<longrightarrow> 2 * length s < g \<longrightarrow> parse_members f d s = parse_members g d s)
   \<and> (\<forall>d s g. 2 * length s + 1 < f \<longrightarrow> 2 * length s + 1 < g \<longrightarrow> parse_elems f d s = parse_elems g d s)"
proof (induction f)
  case 0
  then show ?case by simp
next
  case (Suc f)
  note val = Suc [THEN conjunct1, rule_format]
  note mem = Suc [THEN conjunct2, THEN conjunct1, rule_format]
  note elm = Suc [THEN conjunct2, THEN conjunct2, rule_format]
  have "parse_value (Suc f) d s = parse_value g d s"
    if l: "2 * length s < Suc f" "2 * length s < g" for d s g
  proof -
    obtain h where g: "g = Suc h" using l(2) by (cases g) auto
    have tl: "length t < length s" if "skip_ws s = c # t" for c t
      using skip_ws_length [of s] that by simp
    show ?thesis
    proof (cases s rule: value_shape)
      case (2 t)
      have "parse_members f d' t = parse_members h d' t" for d'
        by (rule mem) (use l tl [OF 2] g in auto)
      then show ?thesis using 2 by (simp add: g parse_value_object split: option.split)
    next
      case (3 t)
      have "parse_elems f d' t = parse_elems h d' t" for d'
        by (rule elm) (use l tl [OF 3] g in auto)
      then show ?thesis using 3 by (simp add: g parse_value_array split: option.split)
    qed (auto simp: g parse_value_eqs)
  qed
  moreover have "parse_members (Suc f) d s = parse_members g d s"
    if l: "2 * length s < Suc f" "2 * length s < g" for d s g
  proof -
    obtain h where g: "g = Suc h" using l(2) by (cases g) auto
    have v: "parse_value f d x = parse_value h d x" if "length x < length s" for x
      by (rule val) (use l that g in auto)
    have m: "parse_members f d x = parse_members h d x" if "length x < length s" for x
      by (rule mem) (use l that g in auto)
    have e: "parse_value h d v = parse_value f d v"
      if "expect quote s = Some t" "string_body t = Some (k, u)" "expect (CHR '':'') u = Some v" for t k u v
      using v expect_length [OF that(1)] string_body_length [OF that(2)] expect_length [OF that(3)]
      by fastforce
    have e2: "parse_members h d y = parse_members f d y"
      if "expect quote s = Some t" "string_body t = Some (k, u)" "expect (CHR '':'') u = Some v"
        "parse_value f d v = Some (x, w)" "expect (CHR '','') w = Some y" for t k u v x w y
      using m expect_length [OF that(1)] string_body_length [OF that(2)] expect_length [OF that(3)]
        parse_value_length [OF that(4)] expect_length [OF that(5)] by fastforce
    show ?thesis
      unfolding g parse_members.simps
      by (auto split: option.splits simp: e e2)
  qed
  moreover have "parse_elems (Suc f) d s = parse_elems g d s"
    if l: "2 * length s + 1 < Suc f" "2 * length s + 1 < g" for d s g
  proof -
    obtain h where g: "g = Suc h" using l(2) by (cases g) auto
    have v: "parse_value f d s = parse_value h d s"
      by (rule val) (use l g in auto)
    have m: "parse_elems f d x = parse_elems h d x" if "length x < length s" for x
      by (rule elm) (use l that g in auto)
    have e2: "parse_elems h d y = parse_elems f d y"
      if "parse_value h d s = Some (x, w)" "expect (CHR '','') w = Some y" for x w y
      using m parse_value_length [OF that(1)] expect_length [OF that(2)] by fastforce
    show ?thesis
      unfolding g parse_elems.simps v
      by (auto split: option.splits simp: e2)
  qed
  ultimately show ?case by blast
qed

lemma parse_value_enough:
  "2 * length s < f \<Longrightarrow> 2 * length s < g \<Longrightarrow> parse_value f d s = parse_value g d s"
  using parse_fuel_enough by blast

text \<open>The text of a value parses to that value on its own.\<close>

lemma value_text_parse:
  assumes "value_text f d s v w tx rest" and "2 * length s < f" and "d \<le> max_nesting"
  shows "json_parse tx = Some v"
proof -
  have "parse_value f d tx = Some (v, [])"
    using assms(1) by (auto simp: value_text_def ends_ok_def dest: spec [of _ "[]"])
  then have "parse_value f max_nesting tx = Some (v, [])"
    by (rule parse_value_mono [OF order_refl assms(3)])
  moreover have "parse_value f max_nesting tx = parse_value (json_fuel tx) max_nesting tx"
    by (rule parse_value_enough) (use assms(1,2) in \<open>auto simp: value_text_def json_fuel_def\<close>)
  ultimately show ?thesis by (simp add: json_parse_def skip_ws_def)
qed

end
