(* ===== verification/Json_Parse.thy ===== *)
theory Json_Parse
  imports Json_Scan
begin

text \<open>
  Correctness of \<open>jsonobject.Parse\<close>: it succeeds exactly on the JSON objects, and finds exactly
  their members, each with a slice of the input that is the JSON text of the member's value. The
  edits and the writer of the object (\<open>Set\<close>, \<open>Delete\<close>, \<open>Value\<close>, \<open>writeTo\<close>) are related to a map
  from keys to JSON texts.
\<close>

section \<open>Trimming\<close>

lemma edge_space_run: "edge c \<Longrightarrow> space_run (c # s) = 0"
  by (auto simp: edge_def space2_def space3_def split: list.splits)

lemma edge_space_run_rev: "edge c \<Longrightarrow> space_run_rev (c # s) = 0"
  by (auto simp: edge_def space2_def space3_def split: list.splits)

lemma json_space_ascii: "json_space c \<Longrightarrow> ascii_space c"
  by (auto simp: json_space_def ascii_space_def)

lemma trim_left_rev_spaces:
  "list_all json_space w \<Longrightarrow> edge c \<Longrightarrow> trim_left_rev (w @ c # s) = c # s"
proof (induction w)
  case Nil
  then show ?case by (simp add: trim_left_rev_id edge_space_run_rev del: space_run_rev.simps)
next
  case (Cons a w)
  then have "space_run_rev (a # w @ c # s) = 1" by (simp add: json_space_ascii)
  then have "trim_left_rev (a # w @ c # s) = trim_left_rev (w @ c # s)"
    by (subst trim_left_rev.simps) simp
  then show ?case using Cons by simp
qed

lemma trim_value:
  assumes "tx \<noteq> []" and "edge (hd tx)" and "edge (last tx)" and "list_all json_space w"
  shows "trim_space (tx @ w) = tx"
proof -
  have "trim_left (tx @ w) = tx @ w"
    using assms(1,2) by (cases tx) (simp_all add: trim_left_id edge_space_run del: space_run.simps)
  moreover have "trim_left_rev (rev w @ rev tx) = rev tx"
  proof -
    obtain y c where "tx = y @ [c]" using assms(1) by (cases tx rule: rev_cases) auto
    then show ?thesis
      using trim_left_rev_spaces [of "rev w" c "rev y"] assms(3,4) by simp
  qed
  ultimately show ?thesis by (simp add: trim_space_def)
qed

lemma trim_left_spaces: "list_all json_space w \<Longrightarrow> edge c \<Longrightarrow> trim_left (w @ c # s) = c # s"
proof (induction w)
  case Nil
  then show ?case by (simp add: trim_left_id edge_space_run del: space_run.simps)
next
  case (Cons a w)
  then have "space_run (a # w @ c # s) = 1" by (simp add: json_space_ascii)
  then have "trim_left (a # w @ c # s) = trim_left (w @ c # s)"
    by (subst trim_left.simps) simp
  then show ?case using Cons by simp
qed

lemma trim_around:
  assumes "list_all json_space w" "list_all json_space w'"
    and "p \<noteq> []" "edge (hd p)" "edge (last p)"
  shows "trim_space (w @ p @ w') = p"
proof -
  obtain c t where p: "p = c # t" using assms(3) by (cases p) simp_all
  have "trim_left (w @ p @ w') = p @ w'"
    using trim_left_spaces [OF assms(1), of c "t @ w'"] assms(4) by (simp add: p)
  moreover have "trim_left (p @ w') = p @ w'"
    using trim_left_spaces [of "[]" c "t @ w'"] assms(4) by (simp add: p)
  ultimately have "trim_space (w @ p @ w') = trim_space (p @ w')" by (simp add: trim_space_def)
  then show ?thesis using trim_value [OF assms(3,4,5,2)] by simp
qed

lemma json_parse_trim:
  assumes "json_parse t = Some v"
  shows "json_parse (trim_space t) = Some v"
proof -
  obtain rest where r: "parse_value (json_fuel t) max_nesting t = Some (v, rest)" "skip_ws rest = []"
    using assms by (auto simp: json_parse_def split: option.splits if_splits prod.splits)
  obtain w tx where vt: "value_text (json_fuel t) max_nesting t v w tx rest"
    using parse_value_text [OF r(1)] by blast
  have "list_all json_space rest"
    using r(2) by (simp add: skip_ws_def dropWhile_eq_Nil_conv list_all_iff)
  then have "trim_space (w @ tx @ rest) = tx" using vt by (intro trim_around) (auto simp: value_text_def)
  moreover have "t = w @ tx @ rest" using vt by (simp add: value_text_def)
  moreover have "json_parse tx = Some v" by (rule value_text_parse [OF vt]) (simp_all add: json_fuel_def)
  ultimately show ?thesis by simp
qed

section \<open>The scanners on a member\<close>

lemma skip_space_at:
  assumes "list_all json_space w" and "\<not> json_space c"
  shows "skip_space (pre @ w @ c # t) (length pre) = length pre + length w"
proof -
  have "takeWhile json_space (w @ c # t) = w"
    using assms by (induction w) auto
  then show ?thesis by (simp add: skip_space_append)
qed

lemma scan_string_at:
  assumes "strlit lit"
  shows "scan_string (pre @ quote # lit @ t) (length pre) = Some (length pre + 1 + length lit)"
proof -
  have "str_end (lit @ t) False = Some (length lit)" using assms by (simp add: strlit_def)
  then have "scan_string_loop ((pre @ [quote]) @ lit @ t) (length (pre @ [quote])) False
      = Some (length (pre @ [quote]) + length lit)"
    by (simp only: scan_string_loop_append shift_simps)
  then show ?thesis by (simp add: scan_string_def)
qed

lemma scan_value_at:
  assumes "bal tx" and "list_all json_space w" and "c \<in> {CHR '','', CHR ''}''}"
  shows "scan_value_end (pre @ tx @ w @ c # t) (length pre) = length pre + length tx + length w"
proof -
  have "val_end (tx @ w @ c # t) 0 False False = length tx + (length w + 0)"
    using assms(1) bal_space [OF assms(2)] assms(3) by (auto simp: bal_def quote_def)
  then show ?thesis by (simp add: scan_value_end_def scan_value_loop_append)
qed

lemma slice_at: "slice (pre @ m @ t) (length pre) (length pre + length m) = m"
  by (simp add: slice_def)

lemma unmarshal_literal:
  assumes "\<And>u'. string_body (lit @ u') = Some (k, u')"
  shows "unmarshal_string (quote # lit) = Some k"
proof -
  have "string_body lit = Some (k, [])" using assms [of "[]"] by simp
  then have "parse_value (json_fuel (quote # lit)) max_nesting (quote # lit) = Some (JStr k, [])"
    by (simp add: json_fuel_def parse_value_scalar parse_scalar_def)
  then show ?thesis by (simp add: unmarshal_string_def json_parse_def skip_ws_def)
qed

text \<open>One iteration of the loop reads one member.\<close>

lemma parse_fields_step:
  assumes "skip_space raw i = index" "index < length raw" "raw ! index = quote"
    and "scan_string raw index = Some ke" "unmarshal_string (slice raw index ke) = Some k"
    and "skip_space raw ke = colon" "colon < length raw" "raw ! colon = CHR '':''"
    and "skip_space raw (colon + 1) = vs" "scan_value_end raw vs = ve"
    and "trim_space (slice raw vs ve) = tx" "tx \<noteq> []"
    and "skip_space raw ve = nx" "nx < length raw" "raw ! nx = c" "c \<in> {CHR '','', CHR ''}''}"
  shows "parse_fields raw i ob =
    (if c = CHR '','' then parse_fields raw (nx + 1) (add_field k tx ob)
     else if nx = length raw - 1 then Inr (add_field k tx ob) else Inl TrailingData)"
  using assms by (subst parse_fields.simps) (auto simp: Let_def)

lemma parse_fields_member:
  assumes m: "member_text f d s k v w0 lit w1 w2 tx (w3 @ c # u)" and w3: "list_all json_space w3"
    and c: "c \<in> {CHR '','', CHR ''}''}"
  shows "parse_fields (pre @ s) (length pre) ob =
    (if c = CHR '','' then parse_fields (pre @ s) (length (pre @ s) - length u) (add_field k tx ob)
     else if u = [] then Inr (add_field k tx ob) else Inl TrailingData)"
proof -
  have w: "list_all json_space w0" "list_all json_space w1" "list_all json_space w2"
    and lit: "strlit lit" "\<And>u'. string_body (lit @ u') = Some (k, u')"
    and tx: "tx \<noteq> []" "edge (hd tx)" "edge (last tx)" "bal tx"
    and s: "s = w0 @ quote # lit @ w1 @ CHR '':'' # w2 @ tx @ w3 @ c # u"
    using m by (auto simp: member_text_def value_text_def)
  define a where "a = pre @ w0"
  define b where "b = a @ quote # lit"
  define e where "e = b @ w1 @ [CHR '':'']"
  define g where "g = e @ w2"
  define h where "h = g @ tx"
  let ?raw = "pre @ s"
  have r1: "?raw = pre @ w0 @ quote # lit @ w1 @ CHR '':'' # w2 @ tx @ w3 @ c # u"
    and r2: "?raw = a @ quote # lit @ w1 @ CHR '':'' # w2 @ tx @ w3 @ c # u"
    and r3: "?raw = b @ w1 @ CHR '':'' # w2 @ tx @ w3 @ c # u"
    and r5: "?raw = e @ w2 @ tx @ w3 @ c # u"
    and r6: "?raw = g @ tx @ w3 @ c # u"
    and r7: "?raw = (g @ tx @ w3) @ [] @ c # u"
    by (simp_all add: s a_def b_def e_def g_def)
  have i1: "skip_space ?raw (length pre) = length a"
    unfolding r1 by (subst skip_space_at) (simp_all add: w a_def)
  have i2: "scan_string ?raw (length a) = Some (length b)"
    unfolding r2 by (subst scan_string_at [OF lit(1)]) (simp add: b_def)
  have i3: "slice ?raw (length a) (length b) = quote # lit"
    using slice_at [of a "quote # lit"] unfolding r2 by (simp add: b_def)
  have i4: "skip_space ?raw (length b) = length b + length w1"
    unfolding r3 by (rule skip_space_at) (simp_all add: w)
  have i5: "?raw ! (length b + length w1) = CHR '':''" "length b + length w1 < length ?raw"
    unfolding r3 by (simp_all add: nth_append)
  have hd_tx: "tx @ w3 @ c # u = hd tx # tl tx @ w3 @ c # u" using tx(1) by simp
  have i6: "skip_space ?raw (length b + length w1 + 1) = length g"
  proof -
    have "skip_space (e @ w2 @ hd tx # (tl tx @ w3 @ c # u)) (length e) = length e + length w2"
      by (rule skip_space_at) (simp_all add: w edge_not_space tx)
    then have "skip_space (e @ w2 @ tx @ w3 @ c # u) (length e) = length e + length w2"
      using hd_tx by metis
    then show ?thesis unfolding r5 by (simp add: e_def g_def)
  qed
  have i7: "scan_value_end ?raw (length g) = length g + length (tx @ w3)"
    unfolding r6 using scan_value_at [OF tx(4) w3 c] by simp
  have i8: "trim_space (slice ?raw (length g) (length g + length (tx @ w3))) = tx"
    using slice_at [of g "tx @ w3"] trim_value [OF tx(1,2,3) w3] unfolding r6 by simp
  have i9: "skip_space ?raw (length g + length (tx @ w3)) = length g + length (tx @ w3)"
    using skip_space_at [of "[]" c "g @ tx @ w3" u] c unfolding r7 by auto
  have i10: "?raw ! (length g + length (tx @ w3)) = c"
    "length g + length (tx @ w3) + 1 + length u = length ?raw"
    unfolding r6 by (simp_all add: nth_append)
  have i0: "?raw ! length a = quote" "length a < length ?raw"
    unfolding r2 by (simp_all add: nth_append)
  have key: "unmarshal_string (quote # lit) = Some k" by (rule unmarshal_literal [OF lit(2)])
  have nx: "length ?raw - length u = length g + length (tx @ w3) + 1"
    "u = [] \<longleftrightarrow> length g + length (tx @ w3) = length ?raw - 1"
    "length g + length (tx @ w3) < length ?raw"
    using i10(2) by (cases u; simp)+
  have i3': "unmarshal_string (slice ?raw (length a) (length b)) = Some k"
    using i3 key by simp
  show ?thesis
    unfolding nx(1,2)
    by (rule parse_fields_step [OF i1 i0(2,1) i2 i3' i4 i5(2,1) i6 i7 i8 tx(1) i9 nx(3) i10(1) c])
qed

definition add_fields :: "(string \<times> string) list \<Rightarrow> jobject \<Rightarrow> jobject" where
  "add_fields fs ob = fold (\<lambda>f. add_field (fst f) (snd f)) fs ob"

definition reads :: "(string \<times> string) list \<Rightarrow> (string \<times> json) list \<Rightarrow> bool" where
  "reads fs ms \<longleftrightarrow> list_all2 (\<lambda>f m. fst f = fst m \<and> json_parse (snd f) = Some (snd m)) fs ms"

lemma parse_fields_members:
  assumes "parse_members f d s = Some (ms, [])" and "2 * length s < f" and "d \<le> max_nesting"
  shows "\<exists>fs. reads fs ms \<and> parse_fields (pre @ s) (length pre) ob = Inr (add_fields fs ob)"
  using assms
proof (induction f arbitrary: s ms pre ob)
  case 0
  then show ?case by simp
next
  case (Suc f)
  show ?case
  proof (rule parse_members_first [OF Suc.prems(1) parse_value_text])
    fix k v ms' w0 lit w1 w2 tx w3 u c
    assume m: "member_text f d s k v w0 lit w1 w2 tx (w3 @ c # u)"
      and w3: "list_all json_space w3" and ms: "ms = (k, v) # ms'"
      and c: "(c = CHR '','' \<and> parse_members f d u = Some (ms', []))
        \<or> (c = CHR ''}'' \<and> ms' = [] \<and> u = [])"
    have s: "s = w0 @ quote # lit @ w1 @ CHR '':'' # w2 @ tx @ w3 @ c # u"
      using m by (simp add: member_text_def)
    have vt: "value_text f d (w2 @ tx @ w3 @ c # u) v w2 tx (w3 @ c # u)"
      using m by (simp add: member_text_def)
    have tx: "json_parse tx = Some v"
      by (rule value_text_parse [OF vt]) (use Suc.prems s in auto)
    have cc: "c \<in> {CHR '','', CHR ''}''}" using c by auto
    note step = parse_fields_member [OF m w3 cc, of pre ob]
    from c show ?thesis
    proof
      assume c: "c = CHR '','' \<and> parse_members f d u = Some (ms', [])"
      define p where "p = pre @ w0 @ quote # lit @ w1 @ CHR '':'' # w2 @ tx @ w3 @ [c]"
      have p: "pre @ s = p @ u" "length (pre @ s) - length u = length p"
        by (simp_all add: p_def s)
      obtain fs where fs: "reads fs ms'"
        "parse_fields (p @ u) (length p) (add_field k tx ob) = Inr (add_fields fs (add_field k tx ob))"
        using Suc.IH [of u ms' p "add_field k tx ob"] c Suc.prems s by auto
      then show ?thesis
        using step c p ms tx by (intro exI [of _ "(k, tx) # fs"]) (simp add: reads_def add_fields_def)
    next
      assume c: "c = CHR ''}'' \<and> ms' = [] \<and> u = []"
      then show ?thesis
        using step ms tx by (intro exI [of _ "[(k, tx)]"]) (simp add: reads_def add_fields_def)
    qed
  qed
qed

section \<open>What the fields say\<close>

definition obj_inv :: "jobject \<Rightarrow> bool" where
  "obj_inv ob \<longleftrightarrow>
     (\<forall>k. map_option (\<lambda>i. snd (o_fields ob ! i)) (map_of (o_last ob) k) = map_of (rev (o_fields ob)) k)
     \<and> (\<forall>k i. map_of (o_last ob) k = Some i \<longrightarrow> i < length (o_fields ob))
     \<and> (\<forall>k. (case map_of (o_counts ob) k of None \<Rightarrow> 0 | Some n \<Rightarrow> n)
           = count_if (\<lambda>f. fst f = k) (o_fields ob))"

lemma obj_inv_empty: "obj_inv (empty_object raw)"
  by (simp add: obj_inv_def empty_object_def)

lemma obj_inv_add_field:
  assumes "obj_inv ob" shows "obj_inv (add_field k v ob)"
proof -
  have "map_option (\<lambda>i. snd ((o_fields ob @ [(k, v)]) ! i)) (map_of (o_last ob) j)
      = map_option (\<lambda>i. snd (o_fields ob ! i)) (map_of (o_last ob) j)" for j
    using assms by (cases "map_of (o_last ob) j") (auto simp: obj_inv_def nth_append)
  then show ?thesis
    using assms by (auto simp: obj_inv_def add_field_def update_conv' less_Suc_eq split: option.splits)
qed

lemma obj_inv_add_fields: "obj_inv ob \<Longrightarrow> obj_inv (add_fields fs ob)"
  unfolding add_fields_def by (induction fs arbitrary: ob) (simp_all add: obj_inv_add_field)

lemma add_fields_fields: "o_fields (add_fields fs ob) = o_fields ob @ fs"
  unfolding add_fields_def by (induction fs arbitrary: ob) (simp_all add: add_field_def)

lemma add_fields_edits:
  "o_deleted (add_fields fs ob) = o_deleted ob \<and> o_sets (add_fields fs ob) = o_sets ob
   \<and> o_raw (add_fields fs ob) = o_raw ob"
  unfolding add_fields_def by (induction fs arbitrary: ob) (simp_all add: add_field_def)

lemma object_value_fields:
  assumes "obj_inv ob" and "o_deleted ob = []" and "o_sets ob = []"
  shows "object_value k ob = map_of (rev (o_fields ob)) k"
proof -
  have "object_value k ob = map_option (\<lambda>i. snd (o_fields ob ! i)) (map_of (o_last ob) k)"
    using assms(2,3) by (simp add: object_value_def split: option.split)
  then show ?thesis using assms(1) by (simp add: obj_inv_def)
qed

lemma duplicate_fields:
  assumes "obj_inv ob"
  shows "duplicate k ob \<longleftrightarrow> 1 < count_if (\<lambda>f. fst f = k) (o_fields ob)"
proof -
  have "duplicate k ob \<longleftrightarrow> 1 < (case map_of (o_counts ob) k of None \<Rightarrow> 0 | Some n \<Rightarrow> n)"
    by (simp add: duplicate_def split: option.split)
  then show ?thesis using assms by (simp add: obj_inv_def)
qed

lemma reads_count: "reads fs ms \<Longrightarrow> count_if (\<lambda>f. fst f = k) fs = count_if (\<lambda>m. fst m = k) ms"
  unfolding reads_def by (induction rule: list_all2_induct) auto

lemma reads_append:
  "reads fs ms \<Longrightarrow> reads gs ns \<Longrightarrow> reads (fs @ gs) (ms @ ns)"
  unfolding reads_def by (rule list_all2_appendI)

lemma reads_rev: "reads fs ms \<Longrightarrow> reads (rev fs) (rev ms)"
  unfolding reads_def by (simp add: list_all2_rev)

lemma reads_map_of:
  "reads fs ms \<Longrightarrow> rel_option (\<lambda>t v. json_parse t = Some v) (map_of fs k) (map_of ms k)"
  unfolding reads_def by (induction rule: list_all2_induct) auto

section \<open>Parse\<close>

lemma space_run_rev_trim: "space_run_rev (trim_left_rev s) = 0"
proof (induction s rule: trim_left_rev.induct)
  case (1 s)
  then show ?case by (subst trim_left_rev.simps) simp
qed

lemma trim_left_rev_drop: "\<exists>n. trim_left_rev s = drop n s"
proof (induction s rule: trim_left_rev.induct)
  case (1 s)
  show ?case
  proof (cases "0 < space_run_rev s")
    case True
    with 1 obtain n where "trim_left_rev (drop (space_run_rev s) s) = drop n (drop (space_run_rev s) s)"
      by blast
    then have "trim_left_rev s = drop (n + space_run_rev s) s"
      using True by (subst trim_left_rev.simps) simp
    then show ?thesis by blast
  next
    case False
    then have "trim_left_rev s = drop 0 s" by (simp add: trim_left_rev_id)
    then show ?thesis by blast
  qed
qed

lemma ascii_space_run: "ascii_space c \<Longrightarrow> space_run (c # s) = 1"
  "ascii_space c \<Longrightarrow> space_run_rev (c # s) = 1"
  by simp_all

lemma trimmed_end:
  assumes "trim_space raw = x @ w" and "list_all json_space w"
  shows "w = []"
proof (cases w rule: rev_cases)
  case (snoc v c)
  have "rev (trim_space raw) = c # rev v @ rev x" using assms(1) snoc by simp
  moreover have "space_run_rev (rev (trim_space raw)) = 0"
    by (simp add: trim_space_def space_run_rev_trim)
  ultimately have "\<not> ascii_space c" using ascii_space_run(2) by fastforce
  then show ?thesis using assms(2) snoc json_space_ascii by auto
qed

lemma trimmed_start: "trim_space raw = c # t \<Longrightarrow> \<not> json_space c"
proof -
  assume c: "trim_space raw = c # t"
  obtain n where n: "trim_left_rev (rev (trim_left raw)) = drop n (rev (trim_left raw))"
    using trim_left_rev_drop by blast
  then have "c # t = take (length (trim_left raw) - n) (trim_left raw)"
    using c by (simp add: trim_space_def rev_drop)
  then obtain u where "trim_left raw = c # u"
    by (metis append_Cons append_take_drop_id)
  then have "\<not> ascii_space c" using trim_left_run [of raw] ascii_space_run(1) by fastforce
  then show ?thesis using json_space_ascii by blast
qed

lemma json_parse_brace:
  assumes "json_parse (CHR ''{'' # t) = Some v"
  shows "\<exists>ms. v = JObj ms"
  using assms by (auto simp: json_parse_def json_fuel_def parse_value_object
      split: option.splits if_splits prod.splits)

lemma json_parse_not_brace:
  assumes "json_parse s = Some (JObj ms)"
  shows "\<exists>t. skip_ws s = CHR ''{'' # t"
proof (cases s rule: value_shape)
  case 1
  then show ?thesis using assms by (simp add: json_parse_def parse_value_empty)
next
  case (3 t)
  then show ?thesis
    using assms by (auto simp: json_parse_def json_fuel_def parse_value_array
      split: option.splits if_splits prod.splits)
next
  case (4 c t)
  then show ?thesis
    using assms by (auto simp: json_parse_def json_fuel_def parse_value_scalar parse_scalar_def
      split: option.splits if_splits prod.splits)
qed blast

text \<open>A trimmed object is a pair of braces around white space or members, and nothing follows it.\<close>

lemma trimmed_object [consumes 1]:
  assumes "json_parse (trim_space raw) = Some (JObj ms)"
  obtains (empty) w where "trim_space raw = CHR ''{'' # w @ ''}''" and "list_all json_space w" and "ms = []"
  | (members) f t where "trim_space raw = CHR ''{'' # t" and "t \<noteq> []"
      and "parse_members f (max_nesting - 1) t = Some (ms, [])" and "2 * length t < f"
proof -
  obtain t where ws: "skip_ws (trim_space raw) = CHR ''{'' # t"
    using json_parse_not_brace [OF assms] by blast
  have raw: "trim_space raw = CHR ''{'' # t"
  proof (cases "trim_space raw")
    case Nil
    then show ?thesis using ws by (simp add: skip_ws_def)
  next
    case (Cons c u)
    then show ?thesis using ws trimmed_start [OF Cons] by (simp add: skip_ws_def)
  qed
  obtain f where f: "json_fuel (trim_space raw) = Suc f" "2 * length t < f"
    by (simp add: json_fuel_def raw)
  have depth: "max_nesting \<noteq> 0" by (simp add: max_nesting_def)
  from assms obtain rest where p: "parse_value (Suc f) max_nesting (trim_space raw) = Some (JObj ms, rest)"
    and r: "skip_ws rest = []"
    by (auto simp: json_parse_def f split: option.splits if_splits prod.splits)
  have rest: "list_all json_space rest"
    using r by (simp add: skip_ws_def dropWhile_eq_Nil_conv list_all_iff)
  show thesis
  proof (cases "expect (CHR ''}'') t")
    case (Some u)
    then have u: "u = rest" "ms = []" using p ws depth by (auto simp: parse_value_object)
    obtain w where w: "t = w @ CHR ''}'' # u" "list_all json_space w" using expect_split [OF Some] by blast
    have "u = []" by (rule trimmed_end [of raw "CHR ''{'' # w @ ''}''"]) (use raw w u rest in simp_all)
    then show thesis using empty [of w] raw w u by simp
  next
    case None
    then have m: "parse_members f (max_nesting - 1) t = Some (ms, rest)"
      using p ws depth by (auto simp: parse_value_object)
    then obtain b where b: "t = b @ CHR ''}'' # rest"
      using parse_texts [of f, THEN conjunct2, THEN conjunct1, rule_format, OF m]
      by (auto simp: members_text_def)
    then have "rest = []"
      by (intro trimmed_end [of raw "CHR ''{'' # b @ ''}''"]) (use raw rest in simp_all)
    then show thesis using members [of t f] m f(2) raw b by simp
  qed
qed

lemma empty_object_scan:
  "list_all json_space w \<Longrightarrow> skip_space (c # w @ [d]) 1 = 1 + length w" if "\<not> json_space d"
  using skip_space_at [of w d "[c]" "[]"] that by simp

lemma parse_object_ok:
  assumes "json_parse (trim_space raw) = Some (JObj ms)"
  shows "\<exists>fs. reads fs ms \<and> parse_object raw = Inr (add_fields fs (empty_object (trim_space raw)))"
  using assms
proof (cases rule: trimmed_object)
  case (empty w)
  have "parse_object raw = parse_fields (trim_space raw) 1 (empty_object (trim_space raw))"
    using assms empty by (simp add: parse_object_def json_valid_def Let_def)
  moreover have "parse_fields (trim_space raw) 1 (empty_object (trim_space raw))
      = Inr (empty_object (trim_space raw))"
    unfolding empty(1) using empty_object_scan [of "CHR ''}''" w "CHR ''{''"] empty(2)
    by (subst parse_fields.simps) (simp add: Let_def nth_append)
  ultimately show ?thesis using empty(3) by (intro exI [of _ "[]"]) (simp add: reads_def add_fields_def)
next
  case (members f t)
  have "parse_object raw = parse_fields (trim_space raw) 1 (empty_object (trim_space raw))"
    using assms members(1,2) by (cases t) (auto simp: parse_object_def json_valid_def Let_def)
  then show ?thesis
    using parse_fields_members [of f "max_nesting - 1" t ms "''{''"] members by simp
qed

lemma parse_object_spec:
  "case json_parse (trim_space raw) of
     Some (JObj ms) \<Rightarrow>
       (\<exists>ob. parse_object raw = Inr ob \<and> o_raw ob = trim_space raw \<and> reads (o_fields ob) ms
          \<and> (\<forall>k. rel_option (\<lambda>t v. json_parse t = Some v) (object_value k ob) (jget k ms))
          \<and> (\<forall>k. duplicate k ob \<longleftrightarrow> 1 < count_if (\<lambda>m. fst m = k) ms))
   | _ \<Rightarrow> parse_object raw = Inl NotAnObject"
proof (cases "\<exists>ms. json_parse (trim_space raw) = Some (JObj ms)")
  case True
  then obtain ms where ms: "json_parse (trim_space raw) = Some (JObj ms)" by blast
  obtain fs where fs: "reads fs ms"
    "parse_object raw = Inr (add_fields fs (empty_object (trim_space raw)))"
    using parse_object_ok [OF ms] by blast
  define ob where "ob = add_fields fs (empty_object (trim_space raw))"
  have inv: "obj_inv ob" unfolding ob_def by (intro obj_inv_add_fields obj_inv_empty)
  have f: "o_fields ob = fs" "o_deleted ob = []" "o_sets ob = []" "o_raw ob = trim_space raw"
    using add_fields_fields add_fields_edits by (simp_all add: ob_def empty_object_def)
  have "object_value k ob = map_of (rev fs) k" for k
    using object_value_fields [OF inv f(2,3)] f(1) by simp
  then have "rel_option (\<lambda>t v. json_parse t = Some v) (object_value k ob) (jget k ms)" for k
    using reads_map_of [OF reads_rev [OF fs(1)]] by (simp add: jget_def)
  then show ?thesis
    using ms fs f inv duplicate_fields [OF inv] reads_count [OF fs(1)] by (simp add: ob_def [symmetric])
next
  case False
  have "parse_object raw = Inl NotAnObject"
  proof (cases "trim_space raw")
    case Nil
    then show ?thesis by (simp add: parse_object_def)
  next
    case (Cons c t)
    show ?thesis
    proof (cases "c = CHR ''{'' \<and> json_valid (trim_space raw)")
      case True
      then obtain v where "json_parse (CHR ''{'' # t) = Some v"
        using Cons by (auto simp: json_valid_def)
      then show ?thesis using json_parse_brace False True Cons by fastforce
    next
      case False
      then show ?thesis using Cons by (simp add: parse_object_def Let_def)
    qed
  qed
  with False show ?thesis by (auto split: option.splits json.splits)
qed

text \<open>C8. \<open>Parse\<close> accepts exactly the JSON objects, and what it keeps is the object: the members in
  order with the text of each value, under each key the text of the last member of that name
  (which is what a decoder of the whole object would keep), and the keys it reports as duplicate
  are those that occur more than once.\<close>

theorem parse_object_correct:
  "case json_parse (trim_space raw) of
     Some (JObj ms) \<Rightarrow>
       (\<exists>ob. parse_object raw = Inr ob \<and> o_raw ob = trim_space raw \<and> reads (o_fields ob) ms
          \<and> (\<forall>k. rel_option (\<lambda>t v. json_parse t = Some v) (object_value k ob) (jget k ms))
          \<and> (\<forall>k. duplicate k ob \<longleftrightarrow> 1 < count_if (\<lambda>m. fst m = k) ms))
   | _ \<Rightarrow> parse_object raw = Inl NotAnObject"
  by (rule parse_object_spec)

end
