(* ===== verification/Json_Write.thy ===== *)
theory Json_Write
  imports Json_Parse
begin

text \<open>
  The writing side of \<open>internal/jsonobject\<close>: \<open>json.Marshal\<close> of a key, \<open>writeTo\<close> with its optional
  streamed replacement, and the round trip \<open>Parse (Bytes o)\<close>; the edits \<open>Set\<close> and \<open>Delete\<close> as an
  implementation of a map from keys to JSON texts; and the lookups of \<open>values.go\<close>.
\<close>

section \<open>Marshalling a string\<close>

definition hex_digit :: "nat \<Rightarrow> char" where
  "hex_digit n = (if n < 10 then char_of (48 + n) else char_of (87 + n))"

definition u_escape :: "nat \<Rightarrow> string" where
  "u_escape n = [backslash, CHR ''u'', hex_digit (n div 4096), hex_digit (n div 256 mod 16),
     hex_digit (n div 16 mod 16), hex_digit (n mod 16)]"

definition escape_ascii :: "char \<Rightarrow> string" where
  "escape_ascii c =
     (if c = quote \<or> c = backslash then [backslash, c]
      else if byte c = 8 then [backslash, CHR ''b'']
      else if byte c = 12 then [backslash, CHR ''f'']
      else if byte c = 10 then [backslash, CHR ''n'']
      else if byte c = 13 then [backslash, CHR ''r'']
      else if byte c = 9 then [backslash, CHR ''t'']
      else if byte c < 32 \<or> c = CHR ''<'' \<or> c = CHR ''>'' \<or> c = CHR ''&'' then u_escape (byte c)
      else [c])"

definition line_separator :: "string \<Rightarrow> bool" where
  "line_separator s =
     (case s of
        a # b # c # _ \<Rightarrow> byte a = 226 \<and> byte b = 128 \<and> (byte c = 168 \<or> byte c = 169)
      | _ \<Rightarrow> False)"

function marshal_body :: "string \<Rightarrow> string" where
  "marshal_body [] = []"
| "marshal_body (c # s) =
     (if byte c < 128 then escape_ascii c @ marshal_body s
      else if utf8_len (c # s) = 0 then u_escape 65533 @ marshal_body s
      else if line_separator (c # s) then u_escape (8192 + byte (s ! 1) - 128) @ marshal_body (drop 2 s)
      else take (utf8_len (c # s)) (c # s) @ marshal_body (drop (utf8_len (c # s) - 1) s))"
  by pat_completeness auto
termination by (relation "measure length") auto

declare marshal_body.simps(2) [simp del]

definition marshal_string :: "string \<Rightarrow> string" where
  "marshal_string s = quote # marshal_body s @ [quote]"

text \<open>Strings that are valid UTF-8.\<close>

function valid_utf8 :: "string \<Rightarrow> bool" where
  "valid_utf8 [] = True"
| "valid_utf8 (c # s) = (utf8_len (c # s) \<noteq> 0 \<and> valid_utf8 (drop (utf8_len (c # s) - 1) s))"
  by pat_completeness auto
termination by (relation "measure length") auto

declare valid_utf8.simps(2) [simp del]

lemma hex_val_digit: "n < 16 \<Longrightarrow> hex_val (hex_digit n) = Some n"
  by (auto simp: hex_val_def hex_digit_def is_digit_def)

lemma unicode_escape_u:
  assumes "n < 55296"
  shows "unicode_escape (drop 2 (u_escape n) @ r) = Some (utf8_encode n, r)"
proof -
  have "n div 4096 < 16" using assms by simp
  moreover have "((n div 4096 * 16 + n div 256 mod 16) * 16 + n div 16 mod 16) * 16 + n mod 16 = n"
    using div_mult_mod_eq [of n 16] div_mult_mod_eq [of "n div 16" 16] div_mult_mod_eq [of "n div 256" 16]
    by (simp add: div_mult2_eq [symmetric])
  ultimately show ?thesis
    using assms by (simp add: unicode_escape_def u_escape_def hex_val_digit)
qed

lemma string_body_u_escape:
  "n < 55296 \<Longrightarrow> string_body (u_escape n @ r) = push (utf8_encode n) (string_body r)"
  using unicode_escape_u [of n r]
  by (simp add: u_escape_def string_body.simps(2)) (simp add: quote_def backslash_def)

lemma string_body_ascii:
  assumes "byte c < 128"
  shows "string_body (escape_ascii c @ r) = push [c] (string_body r)"
proof -
  have e: "string_body (backslash # x # r) = push [d] (string_body r)"
    if "escape_char x = Some d" "x \<noteq> CHR ''u''" for x d
    using that by (simp add: string_body.simps(2)) (simp add: quote_def backslash_def)
  show ?thesis
  proof (cases "byte c < 32 \<or> c = quote \<or> c = backslash \<or> c = CHR ''<'' \<or> c = CHR ''>'' \<or> c = CHR ''&''")
    case False
    then have "escape_ascii c = [c]" by (auto simp: escape_ascii_def)
    moreover have "utf8_len (c # r) = 1" using assms by (simp add: utf8_len_def)
    ultimately show ?thesis using False by (simp add: string_body.simps(2))
  next
    case True
    have u: "string_body (u_escape (byte c) @ r) = push [c] (string_body r)"
      using string_body_u_escape [of "byte c" r] assms by (simp add: utf8_encode_def)
    have c: "char_of n = c" if "byte c = n" for n using that by auto
    show ?thesis
      using True e u
      by (auto simp: escape_ascii_def escape_char_def quote_def backslash_def c)
  qed
qed

lemma utf8_len_le: "utf8_len s \<le> 4"
  by (simp add: utf8_len_def split: list.split)

lemma utf8_len_take_num:
  assumes "utf8_len s = m" and "m \<in> {1, 2, 3, 4}"
  shows "utf8_len (take m s @ r) = m"
proof (cases s)
  case Nil
  then show ?thesis using assms by (simp add: utf8_len_def)
next
  case s: (Cons a s1)
  show ?thesis
  proof (cases "byte a < 128")
    case True
    then show ?thesis using assms s by (auto simp: utf8_len_def)
  next
    case a: False
    then obtain b s2 where s1: "s1 = b # s2" using assms s by (cases s1) (auto simp: utf8_len_def)
    show ?thesis
    proof (cases "194 \<le> byte a \<and> byte a \<le> 223")
      case True
      then show ?thesis using assms s s1 by (auto simp: utf8_len_def split: if_splits)
    next
      case b: False
      then obtain c s3 where s2: "s2 = c # s3" using assms s s1 a
        by (cases s2) (auto simp: utf8_len_def)
      show ?thesis
      proof (cases "224 \<le> byte a \<and> byte a \<le> 239")
        case True
        then show ?thesis using assms s s1 s2 a by (auto simp: utf8_len_def split: if_splits)
      next
        case False
        then obtain d s4 where "s3 = d # s4" using assms s s1 s2 a b
          by (cases s3) (auto simp: utf8_len_def)
        then show ?thesis
          using assms s s1 s2 a b False by (auto simp: utf8_len_def split: if_splits)
      qed
    qed
  qed
qed

lemma utf8_len_take:
  assumes "utf8_len (c # s) = Suc n"
  shows "utf8_len ((c # take n s) @ r) = Suc n"
proof -
  have "Suc n \<in> {1, 2, 3, 4}" using utf8_len_le [of "c # s"] assms by auto
  then show ?thesis using utf8_len_take_num [OF assms] by simp
qed

lemma string_body_utf8:
  assumes "utf8_len (c # s) = Suc n" and "\<not> byte c < 128"
  shows "string_body ((c # take n s) @ r) = push (c # take n s) (string_body r)"
proof -
  have n: "n \<le> length s" using utf8_len_rest [OF assms(1)] by simp
  have "c \<noteq> quote" "c \<noteq> backslash" using assms(2) by (auto simp: quote_def backslash_def)
  then show ?thesis
    using utf8_len_take [OF assms(1), of r] assms(2) n
    by (simp add: string_body.simps(2))
qed

lemma marshal_body_roundtrip:
  "valid_utf8 s \<Longrightarrow> string_body (marshal_body s @ quote # r) = Some (s, r)"
proof (induction s rule: marshal_body.induct)
  case 1
  then show ?case by (simp add: string_body.simps(2))
next
  case (2 c s)
  from "2.prems" obtain n where n: "utf8_len (c # s) = Suc n" and v: "valid_utf8 (drop n s)"
    by (cases "utf8_len (c # s)") (auto simp: valid_utf8.simps(2))
  show ?case
  proof (cases "byte c < 128")
    case True
    then have "n = 0" using n by (simp add: utf8_len_def)
    then show ?thesis
      using True "2.IH"(1) v by (simp add: marshal_body.simps(2) string_body_ascii push_def)
  next
    case False
    show ?thesis
    proof (cases "line_separator (c # s)")
      case True
      then obtain b d t where s: "s = b # d # t" and b: "byte c = 226" "byte b = 128"
        "byte d = 168 \<or> byte d = 169"
        by (auto simp: line_separator_def split: list.splits)
      have n2: "n = 2" using n b by (auto simp: s utf8_len_def cont_def)
      have cb: "c = char_of (226::nat)" "b = char_of (128::nat)"
        using b by (metis char_of_char)+
      have d: "utf8_encode (8192 + byte d - 128) = [c, b, d]"
        using b(3)
      proof
        assume "byte d = 168"
        moreover then have "d = char_of (168::nat)" by (metis char_of_char)
        ultimately show ?thesis by (simp add: utf8_encode_def cb)
      next
        assume "byte d = 169"
        moreover then have "d = char_of (169::nat)" by (metis char_of_char)
        ultimately show ?thesis by (simp add: utf8_encode_def cb)
      qed
      have "8192 + byte d - 128 < 55296" using b(3) by auto
      then show ?thesis
        using False True n n2 "2.IH"(3) v s d
        by (simp add: marshal_body.simps(2) string_body_u_escape push_def)
    next
      case sep: False
      then show ?thesis
        using False n "2.IH"(4) v string_body_utf8 [OF n False]
        by (simp add: marshal_body.simps(2) push_def)
    qed
  qed
qed

lemma marshal_string_strlit:
  assumes "valid_utf8 k"
  shows "strlit (marshal_body k @ [quote])" and "string_body ((marshal_body k @ [quote]) @ u) = Some (k, u)"
proof -
  have r: "string_body ((marshal_body k @ [quote]) @ u) = Some (k, u)" for u
    using marshal_body_roundtrip [OF assms] by simp
  then show "string_body ((marshal_body k @ [quote]) @ u) = Some (k, u)" .
  obtain b where "(marshal_body k @ [quote]) @ [] = b @ []" "strlit b"
    using string_body_strlit [OF r [of "[]"]] by auto
  then show "strlit (marshal_body k @ [quote])" by simp
qed

section \<open>Writing an object\<close>

text \<open>A replacement streams into the buffer it is given; it may fail after having written some of
  its bytes, which stay in the buffer.\<close>

type_synonym 'e replacement = "string \<Rightarrow> string \<Rightarrow> string \<times> 'e option"

definition write_field :: "string \<Rightarrow> bool \<Rightarrow> string \<Rightarrow> string \<Rightarrow> string" where
  "write_field out written key value =
     (if written then out @ '','' else out) @ marshal_string key @ '':'' @ value"

definition write_value ::
  "string \<Rightarrow> 'e replacement option \<Rightarrow> string \<Rightarrow> bool \<Rightarrow> string \<Rightarrow> string \<Rightarrow> string \<times> 'e option" where
  "write_value key replace out written name value =
     (case replace of
        Some rep \<Rightarrow>
          (if name = key then rep (write_field out written name []) value
           else (write_field out written name value, None))
      | None \<Rightarrow> (write_field out written name value, None))"

fun write_fields ::
  "jobject \<Rightarrow> string \<Rightarrow> 'e replacement option \<Rightarrow> nat \<Rightarrow> (string \<times> string) list \<Rightarrow> string \<Rightarrow> bool
   \<Rightarrow> string \<times> bool \<times> 'e option" where
  "write_fields ob key replace index [] out written = (out, written, None)"
| "write_fields ob key replace index ((name, text) # fs) out written =
     (if map_of (o_last ob) name \<noteq> Some index \<or> name \<in> set (o_deleted ob)
      then write_fields ob key replace (Suc index) fs out written
      else
        let value = (case map_of (o_sets ob) name of Some v \<Rightarrow> v | None \<Rightarrow> text)
        in case write_value key replace out written name value of
             (out', Some e) \<Rightarrow> (out', True, Some e)
           | (out', None) \<Rightarrow> write_fields ob key replace (Suc index) fs out' True)"

fun write_sets ::
  "jobject \<Rightarrow> string \<Rightarrow> 'e replacement option \<Rightarrow> string list \<Rightarrow> string \<Rightarrow> bool \<Rightarrow> string \<times> 'e option" where
  "write_sets ob key replace [] out written = (out @ ''}'', None)"
| "write_sets ob key replace (name # names) out written =
     (if map_of (o_last ob) name \<noteq> None \<or> name \<in> set (o_deleted ob)
      then write_sets ob key replace names out written
      else
        let value = (case map_of (o_sets ob) name of Some v \<Rightarrow> v | None \<Rightarrow> [])
        in case write_value key replace out written name value of
             (out', Some e) \<Rightarrow> (out', Some e)
           | (out', None) \<Rightarrow> write_sets ob key replace names out' True)"

definition write_to :: "jobject \<Rightarrow> string \<Rightarrow> string \<Rightarrow> 'e replacement option \<Rightarrow> string \<times> 'e option" where
  "write_to ob out key replace =
     (case write_fields ob key replace 0 (o_fields ob) (out @ ''{'') False of
        (out', written, Some e) \<Rightarrow> (out', Some e)
      | (out', written, None) \<Rightarrow> write_sets ob key replace (o_set_order ob) out' written)"

definition bytes_with_value :: "jobject \<Rightarrow> string \<Rightarrow> 'e replacement option \<Rightarrow> 'e + string" where
  "bytes_with_value ob key replace =
     (case write_to ob [] key replace of
        (out, Some e) \<Rightarrow> Inl e
      | (out, None) \<Rightarrow> Inr out)"

definition object_bytes :: "jobject \<Rightarrow> string" where
  "object_bytes ob = (case bytes_with_value ob [] (None :: unit replacement option) of Inr s \<Rightarrow> s | Inl _ \<Rightarrow> [])"

definition append_to :: "jobject \<Rightarrow> string \<Rightarrow> string" where
  "append_to ob out = fst (write_to ob out [] (None :: unit replacement option))"

text \<open>The members that are written, in order.\<close>

definition overlay :: "jobject \<Rightarrow> string \<Rightarrow> string \<Rightarrow> string" where
  "overlay ob name text = (case map_of (o_sets ob) name of Some v \<Rightarrow> v | None \<Rightarrow> text)"

fun own_members :: "jobject \<Rightarrow> nat \<Rightarrow> (string \<times> string) list \<Rightarrow> (string \<times> string) list" where
  "own_members ob index [] = []"
| "own_members ob index ((name, text) # fs) =
     (if map_of (o_last ob) name \<noteq> Some index \<or> name \<in> set (o_deleted ob)
      then own_members ob (Suc index) fs
      else (name, overlay ob name text) # own_members ob (Suc index) fs)"

definition set_members :: "jobject \<Rightarrow> string list \<Rightarrow> (string \<times> string) list" where
  "set_members ob names =
     List.map (\<lambda>name. (name, overlay ob name []))
       (filter (\<lambda>name. map_of (o_last ob) name = None \<and> name \<notin> set (o_deleted ob)) names)"

definition emitted :: "jobject \<Rightarrow> (string \<times> string) list" where
  "emitted ob = own_members ob 0 (o_fields ob) @ set_members ob (o_set_order ob)"

fun members_string :: "bool \<Rightarrow> (string \<times> string) list \<Rightarrow> string" where
  "members_string written [] = []"
| "members_string written ((k, v) # es) =
     (if written then '','' else []) @ marshal_string k @ '':'' @ v @ members_string True es"

lemma members_string_append:
  "members_string w (xs @ ys) = members_string w xs @ members_string (w \<or> xs \<noteq> []) ys"
  by (induction w xs rule: members_string.induct) simp_all

lemma write_fields_plain:
  "write_fields ob key None i fs out w
   = (out @ members_string w (own_members ob i fs), w \<or> own_members ob i fs \<noteq> [], None)"
  by (induction fs arbitrary: i out w)
     (auto simp: write_value_def write_field_def Let_def overlay_def)

lemma write_sets_plain:
  "write_sets ob key None names out w = (out @ members_string w (set_members ob names) @ ''}'', None)"
  by (induction names arbitrary: out w)
     (auto simp: write_value_def write_field_def set_members_def Let_def overlay_def)

lemma write_to_plain:
  "write_to ob out key None = (out @ ''{'' @ members_string False (emitted ob) @ ''}'', None)"
  by (simp add: write_to_def write_fields_plain write_sets_plain emitted_def members_string_append)

lemma object_bytes_emitted: "object_bytes ob = ''{'' @ members_string False (emitted ob) @ ''}''"
  by (simp add: object_bytes_def bytes_with_value_def write_to_plain)

section \<open>Reading back what was written\<close>

text \<open>A value can be a member of an object if it is valid JSON one level below the nesting limit.\<close>

definition nest_parse :: "string \<Rightarrow> json option" where
  "nest_parse v =
     (case parse_value (json_fuel v) (max_nesting - 1) v of
        None \<Rightarrow> None
      | Some (x, rest) \<Rightarrow> (if skip_ws rest = [] then Some x else None))"

lemma skip_ws_Nil: "skip_ws r = [] \<longleftrightarrow> list_all json_space r"
  by (simp add: skip_ws_def dropWhile_eq_Nil_conv list_all_iff)

lemma nest_parse_json: assumes "nest_parse v = Some x" shows "json_parse v = Some x"
proof -
  obtain rest where r: "parse_value (json_fuel v) (max_nesting - 1) v = Some (x, rest)" "skip_ws rest = []"
    using assms by (auto simp: nest_parse_def split: option.splits if_splits prod.splits)
  then have "parse_value (json_fuel v) max_nesting v = Some (x, rest)"
    using parse_value_mono [OF order_refl _ r(1)] by simp
  then show ?thesis using r by (simp add: json_parse_def)
qed

lemma nest_parse_member:
  assumes "nest_parse v = Some x" and "2 * length v + 2 \<le> f" and "c \<in> {CHR '','', CHR ''}''}"
  obtains w where "parse_value f (max_nesting - 1) (v @ c # u) = Some (x, w @ c # u)"
    and "list_all json_space w"
proof -
  obtain rest where r: "parse_value (json_fuel v) (max_nesting - 1) v = Some (x, rest)"
    and ws: "list_all json_space rest"
    using assms(1) by (auto simp: nest_parse_def skip_ws_Nil split: option.splits if_splits prod.splits)
  obtain w tx where t: "value_text (json_fuel v) (max_nesting - 1) v x w tx rest"
    using parse_value_text [OF r] by blast
  then have v: "v = w @ tx @ rest" and w: "list_all json_space w"
    by (simp_all add: value_text_def)
  have "ends_ok (rest @ c # u)" by (rule ends_ok_intro [OF ws]) (use assms(3) in auto)
  then have "parse_value (json_fuel v) (max_nesting - 1) (w @ tx @ rest @ c # u) = Some (x, rest @ c # u)"
    using t w unfolding value_text_def v by blast
  then have "parse_value f (max_nesting - 1) (v @ c # u) = Some (x, rest @ c # u)"
    using parse_value_mono [OF _ order_refl] assms(2) by (simp add: v json_fuel_def)
  then show thesis using that ws by blast
qed

definition nests :: "(string \<times> string) list \<Rightarrow> bool" where
  "nests es = list_all (\<lambda>e. valid_utf8 (fst e) \<and> nest_parse (snd e) \<noteq> None) es"

definition nest_values :: "(string \<times> string) list \<Rightarrow> (string \<times> json) list" where
  "nest_values es = List.map (\<lambda>e. (fst e, the (nest_parse (snd e)))) es"

lemma expect_here: "\<not> json_space c \<Longrightarrow> expect c (c # t) = Some t"
  using expect_append [of "[]" c t] by simp

lemma members_string_parse:
  assumes "nests ((k, v) # es)" and "2 * length (members_string False ((k, v) # es)) \<le> f"
  shows "parse_members f (max_nesting - 1) (members_string False ((k, v) # es) @ CHR ''}'' # r)
    = Some (nest_values ((k, v) # es), r)"
  using assms
proof (induction es arbitrary: k v f)
  case Nil
  obtain x where k: "valid_utf8 k" and x: "nest_parse v = Some x" using Nil by (auto simp: nests_def)
  obtain g where f: "f = Suc g" "2 * length v + 2 \<le> g"
    using Nil(2) by (cases f) (simp_all add: marshal_string_def)
  obtain w where "parse_value g (max_nesting - 1) (v @ CHR ''}'' # r) = Some (x, w @ CHR ''}'' # r)"
    "list_all json_space w"
    using nest_parse_member [OF x f(2), of "CHR ''}''" r] by auto
  moreover from this have c: "expect (CHR ''}'') (w @ CHR ''}'' # r) = Some r"
    by (simp add: expect_append)
  ultimately show ?case
    using x marshal_string_strlit(2) [OF k] expect_other [OF c, of "CHR '',''"]
    by (simp add: f marshal_string_def nest_values_def expect_here)
next
  case (Cons e es)
  obtain k' v' where e: "e = (k', v')" by (cases e)
  obtain x where k: "valid_utf8 k" and x: "nest_parse v = Some x" using Cons.prems by (auto simp: nests_def)
  obtain g where f: "f = Suc g" "2 * length v + 2 \<le> g"
    "2 * length (members_string False ((k', v') # es)) \<le> g"
    using Cons.prems(2) by (cases f) (simp_all add: marshal_string_def e)
  let ?u = "members_string False ((k', v') # es) @ CHR ''}'' # r"
  obtain w where w: "parse_value g (max_nesting - 1) (v @ CHR '','' # ?u) = Some (x, w @ CHR '','' # ?u)"
    "list_all json_space w"
    using nest_parse_member [OF x f(2), of "CHR '',''" ?u] by auto
  have "parse_members g (max_nesting - 1) ?u = Some (nest_values ((k', v') # es), r)"
    by (rule Cons.IH) (use Cons.prems(1) f(3) e in \<open>simp_all add: nests_def\<close>)
  moreover have "members_string False ((k, v) # e # es) @ CHR ''}'' # r
      = quote # (marshal_body k @ [quote]) @ CHR '':'' # v @ CHR '','' # ?u"
    by (simp add: marshal_string_def e)
  moreover have "expect (CHR '','') (w @ CHR '','' # ?u) = Some ?u"
    using w(2) by (simp add: expect_append)
  ultimately show ?case
    using x w(1) marshal_string_strlit(2) [OF k]
    by (simp add: f nest_values_def expect_here e del: members_string.simps)
qed

section \<open>Edits\<close>

datatype ('k, 'v) edit = Put 'k 'v | Del 'k

fun run_edits ::
  "('k \<Rightarrow> 'v \<Rightarrow> 's \<Rightarrow> 's option) \<Rightarrow> ('k \<Rightarrow> 's \<Rightarrow> 's) \<Rightarrow> ('k, 'v) edit list \<Rightarrow> 's \<Rightarrow> 's option" where
  "run_edits put del [] s = Some s"
| "run_edits put del (Put k v # es) s =
     (case put k v s of None \<Rightarrow> None | Some s' \<Rightarrow> run_edits put del es s')"
| "run_edits put del (Del k # es) s = run_edits put del es (del k s)"

fun map_edits :: "('k, 'v) edit list \<Rightarrow> ('k \<Rightarrow> 'v option) \<Rightarrow> ('k \<Rightarrow> 'v option)" where
  "map_edits [] m = m"
| "map_edits (Put k v # es) m = map_edits es (m(k := Some v))"
| "map_edits (Del k # es) m = map_edits es (m(k := None))"

fun puts_valid :: "('v \<Rightarrow> bool) \<Rightarrow> ('k, 'v) edit list \<Rightarrow> bool" where
  "puts_valid ok [] = True"
| "puts_valid ok (Put k v # es) = (ok v \<and> puts_valid ok es)"
| "puts_valid ok (Del k # es) = puts_valid ok es"

text \<open>The contract of an editable collection of named texts: what a lookup returns after an edit,
  and which edits are refused.\<close>

locale field_map =
  fixes get :: "'k \<Rightarrow> 's \<Rightarrow> 'v option"
    and put :: "'k \<Rightarrow> 'v \<Rightarrow> 's \<Rightarrow> 's option"
    and del :: "'k \<Rightarrow> 's \<Rightarrow> 's"
    and ok :: "'v \<Rightarrow> bool"
  assumes put_ok: "put k v s = None \<longleftrightarrow> \<not> ok v"
    and get_put: "put k v s = Some s' \<Longrightarrow> get j s' = (if j = k then Some v else get j s)"
    and get_del: "get j (del k s) = (if j = k then None else get j s)"
begin

lemma edits_total: "run_edits put del es s = None \<longleftrightarrow> \<not> puts_valid ok es"
proof (induction es arbitrary: s)
  case (Cons e es)
  show ?case
  proof (cases e)
    case (Put k v)
    show ?thesis
    proof (cases "put k v s")
      case None
      then show ?thesis using Put put_ok [of k v s] by simp
    next
      case (Some t)
      then have "ok v" using put_ok [of k v s] by simp
      then show ?thesis using Put Some Cons.IH [of t] by simp
    qed
  next
    case (Del k)
    then show ?thesis using Cons.IH by simp
  qed
qed simp

lemma edits_map:
  "run_edits put del es s = Some s' \<Longrightarrow> (\<lambda>k. get k s') = map_edits es (\<lambda>k. get k s)"
proof (induction es arbitrary: s)
  case Nil
  then show ?case by simp
next
  case (Cons e es)
  show ?case
  proof (cases e)
    case (Put k v)
    then obtain t where t: "put k v s = Some t" "run_edits put del es t = Some s'"
      using Cons.prems by (auto split: option.splits)
    have "(\<lambda>j. get j t) = (\<lambda>j. get j s)(k := Some v)" using get_put [OF t(1)] by auto
    then show ?thesis using Cons.IH [OF t(2)] Put by simp
  next
    case (Del k)
    have "(\<lambda>j. get j (del k s)) = (\<lambda>j. get j s)(k := None)" using get_del by auto
    then show ?thesis using Cons Del by simp
  qed
qed

end

lemma object_value_set:
  "object_set k v ob = Some ob' \<Longrightarrow> object_value j ob' = (if j = k then Some v else object_value j ob)"
proof -
  assume a: "object_set k v ob = Some ob'"
  have "map_of (o_sets ob') = (map_of (o_sets ob))(k := Some v)"
    "o_deleted ob' = removeAll k (o_deleted ob)"
    "o_last ob' = o_last ob" "o_fields ob' = o_fields ob"
    using a by (auto simp: object_set_def update_conv' split: if_splits)
  then show ?thesis by (simp add: object_value_def split: option.split)
qed

lemma object_value_delete:
  "object_value j (object_delete k ob) = (if j = k then None else object_value j ob)"
  by (simp add: object_delete_def object_value_def delete_conv' split: option.split)

interpretation fields: field_map object_value object_set object_delete json_valid
proof
  show "object_set k v s = None \<longleftrightarrow> \<not> json_valid v" for k v s
    by (simp add: object_set_def)
  show "object_value j s' = (if j = k then Some v else object_value j s)"
    if "object_set k v s = Some s'" for k v s s' j
    using that by (rule object_value_set)
  show "object_value j (object_delete k s) = (if j = k then None else object_value j s)" for j k s
    by (rule object_value_delete)
qed

abbreviation edit_object :: "(string, string) edit list \<Rightarrow> jobject \<Rightarrow> jobject option" where
  "edit_object \<equiv> run_edits object_set object_delete"

text \<open>The invariant of an object under edits: \<open>last\<close> points at a field of its key, a deleted key has
  no replacement, and the keys in \<open>setOrder\<close> are those replaced or since deleted.\<close>

definition wf_object :: "jobject \<Rightarrow> bool" where
  "wf_object ob \<longleftrightarrow>
     (\<forall>k i. map_of (o_last ob) k = Some i \<longrightarrow> i < length (o_fields ob) \<and> fst (o_fields ob ! i) = k)
     \<and> (\<forall>k. k \<in> set (o_deleted ob) \<longrightarrow> map_of (o_sets ob) k = None)
     \<and> (\<forall>k. map_of (o_sets ob) k \<noteq> None \<longrightarrow> k \<in> set (o_set_order ob))
     \<and> (\<forall>k. k \<in> set (o_set_order ob) \<longrightarrow> map_of (o_sets ob) k \<noteq> None \<or> k \<in> set (o_deleted ob))"

lemma wf_add_fields:
  "wf_object ob \<Longrightarrow> wf_object (add_fields fs ob)"
proof (induction fs arbitrary: ob)
  case Nil
  then show ?case by (simp add: add_fields_def)
next
  case (Cons f fs)
  have "wf_object (add_field (fst f) (snd f) ob)"
    using Cons.prems unfolding wf_object_def
    by (auto simp: add_field_def update_conv' nth_append less_Suc_eq)
  then show ?case using Cons.IH by (simp add: add_fields_def)
qed

lemma parse_object_fields:
  assumes "parse_object raw = Inr ob"
  obtains fs where "ob = add_fields fs (empty_object (trim_space raw))" and "o_fields ob = fs"
proof -
  have "json_valid (trim_space raw)" and "trim_space raw ! 0 = CHR ''{''"
    and "2 \<le> length (trim_space raw)"
    using assms by (simp_all add: parse_object_def Let_def split: if_splits)
  moreover from this(1) obtain v where "json_parse (trim_space raw) = Some v"
    by (auto simp: json_valid_def)
  ultimately obtain t where "json_parse (CHR ''{'' # t) = Some v" "trim_space raw = CHR ''{'' # t"
    by (cases "trim_space raw") auto
  then obtain ms where "json_parse (trim_space raw) = Some (JObj ms)" using json_parse_brace by fastforce
  then obtain fs where "parse_object raw = Inr (add_fields fs (empty_object (trim_space raw)))"
    using parse_object_ok by blast
  then show thesis
    using that [of fs] assms by (simp add: add_fields_fields empty_object_def)
qed

lemma wf_parse_object: assumes "parse_object raw = Inr ob" shows "wf_object ob"
proof -
  obtain fs where "ob = add_fields fs (empty_object (trim_space raw))"
    using parse_object_fields [OF assms] by blast
  moreover have "wf_object (empty_object (trim_space raw))"
    by (simp add: wf_object_def empty_object_def)
  ultimately show ?thesis by (simp add: wf_add_fields)
qed

lemma wf_object_set: "object_set k v ob = Some ob' \<Longrightarrow> wf_object ob \<Longrightarrow> wf_object ob'"
  unfolding wf_object_def
  by (auto simp: object_set_def update_conv' split: if_splits)

lemma wf_object_delete: "wf_object ob \<Longrightarrow> wf_object (object_delete k ob)"
  unfolding wf_object_def by (auto simp: object_delete_def delete_conv')

lemma wf_edits: "edit_object es ob = Some ob' \<Longrightarrow> wf_object ob \<Longrightarrow> wf_object ob'"
proof (induction es arbitrary: ob)
  case (Cons e es)
  then show ?case
    by (cases e) (auto split: option.splits intro: wf_object_set wf_object_delete)
qed simp

section \<open>What is written is what the object says\<close>

lemma own_members_set:
  "(k, v) \<in> set (own_members ob i fs) \<longleftrightarrow>
     k \<notin> set (o_deleted ob)
     \<and> (\<exists>j < length fs. map_of (o_last ob) k = Some (i + j) \<and> fst (fs ! j) = k
          \<and> v = overlay ob k (snd (fs ! j)))"
proof (induction fs arbitrary: i)
  case Nil
  then show ?case by simp
next
  case (Cons f fs)
  have sp: "(\<exists>j < length (f # fs). P j) \<longleftrightarrow> P 0 \<or> (\<exists>j < length fs. P (Suc j))" for P
    using less_Suc_eq_0_disj by auto
  show ?case
    unfolding sp by (cases f) (auto simp: Cons.IH)
qed

lemma emitted_value:
  assumes "wf_object ob"
  shows "(k, v) \<in> set (emitted ob) \<longleftrightarrow> object_value k ob = Some v"
proof (cases "k \<in> set (o_deleted ob)")
  case True
  then show ?thesis by (auto simp: emitted_def own_members_set set_members_def object_value_def)
next
  case del: False
  show ?thesis
  proof (cases "map_of (o_last ob) k")
    case (Some i)
    then have "i < length (o_fields ob)" "fst (o_fields ob ! i) = k"
      using assms by (simp_all add: wf_object_def)
    then have "(k, v) \<in> set (own_members ob 0 (o_fields ob)) \<longleftrightarrow> object_value k ob = Some v"
      using del Some by (auto simp: own_members_set object_value_def overlay_def split: option.split)
    moreover have "(k, v) \<notin> set (set_members ob (o_set_order ob))"
      using Some by (auto simp: set_members_def)
    ultimately show ?thesis by (simp add: emitted_def)
  next
    case None
    have "(k, v) \<in> set (set_members ob (o_set_order ob)) \<longleftrightarrow>
        k \<in> set (o_set_order ob) \<and> v = overlay ob k []"
      using del None by (auto simp: set_members_def)
    also have "\<dots> \<longleftrightarrow> map_of (o_sets ob) k = Some v"
      using assms del unfolding wf_object_def overlay_def
      by (cases "map_of (o_sets ob) k") auto
    finally show ?thesis
      using del None by (auto simp: emitted_def own_members_set object_value_def split: option.split)
  qed
qed

lemma map_of_functional:
  assumes "\<And>k v. (k, v) \<in> set es \<longleftrightarrow> g k = Some v"
  shows "map_of es k = g k"
proof (cases "g k")
  case None
  then show ?thesis using assms [of k] by (auto simp: map_of_eq_None_iff)
next
  case (Some v)
  then have "(k, v) \<in> set es" using assms by simp
  then obtain w where w: "map_of es k = Some w" using weak_map_of_SomeI by fast
  then have "g k = Some w" using assms map_of_SomeD by fast
  then show ?thesis using w by simp
qed

lemma nest_values_map_of:
  "map_of (nest_values es) k = map_option (\<lambda>t. the (nest_parse t)) (map_of es k)"
  by (induction es) (auto simp: nest_values_def)

lemma object_bytes_parse:
  assumes "nests (emitted ob)"
  shows "json_parse (object_bytes ob) = Some (JObj (nest_values (emitted ob)))"
proof -
  let ?s = "members_string False (emitted ob)"
  have depth: "max_nesting \<noteq> 0" by (simp add: max_nesting_def)
  obtain f where f: "json_fuel (object_bytes ob) = Suc f" "2 * length ?s \<le> f"
    by (simp add: json_fuel_def object_bytes_emitted)
  have "parse_value (Suc f) max_nesting (object_bytes ob) = Some (JObj (nest_values (emitted ob)), [])"
  proof (cases "emitted ob")
    case Nil
    have "skip_ws ''{}'' = ''{}''" "expect (CHR ''}'') ''}'' = Some []"
      by (simp_all add: skip_ws_def expect_here json_space_def)
    then show ?thesis
      using depth by (simp add: object_bytes_emitted Nil parse_value_object nest_values_def)
  next
    case (Cons e es)
    obtain k v where e: "e = (k, v)" by (cases e)
    have "parse_members f (max_nesting - 1) (?s @ CHR ''}'' # []) = Some (nest_values (emitted ob), [])"
      using members_string_parse [of k v es f "[]"] assms f(2) by (simp add: Cons e)
    moreover have "expect (CHR ''}'') (?s @ CHR ''}'' # []) = None"
      by (simp add: Cons e marshal_string_def expect_def skip_ws_def)
    moreover have "skip_ws (object_bytes ob) = CHR ''{'' # ?s @ ''}''"
      by (simp add: object_bytes_emitted skip_ws_def json_space_def)
    ultimately show ?thesis
      using depth by (simp add: parse_value_object)
  qed
  then show ?thesis by (simp add: json_parse_def f skip_ws_def)
qed

lemma object_bytes_trim: "trim_space (object_bytes ob) = object_bytes ob"
proof -
  have "edge (CHR ''{'')" "edge (CHR ''}'')" by (simp_all add: edge_def ascii_space_def)
  then show ?thesis using trim_value [of "object_bytes ob" "[]"] by (simp add: object_bytes_emitted)
qed

text \<open>C9. Round trip. Parse an object, edit it, and write it with \<open>Bytes\<close>: when every name written is
  valid UTF-8 and every value written can be nested, the text is again a JSON object, parsing it
  succeeds, and under every key it has the value the edited object had (and no key more).\<close>

theorem object_roundtrip:
  assumes "parse_object raw = Inr ob0" and "edit_object edits ob0 = Some ob" and "nests (emitted ob)"
  shows "\<exists>ob'. parse_object (object_bytes ob) = Inr ob'
    \<and> (\<forall>k. rel_option (\<lambda>t t'. json_parse t' = json_parse t \<and> json_parse t \<noteq> None)
          (object_value k ob) (object_value k ob'))"
proof -
  have wf: "wf_object ob" by (rule wf_edits [OF assms(2) wf_parse_object [OF assms(1)]])
  obtain fs where fs: "reads fs (nest_values (emitted ob))"
    "parse_object (object_bytes ob) = Inr (add_fields fs (empty_object (object_bytes ob)))"
    using parse_object_ok [of "object_bytes ob"] object_bytes_parse [OF assms(3)]
    by (auto simp: object_bytes_trim)
  define ob' where "ob' = add_fields fs (empty_object (object_bytes ob))"
  have "object_value k ob' = map_of (rev fs) k" for k
    using object_value_fields [of ob' k] obj_inv_add_fields [OF obj_inv_empty]
    by (simp add: ob'_def add_fields_edits add_fields_fields) (simp add: empty_object_def)
  moreover have "map_of (rev (nest_values (emitted ob))) k
      = map_option (\<lambda>t. the (nest_parse t)) (object_value k ob)" for k
  proof -
    have "map_of (rev (emitted ob)) k = object_value k ob"
      by (rule map_of_functional) (simp add: emitted_value [OF wf])
    moreover have "rev (nest_values (emitted ob)) = nest_values (rev (emitted ob))"
      by (simp add: nest_values_def rev_map)
    ultimately show ?thesis by (simp add: nest_values_map_of)
  qed
  moreover have "json_parse t = nest_parse t \<and> nest_parse t \<noteq> None" if "object_value k ob = Some t" for k t
    using that emitted_value [OF wf, of k t] assms(3) nest_parse_json
    by (force simp: nests_def list_all_iff)
  moreover have "rel_option (\<lambda>t v. json_parse t = Some v) (map_of (rev fs) k)
      (map_of (rev (nest_values (emitted ob))) k)" for k
    by (rule reads_map_of [OF reads_rev [OF fs(1)]])
  ultimately have all: "object_value k ob' = map_of (rev fs) k"
    "object_value k ob = Some t \<Longrightarrow> json_parse t = nest_parse t \<and> nest_parse t \<noteq> None"
    "rel_option (\<lambda>t v. json_parse t = Some v) (map_of (rev fs) k)
      (map_option (\<lambda>t. the (nest_parse t)) (object_value k ob))" for k t
    by simp_all
  have "rel_option (\<lambda>t t'. json_parse t' = json_parse t \<and> json_parse t \<noteq> None)
      (object_value k ob) (object_value k ob')" for k
  proof (cases "object_value k ob")
    case None
    then show ?thesis using all(1,3) [of k] by simp
  next
    case (Some t)
    then show ?thesis
      using all(1,3) [of k] all(2) [OF Some] by (cases "map_of (rev fs) k") auto
  qed
  then show ?thesis using fs(2) by (auto simp: ob'_def)
qed

definition sample_object :: jobject where
  "sample_object = \<lparr>o_raw = ''{\"a\":1}'', o_fields = [(''a'', ''1'')], o_last = [(''a'', 0)],
     o_counts = [(''a'', 1)], o_sets = [], o_set_order = [], o_deleted = []\<rparr>"

lemma sample_parse: "parse_object ''{\"a\":1}'' = Inr sample_object"
  by code_simp

definition sample_edited :: jobject where
  "sample_edited = \<lparr>o_raw = ''{\"a\":1}'', o_fields = [(''a'', ''1'')], o_last = [(''a'', 0)],
     o_counts = [(''a'', 1)], o_sets = [(''b'', ''2'')], o_set_order = [''b''], o_deleted = [''a'']\<rparr>"

lemma sample_edit: "edit_object [Put ''b'' ''2'', Del ''a''] sample_object = Some sample_edited"
  by code_simp

theorem object_roundtrip_witness:
  "\<exists>ob'. parse_object ''{\"b\":2}'' = Inr ob'
    \<and> rel_option (\<lambda>t t'. json_parse t' = json_parse t \<and> json_parse t \<noteq> None) (Some ''2'') (object_value ''b'' ob')"
proof -
  have n: "nests (emitted sample_edited)" by code_simp
  have b: "object_bytes sample_edited = ''{\"b\":2}''" by code_simp
  have v: "object_value ''b'' sample_edited = Some ''2''"
    by (simp add: object_value_def sample_edited_def)
  obtain ob' where "parse_object (object_bytes sample_edited) = Inr ob'"
    and "\<forall>k. rel_option (\<lambda>t t'. json_parse t' = json_parse t \<and> json_parse t \<noteq> None)
          (object_value k sample_edited) (object_value k ob')"
    using object_roundtrip [OF sample_parse sample_edit n] by blast
  then have "parse_object ''{\"b\":2}'' = Inr ob'"
    "rel_option (\<lambda>t t'. json_parse t' = json_parse t \<and> json_parse t \<noteq> None)
      (Some ''2'') (object_value ''b'' ob')"
    unfolding b v [symmetric] by blast+
  then show ?thesis by blast
qed

text \<open>C10. After any sequence of \<open>Set\<close> and \<open>Delete\<close> the object reads as the map it read as before
  with the same updates applied, and the sequence is refused exactly when one of the replacements is
  not valid JSON.\<close>

theorem edits_refine_map:
  "case edit_object edits ob of
     None \<Rightarrow> \<not> puts_valid json_valid edits
   | Some ob' \<Rightarrow> puts_valid json_valid edits
       \<and> (\<lambda>k. object_value k ob') = map_edits edits (\<lambda>k. object_value k ob)"
  using fields.edits_total [of edits ob] fields.edits_map [of edits ob]
  by (cases "edit_object edits ob") auto

lemma own_members_cong:
  "o_last ob' = o_last ob \<Longrightarrow> (\<And>name. (name \<in> set (o_deleted ob')) = (name \<in> set (o_deleted ob)) \<or> map_of (o_last ob) name = None)
   \<Longrightarrow> (\<And>name. map_of (o_sets ob') name = map_of (o_sets ob) name \<or> map_of (o_last ob) name = None)
   \<Longrightarrow> own_members ob' i fs = own_members ob i fs"
proof (induction fs arbitrary: i)
  case Nil
  then show ?case by simp
next
  case (Cons f fs)
  obtain name v where f: "f = (name, v)" by (cases f)
  have IH: "own_members ob' (Suc i) fs = own_members ob (Suc i) fs" using Cons by blast
  show ?case
  proof (cases "map_of (o_last ob) name")
    case None
    then show ?thesis using IH Cons.prems(1) by (simp add: f)
  next
    case (Some j)
    then have "(name \<in> set (o_deleted ob')) = (name \<in> set (o_deleted ob))"
      "map_of (o_sets ob') name = map_of (o_sets ob) name"
      using Cons.prems(2,3) [of name] by simp_all
    then show ?thesis using IH Cons.prems(1) by (simp add: f overlay_def)
  qed
qed

text \<open>Setting a key the parsed object does not have, deleting it and setting it again leaves the
  key twice in the order of the replacements, so that \<open>Bytes\<close> writes the member twice (both copies
  with the last value): the text is still an object that reads the same, but has a duplicate key.\<close>

theorem set_delete_set_writes_twice:
  assumes "parse_object raw = Inr ob" and "map_of (o_last ob) k = None"
    and "json_valid v" and "json_valid w"
  shows "\<exists>ob'. edit_object [Put k v, Del k, Put k w] ob = Some ob'
    \<and> emitted ob' = emitted ob @ [(k, w), (k, w)]"
proof -
  obtain fs where fs: "ob = add_fields fs (empty_object (trim_space raw))"
    using parse_object_fields [OF assms(1)] by blast
  have order: "o_set_order (add_fields fs ob) = o_set_order ob" for fs ob
    unfolding add_fields_def by (induction fs arbitrary: ob) (simp_all add: add_field_def)
  have e: "o_sets ob = []" "o_deleted ob = []" "o_set_order ob = []"
    using add_fields_edits order by (simp_all add: fs) (simp_all add: empty_object_def)
  define ob' where "ob' = ob\<lparr>o_set_order := [k, k], o_sets := [(k, w)], o_deleted := []\<rparr>"
  have "edit_object [Put k v, Del k, Put k w] ob = Some ob'"
    using assms(3,4) e by (simp add: object_set_def object_delete_def ob'_def)
  moreover have "own_members ob' 0 (o_fields ob) = own_members ob 0 (o_fields ob)"
    by (rule own_members_cong) (use assms(2) e in \<open>auto simp: ob'_def\<close>)
  then have "emitted ob' = emitted ob @ [(k, w), (k, w)]"
    using assms(2) e by (simp add: emitted_def set_members_def overlay_def ob'_def)
  ultimately show ?thesis by blast
qed

theorem set_delete_set_writes_twice_witness:
  "\<exists>ob'. edit_object [Put ''b'' ''2'', Del ''b'', Put ''b'' ''3''] sample_object = Some ob'
    \<and> emitted ob' = emitted sample_object @ [(''b'', ''3''), (''b'', ''3'')]"
proof -
  have "map_of (o_last sample_object) ''b'' = None" by (simp add: sample_object_def)
  moreover have "json_valid ''2''" "json_valid ''3''" by code_simp+
  ultimately show ?thesis by (rule set_delete_set_writes_twice [OF sample_parse])
qed

end
