(* ===== verification/Response_Event.thy ===== *)
theory Response_Event
  imports Json_Parse
begin

text \<open>
  \<open>internal/protocol/responseevent\<close>: what the gateway reads from the events of a response, whatever
  their protocol: the payload of a line of server-sent events, the tokens used, the response
  id, and whether an error event reports a rate limit or an exhausted quota.

  \<open>int64 (float64)\<close> outside the range of \<open>int64\<close> is implementation-defined in Go; the model takes
  the value the amd64 compiler gives.
\<close>

section \<open>Kinds of limits\<close>

datatype limit_kind = LimitNone | LimitTemporary | LimitQuota

fun limit_rank :: "limit_kind \<Rightarrow> nat" where
  "limit_rank LimitNone = 0"
| "limit_rank LimitTemporary = 1"
| "limit_rank LimitQuota = 2"

lemma limit_rank_inj: "limit_rank k = limit_rank l \<longleftrightarrow> k = l"
  by (cases k; cases l) simp_all

instantiation limit_kind :: linorder
begin

definition "less_eq_limit_kind k l \<longleftrightarrow> limit_rank k \<le> limit_rank l"

definition "less_limit_kind k l \<longleftrightarrow> limit_rank k < limit_rank l"

instance
  by intro_classes (auto simp: less_eq_limit_kind_def less_limit_kind_def limit_rank_inj)

end

section \<open>Reading an event\<close>

definition sse_data :: "string \<Rightarrow> string option" where
  "sse_data line =
     (let trimmed = trim_space line in
      if \<not> has_prefix ''data:'' trimmed then None
      else Some (trim_space (trim_prefix ''data:'' trimmed)))"

definition int64_of_float :: "rat \<Rightarrow> int" where
  "int64_of_float q =
     (let t = (if 0 \<le> q then \<lfloor>q\<rfloor> else \<lceil>q\<rceil>)
      in if in_int64 t then t else - max_int64 - 1)"

definition number :: "json option \<Rightarrow> int" where
  "number v =
     (case v of
        Some (JNum l) \<Rightarrow> (case num_float l of Some q \<Rightarrow> int64_of_float q | None \<Rightarrow> 0)
      | _ \<Rightarrow> 0)"

definition event_usage :: "string \<Rightarrow> int \<times> int" where
  "event_usage data =
     (case unmarshal_map data of
        None \<Rightarrow> (0, 0)
      | Some value \<Rightarrow>
          let nested = (case jget_obj ''response'' value of
                          Some response \<Rightarrow> jget_obj ''usage'' response | None \<Rightarrow> None);
              usage = (case nested of Some u \<Rightarrow> Some u | None \<Rightarrow> jget_obj ''usage'' value)
          in case usage of
               None \<Rightarrow> (0, 0)
             | Some u \<Rightarrow>
                let input = number (jget ''input_tokens'' u);
                    output = number (jget ''output_tokens'' u)
                in (if input = 0 then number (jget ''prompt_tokens'' u) else input,
                    if output = 0 then number (jget ''completion_tokens'' u) else output))"

definition response_id :: "string \<Rightarrow> string" where
  "response_id data =
     (case unmarshal_map data of
        None \<Rightarrow> []
      | Some value \<Rightarrow>
          (case jget_str ''response_id'' value of
             Some rid \<Rightarrow> rid
           | None \<Rightarrow>
              (case jget_str ''id'' value of
                 Some rid \<Rightarrow> rid
               | None \<Rightarrow>
                  (case jget_obj ''response'' value of
                     Some response \<Rightarrow>
                       (case jget_str ''id'' response of Some rid \<Rightarrow> rid | None \<Rightarrow> [])
                   | None \<Rightarrow> []))))"

section \<open>Limits\<close>

text \<open>A \<open>json.RawMessage\<close> is the value it holds, \<open>None\<close> when the field was absent.\<close>

definition last_value :: "json list \<Rightarrow> json option" where
  "last_value vs = (if vs = [] then None else Some (last vs))"

definition limit_error :: "json option \<Rightarrow> string \<times> string \<times> string \<times> bool" where
  "limit_error raw =
     (case raw of
        None \<Rightarrow> ([], [], [], False)
      | Some JNull \<Rightarrow> ([], [], [], False)
      | Some (JStr message) \<Rightarrow> ([], [], message, message \<noteq> [])
      | Some (JObj ms) \<Rightarrow>
          (case (str_field ''type'' ms, str_field ''code'' ms, str_field ''message'' ms) of
             (Some t, Some c, Some m) \<Rightarrow> (t, c, m, t \<noteq> [] \<or> c \<noteq> [] \<or> m \<noteq> [])
           | _ \<Rightarrow> ([], [], [], False))
      | Some _ \<Rightarrow> ([], [], [], False))"

record limit_event =
  le_type :: string
  le_code :: string
  le_message :: string
  le_error :: "json option"
  le_response_error :: "json option"

fun response_members :: "json list \<Rightarrow> (string \<times> json) list option" where
  "response_members [] = Some []"
| "response_members (v # vs) =
     (case (struct_members v, response_members vs) of
        (Some ms, Some ns) \<Rightarrow> Some (ms @ ns)
      | _ \<Rightarrow> None)"

definition decode_limit_event :: "string \<Rightarrow> limit_event option" where
  "decode_limit_event data =
     (case json_parse data of
        None \<Rightarrow> None
      | Some v \<Rightarrow>
          (case struct_members v of
             None \<Rightarrow> None
           | Some ms \<Rightarrow>
               (case (str_field ''type'' ms, str_field ''code'' ms, str_field ''message'' ms,
                      response_members (field_vals ''response'' ms)) of
                  (Some t, Some c, Some m, Some rs) \<Rightarrow>
                    Some \<lparr>le_type = t, le_code = c, le_message = m,
                          le_error = last_value (field_vals ''error'' ms),
                          le_response_error = last_value (field_vals ''error'' rs)\<rparr>
                | _ \<Rightarrow> None)))"

definition quota_phrases :: "string list" where
  "quota_phrases =
     [''hit your usage limit'', ''reached your usage limit'', ''usage limit reached'',
      ''usage limit has been reached'', ''quota exceeded'', ''quota exhausted'',
      ''insufficient quota'']"

definition signal_char :: "char \<Rightarrow> char" where
  "signal_char c = (if c = CHR ''-'' \<or> c = CHR '' '' then CHR ''_'' else c)"

definition normalize_signal :: "string \<Rightarrow> string" where
  "normalize_signal signal =
     to_lower (map signal_char signal)"

fun signal_limit :: "string list \<Rightarrow> limit_kind" where
  "signal_limit [] = LimitNone"
| "signal_limit (signal # signals) =
     (let normalized = normalize_signal signal in
      if str_contains ''usage_limit'' normalized \<or> str_contains ''quota'' normalized then LimitQuota
      else if str_contains ''rate_limit'' normalized then LimitTemporary
      else signal_limit signals)"

definition classify_event :: "limit_event \<Rightarrow> limit_kind" where
  "classify_event event =
     (let (error_type, error_code, error_message, has_error) = limit_error (le_error event);
          (response_type, response_code, response_message, _) = limit_error (le_response_error event);
          typed_error = (le_type event = ''error'' \<or> le_type event = ''response.failed'');
          raw_error = (le_type event = [] \<and> (le_code event \<noteq> [] \<or> le_message event \<noteq> [] \<or> has_error))
      in
      if \<not> typed_error \<and> \<not> raw_error then LimitNone
      else
        let message = to_lower (le_message event @ '' '' @ error_message @ '' '' @ response_message) in
        if list_ex (\<lambda>phrase. str_contains phrase message) quota_phrases then LimitQuota
        else
          case signal_limit [le_code event, error_type, error_code, response_type, response_code] of
            LimitNone \<Rightarrow>
              (if str_contains ''rate limit exceeded'' message \<or> str_contains ''too many requests'' message
               then LimitTemporary else LimitNone)
          | k \<Rightarrow> k)"

definition classify_limit :: "string \<Rightarrow> limit_kind" where
  "classify_limit data =
     (case decode_limit_event data of None \<Rightarrow> LimitNone | Some event \<Rightarrow> classify_event event)"

section \<open>Properties\<close>

text \<open>A payload framed as a line of server-sent events, with any white space after the field name
  and at the end of the line, is read back as it was.\<close>

theorem sse_data_roundtrip:
  assumes "payload \<noteq> []" and "edge (hd payload)" and "edge (last payload)"
    and "list_all json_space gap" and "list_all json_space line_end" and "list_all json_space indent"
  shows "sse_data (indent @ ''data:'' @ gap @ payload @ line_end) = Some payload"
proof -
  have "edge (CHR ''d'')" by (simp add: edge_def ascii_space_def)
  then have "trim_space (indent @ (''data:'' @ gap @ payload) @ line_end) = ''data:'' @ gap @ payload"
    by (intro trim_around) (use assms in simp_all)
  moreover have "trim_space (gap @ payload @ []) = payload"
    by (rule trim_around) (use assms in simp_all)
  ultimately show ?thesis by (simp add: sse_data_def trim_prefix_def)
qed

theorem sse_data_roundtrip_witness:
  "sse_data ('' '' @ ''data:'' @ '' '' @ ''{}'' @ [char_of (10::nat)]) = Some ''{}''"
  by (rule sse_data_roundtrip) (simp_all add: edge_def ascii_space_def json_space_def)

lemma scan_sign_digits: "list_all is_digit s \<Longrightarrow> takeWhile is_digit s = s \<and> dropWhile is_digit s = []"
  by (induction s) simp_all

text \<open>A token count is read exactly: for every integer literal below \<open>2^53\<close> in magnitude, going
  through \<open>float64\<close> and back to \<open>int64\<close> loses nothing.\<close>

theorem token_count_exact:
  assumes "num_int64 l = Some n" and "\<bar>n\<bar> < 2 ^ 53"
  shows "number (Some (JNum l)) = n"
proof -
  define body where "body = scan_sign l"
  have b: "body \<noteq> []" "list_all is_digit body"
    and n: "n = (if body = l then digits_val body else - digits_val body)" and i: "in_int64 n"
    using assms(1) by (simp_all add: num_int64_def body_def Let_def split: if_splits)
  have d: "takeWhile is_digit body = body" "dropWhile is_digit body = []"
    using scan_sign_digits [OF b(2)] by simp_all
  have "dropWhile (\<lambda>c. is_digit c \<or> c = CHR ''.'') body = []"
    using b(2) by (simp add: dropWhile_eq_Nil_conv list_all_iff)
  then have e: "lit_exp_part body = 0" unfolding lit_exp_part_def by (simp only: list.case)
  have frac: "lit_frac_part (dropWhile is_digit body) = []" by (simp add: d lit_frac_part_def)
  have p: "of_int x * pow10 (0 - int (length [])) = (of_int x :: rat)" for x
    by (simp add: pow10_def)
  have v: "(if body = l then of_int (digits_val body) else - of_int (digits_val body)) = (of_int n :: rat)"
    by (simp add: n)
  have f: "num_float l = (if \<bar>of_int n :: rat\<bar> < max_float then Some (float64 (of_int n)) else None)"
    unfolding num_float_def Let_def body_def [symmetric] frac e unfolding d append_Nil2 p v ..
  have "\<bar>of_int n :: rat\<bar> < of_int (2 ^ 53)" using assms(2) by (metis of_int_abs of_int_less_iff)
  also have "\<dots> \<le> max_float" by (simp add: max_float_def)
  finally have "num_float l = Some (of_int n)" using f float64_int [OF assms(2)] by simp
  then show ?thesis using i by (simp add: number_def int64_of_float_def)
qed

theorem token_count_exact_witness: "number (Some (JNum ''-42'')) = -42"
  by (rule token_count_exact)
     (simp_all add: num_int64_def scan_sign_def is_digit_def digits_val_def in_int64_def max_int64_def)

text \<open>When an event is an error, and what marks a signal.\<close>

definition reports_error :: "limit_event \<Rightarrow> bool" where
  "reports_error event \<longleftrightarrow>
     le_type event = ''error'' \<or> le_type event = ''response.failed''
   \<or> le_type event = [] \<and> (le_code event \<noteq> [] \<or> le_message event \<noteq> []
        \<or> snd (snd (snd (limit_error (le_error event)))))"

definition quota_signal :: "string \<Rightarrow> bool" where
  "quota_signal s \<longleftrightarrow> str_contains ''usage_limit'' (normalize_signal s)
     \<or> str_contains ''quota'' (normalize_signal s)"

definition rate_signal :: "string \<Rightarrow> bool" where
  "rate_signal s \<longleftrightarrow> str_contains ''rate_limit'' (normalize_signal s)"

definition event_message :: "limit_event \<Rightarrow> string" where
  "event_message event = to_lower (le_message event @ '' '' @
     fst (snd (snd (limit_error (le_error event)))) @ '' '' @
     fst (snd (snd (limit_error (le_response_error event)))))"

definition event_signals :: "limit_event \<Rightarrow> string list" where
  "event_signals event =
     (let (t, c, _) = limit_error (le_error event); (rt, rc, _) = limit_error (le_response_error event)
      in [le_code event, t, c, rt, rc])"

lemma classify_event_alt:
  "classify_event event =
    (if \<not> reports_error event then LimitNone
     else if list_ex (\<lambda>phrase. str_contains phrase (event_message event)) quota_phrases then LimitQuota
     else case signal_limit (event_signals event) of
            LimitNone \<Rightarrow>
              (if str_contains ''rate limit exceeded'' (event_message event)
                  \<or> str_contains ''too many requests'' (event_message event)
               then LimitTemporary else LimitNone)
          | k \<Rightarrow> k)"
proof -
  obtain t c m h where e: "limit_error (le_error event) = (t, c, m, h)"
    by (cases "limit_error (le_error event)") auto
  obtain rt rc rm rh where r: "limit_error (le_response_error event) = (rt, rc, rm, rh)"
    by (cases "limit_error (le_response_error event)") auto
  have "reports_error event \<longleftrightarrow> le_type event = ''error'' \<or> le_type event = ''response.failed''
      \<or> le_type event = [] \<and> (le_code event \<noteq> [] \<or> le_message event \<noteq> [] \<or> h)"
    and "event_message event = to_lower (le_message event @ '' '' @ m @ '' '' @ rm)"
    and "event_signals event = [le_code event, t, c, rt, rc]"
    by (simp_all add: reports_error_def event_message_def event_signals_def e r)
  then show ?thesis
    unfolding classify_event_def e r Let_def prod.case by (simp only: de_Morgan_disj) simp
qed

lemma signal_limit_eq:
  "signal_limit ss =
    (case find (\<lambda>s. quota_signal s \<or> rate_signal s) ss of
       None \<Rightarrow> LimitNone
     | Some s \<Rightarrow> (if quota_signal s then LimitQuota else LimitTemporary))"
  by (induction ss) (simp_all add: quota_signal_def rate_signal_def Let_def del: str_contains.simps)

text \<open>Which limit an event reports, declaratively. An event that is no error reports none. An
  error reports an exhausted quota when its lower-cased message holds a quota phrase, or the first of
  its signals that says anything says quota; otherwise a temporary limit when that signal says rate
  limit, or no signal says anything and the message holds a rate-limit phrase.\<close>

theorem classify_limit_characterised:
  assumes "decode_limit_event data = Some event"
  shows "classify_limit data =
    (let decisive = find (\<lambda>s. quota_signal s \<or> rate_signal s) (event_signals event);
         says = (\<lambda>phrase. str_contains phrase (event_message event))
     in if \<not> reports_error event then LimitNone
        else if (\<exists>phrase \<in> set quota_phrases. says phrase)
             \<or> (case decisive of Some s \<Rightarrow> quota_signal s | None \<Rightarrow> False) then LimitQuota
        else if decisive \<noteq> None \<or> says ''rate limit exceeded'' \<or> says ''too many requests''
          then LimitTemporary
        else LimitNone)"
proof -
  have "classify_limit data = classify_event event" by (simp add: classify_limit_def assms)
  then show ?thesis
    unfolding classify_event_alt signal_limit_eq list_ex_iff Let_def
    by (cases "find (\<lambda>s. quota_signal s \<or> rate_signal s) (event_signals event)")
       (simp_all del: str_contains.simps)
qed

definition sample_limit :: limit_event where
  "sample_limit = \<lparr>le_type = ''error'', le_code = ''rate-limit'', le_message = ''Slow'',
     le_error = None, le_response_error = None\<rparr>"

theorem classify_limit_characterised_witness:
  "classify_limit ''{\"type\":\"error\",\"code\":\"rate-limit\",\"message\":\"Slow\"}'' = LimitTemporary"
proof -
  have d: "decode_limit_event ''{\"type\":\"error\",\"code\":\"rate-limit\",\"message\":\"Slow\"}''
      = Some sample_limit"
  proof -
    let ?ms = "[(''type'', JStr ''error''), (''code'', JStr ''rate-limit''), (''message'', JStr ''Slow'')]"
    have "json_parse ''{\"type\":\"error\",\"code\":\"rate-limit\",\"message\":\"Slow\"}''
        = Some (JObj ?ms)" by code_simp
    moreover have "str_field ''type'' ?ms = Some ''error''" by code_simp
    moreover have "str_field ''code'' ?ms = Some ''rate-limit''" by code_simp
    moreover have "str_field ''message'' ?ms = Some ''Slow''" by code_simp
    moreover have "field_vals ''response'' ?ms = []" by code_simp
    moreover have "field_vals ''error'' ?ms = []" by code_simp
    ultimately show ?thesis
      by (simp add: decode_limit_event_def struct_members_def sample_limit_def last_value_def field_vals_def)
  qed
  have "reports_error sample_limit" by (simp add: reports_error_def sample_limit_def)
  moreover have m: "event_message sample_limit = ''slow  ''" by code_simp
  moreover have "event_signals sample_limit = [''rate-limit'', '''', '''', '''', '''']" by code_simp
  moreover have n: "normalize_signal ''rate-limit'' = ''rate_limit''"
    by (simp add: normalize_signal_def signal_char_def lower_char_def)
  moreover have "rate_signal ''rate-limit''" unfolding rate_signal_def n by simp
  moreover have "\<not> quota_signal ''rate-limit''" unfolding quota_signal_def n by simp
  moreover have "\<not> (\<exists>phrase \<in> set quota_phrases. str_contains phrase ''slow  '')"
    by (simp add: quota_phrases_def)
  ultimately show ?thesis
    unfolding classify_limit_characterised [OF d] by (simp del: str_contains.simps)
qed

end
