(* ===== verification/Db.thy ===== *)
theory Db
  imports Complex_Main Domain "HOL-Library.Product_Lexorder" "HOL-Library.List_Lexorder" "HOL-Library.Char_ord"
begin

text \<open>
  The database behind \<open>internal/store\<close>: the tables that the routing, provider, runtime and settings
  queries use, with the columns those queries read or write, as the migrations leave them. A
  nullable column is an option, a \<open>uuid\<close>, \<open>text\<close>, \<open>bytea\<close> or \<open>jsonb\<close> value a string, a
  \<open>timestamptz\<close> or \<open>date\<close> a time (a date is midnight of its day, UTC), a table the list of its rows
  in the order they were inserted.

  A query is a function of the database. PostgreSQL's \<open>now()\<close> is the argument \<open>now\<close>. A statement that
  violates a constraint fails with the SQLSTATE of the constraint; failures of the connection are
  not modelled. A transaction that fails is rolled back: its function returns the error and no
  database. Advisory and row locks make transactions on the same pool or account run one after
  the other, which is how the functions compose.
\<close>

section \<open>Values the store exchanges with its callers\<close>

record account =
  a_id :: string
  a_provider :: string
  a_credential_type :: string
  a_display_name :: string
  a_email :: string
  a_ciphertext :: string
  a_version :: int
  a_status :: string
  a_fast_mode :: bool
  a_health :: string
  a_health_error :: string
  a_failures :: int
  a_checked_at :: "time option"
  a_next_check :: "time option"
  a_assigned_keys :: int
  a_quota :: string
  a_quota_checked :: "time option"
  a_quota_error :: string
  a_cooldown :: "time option"
  a_last_success :: "time option"
  a_last_failure :: "time option"
  a_created :: time
  a_updated :: time

definition no_account :: account where
  "no_account = \<lparr>a_id = [], a_provider = [], a_credential_type = [], a_display_name = [],
     a_email = [], a_ciphertext = [], a_version = 0, a_status = [], a_fast_mode = False,
     a_health = [], a_health_error = [], a_failures = 0, a_checked_at = None,
     a_next_check = None, a_assigned_keys = 0, a_quota = [], a_quota_checked = None,
     a_quota_error = [], a_cooldown = None, a_last_success = None, a_last_failure = None,
     a_created = 0, a_updated = 0\<rparr>"

record pool_account =
  pa_pool :: string
  pa_account :: string
  pa_weight :: int
  pa_priority :: int
  pa_enabled :: bool

record pool =
  p_id :: string
  p_name :: string
  p_provider :: string
  p_accounts :: "pool_account list"
  p_created :: time
  p_updated :: time

record api_key =
  k_id :: string
  k_pool :: string
  k_account :: string
  k_employee :: string
  k_employee_name :: string
  k_hmac :: string
  k_hint :: string
  k_scopes :: "string list"
  k_rate_limit :: int
  k_expires :: "time option"
  k_revoked :: "time option"
  k_last_used :: "time option"
  k_created :: time

record key_route =
  r_key :: api_key
  r_pool :: pool
  r_account :: account
  r_membership :: bool

section \<open>Tables\<close>

record account_row =
  ar_id :: string
  ar_provider :: string
  ar_credential_type :: string
  ar_display_name :: string
  ar_email :: "string option"
  ar_subject_hmac :: string
  ar_ciphertext :: string
  ar_version :: int
  ar_status :: string
  ar_fast_mode :: bool
  ar_health :: string
  ar_health_error :: "string option"
  ar_failures :: int
  ar_checked_at :: "time option"
  ar_next_check :: "time option"
  ar_quota :: string
  ar_quota_checked :: "time option"
  ar_quota_error :: "string option"
  ar_reset_credits :: "string option"
  ar_reset_checked :: "time option"
  ar_reset_claimed :: "time option"
  ar_cooldown :: "time option"
  ar_last_success :: "time option"
  ar_last_failure :: "time option"
  ar_created :: time
  ar_updated :: time

record pool_row =
  pr_id :: string
  pr_name :: string
  pr_provider :: string
  pr_created :: time
  pr_updated :: time

record key_row =
  kr_id :: string
  kr_pool :: string
  kr_employee :: string
  kr_hmac :: string
  kr_hint :: string
  kr_scopes :: "string list"
  kr_rate_limit :: int
  kr_expires :: "time option"
  kr_revoked :: "time option"
  kr_last_used :: "time option"
  kr_created :: time

record binding_row =
  b_key :: string
  b_account :: string
  b_assigned :: time

record session_row =
  s_key :: string
  s_pool :: string
  s_hash :: string
  s_account :: string
  s_expires :: time

record request_event_row =
  ev_key :: string
  ev_hash :: string
  ev_account :: string
  ev_at :: time

record usage_row =
  u_key :: string
  u_date :: time
  u_model :: string
  u_input :: int
  u_output :: int
  u_updated :: time

record login_failure_row =
  lf_scope :: string
  lf_count :: int
  lf_reset :: time

record admin_session_row =
  as_hash :: string
  as_expires :: time
  as_revoked :: "time option"

record rate_row =
  rl_key :: string
  rl_window :: time
  rl_count :: int

record audit_row =
  au_actor :: string
  au_action :: string
  au_target_type :: string
  au_target :: string
  au_result :: string
  au_at :: time

record db =
  t_accounts :: "account_row list"
  t_pools :: "pool_row list"
  t_pool_accounts :: "pool_account list"
  t_employees :: "(string \<times> string) list"
  t_keys :: "key_row list"
  t_bindings :: "binding_row list"
  t_sessions :: "session_row list"
  t_events :: "request_event_row list"
  t_dedup :: "(string \<times> string \<times> time) list"
  t_usage :: "usage_row list"
  t_settings :: "settings"
  t_settings_updated :: time
  t_admin_sessions :: "admin_session_row list"
  t_login_failures :: "login_failure_row list"
  t_rate_limits :: "rate_row list"
  t_audit :: "audit_row list"

section \<open>Errors\<close>

datatype pg_error = NoRows | SqlState string

definition foreign_key_violation :: pg_error where "foreign_key_violation = SqlState ''23503''"
definition unique_violation :: pg_error where "unique_violation = SqlState ''23505''"
definition check_violation :: pg_error where "check_violation = SqlState ''23514''"

lemmas sql_states = foreign_key_violation_def unique_violation_def check_violation_def

datatype store_error =
  NotFound | NoEligibleAccount | Conflict | PinnedUnavailable | InvalidSettings limits_error
| DbFailed string pg_error | NegativeTokens | NoEventHash

text \<open>\<open>wrapDB\<close> on an error (a nil error stays nil, which is the other side of the sum), and
  \<open>wrapMutation\<close> on the number of rows a statement changed.\<close>

definition wrap_db :: "string \<Rightarrow> pg_error \<Rightarrow> store_error" where
  "wrap_db action e =
     (if e = NoRows then NotFound
      else if e = SqlState ''23503'' \<or> e = SqlState ''23505'' then Conflict
      else DbFailed action e)"

definition wrapped :: "string \<Rightarrow> pg_error + 'a \<Rightarrow> store_error + 'a" where
  "wrapped action r = (case r of Inl e \<Rightarrow> Inl (wrap_db action e) | Inr x \<Rightarrow> Inr x)"

definition wrap_mutation :: "string \<Rightarrow> pg_error + ('d \<times> nat) \<Rightarrow> store_error + 'd" where
  "wrap_mutation action r =
     (case r of
        Inl e \<Rightarrow> Inl (wrap_db action e)
      | Inr (d, affected) \<Rightarrow> (if affected = 0 then Inl NotFound else Inr d))"

lemma wrapped_simps [simp]:
  "wrapped action (Inl e) = Inl (wrap_db action e)" "wrapped action (Inr x) = Inr x"
  by (simp_all add: wrapped_def)

lemma wrap_mutation_simps [simp]:
  "wrap_mutation action (Inl e) = Inl (wrap_db action e)"
  "wrap_mutation action (Inr (d, n)) = (if n = 0 then Inl NotFound else Inr d)"
  by (simp_all add: wrap_mutation_def)

section \<open>Statements\<close>

text \<open>\<open>UPDATE\<close>: the rows that satisfy the condition are changed, and counted. \<open>find_row\<close> is a
  \<open>SELECT\<close> that expects one row.\<close>

definition update_rows :: "('r \<Rightarrow> bool) \<Rightarrow> ('r \<Rightarrow> 'r) \<Rightarrow> 'r list \<Rightarrow> 'r list" where
  "update_rows P f rows = map (\<lambda>r. if P r then f r else r) rows"

definition find_row :: "('r \<Rightarrow> bool) \<Rightarrow> 'r list \<Rightarrow> pg_error + 'r" where
  "find_row P rows = (case find P rows of None \<Rightarrow> Inl NoRows | Some r \<Rightarrow> Inr r)"

definition nullif_empty :: "string \<Rightarrow> string option" where
  "nullif_empty s = (if s = [] then None else Some s)"

definition coalesce :: "'a option \<Rightarrow> 'a \<Rightarrow> 'a" where
  "coalesce v d = (case v of None \<Rightarrow> d | Some x \<Rightarrow> x)"

lemma update_rows_simps [simp]:
  "update_rows P f [] = []"
  "update_rows P f (r # rows) = (if P r then f r else r) # update_rows P f rows"
  by (simp_all add: update_rows_def)

lemma length_update_rows [simp]: "length (update_rows P f rows) = length rows"
  by (simp add: update_rows_def)

lemma set_update_rows: "set (update_rows P f rows) = (\<lambda>r. if P r then f r else r) ` set rows"
  by (simp add: update_rows_def)

lemma map_update_rows:
  "(\<And>r. P r \<Longrightarrow> g (f r) = g r) \<Longrightarrow> map g (update_rows P f rows) = map g rows"
  by (simp add: update_rows_def)

lemma count_update_rows:
  "(\<And>r. P r \<Longrightarrow> Q (f r) = Q r) \<Longrightarrow> count_if Q (update_rows P f rows) = count_if Q rows"
  by (induction rows) auto

lemma update_rows_all:
  assumes "x \<in> set (update_rows P f rows)"
    and "\<And>r. r \<in> set rows \<Longrightarrow> P r \<Longrightarrow> Q (f r)" and "\<And>r. r \<in> set rows \<Longrightarrow> \<not> P r \<Longrightarrow> Q r"
  shows "Q x"
  using assms by (induction rows) (auto split: if_splits)

lemma filter_update_rows:
  "(\<And>r. P r \<Longrightarrow> \<not> Q r \<and> \<not> Q (f r)) \<Longrightarrow> filter Q (update_rows P f rows) = filter Q rows"
  by (induction rows) auto

lemma find_row_Inr: "find_row P rows = Inr r \<Longrightarrow> r \<in> set rows \<and> P r"
  by (auto simp: find_row_def find_Some_iff split: option.splits)

lemma find_row_Inl: "find_row P rows = Inl e \<longleftrightarrow> e = NoRows \<and> (\<forall>r \<in> set rows. \<not> P r)"
proof (cases "find P rows")
  case None
  then have "\<forall>r \<in> set rows. \<not> P r" by (simp add: find_None_iff)
  then show ?thesis using None by (auto simp: find_row_def)
next
  case (Some r)
  then have "r \<in> set rows \<and> P r" by (auto simp: find_Some_iff)
  then show ?thesis using Some by (auto simp: find_row_def)
qed

section \<open>Conditions shared by the queries\<close>

text \<open>A key is live when it is neither revoked nor expired.\<close>

definition key_live :: "time \<Rightarrow> key_row \<Rightarrow> bool" where
  "key_live now k \<longleftrightarrow>
     kr_revoked k = None \<and> (case kr_expires k of None \<Rightarrow> True | Some t \<Rightarrow> now < t)"

definition key_is_live :: "db \<Rightarrow> time \<Rightarrow> string \<Rightarrow> bool" where
  "key_is_live db now kid \<longleftrightarrow> list_ex (\<lambda>k. kr_id k = kid \<and> key_live now k) (t_keys db)"

text \<open>The live keys bound to an account.\<close>

definition bound_keys :: "db \<Rightarrow> time \<Rightarrow> string \<Rightarrow> nat" where
  "bound_keys db now aid =
     count_if (\<lambda>b. b_account b = aid \<and> key_is_live db now (b_key b)) (t_bindings db)"

text \<open>An account can be routed to when it is active or its cooldown is over, and it is not
  unhealthy.\<close>

definition routable :: "time \<Rightarrow> account_row \<Rightarrow> bool" where
  "routable now a \<longleftrightarrow>
     (ar_status a = account_active
      \<or> ar_status a = account_cooling_down
        \<and> (case ar_cooldown a of None \<Rightarrow> False | Some t \<Rightarrow> t \<le> now))
     \<and> (if ar_health a = [] then health_unknown else ar_health a) \<noteq> health_unhealthy"

section \<open>Integrity\<close>

text \<open>What the constraints of the schema guarantee of every database.\<close>

definition statuses :: "string list" where
  "statuses = [account_active, account_cooling_down, account_exhausted, account_auth_failed,
     account_disabled]"

definition healths :: "string list" where
  "healths = [health_unknown, health_healthy, health_unhealthy]"

definition account_providers :: "string list" where
  "account_providers = [provider_codex, provider_copilot, provider_openai_compatible,
     provider_antigravity]"

definition pool_providers :: "string list" where
  "pool_providers = [provider_codex, provider_copilot, provider_openai_compatible,
     provider_antigravity, provider_mixed]"

definition blank :: "string \<Rightarrow> bool" where
  "blank s \<longleftrightarrow> list_all (\<lambda>c. c = CHR '' '') s"

definition settings_check :: "settings \<Rightarrow> bool" where
  "settings_check s \<longleftrightarrow>
     1 \<le> max_keys_per_account s \<and> max_keys_per_account s \<le> 100
     \<and> (max_request_body s = 0 \<and> max_inflight_body s = 0
        \<or> 0 < max_request_body s \<and> max_request_body s \<le> trunc_div (max_inflight_body s) 4)"

definition account_ok :: "account_row \<Rightarrow> bool" where
  "account_ok a \<longleftrightarrow>
     ar_provider a \<in> set account_providers \<and> ar_credential_type a \<in> {credential_subscription, credential_api_key}
     \<and> ar_status a \<in> set statuses \<and> ar_health a \<in> set healths \<and> 0 \<le> ar_failures a"

definition account_ids :: "db \<Rightarrow> string list" where "account_ids db = map ar_id (t_accounts db)"
definition key_ids :: "db \<Rightarrow> string list" where "key_ids db = map kr_id (t_keys db)"
definition pool_ids :: "db \<Rightarrow> string list" where "pool_ids db = map pr_id (t_pools db)"

text \<open>The keys of the tables, primary and unique ones.\<close>

definition unique_keys :: "db \<Rightarrow> bool" where
  "unique_keys db \<longleftrightarrow>
     distinct (account_ids db) \<and> distinct (map (\<lambda>a. (ar_provider a, ar_subject_hmac a)) (t_accounts db))
     \<and> distinct (pool_ids db) \<and> distinct (map pr_name (t_pools db))
     \<and> distinct (key_ids db) \<and> distinct (map kr_hmac (t_keys db))
     \<and> distinct (map (\<lambda>m. (pa_pool m, pa_account m)) (t_pool_accounts db))
     \<and> distinct (map fst (t_employees db)) \<and> distinct (map b_key (t_bindings db))
     \<and> distinct (map (\<lambda>s. (s_key s, s_hash s)) (t_sessions db))
     \<and> distinct (map (\<lambda>e. (ev_key e, ev_hash e)) (t_events db))
     \<and> distinct (map (\<lambda>d. (fst d, fst (snd d))) (t_dedup db))
     \<and> distinct (map (\<lambda>u. (u_key u, u_date u, u_model u)) (t_usage db))
     \<and> distinct (map as_hash (t_admin_sessions db)) \<and> distinct (map lf_scope (t_login_failures db))
     \<and> distinct (map rl_key (t_rate_limits db))"

text \<open>The references, and the conditions on the values.\<close>

definition member_ok :: "db \<Rightarrow> pool_account \<Rightarrow> bool" where
  "member_ok db m \<longleftrightarrow> pa_account m \<in> set (account_ids db) \<and> pa_pool m \<in> set (pool_ids db) \<and> 0 < pa_weight m"

definition key_ok :: "db \<Rightarrow> key_row \<Rightarrow> bool" where
  "key_ok db k \<longleftrightarrow> kr_pool k \<in> set (pool_ids db) \<and> kr_employee k \<in> fst ` set (t_employees db) \<and> 0 \<le> kr_rate_limit k"

definition session_row_ok :: "db \<Rightarrow> session_row \<Rightarrow> bool" where
  "session_row_ok db s \<longleftrightarrow>
     s_key s \<in> set (key_ids db) \<and> s_pool s \<in> set (pool_ids db) \<and> s_account s \<in> set (account_ids db)"

definition rows_ok :: "db \<Rightarrow> bool" where
  "rows_ok db \<longleftrightarrow>
     list_all account_ok (t_accounts db)
     \<and> list_all (\<lambda>p. pr_provider p \<in> set pool_providers) (t_pools db)
     \<and> list_all (member_ok db) (t_pool_accounts db)
     \<and> list_all (\<lambda>e. \<not> blank (snd e)) (t_employees db)
     \<and> list_all (key_ok db) (t_keys db)
     \<and> list_all (\<lambda>b. b_key b \<in> set (key_ids db) \<and> b_account b \<in> set (account_ids db)) (t_bindings db)
     \<and> list_all (session_row_ok db) (t_sessions db)
     \<and> list_all (\<lambda>e. ev_key e \<in> set (key_ids db) \<and> ev_account e \<in> set (account_ids db)) (t_events db)
     \<and> list_all (\<lambda>d. fst d \<in> set (key_ids db)) (t_dedup db)
     \<and> list_all (\<lambda>u. u_key u \<in> set (key_ids db) \<and> 0 \<le> u_input u \<and> 0 \<le> u_output u) (t_usage db)
     \<and> settings_check (t_settings db)
     \<and> list_all (\<lambda>f. 0 \<le> lf_count f) (t_login_failures db)
     \<and> list_all (\<lambda>r. rl_key r \<in> set (key_ids db) \<and> 0 \<le> rl_count r) (t_rate_limits db)"

definition db_ok :: "db \<Rightarrow> bool" where
  "db_ok db \<longleftrightarrow> unique_keys db \<and> rows_ok db"

lemmas db_ok_defs = db_ok_def unique_keys_def rows_ok_def member_ok_def key_ok_def session_row_ok_def
  account_ids_def key_ids_def pool_ids_def list_all_iff

lemma db_okD:
  assumes "db_ok db"
  shows "distinct (map ar_id (t_accounts db))" "distinct (map pr_id (t_pools db))" "distinct (map kr_id (t_keys db))"
    "distinct (map kr_hmac (t_keys db))" "distinct (map (\<lambda>m. (pa_pool m, pa_account m)) (t_pool_accounts db))"
    "distinct (map fst (t_employees db))" "distinct (map b_key (t_bindings db))"
    "distinct (map (\<lambda>s. (s_key s, s_hash s)) (t_sessions db))"
    "distinct (map (\<lambda>d. (fst d, fst (snd d))) (t_dedup db))"
    "distinct (map (\<lambda>u. (u_key u, u_date u, u_model u)) (t_usage db))"
    "\<forall>a \<in> set (t_accounts db). account_ok a"
  using assms by (simp_all add: db_ok_defs)

lemma bound_keys_cong:
  "t_bindings db' = t_bindings db \<Longrightarrow> t_keys db' = t_keys db \<Longrightarrow> bound_keys db' now a = bound_keys db now a"
  by (simp add: bound_keys_def key_is_live_def)

end
