(* ===== verification/Db_Routing.thy ===== *)
theory Db_Routing
  imports Db
begin

text \<open>
  The queries of \<open>internal/store/storedb/routing.sql.go\<close>, one definition each: pools and their
  accounts, keys and their bindings, the choice of an account, session bindings, usage.

  \<open>ORDER BY ... random()\<close> takes the random numbers from the argument \<open>rnd\<close>. A text compares by its
  bytes, a \<open>numeric\<close> quotient is exact, and the time zone of the database session is UTC.
\<close>

section \<open>Pools\<close>

definition q_create_pool :: "time \<Rightarrow> string \<Rightarrow> string \<Rightarrow> string \<Rightarrow> db \<Rightarrow> pg_error + db" where
  "q_create_pool now pid name provider db =
     (if provider \<notin> set pool_providers then Inl check_violation
      else if list_ex (\<lambda>p. pr_id p = pid \<or> pr_name p = name) (t_pools db) then Inl unique_violation
      else Inr (db\<lparr>t_pools := t_pools db @
                 [\<lparr>pr_id = pid, pr_name = name, pr_provider = provider, pr_created = now,
                   pr_updated = now\<rparr>]\<rparr>))"

definition q_update_pool :: "time \<Rightarrow> string \<Rightarrow> string \<Rightarrow> db \<Rightarrow> pg_error + (db \<times> nat)" where
  "q_update_pool now name pid db =
     (if list_ex (\<lambda>p. pr_id p = pid) (t_pools db)
         \<and> list_ex (\<lambda>p. pr_id p \<noteq> pid \<and> pr_name p = name) (t_pools db) then Inl unique_violation
      else Inr (db\<lparr>t_pools := update_rows (\<lambda>p. pr_id p = pid)
                   (\<lambda>p. p\<lparr>pr_name := name, pr_updated := now\<rparr>) (t_pools db)\<rparr>,
                count_if (\<lambda>p. pr_id p = pid) (t_pools db)))"

definition q_list_pools :: "db \<Rightarrow> pool_row list" where
  "q_list_pools db = sort_key pr_created (t_pools db)"

definition q_list_pool_accounts :: "db \<Rightarrow> pool_account list" where
  "q_list_pool_accounts db = sort_key (\<lambda>m. (pa_priority m, pa_account m)) (t_pool_accounts db)"

text \<open>The lock is held to the end of the transaction; the row read is the pool's provider.\<close>

definition q_lock_pool_for_update :: "string \<Rightarrow> db \<Rightarrow> pg_error + string" where
  "q_lock_pool_for_update pid db =
     (case find_row (\<lambda>p. pr_id p = pid) (t_pools db) of Inl e \<Rightarrow> Inl e | Inr p \<Rightarrow> Inr (pr_provider p))"

definition q_mark_pool_mixed :: "time \<Rightarrow> string \<Rightarrow> db \<Rightarrow> db" where
  "q_mark_pool_mixed now pid db =
     db\<lparr>t_pools := update_rows (\<lambda>p. pr_id p = pid)
          (\<lambda>p. p\<lparr>pr_provider := provider_mixed, pr_updated := now\<rparr>) (t_pools db)\<rparr>"

definition member_of :: "string \<Rightarrow> string \<Rightarrow> pool_account \<Rightarrow> bool" where
  "member_of pid aid m \<longleftrightarrow> pa_pool m = pid \<and> pa_account m = aid"

definition q_add_initial_pool_account :: "pool_account \<Rightarrow> db \<Rightarrow> pg_error + (db \<times> nat)" where
  "q_add_initial_pool_account m db =
     (if \<not> list_ex (\<lambda>a. ar_id a = pa_account m) (t_accounts db) then Inr (db, 0)
      else if pa_weight m \<le> 0 then Inl check_violation
      else if list_ex (member_of (pa_pool m) (pa_account m)) (t_pool_accounts db) then Inl unique_violation
      else if \<not> list_ex (\<lambda>p. pr_id p = pa_pool m) (t_pools db) then Inl foreign_key_violation
      else Inr (db\<lparr>t_pool_accounts := t_pool_accounts db @ [m]\<rparr>, 1))"

definition q_upsert_pool_account :: "pool_account \<Rightarrow> db \<Rightarrow> pg_error + (db \<times> nat)" where
  "q_upsert_pool_account m db =
     (if pa_weight m \<le> 0 then Inl check_violation
      else if list_ex (member_of (pa_pool m) (pa_account m)) (t_pool_accounts db) then
        Inr (db\<lparr>t_pool_accounts := update_rows (member_of (pa_pool m) (pa_account m))
                  (\<lambda>r. r\<lparr>pa_weight := pa_weight m, pa_priority := pa_priority m,
                         pa_enabled := pa_enabled m\<rparr>) (t_pool_accounts db)\<rparr>, 1)
      else if \<not> list_ex (\<lambda>p. pr_id p = pa_pool m) (t_pools db)
              \<or> \<not> list_ex (\<lambda>a. ar_id a = pa_account m) (t_accounts db) then Inl foreign_key_violation
      else Inr (db\<lparr>t_pool_accounts := t_pool_accounts db @ [m]\<rparr>, 1))"

definition q_get_account_provider :: "string \<Rightarrow> db \<Rightarrow> pg_error + string" where
  "q_get_account_provider aid db =
     (case find_row (\<lambda>a. ar_id a = aid) (t_accounts db) of Inl e \<Rightarrow> Inl e | Inr a \<Rightarrow> Inr (ar_provider a))"

section \<open>Keys\<close>

definition q_create_employee :: "string \<Rightarrow> string \<Rightarrow> db \<Rightarrow> pg_error + db" where
  "q_create_employee eid name db =
     (if blank name then Inl check_violation
      else if eid \<in> fst ` set (t_employees db) then Inl unique_violation
      else Inr (db\<lparr>t_employees := t_employees db @ [(eid, name)]\<rparr>))"

definition q_create_api_key :: "key_row \<Rightarrow> db \<Rightarrow> pg_error + db" where
  "q_create_api_key k db =
     (if kr_rate_limit k < 0 then Inl check_violation
      else if list_ex (\<lambda>r. kr_id r = kr_id k \<or> kr_hmac r = kr_hmac k) (t_keys db)
        then Inl unique_violation
      else if \<not> list_ex (\<lambda>p. pr_id p = kr_pool k) (t_pools db)
              \<or> kr_employee k \<notin> fst ` set (t_employees db) then Inl foreign_key_violation
      else Inr (db\<lparr>t_keys := t_keys db @ [k]\<rparr>))"

definition q_bind_api_key :: "time \<Rightarrow> string \<Rightarrow> string \<Rightarrow> db \<Rightarrow> pg_error + db" where
  "q_bind_api_key now kid aid db =
     (if list_ex (\<lambda>b. b_key b = kid) (t_bindings db) then Inl unique_violation
      else if kid \<notin> set (key_ids db) \<or> aid \<notin> set (account_ids db) then Inl foreign_key_violation
      else Inr (db\<lparr>t_bindings := t_bindings db @ [\<lparr>b_key = kid, b_account = aid, b_assigned = now\<rparr>]\<rparr>))"

definition q_reassign_api_key :: "time \<Rightarrow> string \<Rightarrow> string \<Rightarrow> db \<Rightarrow> pg_error + db" where
  "q_reassign_api_key now aid kid db =
     (if list_ex (\<lambda>b. b_key b = kid) (t_bindings db) \<and> aid \<notin> set (account_ids db)
      then Inl foreign_key_violation
      else Inr (db\<lparr>t_bindings := update_rows (\<lambda>b. b_key b = kid)
                   (\<lambda>b. b\<lparr>b_account := aid, b_assigned := now\<rparr>) (t_bindings db)\<rparr>))"

definition q_revoke_api_key :: "time \<Rightarrow> string \<Rightarrow> db \<Rightarrow> db \<times> nat" where
  "q_revoke_api_key now kid db =
     (db\<lparr>t_keys := update_rows (\<lambda>k. kr_id k = kid \<and> kr_revoked k = None)
           (\<lambda>k. k\<lparr>kr_revoked := Some now\<rparr>) (t_keys db)\<rparr>,
      count_if (\<lambda>k. kr_id k = kid \<and> kr_revoked k = None) (t_keys db))"

definition q_update_key_activity :: "time \<Rightarrow> string \<Rightarrow> db \<Rightarrow> db" where
  "q_update_key_activity ts kid db =
     db\<lparr>t_keys := update_rows (\<lambda>k. kr_id k = kid)
          (\<lambda>k. k\<lparr>kr_last_used := Some (max (coalesce (kr_last_used k) ts) ts)\<rparr>) (t_keys db)\<rparr>"

text \<open>\<open>last_used_at DESC NULLS LAST, created_at DESC\<close>.\<close>

definition recency :: "key_row \<Rightarrow> nat \<times> int \<times> int" where
  "recency k = (case kr_last_used k of None \<Rightarrow> (1, 0, - kr_created k) | Some t \<Rightarrow> (0, - t, - kr_created k))"

definition q_list_api_keys :: "db \<Rightarrow> (key_row \<times> string \<times> string) list" where
  "q_list_api_keys db =
     [(k, snd e, (case find (\<lambda>b. b_key b = kr_id k) (t_bindings db) of None \<Rightarrow> [] | Some b \<Rightarrow> b_account b)).
        k \<leftarrow> sort_key recency (t_keys db), e \<leftarrow> filter (\<lambda>e. fst e = kr_employee k) (t_employees db)]"

section \<open>Choosing an account\<close>

definition q_has_capacity :: "time \<Rightarrow> string \<Rightarrow> db \<Rightarrow> bool" where
  "q_has_capacity now aid db \<longleftrightarrow> int (bound_keys db now aid) < max_keys_per_account (t_settings db)"

definition eligible :: "db \<Rightarrow> time \<Rightarrow> string list \<Rightarrow> account_row \<Rightarrow> bool" where
  "eligible db now excluded a \<longleftrightarrow> ar_id a \<notin> set excluded \<and> routable now a \<and> q_has_capacity now (ar_id a) db"

definition candidates :: "db \<Rightarrow> time \<Rightarrow> string \<Rightarrow> string list \<Rightarrow> (account_row \<times> pool_account) list" where
  "candidates db now pid excluded =
     [(a, m). a \<leftarrow> filter (eligible db now excluded) (t_accounts db),
              m \<leftarrow> filter (\<lambda>m. member_of pid (ar_id a) m \<and> pa_enabled m) (t_pool_accounts db)]"

definition load :: "db \<Rightarrow> time \<Rightarrow> account_row \<times> pool_account \<Rightarrow> rat" where
  "load db now c = of_nat (bound_keys db now (ar_id (fst c))) / of_int (max (pa_weight (snd c)) 1)"

definition candidate_key :: "(string \<Rightarrow> rat) \<Rightarrow> db \<Rightarrow> time \<Rightarrow> account_row \<times> pool_account \<Rightarrow> int \<times> rat \<times> rat" where
  "candidate_key rnd db now c = (pa_priority (snd c), load db now c, rnd (ar_id (fst c)))"

definition q_select_account :: "(string \<Rightarrow> rat) \<Rightarrow> time \<Rightarrow> string \<Rightarrow> string list \<Rightarrow> db \<Rightarrow> pg_error + string" where
  "q_select_account rnd now pid excluded db =
     (case sort_key (candidate_key rnd db now) (candidates db now pid excluded) of
        [] \<Rightarrow> Inl NoRows
      | c # _ \<Rightarrow> Inr (ar_id (fst c)))"

definition q_get_quota_binding :: "time \<Rightarrow> string \<Rightarrow> string \<Rightarrow> db \<Rightarrow> pg_error + string" where
  "q_get_quota_binding now kid pid db =
     (case find_row (\<lambda>b. b_key b = kid
             \<and> list_ex (\<lambda>k. kr_id k = kid \<and> kr_pool k = pid \<and> key_live now k) (t_keys db)) (t_bindings db) of
        Inl e \<Rightarrow> Inl e
      | Inr b \<Rightarrow> Inr (b_account b))"

record quota_candidate =
  qc_id :: string
  qc_snapshot :: string
  qc_checked :: "time option"
  qc_error :: string
  qc_weight :: int
  qc_priority :: int
  qc_bound :: int

definition q_quota_candidates :: "time \<Rightarrow> string \<Rightarrow> string \<Rightarrow> db \<Rightarrow> quota_candidate list" where
  "q_quota_candidates now pid current db =
     [\<lparr>qc_id = ar_id a, qc_snapshot = ar_quota a, qc_checked = ar_quota_checked a,
       qc_error = coalesce (ar_quota_error a) [], qc_weight = pa_weight m, qc_priority = pa_priority m,
       qc_bound = int (bound_keys db now (ar_id a))\<rparr>.
        a \<leftarrow> sort_key ar_id (t_accounts db),
        m \<leftarrow> filter (\<lambda>m. member_of pid (ar_id a) m \<and> pa_enabled m) (t_pool_accounts db),
        cm \<leftarrow> filter (\<lambda>cm. member_of pid current cm \<and> pa_enabled cm \<and> pa_priority m \<le> pa_priority cm)
               (t_pool_accounts db),
        ca \<leftarrow> filter (\<lambda>ca. ar_id ca = current) (t_accounts db),
        ar_provider a = provider_codex \<and> ar_provider ca = provider_codex
          \<and> ar_credential_type a = ar_credential_type ca \<and> ar_fast_mode a = ar_fast_mode ca
          \<and> routable now a]"

section \<open>Resolving a key\<close>

text \<open>\<open>routeAccount\<close> keeps these columns of an account; the others stay zero.\<close>

definition route_account :: "account_row \<Rightarrow> account" where
  "route_account a =
     no_account\<lparr>a_id := ar_id a, a_provider := ar_provider a, a_credential_type := ar_credential_type a,
       a_display_name := ar_display_name a, a_ciphertext := ar_ciphertext a, a_version := ar_version a,
       a_status := ar_status a, a_fast_mode := ar_fast_mode a, a_health := ar_health a,
       a_quota := ar_quota a, a_quota_checked := ar_quota_checked a,
       a_quota_error := coalesce (ar_quota_error a) [], a_cooldown := ar_cooldown a,
       a_last_success := ar_last_success a, a_last_failure := ar_last_failure a,
       a_created := ar_created a, a_updated := ar_updated a\<rparr>"

definition q_get_routable :: "string \<Rightarrow> db \<Rightarrow> pg_error + account_row" where
  "q_get_routable aid db = find_row (\<lambda>a. ar_id a = aid) (t_accounts db)"

record route_row =
  rr_key :: key_row
  rr_employee :: string
  rr_pool :: pool_row
  rr_account :: account_row
  rr_membership :: bool

definition route_rows :: "db \<Rightarrow> key_row \<Rightarrow> string \<Rightarrow> route_row list" where
  "route_rows db k aid =
     [\<lparr>rr_key = k, rr_employee = snd e, rr_pool = p, rr_account = a, rr_membership = pa_enabled m\<rparr>.
        e \<leftarrow> filter (\<lambda>e. fst e = kr_employee k) (t_employees db),
        p \<leftarrow> filter (\<lambda>p. pr_id p = kr_pool k) (t_pools db),
        a \<leftarrow> filter (\<lambda>a. ar_id a = aid) (t_accounts db),
        m \<leftarrow> filter (member_of (pr_id p) (ar_id a)) (t_pool_accounts db)]"

definition first_row :: "'a list \<Rightarrow> pg_error + 'a" where
  "first_row rows = (case rows of [] \<Rightarrow> Inl NoRows | r # _ \<Rightarrow> Inr r)"

definition q_resolve_api_key :: "time \<Rightarrow> string \<Rightarrow> db \<Rightarrow> pg_error + route_row" where
  "q_resolve_api_key now hmac db =
     first_row [r. k \<leftarrow> filter (\<lambda>k. kr_hmac k = hmac \<and> key_live now k) (t_keys db),
                   b \<leftarrow> filter (\<lambda>b. b_key b = kr_id k) (t_bindings db),
                   r \<leftarrow> route_rows db k (b_account b)]"

definition q_resolve_pinned :: "time \<Rightarrow> string \<Rightarrow> string \<Rightarrow> string \<Rightarrow> db \<Rightarrow> pg_error + route_row" where
  "q_resolve_pinned now aid hmac pid db =
     first_row [r. k \<leftarrow> filter (\<lambda>k. kr_hmac k = hmac \<and> kr_pool k = pid \<and> key_live now k) (t_keys db),
                   r \<leftarrow> route_rows db k aid]"

definition q_pinned_valid :: "time \<Rightarrow> string \<Rightarrow> string \<Rightarrow> db \<Rightarrow> bool" where
  "q_pinned_valid now hmac pid db \<longleftrightarrow>
     list_ex (\<lambda>k. kr_hmac k = hmac \<and> kr_pool k = pid \<and> key_live now k) (t_keys db)"

section \<open>Session bindings and successes\<close>

definition q_resolve_session :: "time \<Rightarrow> string \<Rightarrow> string \<Rightarrow> db \<Rightarrow> pg_error + account_row" where
  "q_resolve_session now kid hash db =
     first_row [a. s \<leftarrow> filter (\<lambda>s. s_key s = kid \<and> s_hash s = hash \<and> now < s_expires s) (t_sessions db),
                   a \<leftarrow> filter (\<lambda>a. ar_id a = s_account s) (t_accounts db),
                   m \<leftarrow> filter (\<lambda>m. member_of (s_pool s) (ar_id a) m \<and> pa_enabled m) (t_pool_accounts db)]"

definition q_save_session ::
  "time \<Rightarrow> string \<Rightarrow> string \<Rightarrow> string \<Rightarrow> string \<Rightarrow> time \<Rightarrow> db \<Rightarrow> pg_error + db" where
  "q_save_session now kid pid hash aid expires db =
     (if kid \<notin> set (key_ids db) \<or> aid \<notin> set (account_ids db) then
        (if list_ex (\<lambda>e. ev_key e = kid \<and> ev_hash e = hash) (t_events db)
            \<and> list_ex (\<lambda>s. s_key s = kid \<and> s_hash s = hash) (t_sessions db) then Inr db
         else Inl foreign_key_violation)
      else
        let events = (if list_ex (\<lambda>e. ev_key e = kid \<and> ev_hash e = hash) (t_events db) then t_events db
                      else t_events db @ [\<lparr>ev_key = kid, ev_hash = hash, ev_account = aid, ev_at = now\<rparr>])
        in if list_ex (\<lambda>s. s_key s = kid \<and> s_hash s = hash) (t_sessions db) then
             Inr (db\<lparr>t_events := events,
                     t_sessions := update_rows
                       (\<lambda>s. s_key s = kid \<and> s_hash s = hash \<and> s_account s = aid)
                       (\<lambda>s. s\<lparr>s_expires := max (s_expires s) expires\<rparr>) (t_sessions db)\<rparr>)
           else if \<not> list_ex (\<lambda>p. pr_id p = pid) (t_pools db) then Inl foreign_key_violation
           else Inr (db\<lparr>t_events := events,
                        t_sessions := t_sessions db @
                          [\<lparr>s_key = kid, s_pool = pid, s_hash = hash, s_account = aid,
                            s_expires = expires\<rparr>]\<rparr>))"

definition q_record_success :: "time \<Rightarrow> time \<Rightarrow> string \<Rightarrow> string \<Rightarrow> db \<Rightarrow> db" where
  "q_record_success now ts kid aid db =
     db\<lparr>t_accounts := update_rows (\<lambda>a. ar_id a = aid)
          (\<lambda>a. let keep = (ar_status a = account_disabled \<or> ar_status a = account_exhausted) in
             a\<lparr>ar_status := (if keep then ar_status a else account_active),
               ar_cooldown := (if keep then ar_cooldown a else None),
               ar_last_success := Some ts, ar_health := health_healthy, ar_checked_at := Some ts,
               ar_health_error := None, ar_failures := 0, ar_updated := now\<rparr>) (t_accounts db),
        t_keys := (if list_ex (\<lambda>a. ar_id a = aid) (t_accounts db)
                   then update_rows (\<lambda>k. kr_id k = kid) (\<lambda>k. k\<lparr>kr_last_used := Some ts\<rparr>) (t_keys db)
                   else t_keys db)\<rparr>"

end
