(* ===== verification/Db_Usage.thy ===== *)
theory Db_Usage
  imports Db
begin

text \<open>
  The usage and audit queries of \<open>internal/store/storedb/routing.sql.go\<close>: events counted once, the
  daily totals per key and model, and the paged reports over them. Pages are cut by the position
  of their last row in the order of the report.
\<close>

section \<open>Recording\<close>

definition q_dedup_event :: "time \<Rightarrow> string \<Rightarrow> string \<Rightarrow> db \<Rightarrow> pg_error + (db \<times> nat)" where
  "q_dedup_event now kid hash db =
     (if list_ex (\<lambda>d. fst d = kid \<and> fst (snd d) = hash) (t_dedup db) then Inr (db, 0)
      else if kid \<notin> set (key_ids db) then Inl foreign_key_violation
      else Inr (db\<lparr>t_dedup := t_dedup db @ [(kid, hash, now)]\<rparr>, 1))"

definition same_usage :: "string \<Rightarrow> time \<Rightarrow> string \<Rightarrow> usage_row \<Rightarrow> bool" where
  "same_usage kid day model u \<longleftrightarrow> u_key u = kid \<and> u_date u = day \<and> u_model u = model"

definition numeric_out_of_range :: pg_error where "numeric_out_of_range = SqlState ''22003''"

definition q_add_usage ::
  "time \<Rightarrow> string \<Rightarrow> time \<Rightarrow> string \<Rightarrow> int \<Rightarrow> int \<Rightarrow> db \<Rightarrow> pg_error + db" where
  "q_add_usage now kid day model input output db =
     (if input < 0 \<or> output < 0 then Inl check_violation
      else if list_ex (same_usage kid day model) (t_usage db) then
        (if list_ex (\<lambda>u. same_usage kid day model u
               \<and> (\<not> in_int64 (u_input u + input) \<or> \<not> in_int64 (u_output u + output))) (t_usage db)
         then Inl numeric_out_of_range
         else Inr (db\<lparr>t_usage := update_rows (same_usage kid day model)
                     (\<lambda>u. u\<lparr>u_input := u_input u + input, u_output := u_output u + output,
                            u_updated := now\<rparr>) (t_usage db)\<rparr>))
      else if kid \<notin> set (key_ids db) then Inl foreign_key_violation
      else Inr (db\<lparr>t_usage := t_usage db @
                 [\<lparr>u_key = kid, u_date = day, u_model = model, u_input = input, u_output = output,
                   u_updated = now\<rparr>]\<rparr>))"

definition q_audit :: "time \<Rightarrow> string \<Rightarrow> string \<Rightarrow> string \<Rightarrow> string \<Rightarrow> string \<Rightarrow> db \<Rightarrow> db" where
  "q_audit now actor action target_type target result db =
     db\<lparr>t_audit := t_audit db @ [\<lparr>au_actor = actor, au_action = action, au_target_type = target_type,
        au_target = target, au_result = result, au_at = now\<rparr>]\<rparr>"

section \<open>Reports\<close>

definition day :: duration where "day = 24 * hour"

definition date_of :: "time \<Rightarrow> time" where "date_of t = t div day * day"

definition usage_in :: "string \<Rightarrow> time option \<Rightarrow> time option \<Rightarrow> usage_row \<Rightarrow> bool" where
  "usage_in kid from to u \<longleftrightarrow>
     (kid = [] \<or> u_key u = kid)
     \<and> (case from of None \<Rightarrow> True | Some t \<Rightarrow> date_of t \<le> u_date u)
     \<and> (case to of None \<Rightarrow> True | Some t \<Rightarrow> u_date u \<le> date_of t)"

definition q_usage_totals :: "string \<Rightarrow> time option \<Rightarrow> time option \<Rightarrow> db \<Rightarrow> int \<times> int" where
  "q_usage_totals kid from to db =
     (let rows = filter (usage_in kid from to) (t_usage db)
      in (sum_list (map u_input rows), sum_list (map u_output rows)))"

text \<open>The rows of the join of usage, keys and employees.\<close>

definition usage_join :: "db \<Rightarrow> (usage_row \<times> key_row \<times> string \<times> string) list" where
  "usage_join db =
     [(u, k, e). u \<leftarrow> t_usage db, k \<leftarrow> filter (\<lambda>k. kr_id k = u_key u) (t_keys db),
                 e \<leftarrow> filter (\<lambda>e. fst e = kr_employee k) (t_employees db)]"

abbreviation ju :: "usage_row \<times> key_row \<times> string \<times> string \<Rightarrow> usage_row" where "ju r \<equiv> fst r"
abbreviation jk :: "usage_row \<times> key_row \<times> string \<times> string \<Rightarrow> key_row" where "jk r \<equiv> fst (snd r)"
abbreviation je :: "usage_row \<times> key_row \<times> string \<times> string \<Rightarrow> string \<times> string" where "je r \<equiv> snd (snd r)"

definition sum_in :: "(usage_row \<times> key_row \<times> string \<times> string) list \<Rightarrow> int" where
  "sum_in rows = sum_list (map (\<lambda>r. u_input (ju r)) rows)"

definition sum_out :: "(usage_row \<times> key_row \<times> string \<times> string) list \<Rightarrow> int" where
  "sum_out rows = sum_list (map (\<lambda>r. u_output (ju r)) rows)"

text \<open>\<open>GROUP BY g\<close>: the groups with their rows.\<close>

definition group_rows :: "('r \<Rightarrow> 'g) \<Rightarrow> 'r list \<Rightarrow> ('g \<times> 'r list) list" where
  "group_rows g rows = map (\<lambda>k. (k, filter (\<lambda>r. g r = k) rows)) (remdups (map g rows))"

record top_key =
  tk_key :: string
  tk_employee :: string
  tk_hint :: string
  tk_input :: int
  tk_output :: int

definition q_top_usage_keys :: "string \<Rightarrow> time option \<Rightarrow> time option \<Rightarrow> nat \<Rightarrow> db \<Rightarrow> top_key list" where
  "q_top_usage_keys kid from to limit db =
     take limit (sort_key (\<lambda>t. (- (tk_input t + tk_output t), tk_key t))
       [\<lparr>tk_key = fst g, tk_employee = fst (snd g), tk_hint = snd (snd g),
         tk_input = sum_in rows, tk_output = sum_out rows\<rparr>.
        (g, rows) \<leftarrow> group_rows (\<lambda>r. (u_key (ju r), snd (je r), kr_hint (jk r)))
                       (filter (\<lambda>r. usage_in kid from to (ju r)) (usage_join db))])"

record usage_detail =
  ud_key :: string
  ud_employee :: string
  ud_hint :: string
  ud_model :: string
  ud_input :: int
  ud_output :: int

definition detail_order :: "usage_detail \<Rightarrow> int \<times> string \<times> string" where
  "detail_order d = (- (ud_input d + ud_output d), ud_key d, ud_model d)"

definition usage_details :: "string \<Rightarrow> time option \<Rightarrow> time option \<Rightarrow> db \<Rightarrow> usage_detail list" where
  "usage_details employee from to db =
     [\<lparr>ud_key = fst g, ud_employee = fst (snd g), ud_hint = fst (snd (snd g)),
       ud_model = snd (snd (snd g)), ud_input = sum_in rows, ud_output = sum_out rows\<rparr>.
      (g, rows) \<leftarrow> group_rows (\<lambda>r. (u_key (ju r), snd (je r), kr_hint (jk r), u_model (ju r)))
                     (filter (\<lambda>r. kr_employee (jk r) = employee \<and> usage_in [] from to (ju r))
                        (usage_join db))]"

definition q_usage_details ::
  "string \<Rightarrow> time option \<Rightarrow> time option \<Rightarrow> int option \<Rightarrow> string \<Rightarrow> string \<Rightarrow> nat \<Rightarrow> db \<Rightarrow> usage_detail list" where
  "q_usage_details employee from to after_total after_id after_model limit db =
     take limit (sort_key detail_order (filter
       (\<lambda>d. case after_total of
              None \<Rightarrow> True
            | Some t \<Rightarrow>
                let total = ud_input d + ud_output d in
                total < t \<or> total = t \<and> after_id < ud_key d
                \<or> total = t \<and> ud_key d = after_id \<and> after_model < ud_model d)
       (usage_details employee from to db)))"

record employee_usage =
  eu_employee :: string
  eu_name :: string
  eu_keys :: int
  eu_models :: int
  eu_input :: int
  eu_output :: int

definition employee_order :: "employee_usage \<Rightarrow> int \<times> string" where
  "employee_order e = (- (eu_input e + eu_output e), eu_employee e)"

definition employee_totals :: "string \<Rightarrow> time option \<Rightarrow> time option \<Rightarrow> db \<Rightarrow> employee_usage list" where
  "employee_totals kid from to db =
     [\<lparr>eu_employee = fst g, eu_name = snd g,
       eu_keys = int (length (remdups (map (\<lambda>r. u_key (ju r)) rows))),
       eu_models = int (length (remdups (map (\<lambda>r. u_model (ju r)) rows))),
       eu_input = sum_in rows, eu_output = sum_out rows\<rparr>.
      (g, rows) \<leftarrow> group_rows je (filter (\<lambda>r. usage_in kid from to (ju r)) (usage_join db))]"

definition q_usage_employees ::
  "string \<Rightarrow> time option \<Rightarrow> time option \<Rightarrow> int option \<Rightarrow> string \<Rightarrow> nat \<Rightarrow> db \<Rightarrow> employee_usage list" where
  "q_usage_employees kid from to after_total after_id limit db =
     take limit (sort_key employee_order (filter
       (\<lambda>e. case after_total of
              None \<Rightarrow> True
            | Some t \<Rightarrow>
                let total = eu_input e + eu_output e in
                total < t \<or> total = t \<and> after_id < eu_employee e)
       (employee_totals kid from to db)))"

end
