(* ===== verification/Db_Providers.thy ===== *)
theory Db_Providers
  imports Db
begin

text \<open>
  The queries of \<open>internal/store/storedb/providers.sql.go\<close>: the life of a provider account (its
  status, health, quota, credentials and reset credits) and the settings row.
\<close>

section \<open>Accounts\<close>

definition by_id :: "string \<Rightarrow> account_row \<Rightarrow> bool" where "by_id aid a \<longleftrightarrow> ar_id a = aid"

text \<open>An \<open>UPDATE provider_accounts ... WHERE cond\<close> and the number of rows it changed.\<close>

definition update_accounts ::
  "(account_row \<Rightarrow> bool) \<Rightarrow> (account_row \<Rightarrow> account_row) \<Rightarrow> db \<Rightarrow> db \<times> nat" where
  "update_accounts P f db =
     (db\<lparr>t_accounts := update_rows P f (t_accounts db)\<rparr>, count_if P (t_accounts db))"

definition q_create_account :: "time \<Rightarrow> account_row \<Rightarrow> string \<Rightarrow> string \<Rightarrow> string \<Rightarrow> string \<Rightarrow> db \<Rightarrow> pg_error + db"
where
  "q_create_account now row email quota_error health health_error db =
     (let a = row\<lparr>ar_email := nullif_empty email, ar_quota_error := nullif_empty quota_error,
                  ar_health := coalesce (nullif_empty health) health_unknown,
                  ar_health_error := nullif_empty health_error, ar_fast_mode := False,
                  ar_reset_credits := None, ar_reset_checked := None, ar_reset_claimed := None,
                  ar_cooldown := None, ar_last_success := None, ar_last_failure := None,
                  ar_created := now, ar_updated := now\<rparr>
      in
      if \<not> account_ok a then Inl check_violation
      else if list_ex (\<lambda>r. ar_id r = ar_id a
                \<or> ar_provider r = ar_provider a \<and> ar_subject_hmac r = ar_subject_hmac a) (t_accounts db)
        then Inl unique_violation
      else Inr (db\<lparr>t_accounts := t_accounts db @ [a]\<rparr>))"

definition q_delete_account :: "time \<Rightarrow> string \<Rightarrow> db \<Rightarrow> db \<times> nat" where
  "q_delete_account now aid db =
     (if bound_keys db now aid \<noteq> 0 then (db, 0)
      else (db\<lparr>t_accounts := filter (\<lambda>a. ar_id a \<noteq> aid) (t_accounts db),
              t_pool_accounts := filter (\<lambda>m. pa_account m \<noteq> aid) (t_pool_accounts db),
              t_bindings := filter (\<lambda>b. b_account b \<noteq> aid) (t_bindings db),
              t_sessions := filter (\<lambda>s. s_account s \<noteq> aid) (t_sessions db),
              t_events := filter (\<lambda>e. ev_account e \<noteq> aid) (t_events db)\<rparr>,
            count_if (by_id aid) (t_accounts db)))"

definition q_lock_account :: "string \<Rightarrow> db \<Rightarrow> pg_error + string" where
  "q_lock_account aid db =
     (case find_row (by_id aid) (t_accounts db) of Inl e \<Rightarrow> Inl e | Inr a \<Rightarrow> Inr (ar_id a))"

definition q_get_account :: "string \<Rightarrow> db \<Rightarrow> pg_error + account_row" where
  "q_get_account aid db = find_row (by_id aid) (t_accounts db)"

definition q_list_accounts :: "time \<Rightarrow> db \<Rightarrow> (account_row \<times> nat) list" where
  "q_list_accounts now db =
     map (\<lambda>a. (a, bound_keys db now (ar_id a))) (sort_key ar_created (t_accounts db))"

definition q_list_pool_provider_accounts :: "time \<Rightarrow> string \<Rightarrow> db \<Rightarrow> account_row list" where
  "q_list_pool_provider_accounts now pid db =
     map fst (sort_key (\<lambda>c. (pa_priority (snd c), ar_id (fst c)))
       [(a, m). a \<leftarrow> filter (routable now) (t_accounts db),
                m \<leftarrow> filter (\<lambda>m. pa_account m = ar_id a \<and> pa_pool m = pid \<and> pa_enabled m)
                       (t_pool_accounts db)])"

definition q_update_account ::
  "time \<Rightarrow> string option \<Rightarrow> string option \<Rightarrow> bool option \<Rightarrow> string \<Rightarrow> db \<Rightarrow> pg_error + (db \<times> nat)" where
  "q_update_account now name status fast aid db =
     (if list_ex (by_id aid) (t_accounts db)
         \<and> (case status of None \<Rightarrow> False | Some s \<Rightarrow> s \<notin> set statuses) then Inl check_violation
      else Inr (update_accounts (by_id aid)
        (\<lambda>a. a\<lparr>ar_display_name := coalesce name (ar_display_name a),
               ar_status := coalesce status (ar_status a),
               ar_fast_mode := coalesce fast (ar_fast_mode a),
               ar_cooldown := (if status = Some account_active then None else ar_cooldown a),
               ar_updated := now\<rparr>) db))"

definition q_update_credential :: "time \<Rightarrow> string \<Rightarrow> int \<Rightarrow> string \<Rightarrow> int \<Rightarrow> db \<Rightarrow> db \<times> nat" where
  "q_update_credential now ciphertext version aid expected =
     update_accounts (\<lambda>a. by_id aid a \<and> ar_version a = expected)
       (\<lambda>a. let keep = (ar_status a = account_disabled \<or> ar_status a = account_exhausted) in
          a\<lparr>ar_ciphertext := ciphertext, ar_version := version,
            ar_status := (if keep then ar_status a else account_active),
            ar_cooldown := (if keep then ar_cooldown a else None), ar_updated := now\<rparr>)"

definition q_update_email :: "time \<Rightarrow> string \<Rightarrow> string \<Rightarrow> db \<Rightarrow> db \<times> nat" where
  "q_update_email now email aid =
     update_accounts (by_id aid)
       (\<lambda>a. a\<lparr>ar_email := (case nullif_empty email of None \<Rightarrow> ar_email a | Some e \<Rightarrow> Some e),
              ar_updated := now\<rparr>)"

definition q_update_details :: "time \<Rightarrow> string \<Rightarrow> string \<Rightarrow> time \<Rightarrow> string \<Rightarrow> db \<Rightarrow> db \<times> nat" where
  "q_update_details now email quota checked aid =
     update_accounts (by_id aid)
       (\<lambda>a. a\<lparr>ar_email := (case nullif_empty email of None \<Rightarrow> ar_email a | Some e \<Rightarrow> Some e),
              ar_quota := quota, ar_quota_checked := Some checked, ar_quota_error := None,
              ar_updated := now\<rparr>)"

definition q_set_quota_error :: "time \<Rightarrow> string \<Rightarrow> time \<Rightarrow> string \<Rightarrow> db \<Rightarrow> db \<times> nat" where
  "q_set_quota_error now code next_check aid =
     update_accounts (by_id aid)
       (\<lambda>a. a\<lparr>ar_quota_error := nullif_empty code, ar_next_check := Some next_check, ar_updated := now\<rparr>)"

section \<open>Status\<close>

definition five_minutes :: duration where "five_minutes = 5 * minute"

definition q_update_status ::
  "time \<Rightarrow> string \<Rightarrow> time option \<Rightarrow> string \<Rightarrow> db \<Rightarrow> pg_error + (db \<times> nat)" where
  "q_update_status now status cooldown aid db =
     (if list_ex (by_id aid) (t_accounts db) \<and> status \<notin> set statuses then Inl check_violation
      else Inr (update_accounts (by_id aid)
        (\<lambda>a. a\<lparr>ar_status := status, ar_cooldown := cooldown,
               ar_last_failure := (if status = account_active then ar_last_failure a else Some now),
               ar_health := (if status = account_auth_failed then health_unhealthy
                             else if status = account_cooling_down then health_healthy else ar_health a),
               ar_checked_at := (if status = account_auth_failed \<or> status = account_cooling_down
                                 then Some now else ar_checked_at a),
               ar_health_error := (if status = account_auth_failed then Some ''authentication_failed''
                                   else if status = account_cooling_down then None
                                   else ar_health_error a),
               ar_failures := (if status = account_auth_failed then 3
                               else if status = account_cooling_down then 0 else ar_failures a),
               ar_next_check := (if status = account_auth_failed \<or> status = account_cooling_down
                                 then Some (now + five_minutes) else ar_next_check a),
               ar_updated := now\<rparr>) db))"

definition q_set_usage_allowed :: "time \<Rightarrow> bool \<Rightarrow> string \<Rightarrow> db \<Rightarrow> db \<times> nat" where
  "q_set_usage_allowed now allowed aid =
     update_accounts (by_id aid)
       (\<lambda>a. let reopen = (allowed \<and> ar_status a = account_exhausted);
                shut = (\<not> allowed \<and> ar_status a \<in> {account_active, account_cooling_down, account_exhausted})
            in a\<lparr>ar_status := (if reopen then account_active else if shut then account_exhausted
                               else ar_status a),
                 ar_cooldown := (if reopen \<or> shut then None else ar_cooldown a), ar_updated := now\<rparr>)"

definition q_reactivate :: "time \<Rightarrow> string \<Rightarrow> time \<Rightarrow> db \<Rightarrow> db \<times> nat" where
  "q_reactivate now aid t =
     update_accounts (\<lambda>a. by_id aid a \<and> ar_status a = account_cooling_down
         \<and> (case ar_cooldown a of None \<Rightarrow> False | Some c \<Rightarrow> c \<le> t))
       (\<lambda>a. a\<lparr>ar_status := account_active, ar_cooldown := None, ar_updated := now\<rparr>)"

section \<open>Health\<close>

definition q_record_health_failure :: "time \<Rightarrow> time \<Rightarrow> string \<Rightarrow> time \<Rightarrow> string \<Rightarrow> db \<Rightarrow> db \<times> nat" where
  "q_record_health_failure now checked code next_check aid =
     update_accounts (by_id aid)
       (\<lambda>a. a\<lparr>ar_failures := ar_failures a + 1,
              ar_health := (if ar_failures a + 1 \<ge> 3 then health_unhealthy else ar_health a),
              ar_checked_at := Some checked, ar_health_error := Some code,
              ar_next_check := Some next_check, ar_updated := now\<rparr>)"

definition q_set_health ::
  "time \<Rightarrow> string \<Rightarrow> time \<Rightarrow> string \<Rightarrow> time \<Rightarrow> string \<Rightarrow> db \<Rightarrow> pg_error + (db \<times> nat)" where
  "q_set_health now health checked code next_check aid db =
     (if list_ex (by_id aid) (t_accounts db) \<and> health \<notin> set healths then Inl check_violation
      else Inr (update_accounts (by_id aid)
        (\<lambda>a. a\<lparr>ar_health := health, ar_checked_at := Some checked, ar_health_error := nullif_empty code,
               ar_failures := (if health = health_healthy \<or> health = health_unknown then 0
                               else ar_failures a),
               ar_next_check := Some next_check, ar_updated := now\<rparr>) db))"

definition check_due :: "time \<Rightarrow> account_row \<Rightarrow> bool" where
  "check_due t a \<longleftrightarrow>
     ar_status a \<in> {account_active, account_exhausted}
       \<and> (case ar_next_check a of None \<Rightarrow> True | Some n \<Rightarrow> n \<le> t)
     \<or> ar_status a = account_cooling_down
       \<and> (case ar_cooldown a of None \<Rightarrow> False | Some c \<Rightarrow> c \<le> t)"

text \<open>\<open>NULLS FIRST\<close>.\<close>

definition due_order :: "account_row \<Rightarrow> (nat \<times> int) \<times> string" where
  "due_order a = ((case ar_next_check a of None \<Rightarrow> (0, 0) | Some n \<Rightarrow> (1, n)), ar_id a)"

definition q_claim_health_checks :: "time \<Rightarrow> time \<Rightarrow> time \<Rightarrow> nat \<Rightarrow> db \<Rightarrow> db \<times> account_row list" where
  "q_claim_health_checks now claimed t limit db =
     (let due = map ar_id (take limit (sort_key due_order (filter (check_due t) (t_accounts db))));
          claim = (\<lambda>a. a\<lparr>ar_next_check := Some claimed, ar_updated := now\<rparr>);
          db' = db\<lparr>t_accounts := update_rows (\<lambda>a. ar_id a \<in> set due) claim (t_accounts db)\<rparr>
      in (db', filter (\<lambda>a. ar_id a \<in> set due) (t_accounts db')))"

section \<open>Reset credits\<close>

definition q_get_reset_credits :: "string \<Rightarrow> db \<Rightarrow> pg_error + (string option \<times> time option)" where
  "q_get_reset_credits aid db =
     (case find_row (by_id aid) (t_accounts db) of
        Inl e \<Rightarrow> Inl e
      | Inr a \<Rightarrow> Inr (ar_reset_credits a, ar_reset_checked a))"

definition q_set_reset_credits :: "time \<Rightarrow> string \<Rightarrow> time \<Rightarrow> string \<Rightarrow> db \<Rightarrow> db \<times> nat" where
  "q_set_reset_credits now snapshot checked aid =
     update_accounts (by_id aid)
       (\<lambda>a. a\<lparr>ar_reset_credits := Some snapshot, ar_reset_checked := Some checked,
              ar_reset_claimed := None, ar_updated := now\<rparr>)"

definition q_claim_reset_refresh :: "time \<Rightarrow> time \<Rightarrow> string \<Rightarrow> time \<Rightarrow> db \<Rightarrow> db \<times> nat" where
  "q_claim_reset_refresh now claimed aid stale_before =
     update_accounts (\<lambda>a. by_id aid a
         \<and> (case ar_reset_checked a of None \<Rightarrow> True | Some c \<Rightarrow> c < stale_before)
         \<and> (case ar_reset_claimed a of None \<Rightarrow> True | Some c \<Rightarrow> c < now))
       (\<lambda>a. a\<lparr>ar_reset_claimed := Some claimed\<rparr>)"

definition q_release_reset_refresh :: "string \<Rightarrow> db \<Rightarrow> db \<times> nat" where
  "q_release_reset_refresh aid = update_accounts (by_id aid) (\<lambda>a. a\<lparr>ar_reset_claimed := None\<rparr>)"

section \<open>Settings\<close>

definition q_get_settings :: "db \<Rightarrow> settings \<times> time" where
  "q_get_settings db = (t_settings db, t_settings_updated db)"

definition q_update_settings :: "time \<Rightarrow> settings \<Rightarrow> db \<Rightarrow> pg_error + (db \<times> nat)" where
  "q_update_settings now s db =
     (if \<not> settings_check s then Inl check_violation
      else Inr (db\<lparr>t_settings := s, t_settings_updated := now\<rparr>, 1))"

end
