(* ===== verification/Db_Runtime.thy ===== *)
theory Db_Runtime
  imports Db
begin

text \<open>
  The queries of \<open>internal/store/storedb/runtime.sql.go\<close>: administrator sessions, the throttle on
  failed administrator logins, and the rate limit of an API key, one window per minute.
\<close>

definition minute_of :: "time \<Rightarrow> time" where "minute_of t = t div minute * minute"

definition q_create_admin_session :: "string \<Rightarrow> time \<Rightarrow> db \<Rightarrow> db" where
  "q_create_admin_session hash expires db =
     db\<lparr>t_admin_sessions :=
        (if list_ex (\<lambda>s. as_hash s = hash) (t_admin_sessions db)
         then update_rows (\<lambda>s. as_hash s = hash) (\<lambda>s. s\<lparr>as_expires := expires, as_revoked := None\<rparr>)
                (t_admin_sessions db)
         else t_admin_sessions db @ [\<lparr>as_hash = hash, as_expires = expires, as_revoked = None\<rparr>])\<rparr>"

definition q_admin_session_active :: "string \<Rightarrow> time \<Rightarrow> db \<Rightarrow> bool" where
  "q_admin_session_active hash now db \<longleftrightarrow>
     list_ex (\<lambda>s. as_hash s = hash \<and> as_revoked s = None \<and> now < as_expires s) (t_admin_sessions db)"

definition q_revoke_admin_session :: "time \<Rightarrow> string \<Rightarrow> db \<Rightarrow> db" where
  "q_revoke_admin_session ts hash db =
     db\<lparr>t_admin_sessions := update_rows (\<lambda>s. as_hash s = hash \<and> as_revoked s = None)
          (\<lambda>s. s\<lparr>as_revoked := Some ts\<rparr>) (t_admin_sessions db)\<rparr>"

definition q_get_login_failures :: "string \<Rightarrow> db \<Rightarrow> pg_error + (int \<times> time)" where
  "q_get_login_failures scope db =
     (case find_row (\<lambda>f. lf_scope f = scope) (t_login_failures db) of
        Inl e \<Rightarrow> Inl e
      | Inr f \<Rightarrow> Inr (lf_count f, lf_reset f))"

definition q_clear_login_failures :: "string list \<Rightarrow> db \<Rightarrow> db" where
  "q_clear_login_failures scopes db =
     db\<lparr>t_login_failures := filter (\<lambda>f. lf_scope f \<notin> set scopes) (t_login_failures db)\<rparr>"

definition q_record_login_failure :: "string \<Rightarrow> time \<Rightarrow> db \<Rightarrow> db" where
  "q_record_login_failure scope now db =
     db\<lparr>t_login_failures :=
        (if list_ex (\<lambda>f. lf_scope f = scope) (t_login_failures db)
         then update_rows (\<lambda>f. lf_scope f = scope)
                (\<lambda>f. if lf_reset f \<le> now then f\<lparr>lf_count := 1, lf_reset := now + minute\<rparr>
                     else f\<lparr>lf_count := lf_count f + 1\<rparr>) (t_login_failures db)
         else t_login_failures db @ [\<lparr>lf_scope = scope, lf_count = 1, lf_reset = now + minute\<rparr>])\<rparr>"

definition q_allow_request :: "string \<Rightarrow> time \<Rightarrow> int \<Rightarrow> db \<Rightarrow> pg_error + (db \<times> bool)" where
  "q_allow_request kid now limit db =
     (case find (\<lambda>r. rl_key r = kid) (t_rate_limits db) of
        None \<Rightarrow>
          (if kid \<notin> set (key_ids db) then Inl foreign_key_violation
           else Inr (db\<lparr>t_rate_limits := t_rate_limits db @
                       [\<lparr>rl_key = kid, rl_window = minute_of now, rl_count = 1\<rparr>]\<rparr>, 1 \<le> limit))
      | Some r \<Rightarrow>
          let r' = (if rl_window r < minute_of now
                    then r\<lparr>rl_window := minute_of now, rl_count := 1\<rparr>
                    else r\<lparr>rl_count := rl_count r + 1\<rparr>)
          in Inr (db\<lparr>t_rate_limits := update_rows (\<lambda>s. rl_key s = kid) (\<lambda>_. r') (t_rate_limits db)\<rparr>,
                  rl_count r' \<le> limit))"

end
