(* ===== verification/Store.thy ===== *)
theory Store
  imports Db_Routing Db_Usage Db_Providers Db_Runtime
begin

text \<open>
  The operations of \<open>internal/store\<close> (\<open>routing.go\<close>, \<open>postgres.go\<close>, \<open>runtime.go\<close>, \<open>settings.go\<close>) as
  functions of the database. An operation returns an error, and then the database is as before,
  or the database after its commit with its result. Operations that only read return no database.
\<close>

section \<open>Pools\<close>

text \<open>A member as it is stored: weight and priority go through \<open>int32\<close>.\<close>

definition member_row :: "pool_account \<Rightarrow> pool_account" where
  "member_row m = m\<lparr>pa_weight := wrap32 (pa_weight m), pa_priority := wrap32 (pa_priority m)\<rparr>"

fun add_initial_members :: "string \<Rightarrow> pool_account list \<Rightarrow> db \<Rightarrow> store_error + db" where
  "add_initial_members pid [] db = Inr db"
| "add_initial_members pid (m # ms) db =
     (case wrap_mutation ''add initial pool account'' (q_add_initial_pool_account (member_row (m\<lparr>pa_pool := pid\<rparr>)) db) of
        Inl e \<Rightarrow> Inl e
      | Inr db' \<Rightarrow> add_initial_members pid ms db')"

definition create_pool :: "time \<Rightarrow> pool \<Rightarrow> db \<Rightarrow> store_error + db" where
  "create_pool now p db =
     (case wrapped ''create pool'' (q_create_pool now (p_id p) (p_name p) (p_provider p) db) of
        Inl e \<Rightarrow> Inl e
      | Inr db' \<Rightarrow> add_initial_members (p_id p) (p_accounts p) db')"

definition update_pool :: "time \<Rightarrow> pool \<Rightarrow> db \<Rightarrow> store_error + db" where
  "update_pool now p db = wrap_mutation ''update pool'' (q_update_pool now (p_name p) (p_id p) db)"

definition list_pools :: "db \<Rightarrow> pool list" where
  "list_pools db =
     map (\<lambda>r. \<lparr>p_id = pr_id r, p_name = pr_name r, p_provider = pr_provider r,
               p_accounts = filter (\<lambda>m. pa_pool m = pr_id r) (q_list_pool_accounts db),
               p_created = pr_created r, p_updated = pr_updated r\<rparr>) (q_list_pools db)"

definition add_pool_account :: "time \<Rightarrow> pool_account \<Rightarrow> db \<Rightarrow> store_error + db" where
  "add_pool_account now m db =
     (case wrapped ''lock pool'' (q_lock_pool_for_update (pa_pool m) db) of
        Inl e \<Rightarrow> Inl e
      | Inr pool_provider \<Rightarrow>
          (case wrapped ''read provider account'' (q_get_account_provider (pa_account m) db) of
             Inl e \<Rightarrow> Inl e
           | Inr account_provider \<Rightarrow>
               (case wrap_mutation ''add pool account'' (q_upsert_pool_account (member_row m) db) of
                  Inl e \<Rightarrow> Inl e
                | Inr db' \<Rightarrow>
                    Inr (if pool_provider \<noteq> account_provider \<and> pool_provider \<noteq> provider_mixed
                         then q_mark_pool_mixed now (pa_pool m) db' else db'))))"

section \<open>Choosing an account and binding a key to it\<close>

text \<open>
  \<open>selectAccountForUpdate\<close>. Its statements run in a \<open>READ COMMITTED\<close> transaction: each sees what other
  transactions have committed by then, so \<open>view i\<close> is the database the \<open>i\<close>-th statement sees. An
  account that lost its capacity between the selection and the second check is excluded and the
  selection repeated. \<open>None\<close> when \<open>fuel\<close> selections were not enough.
\<close>

fun select_account ::
  "(nat \<Rightarrow> db) \<Rightarrow> (nat \<Rightarrow> string \<Rightarrow> rat) \<Rightarrow> time \<Rightarrow> string \<Rightarrow> nat \<Rightarrow> nat \<Rightarrow> string list
   \<Rightarrow> (store_error + string) option" where
  "select_account view rnd now pid 0 i excluded = None"
| "select_account view rnd now pid (Suc fuel) i excluded =
     (case q_select_account (rnd i) now pid excluded (view i) of
        Inl e \<Rightarrow> Some (Inl (if e = NoRows then NoEligibleAccount else wrap_db ''select provider account'' e))
      | Inr aid \<Rightarrow>
          (if q_has_capacity now aid (view (Suc i)) then Some (Inr aid)
           else select_account view rnd now pid fuel (Suc (Suc i)) (excluded @ [aid])))"

text \<open>Within one transaction that no other interferes with, the database does not change between the
  statements.\<close>

definition choose_account ::
  "(string \<Rightarrow> rat) \<Rightarrow> time \<Rightarrow> string \<Rightarrow> string list \<Rightarrow> db \<Rightarrow> store_error + string" where
  "choose_account rnd now pid excluded db =
     (case select_account (\<lambda>_. db) (\<lambda>_. rnd) now pid (Suc (length (t_accounts db))) 0 excluded of
        Some r \<Rightarrow> r
      | None \<Rightarrow> Inl NoEligibleAccount)"

definition create_api_key_and_bind ::
  "string \<Rightarrow> (string \<Rightarrow> rat) \<Rightarrow> time \<Rightarrow> api_key \<Rightarrow> db \<Rightarrow> store_error + (db \<times> string)" where
  "create_api_key_and_bind new_id rnd now key0 db =
     (let key = (if k_employee key0 = [] then key0\<lparr>k_employee := new_id\<rparr> else key0) in
      case choose_account rnd now (k_pool key) [] db of
        Inl e \<Rightarrow> Inl e
      | Inr aid \<Rightarrow>
          (case (if k_employee_name key \<noteq> []
                 then wrapped ''create employee'' (q_create_employee (k_employee key) (k_employee_name key) db)
                 else Inr db) of
             Inl e \<Rightarrow> Inl e
           | Inr db1 \<Rightarrow>
               (case q_create_api_key
                       \<lparr>kr_id = k_id key, kr_pool = k_pool key, kr_employee = k_employee key,
                        kr_hmac = k_hmac key, kr_hint = k_hint key, kr_scopes = k_scopes key,
                        kr_rate_limit = wrap32 (k_rate_limit key), kr_expires = k_expires key,
                        kr_revoked = None, kr_last_used = None, kr_created = now\<rparr> db1 of
                  Inl e \<Rightarrow> Inl (wrap_db ''create API key'' e)
                | Inr db2 \<Rightarrow>
                    (case q_bind_api_key now (k_id key) aid db2 of
                       Inl e \<Rightarrow> Inl (wrap_db ''create API key'' e)
                     | Inr db3 \<Rightarrow> Inr (db3, aid)))))"

definition reassign_api_key ::
  "(string \<Rightarrow> rat) \<Rightarrow> time \<Rightarrow> string \<Rightarrow> string \<Rightarrow> string list \<Rightarrow> db \<Rightarrow> store_error + (db \<times> account)" where
  "reassign_api_key rnd now kid pid excluded db =
     (case choose_account rnd now pid excluded db of
        Inl e \<Rightarrow> Inl e
      | Inr aid \<Rightarrow>
          (case wrapped ''reassign API key'' (q_reassign_api_key now aid kid db) of
             Inl e \<Rightarrow> Inl e
           | Inr db' \<Rightarrow>
               (case wrapped ''read reassigned account'' (q_get_routable aid db') of
                  Inl e \<Rightarrow> Inl e
                | Inr row \<Rightarrow> Inr (db', route_account row))))"

section \<open>Keys\<close>

definition list_api_keys :: "db \<Rightarrow> api_key list" where
  "list_api_keys db =
     map (\<lambda>(k, name, aid). \<lparr>k_id = kr_id k, k_pool = kr_pool k, k_account = aid,
            k_employee = kr_employee k, k_employee_name = name, k_hmac = [], k_hint = kr_hint k,
            k_scopes = kr_scopes k, k_rate_limit = kr_rate_limit k, k_expires = kr_expires k,
            k_revoked = kr_revoked k, k_last_used = kr_last_used k, k_created = kr_created k\<rparr>)
       (q_list_api_keys db)"

definition revoke_api_key :: "time \<Rightarrow> string \<Rightarrow> db \<Rightarrow> store_error + db" where
  "revoke_api_key now kid db = wrap_mutation ''revoke API key'' (Inr (q_revoke_api_key now kid db))"

definition route_of_row :: "route_row \<Rightarrow> key_route" where
  "route_of_row r =
     (let k = rr_key r; p = rr_pool r in
      \<lparr>r_key = \<lparr>k_id = kr_id k, k_pool = kr_pool k, k_account = [], k_employee = kr_employee k,
          k_employee_name = rr_employee r, k_hmac = [], k_hint = kr_hint k, k_scopes = kr_scopes k,
          k_rate_limit = kr_rate_limit k, k_expires = kr_expires k, k_revoked = kr_revoked k,
          k_last_used = kr_last_used k, k_created = kr_created k\<rparr>,
       r_pool = \<lparr>p_id = pr_id p, p_name = pr_name p, p_provider = pr_provider p, p_accounts = [],
          p_created = pr_created p, p_updated = pr_updated p\<rparr>,
       r_account = route_account (rr_account r), r_membership = rr_membership r\<rparr>)"

definition resolve_api_key :: "time \<Rightarrow> string \<Rightarrow> db \<Rightarrow> store_error + key_route" where
  "resolve_api_key now digest db =
     (case q_resolve_api_key now digest db of
        Inl e \<Rightarrow> Inl (wrap_db ''resolve API key'' e)
      | Inr r \<Rightarrow> Inr (route_of_row r))"

definition resolve_pinned_api_key ::
  "time \<Rightarrow> string \<Rightarrow> string \<Rightarrow> string \<Rightarrow> db \<Rightarrow> store_error + key_route" where
  "resolve_pinned_api_key now digest pid aid db =
     (case q_resolve_pinned now aid digest pid db of
        Inr r \<Rightarrow> Inr (route_of_row r)
      | Inl e \<Rightarrow>
          let resolved = wrap_db ''resolve pinned API key'' e in
          if resolved \<noteq> NotFound then Inl resolved
          else if q_pinned_valid now digest pid db then Inl PinnedUnavailable
          else Inl NotFound)"

definition resolve_session_account :: "time \<Rightarrow> string \<Rightarrow> string \<Rightarrow> db \<Rightarrow> store_error + account" where
  "resolve_session_account now kid hash db =
     (case wrapped ''resolve session account'' (q_resolve_session now kid hash db) of
        Inl e \<Rightarrow> Inl e
      | Inr a \<Rightarrow> Inr (route_account a))"

definition save_session_binding ::
  "time \<Rightarrow> string \<Rightarrow> string \<Rightarrow> string \<Rightarrow> string \<Rightarrow> time \<Rightarrow> db \<Rightarrow> store_error + db" where
  "save_session_binding now kid pid hash aid expires db =
     wrapped ''save session binding'' (q_save_session now kid pid hash aid expires db)"

definition record_request_success :: "time \<Rightarrow> string \<Rightarrow> string \<Rightarrow> time \<Rightarrow> db \<Rightarrow> store_error + db" where
  "record_request_success now aid kid ts db = Inr (q_record_success now ts kid aid db)"

section \<open>Usage\<close>

definition add_usage ::
  "time \<Rightarrow> string \<Rightarrow> string \<Rightarrow> string \<Rightarrow> time \<Rightarrow> int \<Rightarrow> int \<Rightarrow> db \<Rightarrow> store_error + db" where
  "add_usage now kid hash model0 ts input output db =
     (if input < 0 \<or> output < 0 then Inl NegativeTokens
      else if hash = [] then Inl NoEventHash
      else
        let trimmed = trim_space model0;
            model = (if trimmed = [] then ''unknown'' else trimmed)
        in case wrapped ''deduplicate usage event'' (q_dedup_event now kid hash db) of
             Inl e \<Rightarrow> Inl e
           | Inr (db1, affected) \<Rightarrow>
               (if affected = 0 then Inr db1
                else
                  (case wrapped ''add usage'' (q_add_usage now kid (date_of ts) model input output db1) of
                     Inl e \<Rightarrow> Inl e
                   | Inr db2 \<Rightarrow> Inr (q_update_key_activity ts kid db2))))"

definition list_usage_employees ::
  "string \<Rightarrow> time option \<Rightarrow> time option \<Rightarrow> int option \<Rightarrow> string \<Rightarrow> nat \<Rightarrow> db \<Rightarrow> employee_usage list" where
  "list_usage_employees kid from to after_total after_id limit db =
     q_usage_employees kid from to after_total after_id limit db"

definition list_usage_details ::
  "string \<Rightarrow> time option \<Rightarrow> time option \<Rightarrow> int option \<Rightarrow> string \<Rightarrow> string \<Rightarrow> nat \<Rightarrow> db \<Rightarrow> usage_detail list" where
  "list_usage_details employee from to after_total after_id after_model limit db =
     q_usage_details employee from to after_total after_id after_model limit db"

definition get_usage_totals :: "string \<Rightarrow> time option \<Rightarrow> time option \<Rightarrow> db \<Rightarrow> int \<times> int" where
  "get_usage_totals kid from to db = q_usage_totals kid from to db"

definition list_top_usage_keys ::
  "string \<Rightarrow> time option \<Rightarrow> time option \<Rightarrow> nat \<Rightarrow> db \<Rightarrow> top_key list" where
  "list_top_usage_keys kid from to limit db = q_top_usage_keys kid from to limit db"

definition audit_event :: "time \<Rightarrow> string \<Rightarrow> string \<Rightarrow> string \<Rightarrow> string \<Rightarrow> string \<Rightarrow> db \<Rightarrow> store_error + db" where
  "audit_event now actor action target_type target result db =
     Inr (q_audit now actor action target_type target result db)"

end
