(* ===== verification/Store_Choice.thy ===== *)
theory Store_Choice
  imports Store
begin

text \<open>
  How an account is chosen for a key: what \<open>selectAccountForUpdate\<close> returns, that its loop ends even
  while other transactions commit between its statements, and what binding a key to the chosen
  account changes.
\<close>

section \<open>The choice\<close>

definition can_serve :: "db \<Rightarrow> time \<Rightarrow> string \<Rightarrow> string list \<Rightarrow> account_row \<Rightarrow> pool_account \<Rightarrow> bool" where
  "can_serve db now pid excluded a m \<longleftrightarrow>
     a \<in> set (t_accounts db) \<and> m \<in> set (t_pool_accounts db) \<and> member_of pid (ar_id a) m
     \<and> pa_enabled m \<and> ar_id a \<notin> set excluded \<and> routable now a
     \<and> int (bound_keys db now (ar_id a)) < max_keys_per_account (t_settings db)"

text \<open>What the choice goes by: first the priority, then the live keys per weight (a weight counts as 1 at least),
  then chance.\<close>

definition serving_rank :: "(string \<Rightarrow> rat) \<Rightarrow> db \<Rightarrow> time \<Rightarrow> account_row \<Rightarrow> pool_account \<Rightarrow> int \<times> rat \<times> rat" where
  "serving_rank rnd db now a m =
     (pa_priority m, Fract (int (bound_keys db now (ar_id a))) (if 1 \<le> pa_weight m then pa_weight m else 1), rnd (ar_id a))"

lemma candidate_key_rank: "candidate_key rnd db now (a, m) = serving_rank rnd db now a m"
  by (simp add: candidate_key_def serving_rank_def load_def Fract_of_int_quotient max_def)

lemma candidates_iff: "(a, m) \<in> set (candidates db now pid excluded) \<longleftrightarrow> can_serve db now pid excluded a m"
  by (auto simp: candidates_def can_serve_def eligible_def q_has_capacity_def)

lemma sort_key_hd:
  assumes "sort_key f xs = c # cs"
  shows "c \<in> set xs" and "\<And>d. d \<in> set xs \<Longrightarrow> f c \<le> f d"
proof -
  have "set (c # cs) = set xs" using assms by (metis set_sort)
  then show "c \<in> set xs" by auto
  have "sorted (map f (c # cs))" using assms by (metis sorted_sort_key)
  then have "\<forall>d \<in> set (c # cs). f c \<le> f d" by auto
  then show "f c \<le> f d" if "d \<in> set xs" for d using that \<open>set (c # cs) = set xs\<close> by blast
qed

lemma q_select_account_Inr:
  assumes "q_select_account rnd now pid excluded db = Inr aid"
  obtains a m where "can_serve db now pid excluded a m" and "ar_id a = aid"
    and "\<And>a' m'. can_serve db now pid excluded a' m' \<Longrightarrow> serving_rank rnd db now a m \<le> serving_rank rnd db now a' m'"
proof -
  obtain c cs where c: "sort_key (candidate_key rnd db now) (candidates db now pid excluded) = c # cs"
    and id: "ar_id (fst c) = aid"
    using assms by (auto simp: q_select_account_def split: list.splits)
  obtain a m where am: "c = (a, m)" by (cases c)
  show thesis
  proof (rule that [of a m])
    show "can_serve db now pid excluded a m"
      using sort_key_hd(1) [OF c] by (simp add: am candidates_iff)
    show "ar_id a = aid" using id by (simp add: am)
    show "serving_rank rnd db now a m \<le> serving_rank rnd db now a' m'"
      if "can_serve db now pid excluded a' m'" for a' m'
      using sort_key_hd(2) [OF c, of "(a', m')"] that
      by (simp add: am candidates_iff candidate_key_rank)
  qed
qed

lemma q_select_account_Inl:
  "q_select_account rnd now pid excluded db = Inl e \<Longrightarrow>
   e = NoRows \<and> (\<forall>a m. \<not> can_serve db now pid excluded a m)"
proof -
  assume "q_select_account rnd now pid excluded db = Inl e"
  then have "sort_key (candidate_key rnd db now) (candidates db now pid excluded) = []" and "e = NoRows"
    by (auto simp: q_select_account_def split: list.splits)
  moreover from this(1) have "candidates db now pid excluded = []"
    by (metis length_0_conv length_sort)
  then have "\<not> can_serve db now pid excluded a m" for a m
    using candidates_iff [of a m db now pid excluded] by simp
  ultimately show ?thesis by blast
qed

lemma can_serve_capacity: "can_serve db now pid excluded a m \<Longrightarrow> q_has_capacity now (ar_id a) db"
  by (simp add: can_serve_def q_has_capacity_def)

lemma choose_account_eq:
  "choose_account rnd now pid excluded db =
    (case q_select_account rnd now pid excluded db of Inl _ \<Rightarrow> Inl NoEligibleAccount | Inr aid \<Rightarrow> Inr aid)"
proof (cases "q_select_account rnd now pid excluded db")
  case (Inl e)
  then show ?thesis using q_select_account_Inl [OF Inl] by (simp add: choose_account_def)
next
  case (Inr aid)
  obtain a m where "can_serve db now pid excluded a m" "ar_id a = aid"
    by (rule q_select_account_Inr [OF Inr])
  then have "q_has_capacity now aid db" using can_serve_capacity by blast
  then show ?thesis using Inr by (simp add: choose_account_def)
qed

lemma choose_account_Inr:
  assumes "choose_account rnd now pid excluded db = Inr aid"
  obtains a m where "can_serve db now pid excluded a m" and "ar_id a = aid"
proof -
  have "q_select_account rnd now pid excluded db = Inr aid"
    using assms by (auto simp: choose_account_eq split: sum.splits)
  then show thesis by (rule q_select_account_Inr) (rule that)
qed

text \<open>C2. The account chosen for a key of a pool can serve it (an enabled member of the pool, active or
  past its cooldown, not unhealthy, not excluded, with room for another live key), and among all accounts that can serve
  it, it has the lowest priority number, at the same priority the fewest live keys per weight, and at the same load the
  lowest random number. When none can serve it, and only then, the choice fails with \<open>ErrNoEligibleAccount\<close>.\<close>

theorem choose_account_correct:
  "case choose_account rnd now pid excluded db of
     Inr aid \<Rightarrow> (\<exists>a m. can_serve db now pid excluded a m \<and> ar_id a = aid
        \<and> (\<forall>a' m'. can_serve db now pid excluded a' m' \<longrightarrow> serving_rank rnd db now a m \<le> serving_rank rnd db now a' m'))
   | Inl e \<Rightarrow> e = NoEligibleAccount \<and> (\<forall>a m. \<not> can_serve db now pid excluded a m)"
proof (cases "q_select_account rnd now pid excluded db")
  case (Inl e)
  then show ?thesis using q_select_account_Inl [OF Inl] by (simp add: choose_account_eq)
next
  case (Inr aid)
  obtain a m where "can_serve db now pid excluded a m" "ar_id a = aid"
    "\<And>a' m'. can_serve db now pid excluded a' m' \<Longrightarrow> serving_rank rnd db now a m \<le> serving_rank rnd db now a' m'"
    using q_select_account_Inr [OF Inr] by metis
  then show ?thesis unfolding choose_account_eq Inr sum.case by blast
qed

definition sample_account :: "string \<Rightarrow> account_row" where
  "sample_account i = \<lparr>ar_id = i, ar_provider = provider_codex, ar_credential_type = credential_subscription,
     ar_display_name = [], ar_email = None, ar_subject_hmac = i, ar_ciphertext = [], ar_version = 1,
     ar_status = account_active, ar_fast_mode = False, ar_health = health_healthy,
     ar_health_error = None, ar_failures = 0, ar_checked_at = None, ar_next_check = None,
     ar_quota = [], ar_quota_checked = None, ar_quota_error = None, ar_reset_credits = None,
     ar_reset_checked = None, ar_reset_claimed = None, ar_cooldown = None, ar_last_success = None,
     ar_last_failure = None, ar_created = 0, ar_updated = 0\<rparr>"

definition sample_member :: "string \<Rightarrow> pool_account" where
  "sample_member i = \<lparr>pa_pool = ''p'', pa_account = i, pa_weight = 1, pa_priority = 0, pa_enabled = True\<rparr>"

definition sample_db :: db where
  "sample_db = \<lparr>t_accounts = [sample_account ''a''],
     t_pools = [\<lparr>pr_id = ''p'', pr_name = ''main'', pr_provider = provider_codex, pr_created = 0, pr_updated = 0\<rparr>],
     t_pool_accounts = [sample_member ''a''], t_employees = [], t_keys = [], t_bindings = [],
     t_sessions = [], t_events = [], t_dedup = [], t_usage = [],
     t_settings = \<lparr>max_keys_per_account = 2, max_request_body = 0, max_inflight_body = 0\<rparr>,
     t_settings_updated = 0, t_admin_sessions = [], t_login_failures = [], t_rate_limits = [],
     t_audit = []\<rparr>"

lemma sample_simps:
  "t_accounts sample_db = [sample_account ''a'']" "t_pool_accounts sample_db = [sample_member ''a'']"
  "t_bindings sample_db = []" "t_keys sample_db = []" "t_employees sample_db = []"
  "t_pools sample_db = [\<lparr>pr_id = ''p'', pr_name = ''main'', pr_provider = provider_codex, pr_created = 0, pr_updated = 0\<rparr>]"
  "max_keys_per_account (t_settings sample_db) = 2" "ar_id (sample_account i) = i"
  "routable now (sample_account i)" "member_of ''p'' i (sample_member i)" "pa_enabled (sample_member i)"
  by (simp_all add: sample_db_def sample_account_def sample_member_def routable_def member_of_def domain_consts)

lemma sample_choice: "choose_account rnd 0 ''p'' [] sample_db = Inr ''a''"
  by (simp add: choose_account_eq q_select_account_def candidates_def eligible_def sample_simps
      q_has_capacity_def bound_keys_def)

lemma choose_account_correct_witness:
  "choose_account (\<lambda>_. 0) 0 ''p'' [] sample_db = Inr ''a''
    \<and> (\<exists>a m. can_serve sample_db 0 ''p'' [] a m \<and> ar_id a = ''a'')"
  using choose_account_correct [where rnd = "\<lambda>_. 0" and now = 0 and pid = "''p''" and excluded = "[]" and db = sample_db]
  by (auto simp: sample_choice)

section \<open>Termination\<close>

text \<open>C3. The selection loop ends. However other transactions change the database between its
  statements, as long as only finitely many accounts ever exist, as many selections as there are
  accounts not yet excluded, and one more, are enough; and an account it returns could serve the key
  when it was selected and still had room for it at the check after that.\<close>

theorem select_account_terminates:
  assumes "finite U" and "\<And>i. set (account_ids (view i)) \<subseteq> U" and "card (U - set excluded) < fuel"
  shows "\<exists>r. select_account view rnd now pid fuel i excluded = Some r
    \<and> (\<forall>aid. r = Inr aid \<longrightarrow>
         (\<exists>j a m ex. can_serve (view j) now pid (excluded @ ex) a m \<and> ar_id a = aid
            \<and> q_has_capacity now aid (view (Suc j))))"
  using assms(3)
proof (induction fuel arbitrary: i excluded)
  case 0
  then show ?case by simp
next
  case (Suc fuel)
  show ?case
  proof (cases "q_select_account (rnd i) now pid excluded (view i)")
    case (Inl e)
    then show ?thesis by simp
  next
    case (Inr aid)
    obtain a m where am: "can_serve (view i) now pid excluded a m" "ar_id a = aid"
      by (rule q_select_account_Inr [OF Inr])
    show ?thesis
    proof (cases "q_has_capacity now aid (view (Suc i))")
      case True
      moreover have "can_serve (view i) now pid (excluded @ []) a m" using am by simp
      moreover have "select_account view rnd now pid (Suc fuel) i excluded = Some (Inr aid)"
        using Inr True by simp
      ultimately show ?thesis using am(2) by blast
    next
      case False
      have "aid \<in> U - set excluded"
        using am assms(2) [of i] by (auto simp: can_serve_def account_ids_def)
      then have "card (U - set (excluded @ [aid])) < card (U - set excluded)"
        using assms(1) by (intro psubset_card_mono) auto
      then have "card (U - set (excluded @ [aid])) < fuel" using Suc.prems by simp
      then obtain r where r: "select_account view rnd now pid fuel (Suc (Suc i)) (excluded @ [aid]) = Some r"
        "\<forall>b. r = Inr b \<longrightarrow> (\<exists>j a m ex. can_serve (view j) now pid ((excluded @ [aid]) @ ex) a m
            \<and> ar_id a = b \<and> q_has_capacity now b (view (Suc j)))"
        using Suc.IH by blast
      moreover have "select_account view rnd now pid (Suc fuel) i excluded = Some r"
        using Inr False r(1) by simp
      ultimately show ?thesis by (metis append_assoc)
    qed
  qed
qed

theorem select_account_terminates_witness:
  "\<exists>r. select_account (\<lambda>_. sample_db) (\<lambda>_ _. 0) 0 ''p'' 2 0 [] = Some r"
  using select_account_terminates [of "{''a''}" "\<lambda>_. sample_db" "[]" 2 "\<lambda>_ _. 0" 0 "''p''" 0]
  by (auto simp: account_ids_def sample_simps)

end
