(* ===== verification/Store_Binding.thy ===== *)
theory Store_Binding
  imports Store_Choice
begin

text \<open>
  What binding a key changes: a new key goes to the chosen account, a reassigned key leaves its
  account for the chosen one; the account never ends up with more live keys than the settings
  allow, and no other key moves.
\<close>

lemma count_if_zero: "(\<And>x. x \<in> set xs \<Longrightarrow> \<not> P x) \<Longrightarrow> count_if P xs = 0"
  by (simp add: count_if_def filter_empty_conv)

lemma count_if_eq_le_1: "distinct (map g xs) \<Longrightarrow> count_if (\<lambda>x. g x = k) xs \<le> 1"
proof (induction xs)
  case Nil
  then show ?case by simp
next
  case (Cons x xs)
  have "count_if (\<lambda>y. g y = k) xs = 0" if "g x = k"
  proof (rule count_if_zero)
    fix y assume "y \<in> set xs"
    then have "g y \<in> g ` set xs" by (rule imageI)
    then show "g y \<noteq> k" using Cons.prems that by auto
  qed
  then show ?case using Cons by simp
qed

lemma count_if_update_le:
  "count_if Q (update_rows P f rows) \<le> count_if Q rows + count_if P rows"
  by (induction rows) auto

lemma bound_keys_new_key:
  assumes "t_bindings db2 = t_bindings db" and "t_keys db2 = t_keys db @ [k]"
    and "\<And>b. b \<in> set (t_bindings db) \<Longrightarrow> b_key b \<noteq> kr_id k"
  shows "bound_keys db2 now a = bound_keys db now a"
proof -
  have "key_is_live db2 now (b_key b) = key_is_live db now (b_key b)" if "b \<in> set (t_bindings db)" for b
    using assms(3) [OF that] by (auto simp: key_is_live_def assms(2))
  then show ?thesis unfolding bound_keys_def assms(1) by (intro count_if_cong) auto
qed

text \<open>C4. A key that is created ends up bound to an account of its pool that could serve it. That account gains one live
  key if the new key is live and none otherwise, and has no more of them than the settings allow; every other account
  has as many as before; and no account row and no binding of another key changes. The key is stored with the low 32
  bits of its rate limit.\<close>

theorem create_key_binds:
  assumes "create_api_key_and_bind new_id rnd now key db = Inr (db', aid)"
  shows "(\<exists>a m. can_serve db now (k_pool key) [] a m \<and> ar_id a = aid)
    \<and> (\<exists>row. t_keys db' = t_keys db @ [row] \<and> kr_id row = k_id key \<and> kr_pool row = k_pool key
        \<and> kr_hmac row = k_hmac key \<and> kr_revoked row = None \<and> kr_expires row = k_expires key
        \<and> kr_rate_limit row = wrap32 (k_rate_limit key) \<and> 0 \<le> kr_rate_limit row)
    \<and> t_bindings db' = t_bindings db @ [\<lparr>b_key = k_id key, b_account = aid, b_assigned = now\<rparr>]
    \<and> bound_keys db' now aid = bound_keys db now aid
        + (case k_expires key of None \<Rightarrow> 1 | Some t \<Rightarrow> if now < t then 1 else 0)
    \<and> int (bound_keys db' now aid) \<le> max_keys_per_account (t_settings db')
    \<and> (\<forall>other. other \<noteq> aid \<longrightarrow> bound_keys db' now other = bound_keys db now other)
    \<and> t_accounts db' = t_accounts db \<and> t_settings db' = t_settings db"
proof -
  define key' where "key' = (if k_employee key = [] then key\<lparr>k_employee := new_id\<rparr> else key)"
  have k': "k_id key' = k_id key" "k_pool key' = k_pool key" "k_hmac key' = k_hmac key" "k_expires key' = k_expires key"
    "k_rate_limit key' = k_rate_limit key" by (simp_all add: key'_def)
  define row where "row = \<lparr>kr_id = k_id key', kr_pool = k_pool key', kr_employee = k_employee key',
    kr_hmac = k_hmac key', kr_hint = k_hint key', kr_scopes = k_scopes key',
    kr_rate_limit = wrap32 (k_rate_limit key'), kr_expires = k_expires key',
    kr_revoked = None, kr_last_used = None, kr_created = now\<rparr>"
  from assms obtain db1 db2 where c: "choose_account rnd now (k_pool key) [] db = Inr aid"
    and e: "(if k_employee_name key' \<noteq> []
        then wrapped ''create employee'' (q_create_employee (k_employee key') (k_employee_name key') db)
        else Inr db) = Inr db1"
    and n: "q_create_api_key row db1 = Inr db2"
    and b: "q_bind_api_key now (k_id key') aid db2 = Inr db'"
    unfolding create_api_key_and_bind_def key'_def [symmetric] row_def [symmetric] Let_def
    by (auto simp: k' split: sum.splits)
  have s1: "t_bindings db1 = t_bindings db" "t_keys db1 = t_keys db" "t_accounts db1 = t_accounts db"
    "t_settings db1 = t_settings db"
    using e by (auto simp: wrapped_def q_create_employee_def split: if_splits sum.splits)
  have s2: "t_bindings db2 = t_bindings db1" "t_keys db2 = t_keys db1 @ [row]" "t_accounts db2 = t_accounts db1"
    "t_settings db2 = t_settings db1" and id: "kr_id row \<notin> kr_id ` set (t_keys db1)" and limit: "0 \<le> kr_rate_limit row"
    using n by (auto simp: q_create_api_key_def list_ex_iff split: if_splits)
  have fresh: "\<And>x. x \<in> set (t_bindings db2) \<Longrightarrow> b_key x \<noteq> kr_id row"
    and s3: "t_bindings db' = t_bindings db2 @ [\<lparr>b_key = k_id key', b_account = aid, b_assigned = now\<rparr>]"
    "t_keys db' = t_keys db2" "t_accounts db' = t_accounts db2" "t_settings db' = t_settings db2"
    using b by (auto simp: q_bind_api_key_def list_ex_iff row_def split: if_splits)
  obtain a m where am: "can_serve db now (k_pool key) [] a m" "ar_id a = aid"
    by (rule choose_account_Inr [OF c])
  have same: "bound_keys db2 now x = bound_keys db now x" for x
    using bound_keys_new_key [of db2 db row] s1 s2 fresh by simp
  have live: "key_is_live db2 now (k_id key') = (case k_expires key of None \<Rightarrow> True | Some t \<Rightarrow> now < t)"
    using id by (force simp: key_is_live_def s2 list_ex_iff key_live_def row_def k' split: option.splits)
  have add: "bound_keys db' now x = bound_keys db2 now x
      + (if x = aid \<and> key_is_live db2 now (k_id key') then 1 else 0)" for x
    by (simp add: bound_keys_def key_is_live_def s3)
  have room: "int (bound_keys db now aid) < max_keys_per_account (t_settings db)"
    using am by (auto simp: can_serve_def)
  have "\<exists>row. t_keys db' = t_keys db @ [row] \<and> kr_id row = k_id key \<and> kr_pool row = k_pool key
        \<and> kr_hmac row = k_hmac key \<and> kr_revoked row = None \<and> kr_expires row = k_expires key
        \<and> kr_rate_limit row = wrap32 (k_rate_limit key) \<and> 0 \<le> kr_rate_limit row"
    using limit by (intro exI [of _ row]) (simp add: s3 s2 s1 row_def k')
  moreover have "bound_keys db' now aid = bound_keys db now aid
        + (case k_expires key of None \<Rightarrow> 1 | Some t \<Rightarrow> if now < t then 1 else 0)"
    using add [of aid] same live by (simp split: option.split)
  moreover have "int (bound_keys db' now aid) \<le> max_keys_per_account (t_settings db')"
    using add [of aid] same room s1 s2 s3 by simp
  ultimately show ?thesis using am add same by (auto simp: s1 s2 s3 k')
qed

definition sample_key :: api_key where
  "sample_key = \<lparr>k_id = ''k'', k_pool = ''p'', k_account = [], k_employee = ''e'', k_employee_name = ''Ann'',
     k_hmac = ''h'', k_hint = [], k_scopes = [], k_rate_limit = 0, k_expires = None, k_revoked = None,
     k_last_used = None, k_created = 0\<rparr>"

lemma sample_create:
  "\<exists>db'. create_api_key_and_bind ''n'' (\<lambda>_. 0) 0 sample_key sample_db = Inr (db', ''a'')"
  by (simp add: create_api_key_and_bind_def sample_key_def sample_choice q_create_employee_def
      q_create_api_key_def q_bind_api_key_def wrap32_def blank_def sample_simps account_ids_def key_ids_def Let_def)

theorem create_key_binds_witness:
  "\<exists>db'. create_api_key_and_bind ''n'' (\<lambda>_. 0) 0 sample_key sample_db = Inr (db', ''a'')
    \<and> bound_keys db' 0 ''a'' = bound_keys sample_db 0 ''a'' + 1"
proof -
  obtain db' where c: "create_api_key_and_bind ''n'' (\<lambda>_. 0) 0 sample_key sample_db = Inr (db', ''a'')"
    using sample_create by blast
  have "bound_keys db' 0 ''a'' = bound_keys sample_db 0 ''a''
      + (case k_expires sample_key of None \<Rightarrow> 1 | Some t \<Rightarrow> if 0 < t then 1 else 0)"
    using create_key_binds [OF c] by blast
  with c show ?thesis by (simp add: sample_key_def)
qed

text \<open>C5. Reassigning a key moves its binding, and no other key's, to an account that can serve the
  pool and is not excluded; the account returned is that account's row, and it has no more live keys
  than the settings allow.\<close>

theorem reassign_moves_only_the_key:
  assumes "reassign_api_key rnd now kid pid excluded db = Inr (db', acc)" and "db_ok db"
  shows "(\<exists>a m. can_serve db now pid excluded a m \<and> acc = route_account a)
    \<and> a_id acc \<notin> set excluded
    \<and> (\<forall>b \<in> set (t_bindings db'). b_key b = kid \<longrightarrow> b_account b = a_id acc)
    \<and> filter (\<lambda>b. b_key b \<noteq> kid) (t_bindings db') = filter (\<lambda>b. b_key b \<noteq> kid) (t_bindings db)
    \<and> int (bound_keys db' now (a_id acc)) \<le> max_keys_per_account (t_settings db')"
proof -
  from assms(1) obtain aid row where c: "choose_account rnd now pid excluded db = Inr aid"
    and q: "q_reassign_api_key now aid kid db = Inr db'"
    and g: "q_get_routable aid db' = Inr row" and acc: "acc = route_account row"
    by (auto simp: reassign_api_key_def wrapped_def split: sum.splits)
  obtain a m where am: "can_serve db now pid excluded a m" "ar_id a = aid"
    by (rule choose_account_Inr [OF c])
  have db': "db' = db\<lparr>t_bindings := update_rows (\<lambda>b. b_key b = kid)
      (\<lambda>b. b\<lparr>b_account := aid, b_assigned := now\<rparr>) (t_bindings db)\<rparr>"
    using q by (auto simp: q_reassign_api_key_def split: if_splits)
  have row: "row \<in> set (t_accounts db)" "ar_id row = aid"
    using find_row_Inr [of "\<lambda>a. ar_id a = aid" "t_accounts db" row] g
    by (simp_all add: q_get_routable_def db')
  have "distinct (map ar_id (t_accounts db))" using assms(2) by (rule db_okD)
  then have "row = a"
    using row am by (auto simp: can_serve_def distinct_map inj_on_def)
  moreover have id: "a_id acc = aid" using acc row by (simp add: route_account_def no_account_def)
  moreover have "aid \<notin> set excluded" using am by (auto simp: can_serve_def)
  moreover have "\<forall>b \<in> set (t_bindings db'). b_key b = kid \<longrightarrow> b_account b = aid"
  proof
    fix b assume "b \<in> set (t_bindings db')"
    then have "b \<in> set (update_rows (\<lambda>b. b_key b = kid)
        (\<lambda>b. b\<lparr>b_account := aid, b_assigned := now\<rparr>) (t_bindings db))" by (simp add: db')
    then show "b_key b = kid \<longrightarrow> b_account b = aid" by (rule update_rows_all) simp_all
  qed
  moreover have "filter (\<lambda>b. b_key b \<noteq> kid) (t_bindings db') = filter (\<lambda>b. b_key b \<noteq> kid) (t_bindings db)"
    by (simp add: db' filter_update_rows)
  moreover have "int (bound_keys db' now aid) \<le> max_keys_per_account (t_settings db')"
  proof -
    have live: "key_is_live db' now x = key_is_live db now x" for x by (simp add: key_is_live_def db')
    have "bound_keys db' now aid \<le> bound_keys db now aid + count_if (\<lambda>b. b_key b = kid) (t_bindings db)"
      unfolding bound_keys_def live by (simp add: db' count_if_update_le)
    moreover have "count_if (\<lambda>b. b_key b = kid) (t_bindings db) \<le> 1"
      using assms(2) by (intro count_if_eq_le_1) (rule db_okD)
    moreover have "int (bound_keys db now aid) < max_keys_per_account (t_settings db)"
      using am by (auto simp: can_serve_def)
    ultimately show ?thesis by (simp add: db')
  qed
  ultimately show ?thesis using am acc by auto
qed

lemma sample_db_ok: "db_ok sample_db"
  by (simp add: db_ok_defs sample_simps)
     (simp add: sample_db_def sample_member_def sample_account_def account_ok_def statuses_def healths_def
        account_providers_def pool_providers_def settings_check_def domain_consts)

theorem reassign_moves_only_the_key_witness:
  "\<exists>db' acc. reassign_api_key (\<lambda>_. 0) 0 ''k'' ''p'' [] sample_db = Inr (db', acc) \<and> a_id acc \<notin> {}"
proof -
  have "\<exists>db' acc. reassign_api_key (\<lambda>_. 0) 0 ''k'' ''p'' [] sample_db = Inr (db', acc)"
    by (simp add: reassign_api_key_def sample_choice q_reassign_api_key_def q_get_routable_def find_row_def
        sample_simps)
  then show ?thesis using reassign_moves_only_the_key [OF _ sample_db_ok] by force
qed

end
