(* ===== verification/Store_Accounts.thy ===== *)
theory Store_Accounts
  imports Store
begin

text \<open>
  The provider, settings and administrator operations of \<open>internal/store\<close> (\<open>postgres.go\<close>,
  \<open>settings.go\<close>, \<open>runtime.go\<close>).
\<close>

section \<open>Provider accounts\<close>

definition create_provider_account :: "time \<Rightarrow> account \<Rightarrow> string \<Rightarrow> db \<Rightarrow> store_error + db" where
  "create_provider_account now a subject_hmac db =
     wrapped ''create provider account'' (q_create_account now
       \<lparr>ar_id = a_id a, ar_provider = a_provider a, ar_credential_type = a_credential_type a,
        ar_display_name = a_display_name a, ar_email = None, ar_subject_hmac = subject_hmac,
        ar_ciphertext = a_ciphertext a, ar_version = wrap32 (a_version a), ar_status = a_status a,
        ar_fast_mode = False, ar_health = [], ar_health_error = None, ar_failures = wrap32 (a_failures a),
        ar_checked_at = a_checked_at a, ar_next_check = a_next_check a,
        ar_quota = (if a_quota a = [] then ''{}'' else a_quota a),
        ar_quota_checked = a_quota_checked a, ar_quota_error = None, ar_reset_credits = None,
        ar_reset_checked = None, ar_reset_claimed = None, ar_cooldown = None,
        ar_last_success = None, ar_last_failure = None, ar_created = now, ar_updated = now\<rparr>
       (a_email a) (a_quota_error a) (a_health a) (a_health_error a) db)"

text \<open>The account that \<open>GetProviderAccount\<close> and \<open>ListProviderAccounts\<close> build from a row; the list
  leaves out the ciphertext and counts the assigned keys.\<close>

definition full_account :: "account_row \<Rightarrow> account" where
  "full_account a =
     (route_account a)\<lparr>a_email := coalesce (ar_email a) [], a_checked_at := ar_checked_at a,
       a_health_error := coalesce (ar_health_error a) [], a_failures := ar_failures a,
       a_next_check := ar_next_check a\<rparr>"

definition get_provider_account :: "string \<Rightarrow> db \<Rightarrow> store_error + account" where
  "get_provider_account aid db =
     (case wrapped ''get provider account'' (q_get_account aid db) of
        Inl e \<Rightarrow> Inl e
      | Inr a \<Rightarrow> Inr (full_account a))"

definition list_provider_accounts :: "time \<Rightarrow> db \<Rightarrow> account list" where
  "list_provider_accounts now db =
     map (\<lambda>(a, n). (full_account a)\<lparr>a_ciphertext := [], a_assigned_keys := int n\<rparr>) (q_list_accounts now db)"

definition pool_listed_account :: "account_row \<Rightarrow> account" where
  "pool_listed_account a =
     (route_account a)\<lparr>a_email := coalesce (ar_email a) [], a_quota_checked := None, a_quota_error := []\<rparr>"

definition list_pool_provider_accounts :: "time \<Rightarrow> string \<Rightarrow> db \<Rightarrow> account list" where
  "list_pool_provider_accounts now pid db =
     map pool_listed_account (q_list_pool_provider_accounts now pid db)"

definition update_provider_details ::
  "time \<Rightarrow> string \<Rightarrow> string \<Rightarrow> string \<Rightarrow> time \<Rightarrow> db \<Rightarrow> store_error + db" where
  "update_provider_details now aid email quota checked db =
     wrap_mutation ''update provider details''
       (Inr (if quota = [] then q_update_email now email aid db
             else q_update_details now email quota checked aid db))"

definition set_provider_quota_error :: "time \<Rightarrow> string \<Rightarrow> string \<Rightarrow> time \<Rightarrow> db \<Rightarrow> store_error + db" where
  "set_provider_quota_error now aid code next_check db =
     wrap_mutation ''set provider quota error'' (Inr (q_set_quota_error now code next_check aid db))"

definition get_reset_credits :: "string \<Rightarrow> db \<Rightarrow> store_error + (string option \<times> time option)" where
  "get_reset_credits aid db = wrapped ''get provider reset credits'' (q_get_reset_credits aid db)"

definition set_reset_credits :: "time \<Rightarrow> string \<Rightarrow> string \<Rightarrow> time \<Rightarrow> db \<Rightarrow> store_error + db" where
  "set_reset_credits now aid snapshot checked db =
     wrap_mutation ''set provider reset credits'' (Inr (q_set_reset_credits now snapshot checked aid db))"

definition claim_reset_refresh :: "time \<Rightarrow> string \<Rightarrow> time \<Rightarrow> time \<Rightarrow> db \<Rightarrow> db \<times> bool" where
  "claim_reset_refresh now aid stale_before claimed db =
     (case q_claim_reset_refresh now claimed aid stale_before db of (db', n) \<Rightarrow> (db', n = 1))"

definition release_reset_refresh :: "string \<Rightarrow> db \<Rightarrow> store_error + db" where
  "release_reset_refresh aid db =
     wrap_mutation ''release provider reset credit refresh'' (Inr (q_release_reset_refresh aid db))"

definition update_provider_account ::
  "time \<Rightarrow> string \<Rightarrow> string option \<Rightarrow> string option \<Rightarrow> bool option \<Rightarrow> db \<Rightarrow> store_error + db" where
  "update_provider_account now aid name status fast db =
     wrap_mutation ''update provider account'' (q_update_account now name status fast aid db)"

definition delete_provider_account :: "time \<Rightarrow> string \<Rightarrow> db \<Rightarrow> store_error + db" where
  "delete_provider_account now aid db =
     (case wrapped ''lock provider account deletion'' (q_lock_account aid db) of
        Inl e \<Rightarrow> Inl e
      | Inr _ \<Rightarrow>
          (case q_delete_account now aid db of (db', affected) \<Rightarrow>
             if affected = 0 then Inl Conflict else Inr db'))"

definition update_credential_cas :: "time \<Rightarrow> string \<Rightarrow> int \<Rightarrow> string \<Rightarrow> int \<Rightarrow> db \<Rightarrow> db \<times> bool" where
  "update_credential_cas now aid expected ciphertext version db =
     (case q_update_credential now ciphertext (wrap32 version) aid (wrap32 expected) db of (db', n) \<Rightarrow> (db', n = 1))"

definition update_provider_status :: "time \<Rightarrow> string \<Rightarrow> string \<Rightarrow> time option \<Rightarrow> db \<Rightarrow> store_error + db" where
  "update_provider_status now aid status cooldown db =
     wrap_mutation ''update provider status'' (q_update_status now status cooldown aid db)"

definition set_usage_allowed :: "time \<Rightarrow> string \<Rightarrow> bool \<Rightarrow> db \<Rightarrow> store_error + db" where
  "set_usage_allowed now aid allowed db =
     wrap_mutation ''set provider usage availability'' (Inr (q_set_usage_allowed now allowed aid db))"

definition set_provider_health ::
  "time \<Rightarrow> string \<Rightarrow> string \<Rightarrow> string \<Rightarrow> time \<Rightarrow> time \<Rightarrow> db \<Rightarrow> store_error + db" where
  "set_provider_health now aid health code checked next_check db =
     wrap_mutation ''set provider health'' (q_set_health now health checked code next_check aid db)"

definition record_health_failure ::
  "time \<Rightarrow> string \<Rightarrow> string \<Rightarrow> time \<Rightarrow> time \<Rightarrow> db \<Rightarrow> store_error + db" where
  "record_health_failure now aid code checked next_check db =
     wrap_mutation ''record provider health failure''
       (Inr (q_record_health_failure now checked code next_check aid db))"

definition reactivate_if_cooldown_expired :: "time \<Rightarrow> string \<Rightarrow> time \<Rightarrow> db \<Rightarrow> db \<times> bool" where
  "reactivate_if_cooldown_expired now aid t db =
     (case q_reactivate now aid t db of (db', n) \<Rightarrow> (db', n = 1))"

definition claimed_account :: "account_row \<Rightarrow> account" where
  "claimed_account a =
     no_account\<lparr>a_id := ar_id a, a_provider := ar_provider a, a_credential_type := ar_credential_type a,
       a_display_name := ar_display_name a, a_ciphertext := ar_ciphertext a, a_version := ar_version a,
       a_status := ar_status a, a_health := ar_health a, a_checked_at := ar_checked_at a,
       a_health_error := coalesce (ar_health_error a) [], a_failures := ar_failures a,
       a_next_check := ar_next_check a\<rparr>"

definition claim_health_checks :: "time \<Rightarrow> nat \<Rightarrow> time \<Rightarrow> time \<Rightarrow> db \<Rightarrow> db \<times> account list" where
  "claim_health_checks now limit t claimed db =
     (case q_claim_health_checks now claimed t limit db of (db', rows) \<Rightarrow> (db', map claimed_account rows))"

section \<open>Settings\<close>

definition get_settings :: "db \<Rightarrow> settings" where
  "get_settings db = fst (q_get_settings db)"

definition settings_row :: "settings \<Rightarrow> settings" where
  "settings_row s = s\<lparr>max_keys_per_account := wrap32 (max_keys_per_account s)\<rparr>"

definition update_settings :: "time \<Rightarrow> settings \<Rightarrow> db \<Rightarrow> store_error + db" where
  "update_settings now s db = wrap_mutation ''update settings'' (q_update_settings now (settings_row s) db)"

definition patch_settings ::
  "time \<Rightarrow> settings_update \<Rightarrow> settings \<Rightarrow> db \<Rightarrow> store_error + (db \<times> settings)" where
  "patch_settings now update defaults db =
     (case apply_update update (fst (q_get_settings db)) defaults of
        Inl e \<Rightarrow> Inl (InvalidSettings e)
      | Inr s \<Rightarrow>
          (case wrap_mutation ''update settings'' (q_update_settings now (settings_row s) db) of
             Inl e \<Rightarrow> Inl e
           | Inr db' \<Rightarrow> Inr (db', fst (q_get_settings db'))))"

section \<open>Administrators and rate limits\<close>

definition admin_failure_limit :: int where "admin_failure_limit = 5"

definition scope_blocked :: "time \<Rightarrow> db \<Rightarrow> string \<Rightarrow> bool" where
  "scope_blocked now db scope \<longleftrightarrow>
     (case q_get_login_failures scope db of
        Inl _ \<Rightarrow> False
      | Inr (n, reset) \<Rightarrow> now < reset \<and> admin_failure_limit \<le> n)"

definition record_admin_login :: "string list \<Rightarrow> bool \<Rightarrow> time \<Rightarrow> db \<Rightarrow> db \<times> bool" where
  "record_admin_login scopes valid now db =
     (let keys = sort scopes in
      if list_ex (scope_blocked now db) keys then (db, False)
      else if valid then (q_clear_login_failures keys db, True)
      else (fold (\<lambda>key. q_record_login_failure key now) keys db, False))"

definition create_admin_session :: "string \<Rightarrow> time \<Rightarrow> db \<Rightarrow> store_error + db" where
  "create_admin_session digest expires db = Inr (q_create_admin_session digest expires db)"

definition admin_session_active :: "string \<Rightarrow> time \<Rightarrow> db \<Rightarrow> bool" where
  "admin_session_active digest now db = q_admin_session_active digest now db"

definition revoke_admin_session :: "string \<Rightarrow> time \<Rightarrow> db \<Rightarrow> store_error + db" where
  "revoke_admin_session digest ts db = Inr (q_revoke_admin_session ts digest db)"

definition allow_api_key_request :: "string \<Rightarrow> int \<Rightarrow> time \<Rightarrow> db \<Rightarrow> store_error + (db \<times> bool)" where
  "allow_api_key_request kid limit now db =
     (if limit \<le> 0 then Inr (db, True)
      else wrapped ''apply API key rate limit'' (q_allow_request kid now (wrap32 limit) db))"

end
