(* ===== verification/Store_Integrity.thy ===== *)
theory Store_Integrity
  imports Store_Accounts
begin

text \<open>
  The integrity of the database: every operation of the store, whatever its arguments and whether it
  succeeds or fails, keeps the keys of the tables unique, the references between them valid, the
  status and health of every account among the known ones and the counters non-negative.
\<close>

section \<open>Updates of one table\<close>

named_theorems integrity \<open>how an update of a table keeps the database in order\<close>

lemma db_ok_other [integrity, simp]:
  "db_ok (db\<lparr>t_audit := x1\<rparr>) = db_ok db"
  "db_ok (db\<lparr>t_settings_updated := x2\<rparr>) = db_ok db"
  by (simp_all add: db_ok_def unique_keys_def rows_ok_def member_ok_def [abs_def] key_ok_def [abs_def]
      session_row_ok_def [abs_def] account_ids_def key_ids_def pool_ids_def)

lemma runtime_rows:
  assumes "db_ok db"
  shows "distinct (map as_hash (t_admin_sessions db))" "distinct (map lf_scope (t_login_failures db))"
    "\<forall>f \<in> set (t_login_failures db). 0 \<le> lf_count f" "distinct (map rl_key (t_rate_limits db))"
    "\<forall>r \<in> set (t_rate_limits db). rl_key r \<in> set (key_ids db) \<and> 0 \<le> rl_count r"
    "distinct (map (\<lambda>e. (ev_key e, ev_hash e)) (t_events db))" "distinct (map pr_name (t_pools db))"
  using assms by (simp_all add: db_ok_def unique_keys_def rows_ok_def list_all_iff)

lemma row_conditions:
  assumes "db_ok db"
  shows "\<forall>p \<in> set (t_pools db). pr_provider p \<in> set pool_providers" "\<forall>m \<in> set (t_pool_accounts db). member_ok db m"
    "\<forall>s \<in> set (t_sessions db). session_row_ok db s"
    "\<forall>u \<in> set (t_usage db). u_key u \<in> set (key_ids db) \<and> 0 \<le> u_input u \<and> 0 \<le> u_output u"
    "\<forall>k \<in> set (t_keys db). key_ok db k"
  using assms by (simp_all add: db_ok_def rows_ok_def list_all_iff)

text \<open>What a change of rows keeps.\<close>

lemma all_update_rows:
  assumes "\<forall>r \<in> set rows. Q r" and "\<And>r. P r \<Longrightarrow> Q r \<Longrightarrow> Q (f r)"
  shows "\<forall>r \<in> set (update_rows P f rows). Q r"
  using assms by (auto simp: set_update_rows)

lemma db_ok_accounts:
  assumes "db_ok db" and "\<And>a. P a \<Longrightarrow> ar_id (f a) = ar_id a \<and> ar_provider (f a) = ar_provider a
      \<and> ar_subject_hmac (f a) = ar_subject_hmac a"
    and "\<And>a. P a \<Longrightarrow> account_ok a \<Longrightarrow> account_ok (f a)"
  shows "db_ok (db\<lparr>t_accounts := update_rows P f (t_accounts db)\<rparr>)"
proof -
  let ?db = "db\<lparr>t_accounts := update_rows P f (t_accounts db)\<rparr>"
  have ids: "account_ids ?db = account_ids db" "key_ids ?db = key_ids db" "pool_ids ?db = pool_ids db"
    "map (\<lambda>a. (ar_provider a, ar_subject_hmac a)) (t_accounts ?db) = map (\<lambda>a. (ar_provider a, ar_subject_hmac a)) (t_accounts db)"
    using assms(2) by (simp_all add: account_ids_def key_ids_def pool_ids_def map_update_rows)
  have "\<forall>a \<in> set (t_accounts db). account_ok a" using assms(1) by (rule db_okD)
  then have "list_all account_ok (t_accounts ?db)"
    using all_update_rows [of "t_accounts db" account_ok P f] assms(3) by (simp add: list_all_iff)
  then show ?thesis using assms(1) ids(4)
    unfolding db_ok_def unique_keys_def rows_ok_def member_ok_def [abs_def] key_ok_def [abs_def]
      session_row_ok_def [abs_def] ids by simp
qed

lemma db_ok_pools:
  assumes "db_ok db" and "\<And>p. P p \<Longrightarrow> pr_id (f p) = pr_id p"
    and "\<And>p. P p \<Longrightarrow> pr_provider (f p) = pr_provider p \<or> pr_provider (f p) \<in> set pool_providers"
    and "distinct (map pr_name (update_rows P f (t_pools db)))"
  shows "db_ok (db\<lparr>t_pools := update_rows P f (t_pools db)\<rparr>)"
proof -
  let ?db = "db\<lparr>t_pools := update_rows P f (t_pools db)\<rparr>"
  have ids: "account_ids ?db = account_ids db" "key_ids ?db = key_ids db" "pool_ids ?db = pool_ids db"
    using assms(2) by (simp_all add: account_ids_def key_ids_def pool_ids_def map_update_rows)
  have "\<forall>p \<in> set (update_rows P f (t_pools db)). pr_provider p \<in> set pool_providers"
    by (rule all_update_rows [OF row_conditions(1) [OF assms(1)]]) (metis assms(3))
  then show ?thesis using assms(1,4)
    unfolding db_ok_def unique_keys_def rows_ok_def member_ok_def [abs_def] key_ok_def [abs_def]
      session_row_ok_def [abs_def] ids by (simp add: list_all_iff)
qed

lemma db_ok_keys:
  assumes "db_ok db" and "\<And>k. P k \<Longrightarrow> kr_id (f k) = kr_id k \<and> kr_hmac (f k) = kr_hmac k
    \<and> kr_pool (f k) = kr_pool k \<and> kr_employee (f k) = kr_employee k \<and> kr_rate_limit (f k) = kr_rate_limit k"
  shows "db_ok (db\<lparr>t_keys := update_rows P f (t_keys db)\<rparr>)"
proof -
  let ?db = "db\<lparr>t_keys := update_rows P f (t_keys db)\<rparr>"
  have ids: "account_ids ?db = account_ids db" "key_ids ?db = key_ids db" "pool_ids ?db = pool_ids db"
    "map kr_hmac (t_keys ?db) = map kr_hmac (t_keys db)"
    using assms(2) by (simp_all add: account_ids_def key_ids_def pool_ids_def map_update_rows)
  have "\<forall>k \<in> set (t_keys db). key_ok db k" using assms(1) by (simp add: db_ok_def rows_ok_def list_all_iff)
  then have "\<forall>k \<in> set (t_keys ?db). key_ok db k"
    using all_update_rows [of "t_keys db" "key_ok db" P f] assms(2) by (simp add: key_ok_def)
  then show ?thesis using assms(1) ids(4)
    unfolding db_ok_def unique_keys_def rows_ok_def member_ok_def [abs_def] key_ok_def [abs_def]
      session_row_ok_def [abs_def] ids by (simp add: list_all_iff)
qed

lemmas db_ok_new = db_ok_def unique_keys_def rows_ok_def member_ok_def key_ok_def session_row_ok_def
  account_ids_def key_ids_def pool_ids_def list_all_iff

lemma db_ok_new_account:
  "db_ok db \<Longrightarrow> account_ok a \<Longrightarrow> ar_id a \<notin> ar_id ` set (t_accounts db) \<Longrightarrow>
   (ar_provider a, ar_subject_hmac a) \<notin> (\<lambda>a. (ar_provider a, ar_subject_hmac a)) ` set (t_accounts db) \<Longrightarrow>
   db_ok (db\<lparr>t_accounts := t_accounts db @ [a]\<rparr>)"
  by (simp add: db_ok_new)

lemma db_ok_new_pool:
  "db_ok db \<Longrightarrow> pr_id p \<notin> pr_id ` set (t_pools db) \<Longrightarrow> pr_name p \<notin> pr_name ` set (t_pools db) \<Longrightarrow>
   pr_provider p \<in> set pool_providers \<Longrightarrow> db_ok (db\<lparr>t_pools := t_pools db @ [p]\<rparr>)"
  by (simp add: db_ok_new)

lemma db_ok_new_member:
  "db_ok db \<Longrightarrow> (pa_pool m, pa_account m) \<notin> (\<lambda>m. (pa_pool m, pa_account m)) ` set (t_pool_accounts db) \<Longrightarrow>
   member_ok db m \<Longrightarrow> db_ok (db\<lparr>t_pool_accounts := t_pool_accounts db @ [m]\<rparr>)"
  by (simp add: db_ok_new)

lemma db_ok_new_employee:
  "db_ok db \<Longrightarrow> fst e \<notin> fst ` set (t_employees db) \<Longrightarrow> \<not> blank (snd e) \<Longrightarrow>
   db_ok (db\<lparr>t_employees := t_employees db @ [e]\<rparr>)"
  by (simp add: db_ok_new)

lemma db_ok_new_key:
  "db_ok db \<Longrightarrow> kr_id k \<notin> set (key_ids db) \<Longrightarrow> kr_hmac k \<notin> kr_hmac ` set (t_keys db) \<Longrightarrow>
   key_ok db k \<Longrightarrow> db_ok (db\<lparr>t_keys := t_keys db @ [k]\<rparr>)"
  by (simp add: db_ok_new)

lemma db_ok_new_binding:
  "db_ok db \<Longrightarrow> b_key b \<notin> b_key ` set (t_bindings db) \<Longrightarrow> b_key b \<in> set (key_ids db) \<Longrightarrow>
   b_account b \<in> set (account_ids db) \<Longrightarrow> db_ok (db\<lparr>t_bindings := t_bindings db @ [b]\<rparr>)"
  by (simp add: db_ok_new)

lemma db_ok_new_session:
  "db_ok db \<Longrightarrow> (s_key s, s_hash s) \<notin> (\<lambda>s. (s_key s, s_hash s)) ` set (t_sessions db) \<Longrightarrow>
   session_row_ok db s \<Longrightarrow> db_ok (db\<lparr>t_sessions := t_sessions db @ [s]\<rparr>)"
  by (simp add: db_ok_new)

lemma db_ok_new_event:
  "db_ok db \<Longrightarrow> (ev_key e, ev_hash e) \<notin> (\<lambda>e. (ev_key e, ev_hash e)) ` set (t_events db) \<Longrightarrow>
   ev_key e \<in> set (key_ids db) \<Longrightarrow> ev_account e \<in> set (account_ids db) \<Longrightarrow>
   db_ok (db\<lparr>t_events := t_events db @ [e]\<rparr>)"
  by (simp add: db_ok_new)

lemma db_ok_new_dedup:
  "db_ok db \<Longrightarrow> (k, h) \<notin> (\<lambda>d. (fst d, fst (snd d))) ` set (t_dedup db) \<Longrightarrow> k \<in> set (key_ids db) \<Longrightarrow>
   db_ok (db\<lparr>t_dedup := t_dedup db @ [(k, h, t)]\<rparr>)"
  by (simp add: db_ok_new)

lemma db_ok_new_usage:
  "db_ok db \<Longrightarrow> (u_key u, u_date u, u_model u) \<notin> (\<lambda>u. (u_key u, u_date u, u_model u)) ` set (t_usage db) \<Longrightarrow>
   u_key u \<in> set (key_ids db) \<Longrightarrow> 0 \<le> u_input u \<Longrightarrow> 0 \<le> u_output u \<Longrightarrow>
   db_ok (db\<lparr>t_usage := t_usage db @ [u]\<rparr>)"
  by (simp add: db_ok_new)

lemma db_ok_members:
  assumes "db_ok db" and "\<And>m. P m \<Longrightarrow> pa_pool (f m) = pa_pool m \<and> pa_account (f m) = pa_account m \<and> 0 < pa_weight (f m)"
  shows "db_ok (db\<lparr>t_pool_accounts := update_rows P f (t_pool_accounts db)\<rparr>)"
proof -
  have ids: "map (\<lambda>m. (pa_pool m, pa_account m)) (update_rows P f (t_pool_accounts db))
      = map (\<lambda>m. (pa_pool m, pa_account m)) (t_pool_accounts db)"
    using assms(2) by (auto intro!: map_update_rows)
  have "\<forall>m \<in> set (update_rows P f (t_pool_accounts db)). member_ok db m"
    by (rule all_update_rows [OF row_conditions(2) [OF assms(1)]]) (simp add: member_ok_def assms(2))
  then show ?thesis using assms(1) ids by (simp add: db_ok_new)
qed

lemma db_ok_bindings:
  assumes "db_ok db" and "\<And>b. P b \<Longrightarrow> b_key (f b) = b_key b \<and> b_account (f b) \<in> set (account_ids db)"
  shows "db_ok (db\<lparr>t_bindings := update_rows P f (t_bindings db)\<rparr>)"
proof -
  have ids: "map b_key (update_rows P f (t_bindings db)) = map b_key (t_bindings db)"
    using assms(2) by (auto intro!: map_update_rows)
  have "\<forall>b \<in> set (update_rows P f (t_bindings db)). b_key b \<in> set (key_ids db) \<and> b_account b \<in> set (account_ids db)"
    by (rule all_update_rows) (use assms in \<open>auto simp: db_ok_def rows_ok_def list_all_iff\<close>)
  then show ?thesis using assms(1) ids by (simp add: db_ok_new)
qed

lemma db_ok_sessions:
  assumes "db_ok db" and "\<And>s. P s \<Longrightarrow> s_key (f s) = s_key s \<and> s_hash (f s) = s_hash s
    \<and> s_pool (f s) = s_pool s \<and> s_account (f s) = s_account s"
  shows "db_ok (db\<lparr>t_sessions := update_rows P f (t_sessions db)\<rparr>)"
proof -
  have ids: "map (\<lambda>s. (s_key s, s_hash s)) (update_rows P f (t_sessions db))
      = map (\<lambda>s. (s_key s, s_hash s)) (t_sessions db)"
    using assms(2) by (auto intro!: map_update_rows)
  have "\<forall>s \<in> set (update_rows P f (t_sessions db)). session_row_ok db s"
    by (rule all_update_rows [OF row_conditions(3) [OF assms(1)]]) (simp add: session_row_ok_def assms(2))
  then show ?thesis using assms(1) ids by (simp add: db_ok_new)
qed

lemma db_ok_usage:
  assumes "db_ok db" and "\<And>u. P u \<Longrightarrow> u_key (f u) = u_key u \<and> u_date (f u) = u_date u \<and> u_model (f u) = u_model u"
    and "\<And>u. P u \<Longrightarrow> 0 \<le> u_input u \<Longrightarrow> 0 \<le> u_output u \<Longrightarrow> 0 \<le> u_input (f u) \<and> 0 \<le> u_output (f u)"
  shows "db_ok (db\<lparr>t_usage := update_rows P f (t_usage db)\<rparr>)"
proof -
  have ids: "map (\<lambda>u. (u_key u, u_date u, u_model u)) (update_rows P f (t_usage db))
      = map (\<lambda>u. (u_key u, u_date u, u_model u)) (t_usage db)"
    using assms(2) by (auto intro!: map_update_rows)
  have "\<forall>u \<in> set (update_rows P f (t_usage db)). u_key u \<in> set (key_ids db) \<and> 0 \<le> u_input u \<and> 0 \<le> u_output u"
    by (rule all_update_rows) (use assms in \<open>auto simp: db_ok_def rows_ok_def list_all_iff\<close>)
  then show ?thesis using assms(1) ids by (simp add: db_ok_new)
qed

text \<open>The tables of the runtime state refer to keys only.\<close>

lemma db_ok_runtime:
  assumes "db_ok db"
  shows "distinct (map as_hash x1) \<Longrightarrow> db_ok (db\<lparr>t_admin_sessions := x1\<rparr>)"
    and "distinct (map lf_scope x2) \<Longrightarrow> (\<forall>f \<in> set x2. 0 \<le> lf_count f) \<Longrightarrow> db_ok (db\<lparr>t_login_failures := x2\<rparr>)"
    and "distinct (map rl_key x3) \<Longrightarrow> (\<forall>r \<in> set x3. rl_key r \<in> set (key_ids db) \<and> 0 \<le> rl_count r) \<Longrightarrow>
      db_ok (db\<lparr>t_rate_limits := x3\<rparr>)"
    and "settings_check s \<Longrightarrow> db_ok (db\<lparr>t_settings := s\<rparr>)"
  using assms by (simp_all add: db_ok_new)

section \<open>Queries\<close>

lemma update_accounts_ok:
  assumes "db_ok db" and "\<And>a. P a \<Longrightarrow> ar_id (f a) = ar_id a \<and> ar_provider (f a) = ar_provider a
      \<and> ar_subject_hmac (f a) = ar_subject_hmac a"
    and "\<And>a. P a \<Longrightarrow> account_ok a \<Longrightarrow> account_ok (f a)"
  shows "db_ok (fst (update_accounts P f db))"
  using db_ok_accounts [OF assms] by (simp add: update_accounts_def)

lemmas account_range = account_ok_def statuses_def healths_def Let_def

lemma q_provider_ok [integrity]:
  assumes "db_ok db"
  shows "db_ok (fst (q_update_credential now ct v i ev db))" "db_ok (fst (q_update_email now em i db))"
    "db_ok (fst (q_update_details now em qs t i db))" "db_ok (fst (q_set_quota_error now c t i db))"
    "db_ok (fst (q_set_usage_allowed now al i db))" "db_ok (fst (q_reactivate now i t db))"
    "db_ok (fst (q_record_health_failure now t c t2 i db))" "db_ok (fst (q_set_reset_credits now s t i db))"
    "db_ok (fst (q_claim_reset_refresh now t i t2 db))" "db_ok (fst (q_release_reset_refresh i db))"
  unfolding q_update_credential_def q_update_email_def q_update_details_def q_set_quota_error_def
    q_set_usage_allowed_def q_reactivate_def q_record_health_failure_def q_set_reset_credits_def
    q_claim_reset_refresh_def q_release_reset_refresh_def
  using assms by (intro update_accounts_ok; simp add: account_range)+

lemma update_rows_none: "\<not> list_ex P rows \<Longrightarrow> update_rows P f rows = rows"
  by (induction rows) auto

lemma q_update_account_ok [integrity]:
  "db_ok db \<Longrightarrow> q_update_account now n s f i db = Inr (db', c) \<Longrightarrow> db_ok db'"
proof -
  assume a: "db_ok db" "q_update_account now n s f i db = Inr (db', c)"
  show "db_ok db'"
  proof (cases "list_ex (by_id i) (t_accounts db)")
    case True
    then have s: "coalesce s st \<in> set statuses" if "st \<in> set statuses" for st
      using a(2) that by (auto simp: q_update_account_def coalesce_def split: if_splits option.splits)
    have "db' = fst (update_accounts (by_id i)
        (\<lambda>a. a\<lparr>ar_display_name := coalesce n (ar_display_name a), ar_status := coalesce s (ar_status a),
               ar_fast_mode := coalesce f (ar_fast_mode a),
               ar_cooldown := (if s = Some account_active then None else ar_cooldown a),
               ar_updated := now\<rparr>) db)"
      using a(2) by (auto simp: q_update_account_def split: if_splits)
    then show ?thesis using a(1) s by (auto intro!: update_accounts_ok simp: account_ok_def)
  next
    case False
    then show ?thesis
      using a by (auto simp: q_update_account_def update_accounts_def update_rows_none split: if_splits)
  qed
qed

lemma q_update_status_ok [integrity]:
  assumes "db_ok db" and "q_update_status now s t i db = Inr (db', c)"
  shows "db_ok db'"
proof (cases "list_ex (by_id i) (t_accounts db)")
  case True
  then have "s \<in> set statuses" using assms(2) by (auto simp: q_update_status_def split: if_splits)
  then show ?thesis
    using assms by (auto simp: q_update_status_def account_ok_def healths_def split: if_splits
        dest!: arg_cong [of _ _ fst] intro!: update_accounts_ok)
next
  case False
  then show ?thesis
    using assms by (auto simp: q_update_status_def update_accounts_def update_rows_none split: if_splits)
qed

lemma q_set_health_ok [integrity]:
  assumes "db_ok db" and "q_set_health now h t code n i db = Inr (db', c)"
  shows "db_ok db'"
proof (cases "list_ex (by_id i) (t_accounts db)")
  case True
  then have "h \<in> set healths" using assms(2) by (auto simp: q_set_health_def split: if_splits)
  then show ?thesis
    using assms by (auto simp: q_set_health_def account_ok_def split: if_splits
        dest!: arg_cong [of _ _ fst] intro!: update_accounts_ok)
next
  case False
  then show ?thesis
    using assms by (auto simp: q_set_health_def update_accounts_def update_rows_none split: if_splits)
qed

lemma account_key_ex:
  "list_ex (\<lambda>r. ar_id r = i \<or> Q r) rows \<longleftrightarrow> i \<in> ar_id ` set rows \<or> (\<exists>r \<in> set rows. Q r)"
  by (auto simp: list_ex_iff)

lemma q_create_account_ok [integrity]:
  assumes "db_ok db" and "q_create_account now r em qe h he db = Inr db'"
  shows "db_ok db'"
proof -
  have step: "account_ok x \<and> \<not> L x \<and> y = G x"
    if "(let a = x in if \<not> account_ok a then Inl e1 else if L a then Inl e2 else Inr (G a)) = (Inr y :: pg_error + db)"
    for x e1 e2 L G y
    using that by (simp add: Let_def split: if_splits)
  obtain a where "account_ok a \<and> \<not> list_ex (\<lambda>r. ar_id r = ar_id a \<or> ar_provider r = ar_provider a
      \<and> ar_subject_hmac r = ar_subject_hmac a) (t_accounts db) \<and> db' = db\<lparr>t_accounts := t_accounts db @ [a]\<rparr>"
    by (rule that [OF step [OF assms(2) [unfolded q_create_account_def]]])
  then have a: "db' = db\<lparr>t_accounts := t_accounts db @ [a]\<rparr>" "account_ok a"
    and new: "\<not> list_ex (\<lambda>r. ar_id r = ar_id a \<or> ar_provider r = ar_provider a
      \<and> ar_subject_hmac r = ar_subject_hmac a) (t_accounts db)" by blast+
  from new have "ar_id a \<notin> ar_id ` set (t_accounts db)"
    "(ar_provider a, ar_subject_hmac a) \<notin> (\<lambda>a. (ar_provider a, ar_subject_hmac a)) ` set (t_accounts db)"
    by (auto simp: list_ex_iff)
  with assms(1) a show ?thesis by (simp add: db_ok_new_account)
qed

lemma filter_distinct_map: "distinct (map g xs) \<Longrightarrow> distinct (map g (filter P xs))"
  by (induction xs) auto

lemma q_delete_account_ok [integrity]:
  assumes "db_ok db" shows "db_ok (fst (q_delete_account now i db))"
proof (cases "bound_keys db now i = 0")
  case True
  let ?db = "fst (q_delete_account now i db)"
  have "account_ids ?db = filter (\<lambda>a. a \<noteq> i) (account_ids db)" "key_ids ?db = key_ids db" "pool_ids ?db = pool_ids db"
    using True by (simp_all add: q_delete_account_def account_ids_def key_ids_def pool_ids_def filter_map o_def)
  then have ids: "set (account_ids ?db) = set (account_ids db) - {i}" "distinct (account_ids db) \<Longrightarrow> distinct (account_ids ?db)"
    "key_ids ?db = key_ids db" "pool_ids ?db = pool_ids db" by auto
  show ?thesis
    using assms True ids unfolding db_ok_def unique_keys_def rows_ok_def member_ok_def [abs_def] key_ok_def [abs_def]
      session_row_ok_def [abs_def]
    by (simp add: q_delete_account_def filter_distinct_map list_all_iff)
next
  case False
  then show ?thesis using assms by (simp add: q_delete_account_def)
qed

lemma q_claim_health_checks_ok [integrity]:
  "db_ok db \<Longrightarrow> db_ok (fst (q_claim_health_checks now c t n db))"
  unfolding q_claim_health_checks_def Let_def
  by (simp, rule db_ok_accounts) (simp_all add: account_ok_def)

lemma pool_id_ex: "list_ex (\<lambda>p. pr_id p = i) (t_pools db) \<longleftrightarrow> i \<in> set (pool_ids db)"
  by (auto simp: list_ex_iff pool_ids_def)

lemma account_id_ex: "list_ex (\<lambda>a. ar_id a = i) (t_accounts db) \<longleftrightarrow> i \<in> set (account_ids db)"
  by (auto simp: list_ex_iff account_ids_def)

lemma member_ex:
  "list_ex (member_of p a) ms \<longleftrightarrow> (p, a) \<in> (\<lambda>m. (pa_pool m, pa_account m)) ` set ms"
  by (force simp: list_ex_iff member_of_def)

lemma q_create_pool_ok [integrity]:
  "db_ok db \<Longrightarrow> q_create_pool now i n pv db = Inr db' \<Longrightarrow> db_ok db'"
  by (auto simp: q_create_pool_def list_ex_iff split: if_splits intro!: db_ok_new_pool)

lemma renamed_distinct:
  assumes "distinct (map g xs)" and "distinct (map h xs)" and "\<And>x. h (f x) = n"
    and "\<And>x. x \<in> set xs \<Longrightarrow> g x \<noteq> i \<Longrightarrow> h x \<noteq> n"
  shows "distinct (map h (update_rows (\<lambda>x. g x = i) f xs))"
  using assms(1,2,4)
proof (induction xs)
  case (Cons x xs)
  have IH: "distinct (map h (update_rows (\<lambda>x. g x = i) f xs))" using Cons by simp
  show ?case
  proof (cases "g x = i")
    case True
    then have "\<forall>y \<in> set xs. g y \<noteq> i" using Cons.prems(1) by (auto simp: image_iff)
    then show ?thesis using IH True Cons.prems(3) assms(3) by (auto simp: set_update_rows)
  next
    case False
    then have "h x \<noteq> n" using Cons.prems(3) by simp
    then show ?thesis using IH False Cons.prems(2) assms(3) by (auto simp: set_update_rows)
  qed
qed simp

lemma q_update_pool_ok [integrity]:
  assumes "db_ok db" and "q_update_pool now n i db = Inr (db', c)"
  shows "db_ok db'"
proof -
  let ?f = "\<lambda>p. p\<lparr>pr_name := n, pr_updated := now\<rparr>"
  have u: "db' = db\<lparr>t_pools := update_rows (\<lambda>p. pr_id p = i) ?f (t_pools db)\<rparr>"
    and c: "\<not> list_ex (\<lambda>p. pr_id p = i) (t_pools db) \<or> \<not> list_ex (\<lambda>p. pr_id p \<noteq> i \<and> pr_name p = n) (t_pools db)"
    using assms(2) by (auto simp: q_update_pool_def split: if_splits)
  show ?thesis
  proof (cases "list_ex (\<lambda>p. pr_id p = i) (t_pools db)")
    case True
    then have "distinct (map pr_name (update_rows (\<lambda>p. pr_id p = i) ?f (t_pools db)))"
      using c by (intro renamed_distinct [where n = n] db_okD(2) runtime_rows(7) assms(1)) (auto simp: list_ex_iff)
    then show ?thesis unfolding u by (intro db_ok_pools [OF assms(1)]) simp_all
  qed (use u assms(1) in \<open>simp add: update_rows_none\<close>)
qed

lemma q_mark_pool_mixed_ok [integrity]:
  assumes "db_ok db" shows "db_ok (q_mark_pool_mixed now i db)"
  unfolding q_mark_pool_mixed_def
  by (intro db_ok_pools [OF assms])
     (use runtime_rows(7) [OF assms] in \<open>simp_all add: pool_providers_def map_update_rows\<close>)

lemma q_add_initial_ok [integrity]:
  assumes "db_ok db" and "q_add_initial_pool_account m db = Inr (db', c)"
  shows "db_ok db'"
  using assms
  by (auto simp: q_add_initial_pool_account_def pool_id_ex account_id_ex member_ex member_ok_def split: if_splits
      intro!: db_ok_new_member)

lemma q_upsert_member_ok [integrity]:
  assumes "db_ok db" and "q_upsert_pool_account m db = Inr (db', c)"
  shows "db_ok db'"
  using assms
  by (auto simp: q_upsert_pool_account_def pool_id_ex account_id_ex member_ex member_ok_def split: if_splits
      intro!: db_ok_new_member db_ok_members)

lemma q_create_employee_ok [integrity]:
  "db_ok db \<Longrightarrow> q_create_employee i n db = Inr db' \<Longrightarrow> db_ok db'"
  using db_ok_new_employee [of db "(i, n)"] by (simp add: q_create_employee_def split: if_splits)

lemma key_ex:
  "list_ex (\<lambda>r. kr_id r = i \<or> kr_hmac r = h) (t_keys db)
    \<longleftrightarrow> i \<in> set (key_ids db) \<or> h \<in> kr_hmac ` set (t_keys db)"
  by (auto simp: list_ex_iff key_ids_def)

lemma q_create_api_key_ok [integrity]:
  assumes "db_ok db" and "q_create_api_key k db = Inr db'"
  shows "db_ok db'"
proof -
  have "kr_id k \<notin> set (key_ids db)" "kr_hmac k \<notin> kr_hmac ` set (t_keys db)" "key_ok db k"
    "db' = db\<lparr>t_keys := t_keys db @ [k]\<rparr>"
    using assms(2) unfolding q_create_api_key_def pool_id_ex key_ex by (simp_all add: key_ok_def not_less split: if_splits)
  then show ?thesis using db_ok_new_key [OF assms(1)] by simp
qed

lemma q_bind_api_key_ok [integrity]:
  "db_ok db \<Longrightarrow> q_bind_api_key now k a db = Inr db' \<Longrightarrow> db_ok db'"
  by (auto simp: q_bind_api_key_def list_ex_iff split: if_splits intro!: db_ok_new_binding)

lemma q_reassign_ok [integrity]:
  assumes "db_ok db" and "q_reassign_api_key now a k db = Inr db'"
  shows "db_ok db'"
proof (cases "list_ex (\<lambda>b. b_key b = k) (t_bindings db)")
  case True
  then show ?thesis using assms by (auto simp: q_reassign_api_key_def split: if_splits intro!: db_ok_bindings)
next
  case False
  then show ?thesis using assms by (auto simp: q_reassign_api_key_def update_rows_none)
qed

lemma q_key_updates_ok [integrity]:
  assumes "db_ok db"
  shows "db_ok (fst (q_revoke_api_key now k db))" "db_ok (q_update_key_activity ts k db)"
  using assms by (auto simp: q_revoke_api_key_def q_update_key_activity_def intro!: db_ok_keys)

lemma q_record_success_ok [integrity]:
  assumes "db_ok db" shows "db_ok (q_record_success now ts k a db)"
proof -
  let ?f = "\<lambda>a. let keep = (ar_status a = account_disabled \<or> ar_status a = account_exhausted) in
     a\<lparr>ar_status := (if keep then ar_status a else account_active),
       ar_cooldown := (if keep then ar_cooldown a else None),
       ar_last_success := Some ts, ar_health := health_healthy, ar_checked_at := Some ts,
       ar_health_error := None, ar_failures := 0, ar_updated := now\<rparr>"
  have 1: "db_ok (db\<lparr>t_accounts := update_rows (\<lambda>r. ar_id r = a) ?f (t_accounts db)\<rparr>)"
    by (rule db_ok_accounts [OF assms]) (simp_all add: account_range)
  then have 2: "db_ok (db\<lparr>t_accounts := update_rows (\<lambda>r. ar_id r = a) ?f (t_accounts db),
      t_keys := update_rows (\<lambda>r. kr_id r = k) (\<lambda>r. r\<lparr>kr_last_used := Some ts\<rparr>) (t_keys db)\<rparr>)"
    using db_ok_keys [OF 1, of "\<lambda>r. kr_id r = k" "\<lambda>r. r\<lparr>kr_last_used := Some ts\<rparr>"] by simp
  show ?thesis unfolding q_record_success_def
  proof (cases "list_ex (\<lambda>r. ar_id r = a) (t_accounts db)")
    case True
    then show "db_ok (db\<lparr>t_accounts := update_rows (\<lambda>r. ar_id r = a) ?f (t_accounts db),
        t_keys := if list_ex (\<lambda>r. ar_id r = a) (t_accounts db)
          then update_rows (\<lambda>r. kr_id r = k) (\<lambda>r. r\<lparr>kr_last_used := Some ts\<rparr>) (t_keys db) else t_keys db\<rparr>)"
      using 2 by simp
  next
    case False
    have "db\<lparr>t_accounts := update_rows (\<lambda>r. ar_id r = a) ?f (t_accounts db), t_keys := t_keys db\<rparr>
        = db\<lparr>t_accounts := update_rows (\<lambda>r. ar_id r = a) ?f (t_accounts db)\<rparr>" by simp
    then show "db_ok (db\<lparr>t_accounts := update_rows (\<lambda>r. ar_id r = a) ?f (t_accounts db),
        t_keys := if list_ex (\<lambda>r. ar_id r = a) (t_accounts db)
          then update_rows (\<lambda>r. kr_id r = k) (\<lambda>r. r\<lparr>kr_last_used := Some ts\<rparr>) (t_keys db) else t_keys db\<rparr>)"
      using 1 False by (simp only: if_False)
  qed
qed

lemma session_ex:
  "list_ex (\<lambda>s. s_key s = k \<and> s_hash s = h) ss \<longleftrightarrow> (k, h) \<in> (\<lambda>s. (s_key s, s_hash s)) ` set ss"
  by (force simp: list_ex_iff)

lemma event_ex:
  "list_ex (\<lambda>e. ev_key e = k \<and> ev_hash e = h) es \<longleftrightarrow> (k, h) \<in> (\<lambda>e. (ev_key e, ev_hash e)) ` set es"
  by (force simp: list_ex_iff)

lemma q_save_session_ok [integrity]:
  assumes "db_ok db" and "q_save_session now k p h a e db = Inr db'"
  shows "db_ok db'"
proof (cases "k \<notin> set (key_ids db) \<or> a \<notin> set (account_ids db)")
  case True
  then show ?thesis using assms by (simp add: q_save_session_def split: if_splits)
next
  case False
  define evs where "evs = (if list_ex (\<lambda>e. ev_key e = k \<and> ev_hash e = h) (t_events db) then t_events db
      else t_events db @ [\<lparr>ev_key = k, ev_hash = h, ev_account = a, ev_at = now\<rparr>])"
  let ?db = "db\<lparr>t_events := evs\<rparr>"
  have ev: "db_ok ?db"
    using db_ok_new_event [OF assms(1), of "\<lparr>ev_key = k, ev_hash = h, ev_account = a, ev_at = now\<rparr>"] False assms(1)
    by (auto simp: evs_def event_ex)
  have 1: "db_ok (?db\<lparr>t_sessions := update_rows
      (\<lambda>s. s_key s = k \<and> s_hash s = h \<and> s_account s = a) (\<lambda>s. s\<lparr>s_expires := max (s_expires s) e\<rparr>) (t_sessions ?db)\<rparr>)"
    using ev by (rule db_ok_sessions) simp
  have 2: "db_ok (?db\<lparr>t_sessions := t_sessions ?db @
      [\<lparr>s_key = k, s_pool = p, s_hash = h, s_account = a, s_expires = e\<rparr>]\<rparr>)"
    if "p \<in> set (pool_ids db)" "\<not> list_ex (\<lambda>s. s_key s = k \<and> s_hash s = h) (t_sessions db)"
    using False that
    by (intro db_ok_new_session [OF ev])
       (simp_all add: session_ex session_row_ok_def key_ids_def account_ids_def pool_ids_def)
  show ?thesis using assms(2) False 1 2 unfolding q_save_session_def evs_def [symmetric] Let_def pool_id_ex
    by (auto split: if_splits)
qed

lemma q_dedup_ok [integrity]:
  assumes "db_ok db" and "q_dedup_event now k h db = Inr (db', c)"
  shows "db_ok db'"
proof -
  have "list_ex (\<lambda>d. fst d = k \<and> fst (snd d) = h) ds \<longleftrightarrow> (k, h) \<in> (\<lambda>d. (fst d, fst (snd d))) ` set ds"
    for ds :: "(string \<times> string \<times> time) list"
    by (force simp: list_ex_iff)
  then show ?thesis
    using assms by (auto simp: q_dedup_event_def split: if_splits intro!: db_ok_new_dedup)
qed

lemma q_add_usage_ok [integrity]:
  assumes "db_ok db" and "q_add_usage now k d m i c db = Inr db'"
  shows "db_ok db'"
proof -
  have "list_ex (same_usage k d m) us \<longleftrightarrow> (k, d, m) \<in> (\<lambda>u. (u_key u, u_date u, u_model u)) ` set us" for us
    by (force simp: list_ex_iff same_usage_def)
  then show ?thesis
    using assms by (auto simp: q_add_usage_def split: if_splits intro!: db_ok_new_usage db_ok_usage)
qed

lemma q_runtime_ok [integrity]:
  assumes "db_ok db"
  shows "db_ok (q_create_admin_session h e db)" "db_ok (q_revoke_admin_session t h db)"
    "db_ok (q_clear_login_failures ss db)" "db_ok (q_record_login_failure s t db)"
    "db_ok (q_audit t ac an tt tg r db)"
proof -
  note rows = runtime_rows [OF assms]
  show "db_ok (q_create_admin_session h e db)"
    unfolding q_create_admin_session_def
    by (rule db_ok_runtime(1) [OF assms]) (use rows(1) in \<open>auto simp: map_update_rows list_ex_iff\<close>)
  show "db_ok (q_revoke_admin_session t h db)"
    unfolding q_revoke_admin_session_def
    by (rule db_ok_runtime(1) [OF assms]) (use rows(1) in \<open>simp add: map_update_rows\<close>)
  show "db_ok (q_clear_login_failures ss db)"
    unfolding q_clear_login_failures_def
    by (rule db_ok_runtime(2) [OF assms]) (use rows(2,3) in \<open>simp_all add: filter_distinct_map\<close>)
  let ?f = "\<lambda>f. if lf_reset f \<le> t then f\<lparr>lf_count := 1, lf_reset := t + minute\<rparr> else f\<lparr>lf_count := lf_count f + 1\<rparr>"
  have "\<forall>f \<in> set (update_rows (\<lambda>f. lf_scope f = s) ?f (t_login_failures db)). 0 \<le> lf_count f"
    by (rule all_update_rows [OF rows(3)]) simp
  moreover have "map lf_scope (update_rows (\<lambda>f. lf_scope f = s) ?f (t_login_failures db)) = map lf_scope (t_login_failures db)"
    by (rule map_update_rows) simp
  ultimately show "db_ok (q_record_login_failure s t db)"
    unfolding q_record_login_failure_def
    by (intro db_ok_runtime(2) [OF assms]) (use rows(2,3) in \<open>auto simp: list_ex_iff\<close>)
  show "db_ok (q_audit t ac an tt tg r db)" using assms by (simp add: q_audit_def)
qed

lemma q_allow_request_ok [integrity]:
  assumes "db_ok db" and "q_allow_request k t n db = Inr (db', b)"
  shows "db_ok db'"
proof (cases "find (\<lambda>r. rl_key r = k) (t_rate_limits db)")
  case None
  then have "k \<notin> rl_key ` set (t_rate_limits db)" by (auto simp: find_None_iff)
  then have "db_ok (db\<lparr>t_rate_limits := t_rate_limits db @ [\<lparr>rl_key = k, rl_window = minute_of t, rl_count = 1\<rparr>]\<rparr>)"
    if "k \<in> set (key_ids db)"
    using that runtime_rows(4,5) [OF assms(1)] by (intro db_ok_runtime(3) [OF assms(1)]) auto
  then show ?thesis using assms(2) None by (auto simp: q_allow_request_def split: if_splits)
next
  case (Some r)
  then have r: "r \<in> set (t_rate_limits db)" "rl_key r = k" by (auto simp: find_Some_iff)
  define r' where "r' = (if rl_window r < minute_of t then r\<lparr>rl_window := minute_of t, rl_count := 1\<rparr>
      else r\<lparr>rl_count := rl_count r + 1\<rparr>)"
  have r': "rl_key r' = k" "rl_key r' \<in> set (key_ids db)" "0 \<le> rl_count r'"
    using r runtime_rows(5) [OF assms(1)] by (auto simp: r'_def)
  have "\<forall>s \<in> set (update_rows (\<lambda>s. rl_key s = k) (\<lambda>_. r') (t_rate_limits db)). rl_key s \<in> set (key_ids db) \<and> 0 \<le> rl_count s"
    by (rule all_update_rows [OF runtime_rows(5) [OF assms(1)]]) (use r' in simp)
  moreover have "distinct (map rl_key (update_rows (\<lambda>s. rl_key s = k) (\<lambda>_. r') (t_rate_limits db)))"
    using runtime_rows(4) [OF assms(1)] r'(1) by (simp add: map_update_rows)
  ultimately show ?thesis
    using assms(2) Some db_ok_runtime(3) [OF assms(1)] by (auto simp: q_allow_request_def Let_def r'_def [symmetric])
qed

lemma q_update_settings_ok [integrity]:
  "db_ok db \<Longrightarrow> q_update_settings now s db = Inr (db', c) \<Longrightarrow> db_ok db'"
  using db_ok_runtime(4) [of db s] by (auto simp: q_update_settings_def split: if_splits)

section \<open>Operations\<close>

text \<open>The operations of the store that write, with the arguments their callers give them. The random
  numbers that order equal candidates, and the identifier a new employee gets, are arguments too.\<close>

datatype store_op =
  CreatePool pool | UpdatePool pool | AddPoolAccount pool_account
| CreateKey string "string \<Rightarrow> rat" api_key | ReassignKey "string \<Rightarrow> rat" string string "string list"
| RevokeKey string | SaveSession string string string string time | RequestSuccess string string time
| AddUsage string string string time int int | Audit string string string string string
| CreateAccount account string | UpdateDetails string string string time | QuotaError string string time
| SetResetCredits string string time | ClaimReset string time time | ReleaseReset string
| UpdateAccount string "string option" "string option" "bool option" | DeleteAccount string
| UpdateCredential string int string int | UpdateStatus string string "time option"
| UsageAllowed string bool | SetHealth string string string time time
| HealthFailure string string time time | Reactivate string time | ClaimHealthChecks nat time time
| UpdateSettings settings | PatchSettings settings_update settings
| AdminLogin "string list" bool | CreateAdminSession string time | RevokeAdminSession string time
| AllowRequest string int

definition committed :: "'d \<Rightarrow> store_error + 'd \<Rightarrow> 'd" where
  "committed db r = (case r of Inl _ \<Rightarrow> db | Inr db' \<Rightarrow> db')"

definition committed_fst :: "'d \<Rightarrow> store_error + ('d \<times> 'r) \<Rightarrow> 'd" where
  "committed_fst db r = (case r of Inl _ \<Rightarrow> db | Inr (db', _) \<Rightarrow> db')"

fun run_op :: "time \<Rightarrow> store_op \<Rightarrow> db \<Rightarrow> db" where
  "run_op now (CreatePool p) db = committed db (create_pool now p db)"
| "run_op now (UpdatePool p) db = committed db (update_pool now p db)"
| "run_op now (AddPoolAccount m) db = committed db (add_pool_account now m db)"
| "run_op now (CreateKey i rnd k) db = committed_fst db (create_api_key_and_bind i rnd now k db)"
| "run_op now (ReassignKey rnd k p ex) db = committed_fst db (reassign_api_key rnd now k p ex db)"
| "run_op now (RevokeKey k) db = committed db (revoke_api_key now k db)"
| "run_op now (SaveSession k p h a e) db = committed db (save_session_binding now k p h a e db)"
| "run_op now (RequestSuccess a k ts) db = committed db (record_request_success now a k ts db)"
| "run_op now (AddUsage k h m ts i c) db = committed db (add_usage now k h m ts i c db)"
| "run_op now (Audit ac an tt tg r) db = committed db (audit_event now ac an tt tg r db)"
| "run_op now (CreateAccount a h) db = committed db (create_provider_account now a h db)"
| "run_op now (UpdateDetails a em qs t) db = committed db (update_provider_details now a em qs t db)"
| "run_op now (QuotaError a c t) db = committed db (set_provider_quota_error now a c t db)"
| "run_op now (SetResetCredits a s t) db = committed db (set_reset_credits now a s t db)"
| "run_op now (ClaimReset a t t2) db = fst (claim_reset_refresh now a t t2 db)"
| "run_op now (ReleaseReset a) db = committed db (release_reset_refresh a db)"
| "run_op now (UpdateAccount a n s f) db = committed db (update_provider_account now a n s f db)"
| "run_op now (DeleteAccount a) db = committed db (delete_provider_account now a db)"
| "run_op now (UpdateCredential a ev ct v) db = fst (update_credential_cas now a ev ct v db)"
| "run_op now (UpdateStatus a s t) db = committed db (update_provider_status now a s t db)"
| "run_op now (UsageAllowed a b) db = committed db (set_usage_allowed now a b db)"
| "run_op now (SetHealth a h c t n) db = committed db (set_provider_health now a h c t n db)"
| "run_op now (HealthFailure a c t n) db = committed db (record_health_failure now a c t n db)"
| "run_op now (Reactivate a t) db = fst (reactivate_if_cooldown_expired now a t db)"
| "run_op now (ClaimHealthChecks n t c) db = fst (claim_health_checks now n t c db)"
| "run_op now (UpdateSettings s) db = committed db (update_settings now s db)"
| "run_op now (PatchSettings u d) db = committed_fst db (patch_settings now u d db)"
| "run_op now (AdminLogin ss v) db = fst (record_admin_login ss v now db)"
| "run_op now (CreateAdminSession h e) db = committed db (create_admin_session h e db)"
| "run_op now (RevokeAdminSession h t) db = committed db (revoke_admin_session h t db)"
| "run_op now (AllowRequest k n) db = committed_fst db (allow_api_key_request k n now db)"

text \<open>The databases that operations can lead to, each at its own time.\<close>

inductive reaches :: "db \<Rightarrow> db \<Rightarrow> bool" for db0 :: db where
  start: "reaches db0 db0"
| operation: "reaches db0 db \<Longrightarrow> reaches db0 (run_op now op db)"

lemma committed_ok:
  "db_ok db \<Longrightarrow> (\<And>db'. r = Inr db' \<Longrightarrow> db_ok db') \<Longrightarrow> db_ok (committed db r)"
  by (cases r) (auto simp: committed_def)

lemma committed_fst_ok:
  "db_ok db \<Longrightarrow> (\<And>db' x. r = Inr (db', x) \<Longrightarrow> db_ok db') \<Longrightarrow> db_ok (committed_fst db r)"
  by (cases r) (auto simp: committed_fst_def)

lemma wrapped_Inr: "wrapped action r = Inr x \<longleftrightarrow> r = Inr x"
  by (cases r) simp_all

lemma wrap_mutation_Inr: "wrap_mutation action r = Inr d \<longleftrightarrow> (\<exists>n. r = Inr (d, n) \<and> n \<noteq> 0)"
  by (cases r) (auto split: if_splits)

lemma add_initial_members_ok:
  "db_ok db \<Longrightarrow> add_initial_members pid ms db = Inr db' \<Longrightarrow> db_ok db'"
proof (induction pid ms db rule: add_initial_members.induct)
  case (2 pid m ms db)
  then show ?case by (auto simp: wrap_mutation_Inr split: sum.splits dest: q_add_initial_ok)
qed simp

lemma create_pool_ok: "db_ok db \<Longrightarrow> create_pool now p db = Inr db' \<Longrightarrow> db_ok db'"
  by (auto simp: create_pool_def wrapped_Inr split: sum.splits
      dest: q_create_pool_ok add_initial_members_ok)

lemma add_pool_account_ok:
  assumes "db_ok db" and "add_pool_account now m db = Inr db'"
  shows "db_ok db'"
proof -
  obtain d n b where "q_upsert_pool_account (member_row m) db = Inr (d, n)"
    and "db' = (if b then q_mark_pool_mixed now (pa_pool m) d else d)"
    using assms(2) by (auto simp: add_pool_account_def wrap_mutation_Inr split: sum.splits)
  then show ?thesis using assms(1) q_upsert_member_ok q_mark_pool_mixed_ok by auto
qed

lemma create_key_ok:
  assumes "db_ok db" and "create_api_key_and_bind i rnd now k db = Inr (db', a)"
  shows "db_ok db'"
proof -
  obtain n d1 kr d2 e where "d1 = db \<or> q_create_employee e n db = Inr d1"
    and "q_create_api_key kr d1 = Inr d2" and "q_bind_api_key now (k_id k) a d2 = Inr db'"
    using assms(2)
    by (simp add: create_api_key_and_bind_def Let_def wrapped_Inr split: sum.splits if_splits) blast+
  then show ?thesis using assms(1) q_create_employee_ok q_create_api_key_ok q_bind_api_key_ok by blast
qed

lemma reassign_ok:
  "db_ok db \<Longrightarrow> reassign_api_key rnd now k p ex db = Inr (db', a) \<Longrightarrow> db_ok db'"
  by (auto simp: reassign_api_key_def wrapped_Inr split: sum.splits dest: q_reassign_ok)

lemma add_usage_ok:
  assumes "db_ok db" and "add_usage now k h m ts i c db = Inr db'"
  shows "db_ok db'"
proof -
  obtain d1 n where d1: "q_dedup_event now k h db = Inr (d1, n)"
    and rest: "db' = d1 \<or> (\<exists>md d2. q_add_usage now k (date_of ts) md i c d1 = Inr d2 \<and> db' = q_update_key_activity ts k d2)"
    using assms(2) by (simp add: add_usage_def Let_def wrapped_Inr split: sum.splits if_splits prod.splits) blast+
  have "db_ok d1" using assms(1) d1 by (rule q_dedup_ok)
  then show ?thesis using rest q_add_usage_ok q_key_updates_ok(2) by blast
qed

lemma delete_account_ok:
  "db_ok db \<Longrightarrow> delete_provider_account now a db = Inr db' \<Longrightarrow> db_ok db'"
  using q_delete_account_ok [of db now a]
  by (auto simp: delete_provider_account_def split: sum.splits prod.splits if_splits)

lemma patch_settings_ok:
  "db_ok db \<Longrightarrow> patch_settings now u d db = Inr (db', s) \<Longrightarrow> db_ok db'"
  by (auto simp: patch_settings_def wrap_mutation_Inr split: sum.splits dest: q_update_settings_ok)

lemma login_failures_ok: "db_ok db \<Longrightarrow> db_ok (fold (\<lambda>key. q_record_login_failure key now) keys db)"
  by (induction keys arbitrary: db) (simp_all add: q_runtime_ok)

lemma admin_login_ok: "db_ok db \<Longrightarrow> db_ok (fst (record_admin_login ss v now db))"
  by (simp add: record_admin_login_def Let_def login_failures_ok q_runtime_ok)

lemma allow_request_ok:
  "db_ok db \<Longrightarrow> allow_api_key_request k n now db = Inr (db', b) \<Longrightarrow> db_ok db'"
  by (auto simp: allow_api_key_request_def wrapped_Inr split: if_splits dest: q_allow_request_ok)

text \<open>The updates of one account.\<close>

lemma q_provider_fst:
  "db_ok db \<Longrightarrow> q db = (db', n) \<Longrightarrow> db_ok (fst (q db)) \<Longrightarrow> db_ok db'"
  by simp

lemma account_updates_ok:
  assumes ok: "db_ok db"
  shows "create_provider_account now ac h db = Inr db' \<Longrightarrow> db_ok db'"
    and "update_provider_details now a em qs t db = Inr db' \<Longrightarrow> db_ok db'"
    and "set_provider_quota_error now a c t db = Inr db' \<Longrightarrow> db_ok db'"
    and "set_reset_credits now a s t db = Inr db' \<Longrightarrow> db_ok db'"
    and "release_reset_refresh a db = Inr db' \<Longrightarrow> db_ok db'"
    and "update_provider_account now a nm st f db = Inr db' \<Longrightarrow> db_ok db'"
    and "update_provider_status now a s t' db = Inr db' \<Longrightarrow> db_ok db'"
    and "set_usage_allowed now a b db = Inr db' \<Longrightarrow> db_ok db'"
    and "set_provider_health now a s c t t2 db = Inr db' \<Longrightarrow> db_ok db'"
    and "record_health_failure now a c t t2 db = Inr db' \<Longrightarrow> db_ok db'"
  unfolding create_provider_account_def update_provider_details_def set_provider_quota_error_def
    set_reset_credits_def release_reset_refresh_def update_provider_account_def update_provider_status_def
    set_usage_allowed_def set_provider_health_def record_health_failure_def wrapped_Inr wrap_mutation_Inr
  using q_create_account_ok [OF ok] q_update_account_ok [OF ok] q_update_status_ok [OF ok]
    q_set_health_ok [OF ok]
  by (blast, auto simp: prod_eq_iff q_provider_ok [OF ok] split: if_splits)

lemma plain_updates_ok:
  assumes ok: "db_ok db"
  shows "update_pool now p db = Inr db' \<Longrightarrow> db_ok db'"
    and "revoke_api_key now k db = Inr db' \<Longrightarrow> db_ok db'"
    and "save_session_binding now k pl h a e db = Inr db' \<Longrightarrow> db_ok db'"
    and "record_request_success now a k ts db = Inr db' \<Longrightarrow> db_ok db'"
    and "audit_event now ac an tt tg r db = Inr db' \<Longrightarrow> db_ok db'"
    and "update_settings now st db = Inr db' \<Longrightarrow> db_ok db'"
    and "create_admin_session h e db = Inr db' \<Longrightarrow> db_ok db'"
    and "revoke_admin_session h ts db = Inr db' \<Longrightarrow> db_ok db'"
  unfolding update_pool_def revoke_api_key_def save_session_binding_def record_request_success_def
    audit_event_def update_settings_def create_admin_session_def revoke_admin_session_def
    wrapped_Inr wrap_mutation_Inr
  using q_update_pool_ok [OF ok] q_save_session_ok [OF ok] q_update_settings_ok [OF ok]
  by (blast, auto simp: prod_eq_iff q_key_updates_ok [OF ok] q_record_success_ok [OF ok] q_runtime_ok [OF ok])

lemma claims_ok:
  assumes ok: "db_ok db"
  shows "db_ok (fst (claim_reset_refresh now a t t2 db))"
    and "db_ok (fst (update_credential_cas now a ev ct v db))"
    and "db_ok (fst (reactivate_if_cooldown_expired now a t db))"
    and "db_ok (fst (claim_health_checks now n t t2 db))"
  using q_provider_ok [OF ok] q_claim_health_checks_ok [OF ok]
  by (simp_all add: claim_reset_refresh_def update_credential_cas_def reactivate_if_cooldown_expired_def
      claim_health_checks_def case_prod_beta)

lemmas operation_ok = create_pool_ok add_pool_account_ok create_key_ok reassign_ok add_usage_ok
  delete_account_ok patch_settings_ok allow_request_ok account_updates_ok plain_updates_ok

lemma run_op_ok: "db_ok db \<Longrightarrow> db_ok (run_op now op db)"
  by (cases op; simp only: run_op.simps;
      (rule admin_login_ok claims_ok committed_ok committed_fst_ok; (assumption | erule (1) operation_ok))+)


text \<open>The database the migrations leave behind: one row of settings, and nothing else.\<close>

definition fresh_db :: "settings \<Rightarrow> db" where
  "fresh_db s = \<lparr>t_accounts = [], t_pools = [], t_pool_accounts = [], t_employees = [], t_keys = [],
     t_bindings = [], t_sessions = [], t_events = [], t_dedup = [], t_usage = [], t_settings = s,
     t_settings_updated = 0, t_admin_sessions = [], t_login_failures = [], t_rate_limits = [], t_audit = []\<rparr>"

lemma fresh_db_ok: "settings_check s \<Longrightarrow> db_ok (fresh_db s)"
  by (simp add: db_ok_defs fresh_db_def)

text \<open>C1. Every database the operations of the store lead to, whatever operations in whatever order,
  with whatever arguments, and whether they succeed or fail, keeps its integrity in every table: primary and
  unique keys unique (also the names of pools and the subjects of accounts), references to existing rows (the
  bindings, sessions, events, usage and rate limits of keys included), providers, credential types, statuses and
  health states among the known ones, weights positive, the settings in their bounds, and rate limits, counters of
  requests and failed logins and token counts not negative.\<close>

theorem operations_keep_integrity:
  assumes "reaches db0 db" and "db_ok db0"
  shows "db_ok db"
  using assms by (induction rule: reaches.induct) (auto intro: run_op_ok)

definition sample_settings :: settings where
  "sample_settings = \<lparr>max_keys_per_account = 2, max_request_body = 0, max_inflight_body = 0\<rparr>"

lemma sample_settings_check: "settings_check sample_settings"
  by (simp add: settings_check_def sample_settings_def)

lemma operations_keep_integrity_witness:
  "db_ok (run_op 7 (DeleteAccount ''a'') (run_op 5 (CreatePool \<lparr>p_id = ''p'', p_name = ''main'',
     p_provider = provider_codex, p_accounts = [], p_created = 0, p_updated = 0\<rparr>)
     (fresh_db sample_settings)))"
  by (rule operations_keep_integrity [OF _ fresh_db_ok [OF sample_settings_check]]) (intro reaches.intros)

end
