(* ===== verification/Store_Usage.thy ===== *)
theory Store_Usage
  imports Store_Integrity
begin

text \<open>
  What the recorded usage adds up to: a billing event, identified by its key and its hash, is counted
  exactly once however often and in whatever order the gateway reports it, and the pages of a usage
  report put together are the report.
\<close>

section \<open>Sums over a table\<close>

lemma sum_list_map_update_rows:
  assumes "distinct (map key rows)" and "x \<in> key ` set rows"
    and "\<And>r. P r \<longleftrightarrow> key r = x" and "\<And>r. P r \<Longrightarrow> f (g r) = f r + (d :: int)"
  shows "sum_list (map f (update_rows P g rows)) = sum_list (map f rows) + d"
  using assms(1,2)
proof (induction rows)
  case (Cons r rows)
  show ?case
  proof (cases "P r")
    case True
    then have "\<forall>r' \<in> set rows. \<not> P r'" using Cons.prems(1) assms(3) by (metis distinct.simps(2) image_eqI list.set_map list.simps(9))
    then have "map f (update_rows P g rows) = map f rows"
      by (induction rows) auto
    then show ?thesis using True assms(4) by simp
  next
    case False
    then have "x \<in> key ` set rows" using Cons.prems(2) assms(3) by auto
    then show ?thesis using False Cons by simp
  qed
qed simp

lemma update_rows_absent: "(\<And>r. r \<in> set rows \<Longrightarrow> \<not> P r) \<Longrightarrow> update_rows P g rows = rows"
  by (induction rows) auto

lemma filter_update_rows_keep:
  "(\<And>r. Q (g r) = Q r) \<Longrightarrow> filter Q (update_rows P g rows) = update_rows P g (filter Q rows)"
  by (induction rows) auto

section \<open>One event\<close>

definition event_seen :: "db \<Rightarrow> string \<Rightarrow> string \<Rightarrow> bool" where
  "event_seen db kid hash \<longleftrightarrow> list_ex (\<lambda>d. fst d = kid \<and> fst (snd d) = hash) (t_dedup db)"

text \<open>The totals of a key; the empty key stands for all of them.\<close>

definition totals :: "db \<Rightarrow> string \<Rightarrow> int \<times> int" where
  "totals db kid = get_usage_totals kid None None db"

definition counts_for :: "string \<Rightarrow> string \<Rightarrow> bool" where
  "counts_for kid k \<longleftrightarrow> kid = [] \<or> k = kid"

lemma usage_in_all: "usage_in kid None None u \<longleftrightarrow> counts_for kid (u_key u)"
  by (auto simp: usage_in_def counts_for_def)

lemma totals_eq:
  "totals db kid = (sum_list (map u_input (filter (\<lambda>u. counts_for kid (u_key u)) (t_usage db))),
     sum_list (map u_output (filter (\<lambda>u. counts_for kid (u_key u)) (t_usage db))))"
  by (simp add: totals_def get_usage_totals_def q_usage_totals_def Let_def usage_in_all cong: filter_cong)

lemma q_add_usage_sum:
  assumes "distinct (map (\<lambda>u. (u_key u, u_date u, u_model u)) (t_usage db))"
    and "q_add_usage now k d m i c db = Inr db'"
  shows "totals db' kid = (if counts_for kid k then (fst (totals db kid) + i, snd (totals db kid) + c)
     else totals db kid)"
proof (cases "list_ex (same_usage k d m) (t_usage db)")
  case True
  let ?key = "\<lambda>u. (u_key u, u_date u, u_model u)"
  let ?rows = "filter (\<lambda>u. counts_for kid (u_key u)) (t_usage db)"
  let ?g = "\<lambda>u. u\<lparr>u_input := u_input u + i, u_output := u_output u + c, u_updated := now\<rparr>"
  have db': "t_usage db' = update_rows (same_usage k d m) ?g (t_usage db)"
    using True assms(2) by (auto simp: q_add_usage_def split: if_splits)
  have rows: "filter (\<lambda>u. counts_for kid (u_key u)) (t_usage db') = update_rows (same_usage k d m) ?g ?rows"
    unfolding db' by (rule filter_update_rows_keep) simp
  have P: "same_usage k d m u \<longleftrightarrow> ?key u = (k, d, m)" for u
    by (auto simp: same_usage_def)
  have dist: "distinct (map ?key ?rows)" using assms(1) by (induction "t_usage db") (auto simp: distinct_map_filter)
  show ?thesis
  proof (cases "counts_for kid k")
    case counts: True
    then have "(k, d, m) \<in> ?key ` set ?rows"
      using True by (force simp: list_ex_iff same_usage_def)
    from sum_list_map_update_rows [OF dist this P, of u_input ?g i]
      sum_list_map_update_rows [OF dist this P, of u_output ?g c]
    show ?thesis using counts by (simp add: totals_eq rows)
  next
    case False
    then have "update_rows (same_usage k d m) ?g ?rows = ?rows"
      by (intro update_rows_absent) (auto simp: same_usage_def)
    then show ?thesis using False by (simp add: totals_eq rows)
  qed
next
  case False
  then have "t_usage db' = t_usage db @
      [\<lparr>u_key = k, u_date = d, u_model = m, u_input = i, u_output = c, u_updated = now\<rparr>]"
    using assms(2) by (auto simp: q_add_usage_def split: if_splits)
  then show ?thesis by (simp add: totals_eq)
qed

lemma totals_cong: "t_usage db' = t_usage db \<Longrightarrow> totals db' kid = totals db kid"
  by (simp add: totals_eq)

lemma q_add_usage_keeps:
  "q_add_usage now k d m i c db = Inr db' \<Longrightarrow> t_dedup db' = t_dedup db"
  by (auto simp: q_add_usage_def split: if_splits)

lemma add_usage_seen:
  assumes "add_usage now k h m ts i c db = Inr db'" and "event_seen db k h"
  shows "db' = db"
  using assms by (auto simp: add_usage_def Let_def event_seen_def q_dedup_event_def split: if_splits sum.splits)

lemma add_usage_new:
  assumes "add_usage now k h m ts i c db = Inr db'" and "\<not> event_seen db k h"
  shows "\<exists>md d2. q_add_usage now k (date_of ts) md i c (db\<lparr>t_dedup := t_dedup db @ [(k, h, now)]\<rparr>) = Inr d2
    \<and> db' = q_update_key_activity ts k d2"
  using assms by (auto simp: add_usage_def Let_def event_seen_def q_dedup_event_def wrapped_def
      split: if_splits sum.splits)

lemma add_usage_totals:
  assumes "distinct (map (\<lambda>u. (u_key u, u_date u, u_model u)) (t_usage db))"
    and "add_usage now k h m ts i c db = Inr db'"
  shows "totals db' kid = (if counts_for kid k \<and> \<not> event_seen db k h
     then (fst (totals db kid) + i, snd (totals db kid) + c) else totals db kid)"
proof (cases "event_seen db k h")
  case True
  then show ?thesis using add_usage_seen [OF assms(2)] by simp
next
  case False
  then obtain md d2 where
    d2: "q_add_usage now k (date_of ts) md i c (db\<lparr>t_dedup := t_dedup db @ [(k, h, now)]\<rparr>) = Inr d2"
    and db': "db' = q_update_key_activity ts k d2" using add_usage_new [OF assms(2)] by blast
  have "totals db' kid = totals d2 kid"
    by (rule totals_cong) (simp add: db' q_update_key_activity_def)
  moreover have "totals (db\<lparr>t_dedup := t_dedup db @ [(k, h, now)]\<rparr>) kid = totals db kid"
    by (rule totals_cong) simp
  ultimately show ?thesis using q_add_usage_sum [OF _ d2, of kid] assms(1) False by simp
qed

lemma add_usage_events:
  assumes "add_usage now k h m ts i c db = Inr db'"
  shows "event_seen db' k' h' \<longleftrightarrow> event_seen db k' h' \<or> (k', h') = (k, h)"
proof (cases "event_seen db k h")
  case True
  then show ?thesis using add_usage_seen [OF assms] by auto
next
  case False
  then obtain md d2 where
    d2: "q_add_usage now k (date_of ts) md i c (db\<lparr>t_dedup := t_dedup db @ [(k, h, now)]\<rparr>) = Inr d2"
    and db': "db' = q_update_key_activity ts k d2" using add_usage_new [OF assms] by blast
  have "t_dedup db' = t_dedup db @ [(k, h, now)]"
    using q_add_usage_keeps [OF d2] by (simp add: db' q_update_key_activity_def)
  then show ?thesis by (auto simp: event_seen_def)
qed

section \<open>A log of events\<close>

record usage_event =
  ue_now :: time
  ue_key :: string
  ue_hash :: string
  ue_model :: string
  ue_at :: time
  ue_input :: int
  ue_output :: int

fun add_all :: "usage_event list \<Rightarrow> db \<Rightarrow> store_error + db" where
  "add_all [] db = Inr db"
| "add_all (e # es) db =
     (case add_usage (ue_now e) (ue_key e) (ue_hash e) (ue_model e) (ue_at e) (ue_input e) (ue_output e) db of
        Inl err \<Rightarrow> Inl err
      | Inr db' \<Rightarrow> add_all es db')"

text \<open>The first report of every event.\<close>

fun first_reports :: "(string \<times> string) set \<Rightarrow> usage_event list \<Rightarrow> usage_event list" where
  "first_reports seen [] = []"
| "first_reports seen (e # es) =
     (if (ue_key e, ue_hash e) \<in> seen then first_reports seen es
      else e # first_reports (insert (ue_key e, ue_hash e) seen) es)"

definition seen_events :: "db \<Rightarrow> (string \<times> string) set" where
  "seen_events db = {(k, h). event_seen db k h}"

lemma seen_events_add:
  assumes "add_usage now k h m ts i c db = Inr db'"
  shows "seen_events db' = insert (k, h) (seen_events db)"
  using add_usage_events [OF assms] by (auto simp: seen_events_def)

lemma first_reports_seen: "x \<in> seen \<Longrightarrow> first_reports (insert x seen) es = first_reports seen es"
  by (simp add: insert_absorb)

lemma add_all_totals:
  assumes "db_ok db" and "add_all es db = Inr db'"
  shows "totals db' kid =
    (fst (totals db kid) + sum_list (map ue_input (filter (\<lambda>e. counts_for kid (ue_key e)) (first_reports (seen_events db) es))),
     snd (totals db kid) + sum_list (map ue_output (filter (\<lambda>e. counts_for kid (ue_key e)) (first_reports (seen_events db) es))))"
  using assms
proof (induction es arbitrary: db)
  case (Cons e es)
  then obtain db1 where db1:
    "add_usage (ue_now e) (ue_key e) (ue_hash e) (ue_model e) (ue_at e) (ue_input e) (ue_output e) db = Inr db1"
    and rest: "add_all es db1 = Inr db'" by (auto split: sum.splits)
  have ok: "db_ok db1" using Cons.prems(1) db1 by (rule add_usage_ok)
  have t: "totals db1 kid = (if counts_for kid (ue_key e) \<and> (ue_key e, ue_hash e) \<notin> seen_events db
      then (fst (totals db kid) + ue_input e, snd (totals db kid) + ue_output e) else totals db kid)"
    using add_usage_totals [OF _ db1] Cons.prems(1) by (simp add: db_okD seen_events_def)
  show ?case
    using Cons.IH [OF ok rest] by (simp add: t seen_events_add [OF db1] first_reports_seen)
qed simp

text \<open>C11. However often the gateway reports a billing event, and in whatever order, the totals of
  every key (and those over all keys, under the empty key) grow by exactly the token counts of the
  first report of each event that was not recorded before: no event is billed twice and none is
  lost.\<close>

theorem events_counted_once:
  assumes "db_ok db" and "add_all es db = Inr db'"
  shows "get_usage_totals kid None None db' =
    (let new = filter (\<lambda>e. kid = [] \<or> ue_key e = kid) (first_reports (seen_events db) es)
     in (fst (get_usage_totals kid None None db) + sum_list (map ue_input new),
         snd (get_usage_totals kid None None db) + sum_list (map ue_output new)))"
  using add_all_totals [OF assms, of kid] by (simp add: totals_def counts_for_def Let_def)

definition sample_event :: usage_event where
  "sample_event = \<lparr>ue_now = 3, ue_key = ''k'', ue_hash = ''h'', ue_model = '' gpt '', ue_at = 2,
     ue_input = 10, ue_output = 4\<rparr>"

definition sample_key_row :: key_row where
  "sample_key_row = \<lparr>kr_id = ''k'', kr_pool = ''p'', kr_employee = ''e'', kr_hmac = ''m'', kr_hint = [],
     kr_scopes = [], kr_rate_limit = 0, kr_expires = None, kr_revoked = None, kr_last_used = None, kr_created = 0\<rparr>"

definition usage_db :: db where
  "usage_db = (fresh_db sample_settings)\<lparr>
     t_pools := [\<lparr>pr_id = ''p'', pr_name = ''main'', pr_provider = provider_codex, pr_created = 0, pr_updated = 0\<rparr>],
     t_employees := [(''e'', ''Ada'')], t_keys := [sample_key_row]\<rparr>"

lemma usage_db_ok: "db_ok usage_db"
  by (simp add: db_ok_defs usage_db_def fresh_db_def sample_key_row_def sample_settings_check blank_def pool_providers_def domain_consts)

lemma sample_reports: "\<not> isl (add_all [sample_event, sample_event] usage_db)"
  by (simp add: add_usage_def sample_event_def usage_db_def fresh_db_def sample_key_row_def q_dedup_event_def
      key_ids_def q_add_usage_def same_usage_def q_update_key_activity_def Let_def)

theorem events_counted_once_witness:
  "\<exists>db'. add_all [sample_event, sample_event] usage_db = Inr db'
    \<and> get_usage_totals ''k'' None None db' = (10, 4)"
proof -
  obtain db' where a: "add_all [sample_event, sample_event] usage_db = Inr db'"
    using sample_reports by (cases "add_all [sample_event, sample_event] usage_db") auto
  have "seen_events usage_db = {}"
    by (simp add: seen_events_def event_seen_def usage_db_def fresh_db_def)
  then show ?thesis
    using a events_counted_once [OF usage_db_ok a, of "''k''"]
    by (simp add: get_usage_totals_def q_usage_totals_def usage_db_def fresh_db_def sample_event_def)
qed

end
