(* ===== verification/Control_Usage.thy ===== *)
theory Control_Usage
  imports Store_Usage
begin

text \<open>
  The usage reports of the control API (\<open>listUsage\<close> and \<open>listUsageDetails\<close> of
  \<open>internal/control/pools_keys_usage.go\<close>): a page asks the store for one row more than it shows, and
  that row says whether there is a next page, which starts after the last row shown. The query
  parameters and the cursor are taken as they are after parsing.
\<close>

section \<open>Pages\<close>

text \<open>A report with an order, read in pages: \<open>fetch\<close> returns the rows after a cursor, \<open>cursor\<close> points to
  a row, and \<open>rank\<close> is the place of a cursor in the order.\<close>

definition page_of ::
  "('q \<Rightarrow> 'c option \<Rightarrow> nat \<Rightarrow> 'r list) \<Rightarrow> ('r \<Rightarrow> 'c) \<Rightarrow> 'q \<Rightarrow> nat \<Rightarrow> 'c option \<Rightarrow> 'r list \<times> 'c option" where
  "page_of fetch cursor q limit after =
     (let rows = fetch q after (limit + 1) in
      if limit < length rows then (take limit rows, Some (cursor (last (take limit rows))))
      else (rows, None))"

text \<open>A client that follows the cursors, for at most \<open>fuel\<close> pages.\<close>

fun follow :: "nat \<Rightarrow> ('c option \<Rightarrow> 'r list \<times> 'c option) \<Rightarrow> 'c option \<Rightarrow> 'r list" where
  "follow 0 page c = []"
| "follow (Suc fuel) page c =
     (case page c of (rows, None) \<Rightarrow> rows | (rows, Some c') \<Rightarrow> rows @ follow fuel page (Some c'))"

lemma filter_after:
  assumes "sorted (map f xs)" and "distinct (map f xs)" and "i < length xs"
  shows "filter (\<lambda>r. f (xs ! i) < f r) xs = drop (Suc i) xs"
  using assms
proof (induction xs arbitrary: i)
  case (Cons x xs)
  show ?case
  proof (cases i)
    case 0
    have "\<forall>r \<in> set xs. f x < f r" using Cons.prems by (auto simp: less_le)
    then show ?thesis using 0 by (simp add: filter_id_conv)
  next
    case (Suc j)
    then have "f x \<le> f (xs ! j)" using Cons.prems by simp
    then show ?thesis using Suc Cons by (simp add: not_less)
  qed
qed simp

locale report =
  fixes rows :: "'q \<Rightarrow> 'r list" and ok :: "'q \<Rightarrow> bool"
    and cursor :: "'r \<Rightarrow> 'c" and rank :: "'c \<Rightarrow> 'k :: linorder"
    and fetch :: "'q \<Rightarrow> 'c option \<Rightarrow> nat \<Rightarrow> 'r list"
  assumes sorted_rows: "sorted (map (\<lambda>r. rank (cursor r)) (rows q))"
    and distinct_rows: "ok q \<Longrightarrow> distinct (map (\<lambda>r. rank (cursor r)) (rows q))"
    and fetch_first: "fetch q None n = take n (rows q)"
    and fetch_after: "fetch q (Some c) n = take n (filter (\<lambda>r. rank c < rank (cursor r)) (rows q))"
begin

lemma next_page:
  assumes "ok q" and "0 < limit" and "limit < length rest"
    and "rest = rows q \<or> (\<exists>c. rest = filter (\<lambda>r. rank c < rank (cursor r)) (rows q))"
  shows "filter (\<lambda>r. rank (cursor (last (take limit rest))) < rank (cursor r)) (rows q) = drop limit rest"
proof -
  let ?f = "\<lambda>r. rank (cursor r)" and ?i = "limit - 1"
  have srt: "sorted (map ?f rest)" and dst: "distinct (map ?f rest)"
    using assms(4) sorted_rows [of q] distinct_rows [OF assms(1)]
    by (auto simp: sorted_filter distinct_map_filter)
  have lst: "last (take limit rest) = rest ! ?i"
    using assms(2,3) by (subst last_conv_nth) (auto simp: min_def)
  have "filter (\<lambda>r. ?f (rest ! ?i) < ?f r) (rows q) = filter (\<lambda>r. ?f (rest ! ?i) < ?f r) rest"
    using assms(4)
  proof (elim disjE exE)
    fix c assume rest: "rest = filter (\<lambda>r. rank c < ?f r) (rows q)"
    have "rest ! ?i \<in> set rest" using assms(3) by simp
    then have "rank c < ?f (rest ! ?i)" using rest by auto
    then have "?f (rest ! ?i) < ?f r \<Longrightarrow> rank c < ?f r" for r by (rule less_trans)
    then show ?thesis unfolding rest filter_filter by (metis (no_types, lifting) filter_cong)
  qed simp
  also have "\<dots> = drop (Suc ?i) rest" using srt dst assms(3) by (intro filter_after) auto
  finally show ?thesis using assms(2) lst by simp
qed

lemma follow_after:
  assumes "ok q" and "0 < limit"
    and "length (filter (\<lambda>r. rank c < rank (cursor r)) (rows q)) < fuel"
  shows "follow fuel (page_of fetch cursor q limit) (Some c) = filter (\<lambda>r. rank c < rank (cursor r)) (rows q)"
  using assms(3)
proof (induction fuel arbitrary: c)
  case (Suc fuel)
  let ?rest = "filter (\<lambda>r. rank c < rank (cursor r)) (rows q)"
  show ?case
  proof (cases "limit < length ?rest")
    case True
    let ?c = "cursor (last (take limit ?rest))"
    have nxt: "filter (\<lambda>r. rank ?c < rank (cursor r)) (rows q) = drop limit ?rest"
      using assms(1,2) True by (intro next_page) auto
    have "length (drop limit ?rest) < fuel" using Suc.prems assms(2) True by simp
    then have "follow fuel (page_of fetch cursor q limit) (Some ?c) = drop limit ?rest"
      using Suc.IH [of ?c] by (simp only: nxt)
    moreover have "page_of fetch cursor q limit (Some c) = (take limit ?rest, Some ?c)"
      using True by (simp add: page_of_def fetch_after Let_def)
    ultimately show ?thesis by (simp del: filter_filter)
  next
    case False
    then show ?thesis by (simp add: page_of_def fetch_after Let_def)
  qed
qed simp

lemma follow_all:
  assumes "ok q" and "0 < limit" and "length (rows q) < fuel"
  shows "follow fuel (page_of fetch cursor q limit) None = rows q"
proof (cases fuel)
  case (Suc f)
  show ?thesis
  proof (cases "limit < length (rows q)")
    case True
    let ?c = "cursor (last (take limit (rows q)))"
    have nxt: "filter (\<lambda>r. rank ?c < rank (cursor r)) (rows q) = drop limit (rows q)"
      using assms(1,2) True by (intro next_page) auto
    have "length (drop limit (rows q)) < f" using assms True Suc by simp
    then have "follow f (page_of fetch cursor q limit) (Some ?c) = drop limit (rows q)"
      using follow_after [OF assms(1,2), of ?c f] by (simp only: nxt)
    moreover have "page_of fetch cursor q limit None = (take limit (rows q), Some ?c)"
      using True by (simp add: page_of_def fetch_first Let_def)
    ultimately show ?thesis using Suc by simp
  next
    case False
    then show ?thesis using Suc by (simp add: page_of_def fetch_first Let_def)
  qed
qed (use assms in simp)

end

section \<open>The reports\<close>

record usage_cursor =
  uc_total :: int
  uc_employee :: string

record usage_query =
  uq_key :: string
  uq_from :: "time option"
  uq_to :: "time option"

definition employee_cursor :: "employee_usage \<Rightarrow> usage_cursor" where
  "employee_cursor e = \<lparr>uc_total = eu_input e + eu_output e, uc_employee = eu_employee e\<rparr>"

definition usage_rows :: "db \<times> usage_query \<Rightarrow> usage_cursor option \<Rightarrow> nat \<Rightarrow> employee_usage list" where
  "usage_rows q after n =
     (case q of (db, f) \<Rightarrow>
        list_usage_employees (uq_key f) (uq_from f) (uq_to f) (map_option uc_total after)
          (case after of None \<Rightarrow> [] | Some c \<Rightarrow> uc_employee c) n db)"

definition top_key_limit :: nat where "top_key_limit = 5"

record usage_reply =
  ur_items :: "employee_usage list"
  ur_summary :: "int \<times> int"
  ur_top_keys :: "top_key list"
  ur_next :: "usage_cursor option"

definition list_usage :: "db \<Rightarrow> usage_query \<Rightarrow> nat \<Rightarrow> usage_cursor option \<Rightarrow> usage_reply" where
  "list_usage db f limit after =
     (case page_of usage_rows employee_cursor (db, f) limit after of (rows, next) \<Rightarrow>
        \<lparr>ur_items = rows,
         ur_summary = get_usage_totals (uq_key f) (uq_from f) (uq_to f) db,
         ur_top_keys = list_top_usage_keys (uq_key f) (uq_from f) (uq_to f) top_key_limit db,
         ur_next = next\<rparr>)"

record usage_details_cursor =
  dc_total :: int
  dc_key :: string
  dc_model :: string

definition detail_cursor :: "usage_detail \<Rightarrow> usage_details_cursor" where
  "detail_cursor d = \<lparr>dc_total = ud_input d + ud_output d, dc_key = ud_key d, dc_model = ud_model d\<rparr>"

definition detail_rows ::
  "db \<times> string \<times> usage_query \<Rightarrow> usage_details_cursor option \<Rightarrow> nat \<Rightarrow> usage_detail list" where
  "detail_rows q after n =
     (case q of (db, employee, f) \<Rightarrow>
        list_usage_details employee (uq_from f) (uq_to f) (map_option dc_total after)
          (case after of None \<Rightarrow> [] | Some c \<Rightarrow> dc_key c)
          (case after of None \<Rightarrow> [] | Some c \<Rightarrow> dc_model c) n db)"

definition list_details ::
  "db \<Rightarrow> string \<Rightarrow> usage_query \<Rightarrow> nat \<Rightarrow> usage_details_cursor option
   \<Rightarrow> usage_detail list \<times> usage_details_cursor option" where
  "list_details db employee f limit after = page_of detail_rows detail_cursor (db, employee, f) limit after"

section \<open>The store keeps the contract of the pages\<close>

definition employee_rank :: "usage_cursor \<Rightarrow> int \<times> string" where
  "employee_rank c = (- uc_total c, uc_employee c)"

definition detail_rank :: "usage_details_cursor \<Rightarrow> int \<times> string \<times> string" where
  "detail_rank c = (- dc_total c, dc_key c, dc_model c)"

definition all_employees :: "db \<times> usage_query \<Rightarrow> employee_usage list" where
  "all_employees q = (case q of (db, f) \<Rightarrow>
     sort_key employee_order (employee_totals (uq_key f) (uq_from f) (uq_to f) db))"

definition all_details :: "db \<times> string \<times> usage_query \<Rightarrow> usage_detail list" where
  "all_details q = (case q of (db, employee, f) \<Rightarrow>
     sort_key detail_order (usage_details employee (uq_from f) (uq_to f) db))"

lemma employee_rank_cursor: "employee_rank (employee_cursor e) = employee_order e"
  by (simp add: employee_rank_def employee_cursor_def employee_order_def)

lemma detail_rank_cursor: "detail_rank (detail_cursor d) = detail_order d"
  by (simp add: detail_rank_def detail_cursor_def detail_order_def)

lemma usage_join_elem:
  "r \<in> set (usage_join db) \<Longrightarrow> je r \<in> set (t_employees db) \<and> jk r \<in> set (t_keys db) \<and> u_key (ju r) = kr_id (jk r)"
  by (auto simp: usage_join_def)

lemma usage_join_fst: "r \<in> set (usage_join db) \<Longrightarrow> fst (je r) = kr_employee (jk r)"
  by (auto simp: usage_join_def)

lemma distinct_employees:
  assumes "db_ok db"
  shows "distinct (map employee_order (employee_totals kid from to db))"
proof -
  let ?rows = "filter (\<lambda>r. usage_in kid from to (ju r)) (usage_join db)"
  have inj: "inj_on fst (set (t_employees db))" using db_okD(6) [OF assms] by (simp add: distinct_map)
  have "set (remdups (map je ?rows)) \<subseteq> set (t_employees db)"
  proof -
    have "\<forall>r \<in> set ?rows. je r \<in> set (t_employees db)" using usage_join_elem [where db = db] by simp
    then show ?thesis unfolding set_remdups set_map by (simp only: image_subset_iff)
  qed
  then have "distinct (map fst (remdups (map je ?rows)))"
    unfolding distinct_map using inj_on_subset [OF inj] distinct_remdups by blast
  moreover have "map eu_employee (employee_totals kid from to db) = map fst (remdups (map je ?rows))"
    by (simp add: employee_totals_def group_rows_def o_def case_prod_beta)
  ultimately have "distinct (map eu_employee (employee_totals kid from to db))" by simp
  then show ?thesis by (auto simp: distinct_map employee_order_def inj_on_def)
qed

lemma distinct_details:
  assumes "db_ok db"
  shows "distinct (map detail_order (usage_details employee from to db))"
proof -
  let ?rows = "filter (\<lambda>r. kr_employee (jk r) = employee \<and> usage_in [] from to (ju r)) (usage_join db)"
  let ?g = "\<lambda>r. (u_key (ju r), snd (je r), kr_hint (jk r), u_model (ju r))"
  have keys: "inj_on kr_id (set (t_keys db))" and emps: "inj_on fst (set (t_employees db))"
    using db_okD(3,6) [OF assms] by (simp_all add: distinct_map)
  have same: "je r = je r' \<and> jk r = jk r'"
    if "r \<in> set (usage_join db)" "r' \<in> set (usage_join db)" "u_key (ju r) = u_key (ju r')" for r r'
  proof
    show k: "jk r = jk r'"
      using usage_join_elem [OF that(1)] usage_join_elem [OF that(2)] that(3) by (intro inj_onD [OF keys]) simp_all
    show "je r = je r'"
      using usage_join_elem [OF that(1)] usage_join_elem [OF that(2)] usage_join_fst [OF that(1)]
        usage_join_fst [OF that(2)] k by (intro inj_onD [OF emps]) simp_all
  qed
  have "inj_on (\<lambda>g. (fst g, snd (snd (snd g)))) (?g ` set ?rows)"
  proof (rule inj_onI)
    fix x y assume x: "x \<in> ?g ` set ?rows" and y: "y \<in> ?g ` set ?rows"
      and eq: "(fst x, snd (snd (snd x))) = (fst y, snd (snd (snd y)))"
    obtain r where r: "x = ?g r" "r \<in> set (usage_join db)" using x by auto
    obtain r' where r': "y = ?g r'" "r' \<in> set (usage_join db)" using y by auto
    have "je r = je r' \<and> jk r = jk r'" using eq r r' by (intro same) simp_all
    then show "x = y" using eq r(1) r'(1) by simp
  qed
  then have "distinct (map (\<lambda>g. (fst g, snd (snd (snd g)))) (remdups (map ?g ?rows)))"
    by (simp add: distinct_map)
  moreover have "map (\<lambda>d. (ud_key d, ud_model d)) (usage_details employee from to db)
      = map (\<lambda>g. (fst g, snd (snd (snd g)))) (remdups (map ?g ?rows))"
    by (simp add: usage_details_def group_rows_def o_def case_prod_beta)
  ultimately have "distinct (map (\<lambda>d. (ud_key d, ud_model d)) (usage_details employee from to db))" by simp
  then show ?thesis by (auto simp: distinct_map detail_order_def inj_on_def)
qed

interpretation employees: report all_employees "\<lambda>q. db_ok (fst q)" employee_cursor employee_rank usage_rows
proof
  fix q :: "db \<times> usage_query" and n :: nat and c :: usage_cursor
  obtain db f where q: "q = (db, f)" by (cases q)
  show "sorted (map (\<lambda>r. employee_rank (employee_cursor r)) (all_employees q))"
    by (simp add: all_employees_def q employee_rank_cursor)
  show "distinct (map (\<lambda>r. employee_rank (employee_cursor r)) (all_employees q))" if "db_ok (fst q)"
    using that distinct_employees [of db "uq_key f" "uq_from f" "uq_to f"]
    by (simp add: all_employees_def q employee_rank_cursor distinct_map)
  show "usage_rows q None n = take n (all_employees q)"
    by (simp add: usage_rows_def q list_usage_employees_def q_usage_employees_def all_employees_def)
  have "eu_input r + eu_output r < uc_total c \<or> eu_input r + eu_output r = uc_total c \<and> uc_employee c < eu_employee r
      \<longleftrightarrow> employee_rank c < employee_order r" for r
    by (auto simp: employee_rank_def employee_order_def less_prod_def)
  then show "usage_rows q (Some c) n =
      take n (filter (\<lambda>r. employee_rank c < employee_rank (employee_cursor r)) (all_employees q))"
    by (simp add: usage_rows_def q list_usage_employees_def q_usage_employees_def all_employees_def
        employee_rank_cursor filter_sort Let_def)
qed

interpretation details: report all_details "\<lambda>q. db_ok (fst q)" detail_cursor detail_rank detail_rows
proof
  fix q :: "db \<times> string \<times> usage_query" and n :: nat and c :: usage_details_cursor
  obtain db e f where q: "q = (db, e, f)" by (cases q)
  show "sorted (map (\<lambda>r. detail_rank (detail_cursor r)) (all_details q))"
    by (simp add: all_details_def q detail_rank_cursor)
  show "distinct (map (\<lambda>r. detail_rank (detail_cursor r)) (all_details q))" if "db_ok (fst q)"
    using that distinct_details [of db e "uq_from f" "uq_to f"]
    by (simp add: all_details_def q detail_rank_cursor distinct_map)
  show "detail_rows q None n = take n (all_details q)"
    by (simp add: detail_rows_def q list_usage_details_def q_usage_details_def all_details_def)
  have "ud_input r + ud_output r < dc_total c
      \<or> ud_input r + ud_output r = dc_total c \<and> dc_key c < ud_key r
      \<or> ud_input r + ud_output r = dc_total c \<and> ud_key r = dc_key c \<and> dc_model c < ud_model r
      \<longleftrightarrow> detail_rank c < detail_order r" for r
    by (auto simp: detail_rank_def detail_order_def less_prod_def)
  then show "detail_rows q (Some c) n =
      take n (filter (\<lambda>r. detail_rank c < detail_rank (detail_cursor r)) (all_details q))"
    by (simp add: detail_rows_def q list_usage_details_def q_usage_details_def all_details_def
        detail_rank_cursor filter_sort Let_def)
qed

section \<open>Properties\<close>

text \<open>The pages of the two reports, as a client sees them.\<close>

definition usage_pages :: "db \<Rightarrow> usage_query \<Rightarrow> nat \<Rightarrow> usage_cursor option \<Rightarrow> employee_usage list \<times> usage_cursor option" where
  "usage_pages db f limit after = (let r = list_usage db f limit after in (ur_items r, ur_next r))"

lemma usage_pages_eq: "usage_pages db f limit = page_of usage_rows employee_cursor (db, f) limit"
  by (auto simp: usage_pages_def list_usage_def Let_def fun_eq_iff split: prod.splits)

text \<open>C12. A client that starts without a cursor and follows the cursors of the usage report until there
  is none sees every employee with usage exactly once, from the highest total to the lowest, whatever
  the page size: no row is repeated or lost between two pages, however totals tie. One page more than
  there are employees is enough.\<close>

theorem usage_pages_complete:
  assumes "db_ok db" and "0 < limit"
    and "length (employee_totals (uq_key f) (uq_from f) (uq_to f) db) < fuel"
  shows "follow fuel (usage_pages db f limit) None
    = sort_key employee_order (employee_totals (uq_key f) (uq_from f) (uq_to f) db)"
  using employees.follow_all [of "(db, f)" limit fuel] assms
  by (simp add: usage_pages_eq all_employees_def)

definition open_query :: usage_query where
  "open_query = \<lparr>uq_key = [], uq_from = None, uq_to = None\<rparr>"

definition paged_db :: db where
  "paged_db = usage_db\<lparr>t_usage :=
     [\<lparr>u_key = ''k'', u_date = 0, u_model = ''a'', u_input = 1, u_output = 2, u_updated = 0\<rparr>,
      \<lparr>u_key = ''k'', u_date = 0, u_model = ''b'', u_input = 3, u_output = 0, u_updated = 0\<rparr>,
      \<lparr>u_key = ''k'', u_date = day, u_model = ''a'', u_input = 5, u_output = 0, u_updated = 0\<rparr>]\<rparr>"

lemma paged_db_ok: "db_ok paged_db"
  by (simp add: paged_db_def db_ok_defs day_def hour_def minute_def second_def usage_db_def fresh_db_def
      sample_key_row_def sample_settings_check blank_def pool_providers_def domain_consts)

lemma usage_pages_complete_witness:
  "follow 2 (usage_pages paged_db open_query 1) None
    = sort_key employee_order (employee_totals [] None None paged_db)"
  using usage_pages_complete [OF paged_db_ok, of 1 open_query 2]
  by (simp add: open_query_def employee_totals_def group_rows_def usage_join_def paged_db_def usage_db_def
      fresh_db_def sample_key_row_def)

text \<open>The same for the report on one employee: following its cursors lists every key and model the
  employee used exactly once, in order of the tokens.\<close>

theorem detail_pages_complete:
  assumes "db_ok db" and "0 < limit"
    and "length (usage_details employee (uq_from f) (uq_to f) db) < fuel"
  shows "follow fuel (list_details db employee f limit) None
    = sort_key detail_order (usage_details employee (uq_from f) (uq_to f) db)"
proof -
  have "list_details db employee f limit = page_of detail_rows detail_cursor (db, employee, f) limit"
    by (simp add: list_details_def fun_eq_iff)
  then show ?thesis using details.follow_all [of "(db, employee, f)" limit fuel] assms
    by (simp add: all_details_def)
qed

lemma detail_pages_complete_witness:
  "follow 3 (list_details paged_db ''e'' open_query 1) None
    = sort_key detail_order (usage_details ''e'' None None paged_db)"
  using detail_pages_complete [OF paged_db_ok, of 1 "''e''" open_query 3]
  by (simp add: open_query_def usage_details_def group_rows_def usage_join_def paged_db_def usage_db_def
      fresh_db_def sample_key_row_def)

end
