(* ===== verification/Store_Limits.thy ===== *)
theory Store_Limits
  imports Store_Integrity
begin

text \<open>
  The two throttles kept in the database: the requests per minute of an API key, and the failed
  administrator logins per source.
\<close>

section \<open>Requests per minute\<close>

lemma find_update_at:
  "find P rows = Some r \<Longrightarrow> P (g r) \<Longrightarrow> find P (update_rows P g rows) = Some (g r)"
  by (induction rows) (auto split: if_splits)

lemma find_update_other:
  "(\<And>s. P s \<Longrightarrow> \<not> Q s \<and> \<not> Q (g s)) \<Longrightarrow> find Q (update_rows P g rows) = find Q rows"
  by (induction rows) auto

lemma find_append: "find P (xs @ ys) = (case find P xs of None \<Rightarrow> find P ys | Some x \<Rightarrow> Some x)"
  by (induction xs) auto

lemma minute_of_mono: "s \<le> t \<Longrightarrow> minute_of s \<le> minute_of t"
  by (simp add: minute_of_def minute_def second_def zdiv_mono1)

text \<open>Requests, each the key and its time, decided one after the other.\<close>

fun decisions :: "(string \<Rightarrow> int) \<Rightarrow> (string \<times> time) list \<Rightarrow> db \<Rightarrow> bool list" where
  "decisions limit [] db = []"
| "decisions limit ((k, t) # rs) db =
     (case allow_api_key_request k (limit k) t db of
        Inl e \<Rightarrow> False # decisions limit rs db
      | Inr (db', b) \<Rightarrow> b # decisions limit rs db')"

definition same_minute :: "string \<Rightarrow> time \<Rightarrow> string \<times> time \<Rightarrow> bool" where
  "same_minute k t r \<longleftrightarrow> fst r = k \<and> minute_of (snd r) = minute_of t"

text \<open>The table agrees with the requests decided so far.\<close>

fun rate_ok :: "(string \<times> time) list \<Rightarrow> string \<Rightarrow> rate_row option \<Rightarrow> bool" where
  "rate_ok past k None \<longleftrightarrow> (\<forall>t. (k, t) \<notin> set past)"
| "rate_ok past k (Some r) \<longleftrightarrow>
     (\<exists>t. (k, t) \<in> set past \<and> rl_window r = minute_of t
        \<and> rl_count r = int (count_if (same_minute k t) past))
     \<and> (\<forall>t. (k, t) \<in> set past \<longrightarrow> minute_of t \<le> rl_window r)"

abbreviation rate_row :: "string \<Rightarrow> db \<Rightarrow> rate_row option" where
  "rate_row k db \<equiv> find (\<lambda>r. rl_key r = k) (t_rate_limits db)"

definition rates_match :: "(string \<Rightarrow> int) \<Rightarrow> (string \<times> time) list \<Rightarrow> db \<Rightarrow> bool" where
  "rates_match limit past db \<longleftrightarrow> (\<forall>k. 0 < limit k \<longrightarrow> rate_ok past k (rate_row k db))"

lemma count_if_none: "(\<And>x. x \<in> set xs \<Longrightarrow> \<not> P x) \<Longrightarrow> count_if P xs = 0"
  by (induction xs) auto

lemma count_if_append: "count_if P (xs @ ys) = count_if P xs + count_if P ys"
  by (induction xs) auto

lemma rate_ok_other:
  assumes "rate_ok past k' row" and "k' \<noteq> k"
  shows "rate_ok (past @ [(k, t)]) k' row"
proof -
  have "\<not> same_minute k' t' (k, t)" for t' using assms(2) by (simp add: same_minute_def)
  then show ?thesis using assms by (cases row) (auto simp: count_if_append)
qed

lemma rates_match_step:
  assumes "rates_match limit past db"
    and "\<And>k'. k' \<noteq> k \<Longrightarrow> rate_row k' db' = rate_row k' db"
    and "rate_ok (past @ [(k, t)]) k (rate_row k db')"
  shows "rates_match limit (past @ [(k, t)]) db'"
  using assms rate_ok_other unfolding rates_match_def by metis

lemma allow_request_first:
  assumes m: "rates_match limit past db" and k: "k \<in> set (key_ids db)" and pos: "0 < limit k"
    and none: "rate_row k db = None"
  shows "\<exists>db'. allow_api_key_request k (limit k) t db
      = Inr (db', int (count_if (same_minute k t) past) < wrap32 (limit k))
    \<and> rates_match limit (past @ [(k, t)]) db' \<and> key_ids db' = key_ids db"
proof -
  let ?r = "\<lparr>rl_key = k, rl_window = minute_of t, rl_count = 1\<rparr>"
  let ?db = "db\<lparr>t_rate_limits := t_rate_limits db @ [?r]\<rparr>"
  have new: "(k, t') \<notin> set past" for t' using m pos none by (metis rate_ok.simps(1) rates_match_def)
  then have zero: "count_if (same_minute k t) past = 0"
    by (intro count_if_none) (auto simp: same_minute_def)
  have "rate_row k ?db = Some ?r" using none by (simp add: find_append)
  then have "rate_ok (past @ [(k, t)]) k (rate_row k ?db)"
    using new zero by (auto simp: count_if_append same_minute_def)
  then have "rates_match limit (past @ [(k, t)]) ?db"
    by (intro rates_match_step [OF m]) (simp_all add: find_append split: option.split)
  then show ?thesis using none k pos zero
    by (auto simp: allow_api_key_request_def q_allow_request_def key_ids_def)
qed

lemma allow_request_again:
  assumes m: "rates_match limit past db" and pos: "0 < limit k"
    and late: "\<forall>r \<in> set past. snd r \<le> t" and row: "rate_row k db = Some r"
  shows "\<exists>db'. allow_api_key_request k (limit k) t db
      = Inr (db', int (count_if (same_minute k t) past) < wrap32 (limit k))
    \<and> rates_match limit (past @ [(k, t)]) db' \<and> key_ids db' = key_ids db"
proof -
  have "rate_ok past k (Some r)" using m pos row by (metis rates_match_def)
  then obtain t0 where t0: "(k, t0) \<in> set past" "rl_window r = minute_of t0"
    "rl_count r = int (count_if (same_minute k t0) past)"
    and latest: "\<And>t'. (k, t') \<in> set past \<Longrightarrow> minute_of t' \<le> rl_window r" by auto
  have key: "rl_key r = k" using row by (auto simp: find_Some_iff)
  have le: "rl_window r \<le> minute_of t" using late t0(1,2) minute_of_mono by force
  define r' where "r' = (if rl_window r < minute_of t then r\<lparr>rl_window := minute_of t, rl_count := 1\<rparr>
            else r\<lparr>rl_count := rl_count r + 1\<rparr>)"
  let ?db = "db\<lparr>t_rate_limits := update_rows (\<lambda>s. rl_key s = k) (\<lambda>_. r') (t_rate_limits db)\<rparr>"
  have rk: "rl_key r' = k" and win: "rl_window r' = minute_of t" using key le by (simp_all add: r'_def)
  have count: "rl_count r' = int (count_if (same_minute k t) past) + 1"
  proof (cases "rl_window r < minute_of t")
    case True
    then have "count_if (same_minute k t) past = 0"
      using latest by (intro count_if_none) (force simp: same_minute_def)
    then show ?thesis using True by (simp add: r'_def)
  next
    case False
    then have "same_minute k t0 = same_minute k t" using le t0(2) by (auto simp: same_minute_def fun_eq_iff)
    then show ?thesis using False t0(3) by (simp add: r'_def)
  qed
  have same: "rate_row k ?db = Some r'" using find_update_at [OF row, of "\<lambda>_. r'"] rk by simp
  have "rate_ok (past @ [(k, t)]) k (Some r')"
    using win count latest le by (auto simp: count_if_append same_minute_def intro!: exI [of _ t] dest!: latest)
  then have "rate_ok (past @ [(k, t)]) k (rate_row k ?db)" using same by simp
  then have "rates_match limit (past @ [(k, t)]) ?db"
    using rk by (intro rates_match_step [OF m]) (simp_all add: find_update_other)
  moreover have "allow_api_key_request k (limit k) t db
      = Inr (?db, int (count_if (same_minute k t) past) < wrap32 (limit k))"
    using row pos count by (simp add: allow_api_key_request_def q_allow_request_def Let_def r'_def [symmetric] add1_zle_eq)
  ultimately show ?thesis by (auto simp: key_ids_def)
qed

lemma decisions_exact:
  assumes "rates_match limit past db" and "fst ` set rs \<subseteq> set (key_ids db)"
    and "sorted (map snd (past @ rs))"
  shows "decisions limit rs db
    = map (\<lambda>i. limit (fst (rs ! i)) \<le> 0
        \<or> int (count_if (same_minute (fst (rs ! i)) (snd (rs ! i))) (past @ take i rs)) < wrap32 (limit (fst (rs ! i))))
      [0..<length rs]"
  using assms
proof (induction rs arbitrary: past db)
  case (Cons r rs)
  obtain k t where r: "r = (k, t)" by (cases r)
  have step: "\<exists>db' b. allow_api_key_request k (limit k) t db = Inr (db', b)
      \<and> b = (limit k \<le> 0 \<or> int (count_if (same_minute k t) past) < wrap32 (limit k))
      \<and> rates_match limit (past @ [(k, t)]) db' \<and> key_ids db' = key_ids db"
  proof (cases "0 < limit k")
    case True
    have late: "\<forall>r \<in> set past. snd r \<le> t" using Cons.prems(3) by (auto simp: r sorted_append)
    have k: "k \<in> set (key_ids db)" using Cons.prems(2) by (simp add: r)
    show ?thesis
    proof (cases "rate_row k db")
      case None
      from allow_request_first [OF Cons.prems(1) k True None, of t] show ?thesis using True by auto
    next
      case (Some row)
      from allow_request_again [OF Cons.prems(1) True late Some] show ?thesis using True by auto
    qed
  next
    case False
    then have "rates_match limit (past @ [(k, t)]) db"
      using Cons.prems(1) rate_ok_other unfolding rates_match_def by metis
    then show ?thesis using False by (auto simp: allow_api_key_request_def intro!: exI [of _ True])
  qed
  then obtain db' where a: "allow_api_key_request k (limit k) t db
        = Inr (db', limit k \<le> 0 \<or> int (count_if (same_minute k t) past) < wrap32 (limit k))"
    and m: "rates_match limit (past @ [(k, t)]) db'" and ids: "key_ids db' = key_ids db" by blast
  have "decisions limit rs db' = map (\<lambda>i. limit (fst (rs ! i)) \<le> 0
        \<or> int (count_if (same_minute (fst (rs ! i)) (snd (rs ! i))) ((past @ [(k, t)]) @ take i rs)) < wrap32 (limit (fst (rs ! i))))
      [0..<length rs]"
    using Cons.prems(2,3) by (intro Cons.IH [OF m]) (simp_all add: ids r)
  then show ?case by (simp add: r a map_upt_Suc del: upt_Suc)
qed simp

text \<open>C13. The rate limiter of API keys decides exactly as its specification: of a sequence of requests
  in the order of their times, from any number of keys, a request is allowed when its key has no
  limit (zero or less), or when fewer requests of the same key than the low 32 bits of its limit came before it in the
  same minute of the clock. For a limit below \<open>2^31\<close>, which every limit read from the database is, these are the limit
  itself (\<open>wrap32_id\<close>): no minute sees more than \<open>limit\<close> requests allowed, and refused requests do
  not delay the next minute.\<close>

theorem rate_limit_exact:
  assumes "t_rate_limits db = []" and "fst ` set rs \<subseteq> set (key_ids db)" and "sorted (map snd rs)"
  shows "decisions limit rs db
    = map (\<lambda>i. limit (fst (rs ! i)) \<le> 0
        \<or> int (count_if (same_minute (fst (rs ! i)) (snd (rs ! i))) (take i rs)) < wrap32 (limit (fst (rs ! i))))
      [0..<length rs]"
  using decisions_exact [of limit "[]" db rs] assms by (simp add: rates_match_def)

lemma rate_limit_exact_witness:
  "decisions (\<lambda>_. 2) [(''k'', 0), (''k'', 1), (''k'', 2), (''k'', 61 * second)]
     (fresh_db sample_settings\<lparr>t_keys := [\<lparr>kr_id = ''k'', kr_pool = [], kr_employee = [], kr_hmac = [],
        kr_hint = [], kr_scopes = [], kr_rate_limit = 2, kr_expires = None, kr_revoked = None,
        kr_last_used = None, kr_created = 0\<rparr>]\<rparr>)
   = [True, True, False, True]"
  by (subst rate_limit_exact)
    (simp_all add: fresh_db_def key_ids_def same_minute_def minute_of_def minute_def second_def upt_rec wrap32_def)

section \<open>Failed administrator logins\<close>

















end
