(* ===== verification/Store_Health.thy ===== *)
theory Store_Health
  imports Store_Integrity Store_Binding
begin

text \<open>
  What becomes of an account that must not be used: a disabled account stays disabled through every
  operation but those that set a status, an account that failed its checks three times in a row gets
  no keys, and a status report on an account that was disabled in the meantime puts it back to work.
\<close>

section \<open>Disabled accounts\<close>

definition disabled :: "string \<Rightarrow> db \<Rightarrow> bool" where
  "disabled aid db \<longleftrightarrow> (\<forall>a \<in> set (t_accounts db). ar_id a = aid \<longrightarrow> ar_status a = account_disabled)"

lemma disabled_update:
  assumes "disabled aid db" and "t_accounts db' = update_rows P f (t_accounts db)"
    and "\<And>a. P a \<Longrightarrow> ar_id (f a) = ar_id a"
    and "\<And>a. P a \<Longrightarrow> ar_id a = aid \<Longrightarrow> ar_status a = account_disabled \<Longrightarrow> ar_status (f a) = account_disabled"
  shows "disabled aid db'"
  using assms by (auto simp: disabled_def set_update_rows)

lemma disabled_same: "disabled aid db \<Longrightarrow> t_accounts db' = t_accounts db \<Longrightarrow> disabled aid db'"
  by (simp add: disabled_def)

lemma disabled_update_accounts:
  assumes "disabled aid db" and "\<And>a. P a \<Longrightarrow> ar_id (f a) = ar_id a"
    and "\<And>a. P a \<Longrightarrow> ar_id a = aid \<Longrightarrow> ar_status a = account_disabled \<Longrightarrow> ar_status (f a) = account_disabled"
  shows "disabled aid (fst (update_accounts P f db))"
  by (rule disabled_update [OF assms(1) _ assms(2,3)]) (simp_all add: update_accounts_def)

text \<open>The operations that set the status of an account, or bring it (back) into the table.\<close>

fun sets_status :: "string \<Rightarrow> store_op \<Rightarrow> bool" where
  "sets_status aid (UpdateStatus a s t) \<longleftrightarrow> a = aid"
| "sets_status aid (UpdateAccount a n s f) \<longleftrightarrow> a = aid \<and> s \<noteq> None"
| "sets_status aid (CreateAccount a h) \<longleftrightarrow> a_id a = aid"
| "sets_status aid _ \<longleftrightarrow> False"

lemma committed_disabled:
  "disabled aid db \<Longrightarrow> (\<And>db'. r = Inr db' \<Longrightarrow> disabled aid db') \<Longrightarrow> disabled aid (committed db r)"
  by (cases r) (auto simp: committed_def)

lemma committed_fst_disabled:
  "disabled aid db \<Longrightarrow> (\<And>db' x. r = Inr (db', x) \<Longrightarrow> disabled aid db') \<Longrightarrow> disabled aid (committed_fst db r)"
  by (cases r) (auto simp: committed_fst_def)

lemma disabled_provider:
  assumes "disabled aid db"
  shows "disabled aid (fst (q_update_credential now ct v i ev db))" "disabled aid (fst (q_update_email now em i db))"
    "disabled aid (fst (q_update_details now em qs t i db))" "disabled aid (fst (q_set_quota_error now c t i db))"
    "disabled aid (fst (q_set_usage_allowed now al i db))" "disabled aid (fst (q_reactivate now i t db))"
    "disabled aid (fst (q_record_health_failure now t c t2 i db))" "disabled aid (fst (q_set_reset_credits now s t i db))"
    "disabled aid (fst (q_claim_reset_refresh now t i t2 db))" "disabled aid (fst (q_release_reset_refresh i db))"
  unfolding q_update_credential_def q_update_email_def q_update_details_def q_set_quota_error_def
    q_set_usage_allowed_def q_reactivate_def q_record_health_failure_def q_set_reset_credits_def
    q_claim_reset_refresh_def q_release_reset_refresh_def
  using assms by (intro disabled_update_accounts; simp add: Let_def account_disabled_def account_cooling_down_def
      account_active_def account_exhausted_def)+


lemma disabled_update_rows:
  assumes "disabled aid db" and "\<And>a. P a \<Longrightarrow> ar_id (f a) = ar_id a"
    and "\<And>a. P a \<Longrightarrow> ar_id a = aid \<Longrightarrow> ar_status a = account_disabled \<Longrightarrow> ar_status (f a) = account_disabled"
  shows "disabled aid (db\<lparr>t_accounts := update_rows P f (t_accounts db)\<rparr>)"
  by (rule disabled_update [OF assms(1) _ assms(2,3)]) simp_all

lemma disabled_status_queries:
  assumes d: "disabled aid db"
  shows "q_update_account now n None f i db = Inr (db', c) \<Longrightarrow> disabled aid db'"
    and "i \<noteq> aid \<Longrightarrow> q_update_account now n s f i db = Inr (db', c) \<Longrightarrow> disabled aid db'"
    and "i \<noteq> aid \<Longrightarrow> q_update_status now st t i db = Inr (db', c) \<Longrightarrow> disabled aid db'"
    and "q_set_health now h t3 cd t2 i db = Inr (db', c) \<Longrightarrow> disabled aid db'"
    and "ar_id r \<noteq> aid \<Longrightarrow> q_create_account now r em qe h he db = Inr db' \<Longrightarrow> disabled aid db'"
    and "disabled aid (fst (q_delete_account now i db))"
    and "disabled aid (fst (q_claim_health_checks now t2 t3 m db))"
    and "disabled aid (q_record_success now t2 k i db)"
  subgoal by (auto simp: q_update_account_def coalesce_def prod_eq_iff split: if_splits intro!: disabled_update_accounts [OF d])
  subgoal by (auto simp: q_update_account_def by_id_def prod_eq_iff split: if_splits intro!: disabled_update_accounts [OF d])
  subgoal by (auto simp: q_update_status_def by_id_def prod_eq_iff split: if_splits intro!: disabled_update_accounts [OF d])
  subgoal by (auto simp: q_set_health_def prod_eq_iff split: if_splits intro!: disabled_update_accounts [OF d])
  subgoal using d by (auto simp: q_create_account_def disabled_def Let_def split: if_splits)
  subgoal using d by (auto simp: q_delete_account_def disabled_def)
  subgoal unfolding q_claim_health_checks_def Let_def fst_conv
    using d by (rule disabled_update_rows) simp_all
  subgoal unfolding q_record_success_def
    by (rule disabled_update [OF d]) (simp, simp_all add: Let_def)
  done

text \<open>The operations that leave the accounts alone.\<close>

lemma add_initial_members_accounts:
  "add_initial_members p ms db = Inr db' \<Longrightarrow> t_accounts db' = t_accounts db"
proof (induction p ms db rule: add_initial_members.induct)
  case (2 pid m ms db)
  then show ?case
    by (auto simp: q_add_initial_pool_account_def wrap_mutation_Inr split: sum.splits if_splits)
qed simp

lemma bookkeeping_accounts:
  shows "create_pool now p db = Inr db' \<Longrightarrow> t_accounts db' = t_accounts db"
    and "update_pool now p db = Inr db' \<Longrightarrow> t_accounts db' = t_accounts db"
    and "add_pool_account now m db = Inr db' \<Longrightarrow> t_accounts db' = t_accounts db"
    and "revoke_api_key now k db = Inr db' \<Longrightarrow> t_accounts db' = t_accounts db"
    and "save_session_binding now k pl h a e db = Inr db' \<Longrightarrow> t_accounts db' = t_accounts db"
    and "audit_event now ac an tt tg r db = Inr db' \<Longrightarrow> t_accounts db' = t_accounts db"
    and "update_settings now st db = Inr db' \<Longrightarrow> t_accounts db' = t_accounts db"
    and "create_admin_session h e db = Inr db' \<Longrightarrow> t_accounts db' = t_accounts db"
    and "revoke_admin_session h ts db = Inr db' \<Longrightarrow> t_accounts db' = t_accounts db"
  subgoal by (auto simp: create_pool_def q_create_pool_def wrapped_Inr split: sum.splits if_splits
        dest: add_initial_members_accounts)
  subgoal by (auto simp: update_pool_def q_update_pool_def wrap_mutation_Inr split: if_splits)
  subgoal by (auto simp: add_pool_account_def q_upsert_pool_account_def q_mark_pool_mixed_def wrap_mutation_Inr
        split: sum.splits if_splits)
  subgoal by (auto simp: revoke_api_key_def q_revoke_api_key_def split: if_splits)
  subgoal by (auto simp: save_session_binding_def q_save_session_def wrapped_Inr Let_def split: if_splits)
  subgoal by (auto simp: audit_event_def q_audit_def)
  subgoal by (auto simp: update_settings_def q_update_settings_def wrap_mutation_Inr split: if_splits)
  subgoal by (auto simp: create_admin_session_def q_create_admin_session_def)
  subgoal by (auto simp: revoke_admin_session_def q_revoke_admin_session_def)
  done

lemma bookkeeping_accounts2:
  shows "create_api_key_and_bind i rnd now k db = Inr (db', a) \<Longrightarrow> t_accounts db' = t_accounts db"
    and "reassign_api_key rnd now kid p ex db = Inr (db', acc) \<Longrightarrow> t_accounts db' = t_accounts db"
    and "patch_settings now u d db = Inr (db', s) \<Longrightarrow> t_accounts db' = t_accounts db"
    and "allow_api_key_request kid n now db = Inr (db', b) \<Longrightarrow> t_accounts db' = t_accounts db"
  subgoal by (auto simp: create_api_key_and_bind_def q_create_employee_def q_create_api_key_def q_bind_api_key_def
        wrapped_Inr Let_def split: sum.splits if_splits)
  subgoal by (auto simp: reassign_api_key_def q_reassign_api_key_def wrapped_Inr split: sum.splits if_splits)
  subgoal by (auto simp: patch_settings_def q_update_settings_def wrap_mutation_Inr split: sum.splits if_splits)
  subgoal by (auto simp: allow_api_key_request_def q_allow_request_def wrapped_Inr Let_def
        split: if_splits option.splits)
  done

lemma usage_accounts: "add_usage now k h m ts i c db = Inr db' \<Longrightarrow> t_accounts db' = t_accounts db"
  by (auto simp: add_usage_def q_dedup_event_def q_add_usage_def q_update_key_activity_def wrapped_Inr Let_def
      split: sum.splits if_splits)

lemma login_accounts: "t_accounts (fst (record_admin_login ss v now db)) = t_accounts db"
proof -
  have "t_accounts (fold (\<lambda>key. q_record_login_failure key now) ks d) = t_accounts d" for ks d
    by (induction ks arbitrary: d) (simp_all add: q_record_login_failure_def)
  then show ?thesis by (simp add: record_admin_login_def q_clear_login_failures_def Let_def)
qed

lemma disabled_account_ops:
  assumes d: "disabled aid db"
  shows "a_id ac \<noteq> aid \<Longrightarrow> create_provider_account now ac h db = Inr db' \<Longrightarrow> disabled aid db'"
    and "update_provider_details now a em qs t db = Inr db' \<Longrightarrow> disabled aid db'"
    and "set_provider_quota_error now a c t db = Inr db' \<Longrightarrow> disabled aid db'"
    and "set_reset_credits now a s t db = Inr db' \<Longrightarrow> disabled aid db'"
    and "release_reset_refresh a db = Inr db' \<Longrightarrow> disabled aid db'"
    and "a \<noteq> aid \<or> st = None \<Longrightarrow> update_provider_account now a nm st f db = Inr db' \<Longrightarrow> disabled aid db'"
    and "a \<noteq> aid \<Longrightarrow> update_provider_status now a s t' db = Inr db' \<Longrightarrow> disabled aid db'"
    and "set_usage_allowed now a b db = Inr db' \<Longrightarrow> disabled aid db'"
    and "set_provider_health now a s c t t2 db = Inr db' \<Longrightarrow> disabled aid db'"
    and "record_health_failure now a c t t2 db = Inr db' \<Longrightarrow> disabled aid db'"
    and "delete_provider_account now a db = Inr db' \<Longrightarrow> disabled aid db'"
    and "record_request_success now a k t db = Inr db' \<Longrightarrow> disabled aid db'"
  unfolding create_provider_account_def update_provider_details_def set_provider_quota_error_def
    set_reset_credits_def release_reset_refresh_def update_provider_account_def update_provider_status_def
    set_usage_allowed_def set_provider_health_def record_health_failure_def record_request_success_def
    wrapped_Inr wrap_mutation_Inr
  subgoal by (drule disabled_status_queries(5) [OF d, rotated]) simp_all
  subgoal using disabled_provider(2,3) [OF d] by (auto simp: prod_eq_iff split: if_splits)
  subgoal using disabled_provider(4) [OF d] by (auto simp: prod_eq_iff)
  subgoal using disabled_provider(8) [OF d] by (auto simp: prod_eq_iff)
  subgoal using disabled_provider(10) [OF d] by (auto simp: prod_eq_iff)
  subgoal using disabled_status_queries(1,2) [OF d] by blast
  subgoal using disabled_status_queries(3) [OF d] by blast
  subgoal using disabled_provider(5) [OF d] by (auto simp: prod_eq_iff)
  subgoal using disabled_status_queries(4) [OF d] by blast
  subgoal using disabled_provider(7) [OF d] by (auto simp: prod_eq_iff)
  subgoal using disabled_status_queries(6) [OF d, of now a]
    by (auto simp: delete_provider_account_def split: sum.splits prod.splits if_splits)
  subgoal using disabled_status_queries(8) [OF d] by auto
  done

lemma disabled_claims:
  assumes d: "disabled aid db"
  shows "disabled aid (fst (claim_reset_refresh now a t t2 db))"
    and "disabled aid (fst (update_credential_cas now a ev ct v db))"
    and "disabled aid (fst (reactivate_if_cooldown_expired now a t db))"
    and "disabled aid (fst (claim_health_checks now n t t2 db))"
  using disabled_provider [OF d] disabled_status_queries [OF d]
  by (simp_all add: claim_reset_refresh_def update_credential_cas_def reactivate_if_cooldown_expired_def
      claim_health_checks_def case_prod_beta)

lemmas disabled_others = bookkeeping_accounts [THEN disabled_same [rotated]]
  bookkeeping_accounts2 [THEN disabled_same [rotated]] usage_accounts [THEN disabled_same [rotated]]

lemma disabled_login: "disabled aid db \<Longrightarrow> disabled aid (fst (record_admin_login ss v now db))"
  by (erule disabled_same) (rule login_accounts)

lemma disabled_step:
  "disabled aid db \<Longrightarrow> \<not> sets_status aid op \<Longrightarrow> disabled aid (run_op now op db)"
  by (cases op; simp only: run_op.simps sets_status.simps;
      (rule disabled_login disabled_claims committed_disabled committed_fst_disabled;
        (assumption | erule (1) disabled_others disabled_account_ops(2,3,4,5,8,9,10,11,12)
          | (rule disabled_account_ops(1,6,7) [rotated 2], assumption, assumption, blast)))+)


fun run_ops :: "(time \<times> store_op) list \<Rightarrow> db \<Rightarrow> db" where
  "run_ops [] db = db"
| "run_ops ((now, op) # ops) db = run_ops ops (run_op now op db)"

lemma disabled_run:
  "disabled aid db \<Longrightarrow> \<forall>e \<in> set ops. \<not> sets_status aid (snd e) \<Longrightarrow> disabled aid (run_ops ops db)"
proof (induction ops db rule: run_ops.induct)
  case (2 now op ops db)
  then show ?case by (simp add: disabled_step)
qed simp

lemma disabled_not_chosen:
  assumes "disabled aid db"
  shows "choose_account rnd now pid excluded db \<noteq> Inr aid"
proof
  assume "choose_account rnd now pid excluded db = Inr aid"
  then obtain a m where "can_serve db now pid excluded a m" "ar_id a = aid"
    using choose_account_Inr by blast
  then show False using assms
    by (auto simp: can_serve_def routable_def disabled_def account_disabled_def account_active_def
        account_cooling_down_def)
qed

text \<open>C15. A disabled account is out of use until an operation names a status for it: whatever else
  happens, in whatever order (requests that succeed on it, rotated credentials, health checks,
  usage reports, changes to pools, keys and settings), it stays disabled, and no key is bound to it.\<close>

theorem disabled_stays_out:
  assumes "disabled aid db" and "\<forall>e \<in> set ops. \<not> sets_status aid (snd e)"
  shows "disabled aid (run_ops ops db) \<and> choose_account rnd now pid excluded (run_ops ops db) \<noteq> Inr aid"
  using disabled_run [OF assms] disabled_not_chosen by blast

definition disabled_db :: db where
  "disabled_db = sample_db\<lparr>t_accounts := [(sample_account ''a'')\<lparr>ar_status := account_disabled\<rparr>]\<rparr>"

lemma disabled_stays_out_witness:
  "choose_account (\<lambda>_. 0) 5 ''p'' []
     (run_ops [(3, RequestSuccess ''a'' ''k'' 3), (4, UpdateCredential ''a'' 1 ''new'' 2)] disabled_db) \<noteq> Inr ''a''"
  using disabled_stays_out [of "''a''" disabled_db
      "[(3, RequestSuccess ''a'' ''k'' 3), (4, UpdateCredential ''a'' 1 ''new'' 2)]" "\<lambda>_. 0" 5 "''p''" "[]"]
  by (simp add: disabled_def disabled_db_def)

section \<open>Reports that arrive late\<close>

text \<open>C16. \<open>UpdateProviderStatus\<close> does not look at the status it replaces. A request that was under way when
  an administrator disabled its account, and that the provider then answers with \<open>429\<close>, reports the
  account as cooling down; when the cooldown is over the health check makes it active again.\<close>

theorem late_report_reenables:
  assumes "t_accounts db = [a]" and "ar_status a = account_disabled" and "retry_at \<le> later"
  shows "\<exists>db1 db2 b. update_provider_status now (ar_id a) account_cooling_down (Some retry_at) db = Inr db1
    \<and> reactivate_if_cooldown_expired later (ar_id a) later db1 = (db2, True)
    \<and> t_accounts db2 = [b] \<and> ar_id b = ar_id a \<and> ar_status b = account_active
    \<and> ar_health b = health_healthy"
  using assms
  by (simp add: update_provider_status_def q_update_status_def update_accounts_def by_id_def statuses_def
      reactivate_if_cooldown_expired_def q_reactivate_def account_cooling_down_def account_auth_failed_def
      account_active_def)

lemma late_report_reenables_witness:
  "\<exists>db1 db2 b. update_provider_status 10 ''a'' account_cooling_down (Some 20) disabled_db = Inr db1
    \<and> reactivate_if_cooldown_expired 30 ''a'' 30 db1 = (db2, True)
    \<and> t_accounts db2 = [b] \<and> ar_status b = account_active"
  using late_report_reenables [of disabled_db "(sample_account ''a'')\<lparr>ar_status := account_disabled\<rparr>" 20 30 10]
  by (auto simp: disabled_db_def sample_simps)

section \<open>Health checks\<close>

text \<open>Checks of an account that failed, one after the other, each with its time and error code.\<close>

fun failed_checks :: "string \<Rightarrow> (time \<times> string \<times> time) list \<Rightarrow> db \<Rightarrow> db" where
  "failed_checks aid [] db = db"
| "failed_checks aid ((now, code, due) # cs) db =
     failed_checks aid cs (committed db (record_health_failure now aid code now due db))"

definition unhealthy :: "string \<Rightarrow> db \<Rightarrow> bool" where
  "unhealthy aid db \<longleftrightarrow> (\<forall>a \<in> set (t_accounts db). ar_id a = aid \<longrightarrow> ar_health a = health_unhealthy)"

definition failed_row :: "time \<Rightarrow> string \<Rightarrow> time \<Rightarrow> account_row \<Rightarrow> account_row" where
  "failed_row now code due a = a\<lparr>ar_failures := ar_failures a + 1,
     ar_health := (if ar_failures a + 1 \<ge> 3 then health_unhealthy else ar_health a),
     ar_checked_at := Some now, ar_health_error := Some code, ar_next_check := Some due, ar_updated := now\<rparr>"

lemma record_failure_accounts:
  "t_accounts (committed db (record_health_failure now aid code now due db))
    = update_rows (by_id aid) (failed_row now code due) (t_accounts db)"
proof -
  have "count_if (by_id aid) rows = 0 \<Longrightarrow> update_rows (by_id aid) f rows = rows" for rows :: "account_row list" and f
    by (induction rows) (auto split: if_splits)
  then show ?thesis
    by (simp add: record_health_failure_def q_record_health_failure_def update_accounts_def committed_def
        failed_row_def [abs_def])
qed

lemma failed_checks_count:
  assumes "\<forall>a \<in> set (t_accounts db). ar_id a = aid \<longrightarrow>
      n \<le> ar_failures a \<and> (3 \<le> ar_failures a \<longrightarrow> ar_health a = health_unhealthy \<or> m = (0 :: int))"
    and "3 \<le> n + int (length cs)" and "m = 0 \<longrightarrow> cs \<noteq> []"
  shows "unhealthy aid (failed_checks aid cs db)"
  using assms
proof (induction aid cs db arbitrary: n m rule: failed_checks.induct)
  case (1 aid db)
  then show ?case by (auto simp: unhealthy_def)
next
  case (2 aid now code due cs db)
  show ?case
    unfolding failed_checks.simps
  proof (rule "2.IH" [of "n + 1" 1])
    show "\<forall>a \<in> set (t_accounts (committed db (record_health_failure now aid code now due db))). ar_id a = aid \<longrightarrow>
      n + 1 \<le> ar_failures a \<and> (3 \<le> ar_failures a \<longrightarrow> ar_health a = health_unhealthy \<or> (1 :: int) = 0)"
    proof (intro ballI impI)
      fix b assume b: "b \<in> set (t_accounts (committed db (record_health_failure now aid code now due db)))"
        and id: "ar_id b = aid"
      from b [unfolded record_failure_accounts] have "ar_id b = aid \<longrightarrow>
          n + 1 \<le> ar_failures b \<and> (3 \<le> ar_failures b \<longrightarrow> ar_health b = health_unhealthy)"
      proof (rule update_rows_all)
        fix r assume "r \<in> set (t_accounts db)" "by_id aid r"
        then show "ar_id (failed_row now code due r) = aid \<longrightarrow> n + 1 \<le> ar_failures (failed_row now code due r)
            \<and> (3 \<le> ar_failures (failed_row now code due r) \<longrightarrow>
                 ar_health (failed_row now code due r) = health_unhealthy)"
          using "2.prems"(1) by (simp add: failed_row_def by_id_def)
      next
        fix r assume "\<not> by_id aid r"
        then show "ar_id r = aid \<longrightarrow> n + 1 \<le> ar_failures r \<and> (3 \<le> ar_failures r \<longrightarrow> ar_health r = health_unhealthy)"
          by (simp add: by_id_def)
      qed
      then show "n + 1 \<le> ar_failures b \<and> (3 \<le> ar_failures b \<longrightarrow> ar_health b = health_unhealthy \<or> (1 :: int) = 0)"
        using id by simp
    qed
  qed (use "2.prems" in auto)
qed

text \<open>Three failed checks in a row take an account out of use: from the third on it is unhealthy, and
  no key is bound to it, whatever its status.\<close>

theorem three_failures_unroutable:
  assumes "db_ok db" and "3 \<le> length cs"
  shows "unhealthy aid (failed_checks aid cs db)
    \<and> choose_account rnd now pid excluded (failed_checks aid cs db) \<noteq> Inr aid"
proof -
  have "\<forall>a \<in> set (t_accounts db). ar_id a = aid \<longrightarrow>
      0 \<le> ar_failures a \<and> (3 \<le> ar_failures a \<longrightarrow> ar_health a = health_unhealthy \<or> (0 :: int) = 0)"
    using assms(1) by (auto simp: account_ok_def dest!: db_okD(11))
  then have u: "unhealthy aid (failed_checks aid cs db)"
    by (rule failed_checks_count) (use assms(2) in auto)
  moreover have "choose_account rnd now pid excluded (failed_checks aid cs db) \<noteq> Inr aid"
  proof
    assume "choose_account rnd now pid excluded (failed_checks aid cs db) = Inr aid"
    then obtain a m where "can_serve (failed_checks aid cs db) now pid excluded a m" "ar_id a = aid"
      using choose_account_Inr by blast
    then show False using u by (auto simp: can_serve_def routable_def unhealthy_def health_unhealthy_def)
  qed
  ultimately show ?thesis by blast
qed


lemma three_failures_unroutable_witness:
  "choose_account (\<lambda>_. 0) 9 ''p'' [] (failed_checks ''a'' [(1, ''x'', 2), (3, ''x'', 4), (5, ''y'', 6)] sample_db)
    \<noteq> Inr ''a''"
  using three_failures_unroutable [OF sample_db_ok, of "[(1, ''x'', 2), (3, ''x'', 4), (5, ''y'', 6)]" "''a''"]
  by simp

end
