(* ===== verification/Quota.thy ===== *)
theory Quota
  imports Json Store
begin

text \<open>
  Usage snapshots of Codex accounts (\<open>internal/provider/codex/usage.go\<close>) and the choice between
  accounts by the quota they have left (\<open>internal/store/quota_routing.go\<close>). A \<open>float64\<close> is the
  rational it stands for, and a result is rounded with \<open>float64\<close>; JSON has no NaN and no infinities,
  and the infinite load the search starts with is \<open>None\<close>.
\<close>

section \<open>Usage snapshots\<close>

record usage_window =
  uw_used :: rat
  uw_remaining :: rat
  uw_seconds :: int
  uw_reset :: int

record credits_snapshot =
  cs_has :: bool
  cs_unlimited :: bool
  cs_balance :: "string option"

record usage_snapshot =
  us_plan :: string
  us_allowed :: "bool option"
  us_reason :: string
  us_five_hour :: "usage_window option"
  us_weekly :: "usage_window option"
  us_credits :: "credits_snapshot option"

definition zero_window :: usage_window where
  "zero_window = \<lparr>uw_used = 0, uw_remaining = 0, uw_seconds = 0, uw_reset = 0\<rparr>"

definition zero_credits :: credits_snapshot where
  "zero_credits = \<lparr>cs_has = False, cs_unlimited = False, cs_balance = None\<rparr>"

definition store_window :: "json \<Rightarrow> usage_window \<Rightarrow> usage_window option" where
  "store_window v w =
     (case struct_members v of
        None \<Rightarrow> None
      | Some ms \<Rightarrow>
          (case (decode_field store_float (field_vals ''used_percent'' ms) (uw_used w),
                 decode_field store_float (field_vals ''remaining_percent'' ms) (uw_remaining w),
                 decode_field store_int64 (field_vals ''window_seconds'' ms) (uw_seconds w),
                 decode_field store_int64 (field_vals ''reset_at'' ms) (uw_reset w)) of
             (Some u, Some r, Some s, Some t) \<Rightarrow>
               Some \<lparr>uw_used = u, uw_remaining = r, uw_seconds = s, uw_reset = t\<rparr>
           | _ \<Rightarrow> None))"

definition store_credits :: "json \<Rightarrow> credits_snapshot \<Rightarrow> credits_snapshot option" where
  "store_credits v c =
     (case struct_members v of
        None \<Rightarrow> None
      | Some ms \<Rightarrow>
          (case (decode_field store_bool (field_vals ''has_credits'' ms) (cs_has c),
                 decode_field store_bool (field_vals ''unlimited'' ms) (cs_unlimited c),
                 if field_vals ''balance'' ms = [] then Some (cs_balance c)
                 else decode_ptr store_string [] (field_vals ''balance'' ms)) of
             (Some h, Some u, Some b) \<Rightarrow> Some \<lparr>cs_has = h, cs_unlimited = u, cs_balance = b\<rparr>
           | _ \<Rightarrow> None))"

definition decode_snapshot :: "string \<Rightarrow> usage_snapshot option" where
  "decode_snapshot data =
     (case json_parse data of
        None \<Rightarrow> None
      | Some v \<Rightarrow>
          (case struct_members v of
             None \<Rightarrow> None
           | Some ms \<Rightarrow>
               (case (str_field ''plan_type'' ms,
                      decode_ptr store_bool False (field_vals ''usage_allowed'' ms),
                      str_field ''limit_reason'' ms,
                      decode_ptr store_window zero_window (field_vals ''five_hour'' ms),
                      decode_ptr store_window zero_window (field_vals ''weekly'' ms),
                      decode_ptr store_credits zero_credits (field_vals ''credits'' ms)) of
                  (Some p, Some a, Some r, Some f, Some w, Some c) \<Rightarrow>
                    Some \<lparr>us_plan = p, us_allowed = a, us_reason = r, us_five_hour = f,
                          us_weekly = w, us_credits = c\<rparr>
                | _ \<Rightarrow> None)))"

definition usage_window_blocked :: "usage_window option \<Rightarrow> time \<Rightarrow> bool" where
  "usage_window_blocked window now \<longleftrightarrow>
     (case window of
        None \<Rightarrow> False
      | Some w \<Rightarrow> \<not> uw_used w < 100 \<and> (uw_reset w \<le> 0 \<or> unix_seconds now < uw_reset w))"

definition allows_usage_at :: "usage_snapshot \<Rightarrow> time \<Rightarrow> bool" where
  "allows_usage_at s now \<longleftrightarrow>
     (if us_allowed s = Some False then False
      else \<not> usage_window_blocked (us_five_hour s) now \<and> \<not> usage_window_blocked (us_weekly s) now)"

definition mark_usage_blocked :: "string \<Rightarrow> usage_snapshot \<Rightarrow> usage_snapshot" where
  "mark_usage_blocked reason s = s\<lparr>us_allowed := Some False, us_reason := reason\<rparr>"

definition normalize_usage_window :: "rat \<Rightarrow> int \<Rightarrow> int \<Rightarrow> usage_window" where
  "normalize_usage_window used_percent seconds reset_at =
     (let used = max 0 (min 100 used_percent)
      in \<lparr>uw_used = used, uw_remaining = float64 (100 - used), uw_seconds = seconds, uw_reset = reset_at\<rparr>)"

section \<open>The score of an account\<close>

record score_window =
  sw_used :: "rat option"
  sw_reset :: int

definition store_score_window :: "json \<Rightarrow> score_window \<Rightarrow> score_window option" where
  "store_score_window v w =
     (case struct_members v of
        None \<Rightarrow> None
      | Some ms \<Rightarrow>
          (case (if field_vals ''used_percent'' ms = [] then Some (sw_used w)
                 else decode_ptr store_float 0 (field_vals ''used_percent'' ms),
                 decode_field store_int64 (field_vals ''reset_at'' ms) (sw_reset w)) of
             (Some u, Some t) \<Rightarrow> Some \<lparr>sw_used = u, sw_reset = t\<rparr>
           | _ \<Rightarrow> None))"

record score_quota =
  sq_plan :: string
  sq_allowed :: "bool option"
  sq_five_hour :: "score_window option"
  sq_weekly :: "score_window option"

definition decode_score_quota :: "string \<Rightarrow> score_quota option" where
  "decode_score_quota data =
     (case json_parse data of
        None \<Rightarrow> None
      | Some v \<Rightarrow>
          (case struct_members v of
             None \<Rightarrow> None
           | Some ms \<Rightarrow>
               (case (str_field ''plan_type'' ms,
                      decode_ptr store_bool False (field_vals ''usage_allowed'' ms),
                      decode_ptr store_score_window \<lparr>sw_used = None, sw_reset = 0\<rparr> (field_vals ''five_hour'' ms),
                      decode_ptr store_score_window \<lparr>sw_used = None, sw_reset = 0\<rparr> (field_vals ''weekly'' ms)) of
                  (Some p, Some a, Some f, Some w) \<Rightarrow>
                    Some \<lparr>sq_plan = p, sq_allowed = a, sq_five_hour = f, sq_weekly = w\<rparr>
                | _ \<Rightarrow> None)))"

definition quota_margin :: rat where "quota_margin = 5"
definition quota_max_age :: duration where "quota_max_age = 15 * minute"

text \<open>The loop over the two windows: the score so far and the number of windows seen, or \<open>None\<close> when a
  window makes the quota unusable.\<close>

fun window_score :: "time \<Rightarrow> score_window option list \<Rightarrow> rat \<times> nat \<Rightarrow> (rat \<times> nat) option" where
  "window_score now [] acc = Some acc"
| "window_score now (None # ws) acc = window_score now ws acc"
| "window_score now (Some w # ws) (score, n) =
     (case sw_used w of
        None \<Rightarrow> None
      | Some used \<Rightarrow>
          (if sw_reset w \<le> unix_seconds now \<or> used < 0 \<or> 100 \<le> used then None
           else window_score now ws (min score (float64 (100 - used)), n + 1)))"

definition quota_score :: "string \<Rightarrow> time option \<Rightarrow> string \<Rightarrow> time \<Rightarrow> (rat \<times> string) option" where
  "quota_score raw checked quota_error now =
     (case checked of
        None \<Rightarrow> None
      | Some c \<Rightarrow>
          (if now < c \<or> quota_max_age < now - c \<or> quota_error \<noteq> [] then None
           else
             (case decode_score_quota raw of
                None \<Rightarrow> None
              | Some q \<Rightarrow>
                  (if sq_plan q = [] \<or> sq_allowed q = Some False then None
                   else
                     (case window_score now [sq_five_hour q, sq_weekly q] (100, 0) of
                        None \<Rightarrow> None
                      | Some (score, n) \<Rightarrow> (if n = 0 then None else Some (score, sq_plan q)))))))"

section \<open>The choice\<close>

definition candidate_score :: "time \<Rightarrow> quota_candidate \<Rightarrow> (rat \<times> string) option" where
  "candidate_score now c = quota_score (qc_snapshot c) (qc_checked c) (qc_error c) now"

record current_quota =
  cq_score :: "(rat \<times> string) option"
  cq_priority :: int

text \<open>What the first loop finds out about the current account; the zero values when it is not among the
  candidates.\<close>

definition find_current :: "time \<Rightarrow> string \<Rightarrow> quota_candidate list \<Rightarrow> current_quota" where
  "find_current now current cs =
     fold (\<lambda>c cur. if qc_id c = current then \<lparr>cq_score = candidate_score now c, cq_priority = qc_priority c\<rparr>
                   else cur) cs \<lparr>cq_score = None, cq_priority = 0\<rparr>"

record best_choice =
  bc_selected :: string
  bc_score :: rat
  bc_priority :: int
  bc_load :: "rat option"

definition candidate_load :: "quota_candidate \<Rightarrow> rat" where
  "candidate_load c = float64 (of_int (qc_bound c) / max 1 (of_int (qc_weight c)))"

definition below_load :: "rat \<Rightarrow> rat option \<Rightarrow> bool" where
  "below_load l best \<longleftrightarrow> (case best of None \<Rightarrow> True | Some b \<Rightarrow> l < b)"

text \<open>The body of the second loop.\<close>

definition consider_candidate ::
  "(string \<Rightarrow> bool) \<Rightarrow> time \<Rightarrow> string \<Rightarrow> current_quota \<Rightarrow> quota_candidate \<Rightarrow> best_choice \<Rightarrow> best_choice" where
  "consider_candidate capacity now current cur c best =
     (if qc_id c = current then best
      else
        (case candidate_score now c of
           None \<Rightarrow> best
         | Some (score, plan) \<Rightarrow>
             (if bc_priority best < qc_priority c then best
              else if qc_priority c = cq_priority cur
                      \<and> (case cq_score cur of
                           None \<Rightarrow> True
                         | Some (s, p) \<Rightarrow> plan \<noteq> p \<or> score \<le> float64 (s + quota_margin)) then best
              else if \<not> capacity (qc_id c) then best
              else
                let l = candidate_load c in
                if qc_priority c < bc_priority best \<or> bc_selected best = current \<or> bc_score best < score
                   \<or> score = bc_score best \<and> below_load l (bc_load best)
                then \<lparr>bc_selected = qc_id c, bc_score = score, bc_priority = qc_priority c, bc_load = Some l\<rparr>
                else best)))"

definition select_by_quota :: "(string \<Rightarrow> bool) \<Rightarrow> time \<Rightarrow> string \<Rightarrow> quota_candidate list \<Rightarrow> string" where
  "select_by_quota capacity now current cs =
     (let cur = find_current now current cs;
          start = \<lparr>bc_selected = current,
                   bc_score = (case cq_score cur of None \<Rightarrow> 0 | Some (s, _) \<Rightarrow> s),
                   bc_priority = cq_priority cur, bc_load = None\<rparr>
      in bc_selected (fold (consider_candidate capacity now current cur) cs start))"

text \<open>\<open>PreferQuotaAccount\<close>: the account, the database and whether the binding changed (the counter of
  switches). \<open>clock\<close> is the time the process reads, \<open>now\<close> the time of the transaction.\<close>

definition prefer_quota_account ::
  "bool \<Rightarrow> time \<Rightarrow> time \<Rightarrow> key_route \<Rightarrow> db \<Rightarrow> pg_error + (db \<times> account \<times> bool)" where
  "prefer_quota_account enabled clock now route db =
     (if \<not> enabled \<or> a_provider (r_account route) \<noteq> provider_codex then Inr (db, r_account route, False)
      else
        (case q_get_quota_binding now (k_id (r_key route)) (p_id (r_pool route)) db of
           Inl e \<Rightarrow> Inl e
         | Inr current \<Rightarrow>
             let cs = q_quota_candidates now (p_id (r_pool route)) current db;
                 selected = select_by_quota (\<lambda>a. q_has_capacity now a db) clock current cs
             in (case (if selected \<noteq> current then q_reassign_api_key now selected (k_id (r_key route)) db
                       else Inr db) of
                   Inl e \<Rightarrow> Inl e
                 | Inr db' \<Rightarrow>
                     (case q_get_routable selected db' of
                        Inl e \<Rightarrow> Inl e
                      | Inr row \<Rightarrow> Inr (db', route_account row, selected \<noteq> current)))))"

end
