(* ===== verification/Quota_Routing.thy ===== *)
theory Quota_Routing
  imports Quota Store_Integrity Store_Binding
begin

text \<open>
  What the quota routing guarantees: the account it moves a key to is the best of those it may move
  to, and a second look at the same quotas does not move the key again.
\<close>

section \<open>The best candidate\<close>

text \<open>A key may move to another account with a valid quota and room for it, when the pool prefers that
  account (a lower priority number), or when it has the same priority and plan and more than the
  margin of quota left.\<close>

definition may_switch :: "(string \<Rightarrow> bool) \<Rightarrow> time \<Rightarrow> string \<Rightarrow> current_quota \<Rightarrow> quota_candidate \<Rightarrow> bool" where
  "may_switch capacity now current cur c \<longleftrightarrow>
     qc_id c \<noteq> current \<and> capacity (qc_id c) \<and> qc_priority c \<le> cq_priority cur
     \<and> (case candidate_score now c of
          None \<Rightarrow> False
        | Some (score, plan) \<Rightarrow>
            qc_priority c < cq_priority cur
            \<or> (case cq_score cur of
                 None \<Rightarrow> False
               | Some (s, p) \<Rightarrow> plan = p \<and> float64 (s + quota_margin) < score))"

definition score_of :: "time \<Rightarrow> quota_candidate \<Rightarrow> rat" where
  "score_of now c = (case candidate_score now c of None \<Rightarrow> 0 | Some (s, _) \<Rightarrow> s)"

definition quota_rank :: "time \<Rightarrow> quota_candidate \<Rightarrow> int \<times> rat \<times> rat" where
  "quota_rank now c = (qc_priority c, - score_of now c, candidate_load c)"

definition choice_of :: "time \<Rightarrow> quota_candidate \<Rightarrow> best_choice" where
  "choice_of now c = \<lparr>bc_selected = qc_id c, bc_score = score_of now c, bc_priority = qc_priority c,
     bc_load = Some (candidate_load c)\<rparr>"

lemma consider_skip:
  assumes "\<not> may_switch capacity now current cur c" and "bc_priority best \<le> cq_priority cur"
  shows "consider_candidate capacity now current cur c best = best"
  using assms by (auto simp: consider_candidate_def may_switch_def Let_def split: option.splits)

lemma consider_first:
  assumes "may_switch capacity now current cur c"
    and "bc_selected best = current" and "bc_priority best = cq_priority cur"
  shows "consider_candidate capacity now current cur c best = choice_of now c"
  using assms
  by (auto simp: consider_candidate_def may_switch_def choice_of_def score_of_def Let_def split: option.splits)

lemma consider_next:
  assumes "may_switch capacity now current cur c" and "may_switch capacity now current cur b"
  shows "consider_candidate capacity now current cur c (choice_of now b)
    = (if quota_rank now c < quota_rank now b then choice_of now c else choice_of now b)"
  using assms
  by (auto simp: consider_candidate_def may_switch_def choice_of_def score_of_def quota_rank_def below_load_def
      Let_def less_prod_def split: option.splits)

lemma fold_candidates:
  fixes capacity now current cur start
  defines "f \<equiv> consider_candidate capacity now current cur" and "ok \<equiv> may_switch capacity now current cur"
  assumes "bc_selected start = current" and "bc_priority start = cq_priority cur"
  shows "(\<forall>c \<in> set cs. \<not> ok c) \<and> fold f cs start = start
    \<or> (\<exists>b \<in> set cs. ok b \<and> fold f cs start = choice_of now b
          \<and> (\<forall>c \<in> set cs. ok c \<longrightarrow> quota_rank now b \<le> quota_rank now c))"
proof (induction cs rule: rev_induct)
  case (snoc c cs)
  show ?case
  proof (cases "ok c")
    case False
    then have skip: "f c best = best" if "bc_priority best \<le> cq_priority cur" for best
      using that consider_skip unfolding f_def ok_def by blast
    have "bc_priority (fold f cs start) \<le> cq_priority cur"
      using snoc.IH assms(4) by (auto simp: choice_of_def ok_def may_switch_def)
    then show ?thesis using snoc.IH skip False by auto
  next
    case True
    from snoc.IH show ?thesis
    proof (elim disjE conjE bexE)
      assume "\<forall>c \<in> set cs. \<not> ok c" and "fold f cs start = start"
      then show ?thesis using True consider_first assms(3,4) unfolding f_def ok_def by auto
    next
      fix b assume b: "b \<in> set cs" "ok b" "fold f cs start = choice_of now b"
        and least: "\<forall>c \<in> set cs. ok c \<longrightarrow> quota_rank now b \<le> quota_rank now c"
      have "fold f (cs @ [c]) start = (if quota_rank now c < quota_rank now b then choice_of now c else choice_of now b)"
        using b(3) consider_next [of capacity now current cur c b] True b(2) unfolding f_def ok_def by simp
      then show ?thesis using True b least by (cases "quota_rank now c < quota_rank now b") (force, auto)
    qed
  qed
qed simp

lemma select_by_quota_cases:
  fixes capacity now current cs
  defines "ok \<equiv> may_switch capacity now current (find_current now current cs)"
  obtains "\<forall>c \<in> set cs. \<not> ok c" and "select_by_quota capacity now current cs = current"
  | b where "b \<in> set cs" and "ok b" and "select_by_quota capacity now current cs = qc_id b"
      and "\<forall>c \<in> set cs. ok c \<longrightarrow> quota_rank now b \<le> quota_rank now c"
proof -
  let ?cur = "find_current now current cs"
  let ?start = "\<lparr>bc_selected = current, bc_score = (case cq_score ?cur of None \<Rightarrow> 0 | Some (s, _) \<Rightarrow> s),
     bc_priority = cq_priority ?cur, bc_load = None\<rparr>"
  have sel: "select_by_quota capacity now current cs
      = bc_selected (fold (consider_candidate capacity now current ?cur) cs ?start)"
    by (simp add: select_by_quota_def Let_def)
  from fold_candidates [of ?start current ?cur cs capacity now] show thesis
    using that unfolding sel ok_def by (auto simp: choice_of_def)
qed

text \<open>C17. Quota routing keeps the current account unless the key may move, and otherwise moves it to a
  best account: no other account it may move to has a lower priority number, or more quota left at
  the same priority, or the same quota and fewer keys per weight.\<close>

theorem select_by_quota_best:
  "let cur = find_current now current cs;
       ok = may_switch capacity now current cur;
       selected = select_by_quota capacity now current cs
   in if \<exists>c \<in> set cs. ok c
      then \<exists>b \<in> set cs. ok b \<and> selected = qc_id b \<and> (\<forall>c \<in> set cs. ok c \<longrightarrow> quota_rank now b \<le> quota_rank now c)
      else selected = current"
  by (rule select_by_quota_cases [of cs capacity now current]) (auto simp: Let_def)

section \<open>Stability\<close>

text \<open>Rounding keeps the margin.\<close>

lemma pow2_pos: "0 < pow2 e"
  by (simp add: pow2_def)

lemma pow2_le_one: "e \<le> 0 \<Longrightarrow> pow2 e \<le> 1"
  by (auto simp: pow2_def)

lemma float_exp_le:
  assumes "0 < q" and "q < 2 ^ m"
  shows "float_exp q \<le> int m"
proof -
  obtain n d where nd: "quotient_of q = (n, d)" by (cases "quotient_of q")
  have d: "0 < d" using nd by (rule quotient_of_denom_pos)
  have q: "q = of_int n / of_int d" using nd by (rule quotient_of_div)
  have n: "0 < n" using assms(1) d by (simp add: q zero_less_divide_iff)
  let ?e = "bitlen n - bitlen d"
  have "2 ^ nat (bitlen n - 1) \<le> n" using bitlen_bounds [OF n] by simp
  moreover have "of_int n < (2 :: rat) ^ m * of_int d" using assms(2) d by (simp add: q pos_divide_less_eq)
  then have "of_int n < (of_int (2 ^ m * d) :: rat)" by simp
  then have "n < 2 ^ m * d" by linarith
  moreover have "d < 2 ^ nat (bitlen d)" using bitlen_bounds [OF d] by simp
  then have "2 ^ m * d < 2 ^ m * 2 ^ nat (bitlen d)" by simp
  ultimately have "2 ^ nat (bitlen n - 1) < 2 ^ m * (2 :: int) ^ nat (bitlen d)" by linarith
  then have "2 ^ nat (bitlen n - 1) < (2 :: int) ^ (m + nat (bitlen d))" by (simp only: power_add)
  then have "nat (bitlen n - 1) < m + nat (bitlen d)" by (rule power_less_imp_less_exp [rotated]) simp
  then have "?e \<le> int m" using bitlen_nonneg [of d] by linarith
  then show ?thesis by (simp add: float_exp_def nd Let_def)
qed

lemma round_even_ge: "q - 1 / 2 \<le> of_int (round_even q)"
proof -
  have "of_int \<lfloor>q\<rfloor> \<le> q" "q < of_int \<lfloor>q\<rfloor> + 1" by linarith+
  then show ?thesis by (auto simp: round_even_def Let_def)
qed

lemma float64_ge:
  assumes "0 < q" and "q < 2 ^ m" and "m \<le> 50"
  shows "q - 1 \<le> float64 q"
proof -
  let ?u = "pow2 (max (float_exp q) (- 1022) - 52)"
  have u0: "0 < ?u" by (rule pow2_pos)
  have "max (float_exp q) (- 1022) - 52 \<le> 0" using float_exp_le [OF assms(1,2)] assms(3) by linarith
  then have u1: "?u \<le> 1" by (rule pow2_le_one)
  have "(q / ?u - 1 / 2) * ?u \<le> of_int (round_even (q / ?u)) * ?u"
    using u0 round_even_ge by (intro mult_right_mono) auto
  moreover have "(q / ?u - 1 / 2) * ?u = q - ?u / 2" using u0 by (simp add: left_diff_distrib)
  moreover have "float64 q = of_int (round_even (q / ?u)) * ?u" using assms(1) by (simp add: float64_def Let_def)
  ultimately show ?thesis using u1 by linarith
qed


lemma margin_kept: "0 \<le> s \<Longrightarrow> s \<le> 100 \<Longrightarrow> s < float64 (s + quota_margin)"
  using float64_ge [of "s + 5" 7] by (simp add: quota_margin_def)

lemma window_score_range:
  "window_score now ws (score, n) = Some (s, m) \<Longrightarrow> 0 \<le> score \<Longrightarrow> score \<le> 100 \<Longrightarrow> 0 \<le> s \<and> s \<le> 100"
proof (induction now ws "(score, n)" arbitrary: score n rule: window_score.induct)
  case (3 now w ws score n)
  then obtain used where used: "sw_used w = Some used" "0 \<le> used" "used < 100"
    "window_score now ws (min score (float64 (100 - used)), n + 1) = Some (s, m)"
    by (auto split: option.splits if_splits)
  have "0 \<le> float64 (100 - used)"
    using used(3) by (auto simp: float64_def Let_def round_even_def pow2_def intro!: mult_nonneg_nonneg)
  then show ?case using 3 used by (auto split: if_splits)
qed auto

lemma quota_score_range:
  assumes "quota_score raw checked err now = Some (s, p)"
  shows "0 \<le> s \<and> s \<le> 100"
proof (cases checked)
  case c: (Some c)
  show ?thesis
  proof (cases "decode_score_quota raw")
    case q: (Some q)
    show ?thesis
    proof (cases "window_score now [sq_five_hour q, sq_weekly q] (100, 0)")
      case w: (Some sn)
      obtain s' n where sn: "sn = (s', n)" by (cases sn)
      have "s' = s" using assms by (simp add: quota_score_def c q w sn split: if_splits)
      then show ?thesis using window_score_range [of now _ 100 0 s' n] w sn by simp
    qed (use assms in \<open>simp add: quota_score_def c q split: if_splits\<close>)
  qed (use assms in \<open>simp add: quota_score_def c split: if_splits\<close>)
qed (use assms in \<open>simp add: quota_score_def\<close>)

lemma find_current_fold:
  assumes "\<forall>c \<in> set cs. qc_id c = current \<longrightarrow> candidate_score now c = s \<and> qc_priority c = p"
  shows "fold (\<lambda>c cur. if qc_id c = current then \<lparr>cq_score = candidate_score now c, cq_priority = qc_priority c\<rparr>
                else cur) cs cur
    = (if \<exists>c \<in> set cs. qc_id c = current then \<lparr>cq_score = s, cq_priority = p\<rparr> else cur)"
  using assms
proof (induction cs arbitrary: cur)
  case (Cons c cs)
  then show ?case by (cases "qc_id c = current") simp_all
qed simp

lemma find_current_unique:
  assumes "b \<in> set cs" and "qc_id b = current"
    and "\<And>c. c \<in> set cs \<Longrightarrow> qc_id c = current \<Longrightarrow> candidate_score now c = candidate_score now b \<and> qc_priority c = qc_priority b"
  shows "find_current now current cs = \<lparr>cq_score = candidate_score now b, cq_priority = qc_priority b\<rparr>"
proof -
  have "\<forall>c \<in> set cs. qc_id c = current \<longrightarrow> candidate_score now c = candidate_score now b \<and> qc_priority c = qc_priority b"
    using assms(3) by blast
  from find_current_fold [OF this] show ?thesis
    using assms(1,2) unfolding find_current_def by (metis (no_types, lifting))
qed


definition switch_class :: "time \<Rightarrow> account_row \<Rightarrow> account_row \<Rightarrow> bool" where
  "switch_class now a ca \<longleftrightarrow> ar_provider a = provider_codex \<and> ar_provider ca = provider_codex
     \<and> ar_credential_type a = ar_credential_type ca \<and> ar_fast_mode a = ar_fast_mode ca \<and> routable now a"

definition candidate_of :: "time \<Rightarrow> db \<Rightarrow> account_row \<Rightarrow> pool_account \<Rightarrow> quota_candidate" where
  "candidate_of now db a m =
     \<lparr>qc_id = ar_id a, qc_snapshot = ar_quota a, qc_checked = ar_quota_checked a,
      qc_error = coalesce (ar_quota_error a) [], qc_weight = pa_weight m, qc_priority = pa_priority m,
      qc_bound = int (bound_keys db now (ar_id a))\<rparr>"

definition enabled_member :: "db \<Rightarrow> string \<Rightarrow> string \<Rightarrow> pool_account \<Rightarrow> bool" where
  "enabled_member db pid aid m \<longleftrightarrow> m \<in> set (t_pool_accounts db) \<and> member_of pid aid m \<and> pa_enabled m"

lemma quota_candidates_iff:
  "c \<in> set (q_quota_candidates now pid current db) \<longleftrightarrow>
     (\<exists>a m cm ca. a \<in> set (t_accounts db) \<and> ca \<in> set (t_accounts db) \<and> ar_id ca = current
        \<and> enabled_member db pid (ar_id a) m \<and> enabled_member db pid current cm
        \<and> pa_priority m \<le> pa_priority cm \<and> switch_class now a ca \<and> c = candidate_of now db a m)"
  by (auto simp: q_quota_candidates_def switch_class_def candidate_of_def enabled_member_def)

lemma account_unique:
  "db_ok db \<Longrightarrow> a \<in> set (t_accounts db) \<Longrightarrow> b \<in> set (t_accounts db) \<Longrightarrow> ar_id a = ar_id b \<Longrightarrow> a = b"
  using db_okD(1) [of db] by (auto simp: distinct_map dest: inj_onD)

lemma member_unique:
  assumes "db_ok db" and "enabled_member db pid aid m" and "enabled_member db pid aid n"
  shows "m = n"
  using assms db_okD(5) [OF assms(1)] by (auto simp: enabled_member_def member_of_def distinct_map dest: inj_onD)

lemma candidate_unique:
  assumes "db_ok db" and "c \<in> set (q_quota_candidates now pid current db)"
    and "d \<in> set (q_quota_candidates now pid current db)" and "qc_id c = qc_id d"
  shows "c = d"
proof -
  obtain a m where c: "a \<in> set (t_accounts db)" "enabled_member db pid (ar_id a) m" "c = candidate_of now db a m"
    using assms(2) unfolding quota_candidates_iff by blast
  obtain b n where d: "b \<in> set (t_accounts db)" "enabled_member db pid (ar_id b) n" "d = candidate_of now db b n"
    using assms(3) unfolding quota_candidates_iff by blast
  have "ar_id a = ar_id b" using assms(4) c(3) d(3) by (simp add: candidate_of_def)
  then have "a = b" using account_unique [OF assms(1) c(1) d(1)] by simp
  then show ?thesis using member_unique [OF assms(1) c(2)] d(2,3) c(3) by simp
qed

text \<open>After a key moved from the current account to \<open>b\<close>, the candidates are among those there were.\<close>

lemma candidates_after_switch:
  assumes ok: "db_ok db" and b: "b \<in> set (q_quota_candidates now pid current db)"
    and same: "t_accounts db' = t_accounts db" "t_pool_accounts db' = t_pool_accounts db"
  shows "c' \<in> set (q_quota_candidates now pid (qc_id b) db') \<Longrightarrow>
      \<exists>c \<in> set (q_quota_candidates now pid current db). c' = c\<lparr>qc_bound := qc_bound c'\<rparr>
        \<and> qc_priority c \<le> qc_priority b"
    and "\<exists>x. b\<lparr>qc_bound := x\<rparr> \<in> set (q_quota_candidates now pid (qc_id b) db')"
proof -
  obtain ba bm cm ca where b': "ba \<in> set (t_accounts db)" "ca \<in> set (t_accounts db)" "ar_id ca = current"
    "enabled_member db pid (ar_id ba) bm" "enabled_member db pid current cm"
    "pa_priority bm \<le> pa_priority cm" "switch_class now ba ca" "b = candidate_of now db ba bm"
    using b unfolding quota_candidates_iff by blast
  have bid: "qc_id b = ar_id ba" and bp: "qc_priority b = pa_priority bm"
    using b'(8) by (simp_all add: candidate_of_def)
  have em: "enabled_member db' = enabled_member db" by (simp add: enabled_member_def fun_eq_iff same)
  {
    assume "c' \<in> set (q_quota_candidates now pid (qc_id b) db')"
    then obtain a m n cb where c: "a \<in> set (t_accounts db)" "cb \<in> set (t_accounts db)" "ar_id cb = qc_id b"
      "enabled_member db pid (ar_id a) m" "enabled_member db pid (qc_id b) n" "pa_priority m \<le> pa_priority n"
      "switch_class now a cb" "c' = candidate_of now db' a m"
      unfolding quota_candidates_iff em same by blast
    have "n = bm" using member_unique [OF ok c(5)] b'(4) bid by simp
    moreover have "cb = ba" using account_unique [OF ok c(2) b'(1)] c(3) bid by simp
    ultimately have "candidate_of now db a m \<in> set (q_quota_candidates now pid current db)"
      unfolding quota_candidates_iff
      by (intro exI [of _ a] exI [of _ m] exI [of _ cm] exI [of _ ca])
        (use c(1,4,6,7) b'(2,3,5,6,7) in \<open>simp add: switch_class_def\<close>)
    then show "\<exists>c \<in> set (q_quota_candidates now pid current db). c' = c\<lparr>qc_bound := qc_bound c'\<rparr>
        \<and> qc_priority c \<le> qc_priority b"
      using c(6,8) \<open>n = bm\<close> bp by (intro bexI [of _ "candidate_of now db a m"]) (simp_all add: candidate_of_def)
  }
  have "switch_class now ba ba" using b'(7) by (simp add: switch_class_def)
  then have "candidate_of now db' ba bm \<in> set (q_quota_candidates now pid (qc_id b) db')"
    using b'(1,4) bid unfolding quota_candidates_iff em same by auto
  then show "\<exists>x. b\<lparr>qc_bound := x\<rparr> \<in> set (q_quota_candidates now pid (qc_id b) db')"
    using b'(8) by (auto simp: candidate_of_def intro!: exI [of _ "int (bound_keys db' now (ar_id ba))"])
qed


lemma candidate_score_bound: "candidate_score now (c\<lparr>qc_bound := x\<rparr>) = candidate_score now c"
  by (simp add: candidate_score_def)

lemma candidate_score_range: "candidate_score now c = Some (s, p) \<Longrightarrow> 0 \<le> s \<and> s \<le> 100"
  unfolding candidate_score_def by (rule quota_score_range)

text \<open>The current account of a candidate list is found with its own score and priority.\<close>

lemma find_current_candidate:
  assumes "db_ok db" and "c \<in> set (q_quota_candidates now pid current db)" and "qc_id c = current"
  shows "find_current clock current (q_quota_candidates now pid current db)
    = \<lparr>cq_score = candidate_score clock c, cq_priority = qc_priority c\<rparr>"
  using assms(2,3) by (rule find_current_unique) (use candidate_unique [OF assms(1)] assms in metis)

lemma no_switch_back:
  assumes ok: "db_ok db" and ok': "db_ok db'"
    and same: "t_accounts db' = t_accounts db" "t_pool_accounts db' = t_pool_accounts db"
    and cap: "\<And>a. a \<noteq> current \<Longrightarrow> capacity' a \<Longrightarrow> capacity a"
    and sel: "select_by_quota capacity clock current (q_quota_candidates now pid current db) = selected"
    and moved: "selected \<noteq> current"
  shows "select_by_quota capacity' clock selected (q_quota_candidates now pid selected db') = selected"
proof -
  let ?cs = "q_quota_candidates now pid current db" and ?cs' = "q_quota_candidates now pid selected db'"
  let ?cur = "find_current clock current ?cs" and ?cur' = "find_current clock selected ?cs'"
  obtain b where b: "b \<in> set ?cs" "may_switch capacity clock current ?cur b" "selected = qc_id b"
    and least: "\<forall>c \<in> set ?cs. may_switch capacity clock current ?cur c \<longrightarrow> quota_rank clock b \<le> quota_rank clock c"
    using select_by_quota_cases [of ?cs capacity clock current] sel moved by metis
  note after = candidates_after_switch [OF ok b(1) same, folded b(3)]
  obtain x where bx: "b\<lparr>qc_bound := x\<rparr> \<in> set ?cs'" using after(2) by blast
  obtain sb pb where sb: "candidate_score clock b = Some (sb, pb)"
    using b(2) by (auto simp: may_switch_def split: option.splits)
  have cur': "?cur' = \<lparr>cq_score = Some (sb, pb), cq_priority = qc_priority b\<rparr>"
    using find_current_candidate [OF ok' bx, of clock] b(3) sb by (simp add: candidate_score_bound)
  have "\<not> may_switch capacity' clock selected ?cur' c'" if c': "c' \<in> set ?cs'" for c'
  proof
    assume may: "may_switch capacity' clock selected ?cur' c'"
    obtain c where c: "c \<in> set ?cs" "c' = c\<lparr>qc_bound := qc_bound c'\<rparr>" "qc_priority c \<le> qc_priority b"
      using after(1) [OF c'] by blast
    have same_c: "qc_id c' = qc_id c" "qc_priority c' = qc_priority c" "candidate_score clock c' = candidate_score clock c"
      by (subst c(2), simp add: candidate_score_bound)+
    obtain s p where s: "candidate_score clock c = Some (s, p)"
      and gain: "qc_priority c < qc_priority b \<or> p = pb \<and> float64 (sb + quota_margin) < s"
      and new: "capacity' (qc_id c)"
      using may by (auto simp: may_switch_def cur' same_c split: option.splits)
    have more: "sb < s" if "qc_priority c = qc_priority b"
      using gain that margin_kept [of sb] candidate_score_range [OF sb] by auto
    show False
    proof (cases "qc_id c = current")
      case True
      have cur: "?cur = \<lparr>cq_score = Some (s, p), cq_priority = qc_priority c\<rparr>"
        using find_current_candidate [OF ok c(1) True, of clock] s by simp
      then have "qc_priority b = qc_priority c" using b(2) c(3) by (simp add: may_switch_def)
      moreover have "qc_priority b = qc_priority c \<Longrightarrow> float64 (s + quota_margin) < sb"
        using b(2) sb cur by (simp add: may_switch_def)
      ultimately have "s < sb" using margin_kept [of s] candidate_score_range [OF s] by auto
      then show False using more \<open>qc_priority b = qc_priority c\<close> by simp
    next
      case False
      have "may_switch capacity clock current ?cur c"
        unfolding may_switch_def s option.case prod.case
      proof (intro conjI)
        show "qc_id c \<noteq> current" by fact
        show "capacity (qc_id c)" using cap False new by blast
        show le: "qc_priority c \<le> cq_priority ?cur" using b(2) c(3) by (simp add: may_switch_def)
        show "qc_priority c < cq_priority ?cur
            \<or> (case cq_score ?cur of None \<Rightarrow> False | Some (s', p') \<Rightarrow> p = p' \<and> float64 (s' + quota_margin) < s)"
        proof (cases "qc_priority c < cq_priority ?cur")
          case False
          then have eq: "qc_priority c = qc_priority b" "qc_priority b = cq_priority ?cur"
            using le b(2) c(3) by (simp_all add: may_switch_def)
          then obtain s0 where "cq_score ?cur = Some (s0, pb)" "float64 (s0 + quota_margin) < sb"
            using b(2) sb by (auto simp: may_switch_def split: option.splits)
          then show ?thesis using gain eq(1) more by auto
        qed simp
      qed
      then have "quota_rank clock b \<le> quota_rank clock c" using least c(1) by blast
      then show False using gain c(3) more s sb by (auto simp: quota_rank_def score_of_def less_eq_prod_def)
    qed
  qed
  then show ?thesis using select_by_quota_cases [of ?cs' capacity' clock selected] by metis
qed

lemma find_update_rows:
  "(\<And>r. Q r \<Longrightarrow> P (g r) = P r) \<Longrightarrow> find P (update_rows Q g rows)
    = map_option (\<lambda>r. if Q r then g r else r) (find P rows)"
  by (induction rows) auto

lemma count_if_update_ge:
  "(\<And>r. r \<in> set rows \<Longrightarrow> P r \<Longrightarrow> \<not> Q r) \<Longrightarrow> count_if Q rows \<le> count_if Q (update_rows P g rows)"
  by (induction rows) auto

lemma capacity_after_switch:
  assumes ok: "db_ok db" and bnd: "b \<in> set (t_bindings db)" "b_key b = kid" "b_account b = current"
    and other: "a \<noteq> current"
    and more: "q_has_capacity now a (db\<lparr>t_bindings := update_rows (\<lambda>b. b_key b = kid)
      (\<lambda>b. b\<lparr>b_account := selected, b_assigned := t\<rparr>) (t_bindings db)\<rparr>)"
  shows "q_has_capacity now a db"
proof -
  let ?db = "db\<lparr>t_bindings := update_rows (\<lambda>b. b_key b = kid)
      (\<lambda>b. b\<lparr>b_account := selected, b_assigned := t\<rparr>) (t_bindings db)\<rparr>"
  have "b' \<in> set (t_bindings db) \<Longrightarrow> b_key b' = kid \<Longrightarrow> b' = b" for b'
    using db_okD(7) [OF ok] bnd by (auto simp: distinct_map dest: inj_onD)
  then have "\<forall>b' \<in> set (t_bindings db). b_key b' = kid \<longrightarrow> b_account b' \<noteq> a" using bnd(3) other by auto
  then have "count_if (\<lambda>b. b_account b = a \<and> key_is_live db now (b_key b)) (t_bindings db)
      \<le> count_if (\<lambda>b. b_account b = a \<and> key_is_live db now (b_key b)) (t_bindings ?db)"
    by (auto intro!: count_if_update_ge)
  then show ?thesis using more by (simp add: q_has_capacity_def bound_keys_def key_is_live_def)
qed

text \<open>The choice is stable. Right after \<open>PreferQuotaAccount\<close>, whether it moved the key or not, asking
  again with the same quotas at the same time returns the same account and moves nothing: neither
  the margin between two accounts, nor the room a move frees or takes, nor a change to an account
  of another priority or plan makes keys go back and forth.\<close>

theorem prefer_quota_account_stable:
  assumes "db_ok db" and "prefer_quota_account enabled clock now route db = Inr (db', acc, moved)"
  shows "prefer_quota_account enabled clock now route db' = Inr (db', acc, False)"
proof (cases "enabled \<and> a_provider (r_account route) = provider_codex")
  case on: True
  let ?kid = "k_id (r_key route)" and ?pid = "p_id (r_pool route)"
  let ?P = "\<lambda>b. b_key b = ?kid \<and> list_ex (\<lambda>k. kr_id k = ?kid \<and> kr_pool k = ?pid \<and> key_live now k) (t_keys db)"
  obtain current where cur: "q_get_quota_binding now ?kid ?pid db = Inr current"
    using on assms(2) by (auto simp: prefer_quota_account_def split: sum.splits)
  let ?sel = "select_by_quota (\<lambda>a. q_has_capacity now a db) clock current (q_quota_candidates now ?pid current db)"
  define selected where "selected = ?sel"
  have rest: "(case (if selected \<noteq> current then q_reassign_api_key now selected ?kid db else Inr db) of
      Inl e \<Rightarrow> Inl e
    | Inr db' \<Rightarrow> (case q_get_routable selected db' of Inl e \<Rightarrow> Inl e
        | Inr row \<Rightarrow> Inr (db', route_account row, selected \<noteq> current))) = Inr (db', acc, moved)"
    unfolding selected_def using on assms(2) by (simp add: prefer_quota_account_def cur Let_def)
  show ?thesis
  proof (cases "selected = current")
    case True
    then have "db' = db" using rest by (auto split: sum.splits)
    moreover have "moved = False" using True rest by (auto split: sum.splits)
    ultimately show ?thesis using assms(2) by simp
  next
    case False
    let ?g = "\<lambda>b. b\<lparr>b_account := selected, b_assigned := now\<rparr>"
    let ?db = "db\<lparr>t_bindings := update_rows (\<lambda>b. b_key b = ?kid) ?g (t_bindings db)\<rparr>"
    have moves: "q_reassign_api_key now selected ?kid db = Inr db'"
      and row: "\<exists>row. q_get_routable selected db' = Inr row \<and> acc = route_account row"
      using rest False by (auto split: sum.splits)
    have db': "db' = ?db" using moves by (auto simp: q_reassign_api_key_def split: if_splits)
    obtain b where b: "find ?P (t_bindings db) = Some b" "b_account b = current"
      using cur by (auto simp: q_get_quota_binding_def find_row_def split: option.splits sum.splits)
    then have bb: "b \<in> set (t_bindings db)" "b_key b = ?kid" by (auto simp: find_Some_iff)
    have cur': "q_get_quota_binding now ?kid ?pid db' = Inr selected"
      using b(1) bb(2) by (simp add: q_get_quota_binding_def find_row_def db' find_update_rows)
    have ok': "db_ok db'" using assms(1) moves by (rule q_reassign_ok)
    have "select_by_quota (\<lambda>a. q_has_capacity now a db') clock selected (q_quota_candidates now ?pid selected db') = selected"
    proof (rule no_switch_back [OF assms(1) ok'])
      show "t_accounts db' = t_accounts db" "t_pool_accounts db' = t_pool_accounts db" by (simp_all add: db')
      show "q_has_capacity now a db" if "a \<noteq> current" "q_has_capacity now a db'" for a
        using capacity_after_switch [OF assms(1) bb b(2) that(1)] that(2) unfolding db' by blast
      show "select_by_quota (\<lambda>a. q_has_capacity now a db) clock current (q_quota_candidates now ?pid current db) = selected"
        by (simp add: selected_def)
      show "selected \<noteq> current" using False .
    qed
    then show ?thesis using on row by (auto simp: prefer_quota_account_def cur' Let_def)
  qed
qed (use assms in \<open>auto simp: prefer_quota_account_def split: if_splits\<close>)


section \<open>Examples\<close>

definition sample_quota :: "string \<Rightarrow> string" where
  "sample_quota used =
     ''{\"plan_type\":\"plus\",\"weekly\":{\"used_percent\":'' @ used @ '',\"reset_at\":99}}''"

definition sample_members :: "string \<Rightarrow> (string \<times> json) list" where
  "sample_members used = [(''plan_type'', JStr ''plus''),
     (''weekly'', JObj [(''used_percent'', JNum used), (''reset_at'', JNum ''99'')])]"

lemma sample_names:
  "fold_name ''plan_type'' = ''plan_type''" "fold_name ''usage_allowed'' = ''usage_allowed''"
  "fold_name ''five_hour'' = ''five_hour''" "fold_name ''weekly'' = ''weekly''"
  "fold_name ''used_percent'' = ''used_percent''" "fold_name ''reset_at'' = ''reset_at''"
  by (simp_all add: fold_name_ascii lower_char_def del: fold_name.simps)

lemma sample_fields:
  "field_vals ''plan_type'' (sample_members used) = [JStr ''plus'']"
  "field_vals ''usage_allowed'' (sample_members used) = []"
  "field_vals ''five_hour'' (sample_members used) = []"
  "field_vals ''weekly'' (sample_members used) = [JObj [(''used_percent'', JNum used), (''reset_at'', JNum ''99'')]]"
  "field_vals ''used_percent'' [(''used_percent'', JNum used), (''reset_at'', JNum ''99'')] = [JNum used]"
  "field_vals ''reset_at'' [(''used_percent'', JNum used), (''reset_at'', JNum ''99'')] = [JNum ''99'']"
  by (simp_all add: field_vals_def sample_members_def sample_names del: fold_name.simps)

lemma sample_numbers: "num_int64 ''99'' = Some 99" "num_float ''20'' = Some 20" "num_float ''50'' = Some 50"
  subgoal by code_simp
  using float64_int [of 20] float64_int [of 50]
  by (simp_all add: num_float_def scan_sign_def is_digit_def digits_val_def lit_frac_part_def
      lit_exp_part_def pow10_def max_float_def)

lemma quota_sample_parse:
  "json_parse (sample_quota ''20'') = Some (JObj (sample_members ''20''))"
  "json_parse (sample_quota ''50'') = Some (JObj (sample_members ''50''))"
  by code_simp+

lemma sample_score:
  "quota_score (sample_quota ''20'') (Some 0) [] 0 = Some (80, ''plus'')"
  "quota_score (sample_quota ''50'') (Some 0) [] 0 = Some (50, ''plus'')"
  using float64_int [of 80] float64_int [of 50]
  by (simp_all add: quota_score_def decode_score_quota_def quota_sample_parse struct_members_def str_field_def
      sample_fields decode_field_def decode_ptr_def store_string_def store_score_window_def store_float_def
      store_int64_def sample_numbers quota_max_age_def minute_def second_def unix_seconds_def)


definition quota_account :: "string \<Rightarrow> string \<Rightarrow> account_row" where
  "quota_account i used = (sample_account i)\<lparr>ar_quota := sample_quota used, ar_quota_checked := Some 0\<rparr>"

definition quota_db :: db where
  "quota_db = sample_db\<lparr>t_accounts := [quota_account ''a'' ''50'', quota_account ''b'' ''20''],
     t_pool_accounts := [sample_member ''a'', sample_member ''b''], t_employees := [(''e'', ''Ada'')],
     t_keys := [\<lparr>kr_id = ''k'', kr_pool = ''p'', kr_employee = ''e'', kr_hmac = ''m'', kr_hint = [],
       kr_scopes = [], kr_rate_limit = 0, kr_expires = None, kr_revoked = None, kr_last_used = None, kr_created = 0\<rparr>],
     t_bindings := [\<lparr>b_key = ''k'', b_account = ''a'', b_assigned = 0\<rparr>]\<rparr>"

definition quota_candidate_of :: "string \<Rightarrow> string \<Rightarrow> int \<Rightarrow> quota_candidate" where
  "quota_candidate_of i used n = \<lparr>qc_id = i, qc_snapshot = sample_quota used, qc_checked = Some 0, qc_error = [],
     qc_weight = 1, qc_priority = 0, qc_bound = n\<rparr>"

lemma quota_sample_candidates:
  "q_quota_candidates 0 ''p'' ''a'' quota_db = [quota_candidate_of ''a'' ''50'' 1, quota_candidate_of ''b'' ''20'' 0]"
  by (simp add: q_quota_candidates_def quota_db_def quota_account_def sample_account_def sample_member_def sample_db_def
     quota_candidate_of_def bound_keys_def key_is_live_def key_live_def member_of_def routable_def coalesce_def
     domain_consts)

lemma sample_select:
  "select_by_quota capacity 0 ''a'' [quota_candidate_of ''a'' ''50'' 1, quota_candidate_of ''b'' ''20'' 0]
    = (if capacity ''b'' then ''b'' else ''a'')"
  using float64_int [of 55]
  by (simp add: select_by_quota_def find_current_def consider_candidate_def candidate_score_def sample_score Let_def
      quota_candidate_of_def quota_margin_def below_load_def)

lemma select_by_quota_best_witness:
  "may_switch (\<lambda>_. True) 0 ''a''
     (find_current 0 ''a'' [quota_candidate_of ''a'' ''50'' 1, quota_candidate_of ''b'' ''20'' 0])
     (quota_candidate_of ''b'' ''20'' 0)"
proof -
  let ?cs = "[quota_candidate_of ''a'' ''50'' 1, quota_candidate_of ''b'' ''20'' 0]"
  have "select_by_quota (\<lambda>_. True) 0 ''a'' ?cs = ''b''" by (simp add: sample_select)
  then show ?thesis
    using select_by_quota_best [of 0 "''a''" ?cs "\<lambda>_. True"]
    by (auto simp: Let_def quota_candidate_of_def split: if_splits)
qed

definition quota_route :: key_route where
  "quota_route = \<lparr>r_key = \<lparr>k_id = ''k'', k_pool = ''p'', k_account = [], k_employee = ''e'', k_employee_name = [],
       k_hmac = [], k_hint = [], k_scopes = [], k_rate_limit = 0, k_expires = None, k_revoked = None,
       k_last_used = None, k_created = 0\<rparr>,
     r_pool = \<lparr>p_id = ''p'', p_name = [], p_provider = provider_codex, p_accounts = [], p_created = 0, p_updated = 0\<rparr>,
     r_account = route_account (quota_account ''a'' ''50''), r_membership = True\<rparr>"

lemma quota_db_ok: "db_ok quota_db"
  by (simp add: quota_db_def db_ok_defs sample_db_def quota_account_def sample_account_def
      sample_member_def account_ok_def statuses_def healths_def account_providers_def pool_providers_def settings_check_def
      blank_def domain_consts)

lemma quota_route_simps:
  "k_id (r_key quota_route) = ''k''" "p_id (r_pool quota_route) = ''p''"
  "a_provider (r_account quota_route) = provider_codex"
  by (simp_all add: quota_route_def route_account_def quota_account_def sample_account_def no_account_def)

lemma sample_prefer:
  "\<exists>db'. prefer_quota_account True 0 0 quota_route quota_db
    = Inr (db', route_account (quota_account ''b'' ''20''), True)"
proof -
  have "q_has_capacity 0 ''b'' quota_db"
    by (simp add: q_has_capacity_def bound_keys_def quota_db_def sample_db_def)
  then have sel: "select_by_quota (\<lambda>a. q_has_capacity 0 a quota_db) 0 ''a''
      (q_quota_candidates 0 ''p'' ''a'' quota_db) = ''b''"
    by (simp add: quota_sample_candidates sample_select)
  have cur: "q_get_quota_binding 0 ''k'' ''p'' quota_db = Inr ''a''"
    by (simp add: q_get_quota_binding_def find_row_def quota_db_def key_live_def)
  obtain db1 where db1: "q_reassign_api_key 0 ''b'' ''k'' quota_db = Inr db1" "t_accounts db1 = t_accounts quota_db"
    by (simp add: q_reassign_api_key_def account_ids_def quota_db_def quota_account_def sample_account_def)
  then have "q_get_routable ''b'' db1 = Inr (quota_account ''b'' ''20'')"
    by (simp add: q_get_routable_def find_row_def quota_db_def quota_account_def sample_account_def)
  then show ?thesis
    by (simp add: prefer_quota_account_def quota_route_simps cur sel db1 Let_def)
qed

theorem prefer_quota_account_stable_witness:
  "\<exists>db'. prefer_quota_account True 0 0 quota_route db'
    = Inr (db', route_account (quota_account ''b'' ''20''), False)"
  using sample_prefer prefer_quota_account_stable [OF quota_db_ok] by blast

end
