(* ===== verification/Gateway.thy ===== *)
theory Gateway
  imports Quota Store_Accounts Response_Event "HOL-Library.AList"
begin

text \<open>
  \<open>internal/gateway/server.go\<close> and \<open>limiters.go\<close>, with \<open>Bearer\<close> of \<open>internal/auth/apikey.go\<close>: how a
  request is authorised, which accounts it is sent to, and what becomes of the answers.

  The gateway reaches the outside through interfaces, and other requests run at the same time. A
  \<open>world\<close> holds both as functions of the number of steps made so far: the clocks of the process and
  of the database, what other transactions commit before each operation on the store, which
  operation fails, what the upstream answers (with the adapters between), what a refresh returns, how
  a ciphertext decrypts and decodes. The trace \<open>g_sent\<close> records the account of every round trip.
\<close>

section \<open>Requests, responses, failures\<close>

record response =
  rs_status :: int
  rs_retry_after :: string
  rs_body :: string
  rs_readable :: bool
  rs_model_limit :: bool
  rs_account :: string

text \<open>\<open>rs_readable\<close> says that reading the first 64 KiB of the body does not fail.\<close>

datatype provider_failure =
  CapacityFailure | ResultFailure string string | UnsupportedFailure | RequestFailure string string
| InvalidMetadata | CopilotHttp int string | TimeoutFailure | OtherFailure

datatype refresh_failure = CodexToken int string | AntigravityHttp int string | RefreshOther

datatype retry_reason =
  RetryUnavailable | RetryAuth | RetryRefresh | RetryRateLimit | RetryInvalid | RetryTransport
| RetryTimeout | RetryCanceled | RetryProvider5xx | RetryUnsupported

text \<open>What the client is answered with: the response of an upstream (the account it came from is
  \<open>rs_account\<close>), or one the gateway makes itself (\<open>openAIErrorResponse\<close>: status, \<open>Retry-After\<close>, message
  and code).\<close>

datatype answer = Upstream response | Own int string string string

datatype attempt = Complete "answer option" | Again retry_reason

datatype call_result = Served answer | Refused int string string | Dropped

record gateway_error =
  ge_status :: int
  ge_message :: string
  ge_code :: string

section \<open>The state and the outside\<close>

record routing_counters =
  rc_unbound :: nat
  rc_continuation :: nat
  rc_connection :: nat

record gateway =
  g_db :: db
  g_activity :: "(string \<times> time) list"
  g_stats :: routing_counters
  g_step :: nat
  g_sent :: "account list"

record world =
  w_now :: "nat \<Rightarrow> time"
  w_tx :: "nat \<Rightarrow> time"
  w_rnd :: "nat \<Rightarrow> string \<Rightarrow> rat"
  w_others :: "nat \<Rightarrow> db \<Rightarrow> db"
  w_fault :: "nat \<Rightarrow> store_error option"
  w_canceled :: "nat \<Rightarrow> bool"
  w_decrypt :: "string \<Rightarrow> string option"
  w_decode :: "string \<Rightarrow> string \<Rightarrow> time option"
  w_refresh :: "nat \<Rightarrow> string \<Rightarrow> int \<Rightarrow> db \<Rightarrow> db \<times> (refresh_failure + account)"
  w_round_trip :: "nat \<Rightarrow> account \<Rightarrow> provider_failure + response"
  w_digest :: "string \<Rightarrow> string"
  w_session_hash :: "string \<Rightarrow> string"
  w_parse_time :: "string \<Rightarrow> time option"
  w_quota_routing :: bool

definition clock :: "world \<Rightarrow> gateway \<Rightarrow> time" where
  "clock w g = w_now w (g_step g)"

text \<open>An operation on the store: what others committed comes first; a failure leaves the database as they
  left it.\<close>

definition store_do ::
  "world \<Rightarrow> (nat \<Rightarrow> time \<Rightarrow> db \<Rightarrow> store_error + (db \<times> 'a)) \<Rightarrow> gateway \<Rightarrow> (store_error + 'a) \<times> gateway" where
  "store_do w f g =
     (let i = g_step g; d = w_others w i (g_db g) in
      case (case w_fault w i of Some e \<Rightarrow> Inl e | None \<Rightarrow> f i (w_tx w i) d) of
        Inl e \<Rightarrow> (Inl e, g\<lparr>g_step := Suc i, g_db := d\<rparr>)
      | Inr (d', x) \<Rightarrow> (Inr x, g\<lparr>g_step := Suc i, g_db := d'\<rparr>))"

definition no_result :: "store_error + db \<Rightarrow> store_error + (db \<times> unit)" where
  "no_result r = (case r of Inl e \<Rightarrow> Inl e | Inr d \<Rightarrow> Inr (d, ()))"

definition read_only :: "db \<Rightarrow> store_error + 'a \<Rightarrow> store_error + (db \<times> 'a)" where
  "read_only d r = (case r of Inl e \<Rightarrow> Inl e | Inr x \<Rightarrow> Inr (d, x))"

text \<open>A write whose error is logged or ignored.\<close>

definition store_note :: "world \<Rightarrow> (time \<Rightarrow> db \<Rightarrow> store_error + db) \<Rightarrow> gateway \<Rightarrow> gateway" where
  "store_note w f g = snd (store_do w (\<lambda>_ now d. no_result (f now d)) g)"

section \<open>Authorisation\<close>

text \<open>\<open>strings.Fields\<close>: the maximal runs of runes that are no white space; the first argument counts the
  bytes of a white-space rune still to be skipped.\<close>

fun fields_from :: "nat \<Rightarrow> string \<Rightarrow> string \<Rightarrow> string list" where
  "fields_from n word [] = (if word = [] then [] else [word])"
| "fields_from (Suc n) word (c # s) = fields_from n word s"
| "fields_from 0 word (c # s) =
     (if 0 < space_run (c # s)
      then (if word = [] then [] else [word]) @ fields_from (space_run (c # s) - 1) [] s
      else fields_from 0 (word @ [c]) s)"

definition key_prefix :: string where "key_prefix = ''sk-''"

definition bearer :: "string \<Rightarrow> string option" where
  "bearer header =
     (case fields_from 0 [] header of
        [scheme, token] \<Rightarrow>
          (if map lower_char scheme = ''bearer'' \<and> has_prefix key_prefix token then Some token else None)
      | _ \<Rightarrow> None)"

definition scope_allowed :: "string list \<Rightarrow> string \<Rightarrow> bool" where
  "scope_allowed scopes required \<longleftrightarrow>
     scopes = [] \<or> list_ex (\<lambda>scope. scope = ''*'' \<or> scope = required) scopes"

definition invalid_key :: gateway_error where
  "invalid_key = \<lparr>ge_status = 401, ge_message = ''invalid API key'', ge_code = ''invalid_api_key''\<rparr>"

definition authenticate ::
  "world \<Rightarrow> string \<Rightarrow> string \<Rightarrow> gateway \<Rightarrow> (gateway_error + key_route) \<times> gateway" where
  "authenticate w authorization scope g =
     (case bearer authorization of
        None \<Rightarrow> (Inl invalid_key, g)
      | Some plain \<Rightarrow>
          (case store_do w (\<lambda>_ now d. read_only d (resolve_api_key now (w_digest w plain) d)) g of
             (Inl e, g1) \<Rightarrow> (Inl invalid_key, g1)
           | (Inr route, g1) \<Rightarrow>
               (if \<not> scope_allowed (k_scopes (r_key route)) scope
                then (Inl \<lparr>ge_status = 403, ge_message = ''API key scope does not allow this endpoint'',
                           ge_code = ''insufficient_scope''\<rparr>, g1)
                else (Inr route, g1))))"

definition allow_request :: "world \<Rightarrow> key_route \<Rightarrow> gateway \<Rightarrow> gateway_error option \<times> gateway" where
  "allow_request w route g =
     (case store_do w (\<lambda>_ now d. allow_api_key_request (k_id (r_key route)) (k_rate_limit (r_key route)) (clock w g) d) g of
        (Inl e, g1) \<Rightarrow>
          (Some \<lparr>ge_status = 503, ge_message = ''rate limit state is unavailable'', ge_code = ''server_error''\<rparr>, g1)
      | (Inr allowed, g1) \<Rightarrow>
          (if \<not> allowed
           then (Some \<lparr>ge_status = 429, ge_message = ''API key rate limit exceeded'', ge_code = ''subpool_rate_limited''\<rparr>, g1)
           else (None, g1)))"

definition authorize :: "world \<Rightarrow> string \<Rightarrow> string \<Rightarrow> gateway \<Rightarrow> (gateway_error + key_route) \<times> gateway" where
  "authorize w authorization scope g =
     (case authenticate w authorization scope g of
        (Inl e, g1) \<Rightarrow> (Inl e, g1)
      | (Inr route, g1) \<Rightarrow>
          (case allow_request w route g1 of
             (Some e, g2) \<Rightarrow> (Inl e, g2)
           | (None, g2) \<Rightarrow> (Inr route, g2)))"

section \<open>Small decisions\<close>

definition is_codex_subscription :: "account \<Rightarrow> bool" where
  "is_codex_subscription a \<longleftrightarrow>
     (a_provider a = [] \<or> a_provider a = provider_codex)
   \<and> (a_credential_type a = [] \<or> a_credential_type a = credential_subscription)"

definition refreshable_credentials :: "account \<Rightarrow> bool" where
  "refreshable_credentials a \<longleftrightarrow>
     is_codex_subscription a
   \<or> a_provider a = provider_antigravity \<and> a_credential_type a = credential_subscription"

definition is_image_request :: "string \<Rightarrow> bool" where
  "is_image_request kind \<longleftrightarrow> kind = ''image_generations'' \<or> kind = ''image_edits''"

definition account_healthy :: "account \<Rightarrow> time \<Rightarrow> bool" where
  "account_healthy a now \<longleftrightarrow>
     (if a_health a = health_unhealthy then False
      else if a_quota a \<noteq> []
              \<and> (case decode_snapshot (a_quota a) of None \<Rightarrow> False | Some q \<Rightarrow> \<not> allows_usage_at q now) then False
      else if a_status a = account_active then True
      else if a_status a = account_cooling_down
        then (case a_cooldown a of None \<Rightarrow> False | Some t \<Rightarrow> \<not> now < t)
      else False)"

definition is_authentication_status :: "string \<Rightarrow> int \<Rightarrow> bool" where
  "is_authentication_status provider status \<longleftrightarrow>
     (if provider = provider_copilot \<or> provider = provider_antigravity then status = 401
      else status = 401 \<or> status = 403)"

definition max_rate_limit_cooldown :: duration where "max_rate_limit_cooldown = 15 * minute"

text \<open>\<open>strconv.Atoi\<close>.\<close>

definition atoi :: "string \<Rightarrow> int option" where
  "atoi s =
     (let body = (case s of c # t \<Rightarrow> (if c = CHR ''+'' \<or> c = CHR ''-'' then t else s) | [] \<Rightarrow> s);
          n = (if s \<noteq> [] \<and> hd s = CHR ''-'' then - digits_val body else digits_val body)
      in if body = [] \<or> \<not> list_all is_digit body \<or> \<not> in_int64 n then None else Some n)"

text \<open>\<open>time.Duration(seconds) * time.Second\<close> is an \<open>int64\<close> product.\<close>

definition retry_after :: "(string \<Rightarrow> time option) \<Rightarrow> string \<Rightarrow> time \<Rightarrow> time" where
  "retry_after parse_time header now =
     (let value = trim_space header;
          retry_at = (case atoi value of
              Some seconds \<Rightarrow>
                (if 0 \<le> seconds then now + wrap64 (seconds * second)
                 else (case parse_time value of Some t \<Rightarrow> t | None \<Rightarrow> now + minute))
            | None \<Rightarrow> (case parse_time value of Some t \<Rightarrow> t | None \<Rightarrow> now + minute));
          limit = now + max_rate_limit_cooldown
      in if limit < retry_at then limit else retry_at)"

section \<open>Unsupported models\<close>

definition model_signals :: "string list" where
  "model_signals = [''model_not_found'', ''unsupported_model'', ''model_not_supported'', ''model_unavailable'']"

definition model_phrases :: "string list" where
  "model_phrases = [''model is not available'', ''model not found'', ''unsupported model'',
     ''model is not supported'', ''model does not support this endpoint'']"

text \<open>\<open>fmt.Sprint\<close> of a code that is no string (\<open><nil>\<close>, a number, \<open>true\<close>, \<open>map[...]\<close>, \<open>[...]\<close>) is none of the
  signals; \<open>code_text\<close> leaves it empty.\<close>

definition code_text :: "json option \<Rightarrow> string" where
  "code_text code = (case code of Some (JStr s) \<Rightarrow> s | _ \<Rightarrow> [])"

definition error_envelope :: "string \<Rightarrow> (string \<times> string \<times> string) option" where
  "error_envelope data =
     (case json_parse data of
        None \<Rightarrow> None
      | Some v \<Rightarrow>
          (case struct_members v of
             None \<Rightarrow> None
           | Some ms \<Rightarrow>
               (case response_members (field_vals ''error'' ms) of
                  None \<Rightarrow> None
                | Some es \<Rightarrow>
                    (if \<not> list_all any_ok (field_vals ''code'' es) then None
                     else
                       (case (str_field ''type'' es, str_field ''message'' es) of
                          (Some t, Some m) \<Rightarrow> Some (code_text (last_value (field_vals ''code'' es)), t, m)
                        | _ \<Rightarrow> None)))))"

definition dashes_to_underscores :: "string \<Rightarrow> string" where
  "dashes_to_underscores s = map (\<lambda>c. if c = CHR ''-'' then CHR ''_'' else c) s"

definition unsupported_model_response :: "response \<Rightarrow> bool" where
  "unsupported_model_response resp \<longleftrightarrow>
     (if rs_status resp \<noteq> 400 \<and> rs_status resp \<noteq> 404 then False
      else if \<not> rs_readable resp then False
      else
        (case error_envelope (take 65536 (rs_body resp)) of
           None \<Rightarrow> False
         | Some (code, kind, text) \<Rightarrow>
             let message = to_lower text in
             list_ex (\<lambda>signal. to_lower (dashes_to_underscores signal) \<in> set model_signals) [code, kind]
             \<or> list_ex (\<lambda>phrase. str_contains phrase message) model_phrases
             \<or> str_contains ''model'' message \<and> str_contains ''not available for this endpoint'' message))"

section \<open>Activity\<close>

definition zero_time :: time where "zero_time = - 62135596800 * second"

definition activity_ttl :: duration where "activity_ttl = minute"

definition should_record :: "string \<Rightarrow> string \<Rightarrow> time \<Rightarrow> (string \<times> time) list \<Rightarrow> (string \<times> time) list \<times> bool" where
  "should_record aid kid now last_seen =
     (let key = aid @ [CHR 0x00] @ kid in
      if (case map_of last_seen key of None \<Rightarrow> False | Some t \<Rightarrow> t \<noteq> zero_time \<and> now - t < activity_ttl)
      then (last_seen, False)
      else
        let updated = AList.update key now last_seen in
        (if 10000 < length updated then filter (\<lambda>e. \<not> snd e < now - 2 * activity_ttl) updated else updated,
         True))"

definition record_routing :: "bool \<Rightarrow> bool \<Rightarrow> routing_counters \<Rightarrow> routing_counters" where
  "record_routing continuation connection_bound c =
     (if continuation then c\<lparr>rc_continuation := (rc_continuation c + 1) mod 2 ^ 64\<rparr>
      else if connection_bound then c\<lparr>rc_connection := (rc_connection c + 1) mod 2 ^ 64\<rparr>
      else c\<lparr>rc_unbound := (rc_unbound c + 1) mod 2 ^ 64\<rparr>)"

end
