(* ===== verification/Gateway_Call.thy ===== *)
theory Gateway_Call
  imports Gateway
begin

text \<open>
  \<open>internal/gateway/server.go\<close>: one attempt on an account, with what it reports to the store, and
  \<open>call\<close>, which tries up to eight accounts.
\<close>

section \<open>What an answer means for its account\<close>

definition record_health_failure_code :: "world \<Rightarrow> string \<Rightarrow> string \<Rightarrow> gateway \<Rightarrow> gateway" where
  "record_health_failure_code w aid code g =
     (let now = clock w g
      in store_note w (\<lambda>tx. record_health_failure tx aid code now (now + 5 * minute)) g)"

definition set_status :: "world \<Rightarrow> string \<Rightarrow> string \<Rightarrow> time option \<Rightarrow> gateway \<Rightarrow> gateway" where
  "set_status w aid status cooldown g = store_note w (\<lambda>tx. update_provider_status tx aid status cooldown) g"

definition definitive_refresh_failure :: "refresh_failure \<Rightarrow> bool" where
  "definitive_refresh_failure e =
     (case e of
        CodexToken status code \<Rightarrow> status = 401 \<or> code = ''invalid_grant''
      | AntigravityHttp status code \<Rightarrow> status = 401 \<or> code = ''invalid_grant''
      | RefreshOther \<Rightarrow> False)"

definition record_refresh_failure :: "world \<Rightarrow> string \<Rightarrow> refresh_failure \<Rightarrow> gateway \<Rightarrow> bool \<times> gateway" where
  "record_refresh_failure w aid e g =
     (if definitive_refresh_failure e then (True, set_status w aid account_auth_failed None g)
      else (False, set_status w aid account_cooling_down (Some (clock w g + minute)) g))"

definition record_stream_limit :: "world \<Rightarrow> string \<Rightarrow> limit_kind \<Rightarrow> gateway \<Rightarrow> gateway" where
  "record_stream_limit w aid limit g =
     (if aid = [] \<or> limit = LimitNone then g
      else if limit = LimitQuota then store_note w (\<lambda>tx. set_usage_allowed tx aid False) g
      else set_status w aid account_cooling_down (Some (clock w g + minute)) g)"

definition evaluate_response :: "world \<Rightarrow> string \<Rightarrow> string \<Rightarrow> response \<Rightarrow> gateway \<Rightarrow> attempt \<times> gateway" where
  "evaluate_response w kid aid resp g =
     (if rs_status resp = 429 \<or> rs_model_limit resp then
        let retry_at = retry_after (w_parse_time w) (rs_retry_after resp) (clock w g)
        in (Again RetryRateLimit,
            if rs_model_limit resp then g else set_status w aid account_cooling_down (Some retry_at) g)
      else if unsupported_model_response resp then (Again RetryUnsupported, g)
      else
        let (active, record) =
              (if 200 \<le> rs_status resp \<and> rs_status resp < 300
               then should_record aid kid (clock w g) (g_activity g) else (g_activity g, False));
            g1 = g\<lparr>g_activity := active\<rparr>;
            g2 = (if record then store_note w (\<lambda>tx. record_request_success tx aid kid (clock w g1)) g1 else g1)
        in (if 500 \<le> rs_status resp
            then (Again RetryProvider5xx, record_health_failure_code w aid ''provider_5xx'' g2)
            else (Complete (Some (Upstream (resp\<lparr>rs_account := aid\<rparr>))), g2)))"

definition classify_provider_error :: "provider_failure \<Rightarrow> retry_reason \<times> string" where
  "classify_provider_error e =
     (if e = TimeoutFailure then (RetryTimeout, []) else (RetryTransport, ''connection_failed''))"

definition evaluate_provider_error :: "world \<Rightarrow> string \<Rightarrow> provider_failure \<Rightarrow> gateway \<Rightarrow> attempt \<times> gateway" where
  "evaluate_provider_error w aid e g =
     (let classified =
        (let (retry, code) = classify_provider_error e
         in (Again retry, if code \<noteq> [] then record_health_failure_code w aid code g else g))
      in if w_canceled w (g_step g) then (Complete None, g)
         else
           (case e of
              InvalidMetadata \<Rightarrow> (Again RetryInvalid, g)
            | CopilotHttp status header \<Rightarrow>
                (if status = 401 \<or> status = 403
                 then (Again RetryAuth, set_status w aid account_auth_failed None g)
                 else if status = 429
                 then (Again RetryRateLimit, set_status w aid account_cooling_down
                         (Some (retry_after (w_parse_time w) header (clock w g))) g)
                 else if 500 \<le> status
                 then (Again RetryProvider5xx, record_health_failure_code w aid ''provider_5xx'' g)
                 else classified)
            | _ \<Rightarrow> classified))"

definition terminal_adapter_failure :: "provider_failure \<Rightarrow> answer option" where
  "terminal_adapter_failure e =
     (case e of
        CapacityFailure \<Rightarrow>
          Some (Own 503 ''1'' ''request body capacity is temporarily unavailable''
                  ''subpool_capacity_exceeded'')
      | ResultFailure message code \<Rightarrow> Some (Own 502 [] message code)
      | _ \<Rightarrow> None)"

text \<open>The answer of an adapter that failed, in the order the attempt looks at it.\<close>

definition evaluate_failure ::
  "world \<Rightarrow> string \<Rightarrow> string \<Rightarrow> provider_failure \<Rightarrow> gateway \<Rightarrow> attempt \<times> gateway" where
  "evaluate_failure w pool_provider aid e g =
     (case terminal_adapter_failure e of
        Some failure \<Rightarrow> (Complete (Some failure), g)
      | None \<Rightarrow>
          (case e of
             UnsupportedFailure \<Rightarrow> (Again RetryUnsupported, g)
           | RequestFailure message code \<Rightarrow>
               (if pool_provider = provider_mixed then (Again RetryUnsupported, g)
                else (Complete (Some (Own 400 [] message code)), g))
           | _ \<Rightarrow> evaluate_provider_error w aid e g))"

section \<open>One attempt\<close>

text \<open>\<open>credentials\<close>: the expiry of the decoded credentials stands for all of them.\<close>

definition credentials :: "world \<Rightarrow> account \<Rightarrow> time option" where
  "credentials w a =
     (case w_decrypt w (a_ciphertext a) of
        None \<Rightarrow> None
      | Some plain \<Rightarrow>
          (if a_provider a \<in> {[], provider_codex, provider_openai_compatible, provider_copilot, provider_antigravity}
           then w_decode w (a_provider a) plain else None))"

definition round_trip :: "world \<Rightarrow> account \<Rightarrow> gateway \<Rightarrow> (provider_failure + response) \<times> gateway" where
  "round_trip w a g =
     (w_round_trip w (g_step g) a, g\<lparr>g_step := Suc (g_step g), g_sent := g_sent g @ [a]\<rparr>)"

definition refresh :: "world \<Rightarrow> account \<Rightarrow> gateway \<Rightarrow> (refresh_failure + account) \<times> gateway" where
  "refresh w a g =
     (case w_refresh w (g_step g) (a_id a) (a_version a) (w_others w (g_step g) (g_db g)) of
        (d, r) \<Rightarrow> (r, g\<lparr>g_step := Suc (g_step g), g_db := d\<rparr>))"

definition retry_refreshed ::
  "world \<Rightarrow> key_route \<Rightarrow> account \<Rightarrow> gateway \<Rightarrow> attempt \<times> gateway" where
  "retry_refreshed w route a g =
     (case refresh w a g of
        (Inl e, g1) \<Rightarrow>
          (case record_refresh_failure w (a_id a) e g1 of
             (definitive, g2) \<Rightarrow> (Again (if definitive then RetryAuth else RetryRefresh), g2))
      | (Inr refreshed, g1) \<Rightarrow>
          (case credentials w refreshed of
             None \<Rightarrow> (Again RetryUnavailable, record_health_failure_code w (a_id refreshed) ''credential_unavailable'' g1)
           | Some _ \<Rightarrow>
               (case round_trip w refreshed g1 of
                  (Inl e, g2) \<Rightarrow> evaluate_failure w (p_provider (r_pool route)) (a_id refreshed) e g2
                | (Inr resp, g2) \<Rightarrow>
                    (if is_authentication_status (a_provider refreshed) (rs_status resp)
                     then (Again RetryAuth, set_status w (a_id refreshed) account_auth_failed None g2)
                     else evaluate_response w (k_id (r_key route)) (a_id refreshed) resp g2))))"

definition attempt_account ::
  "world \<Rightarrow> key_route \<Rightarrow> string \<Rightarrow> account \<Rightarrow> gateway \<Rightarrow> attempt \<times> gateway" where
  "attempt_account w route kind a g =
     (if is_image_request kind \<and> \<not> is_codex_subscription a then (Again RetryUnsupported, g)
      else
        (case credentials w a of
           None \<Rightarrow> (Again RetryUnavailable, record_health_failure_code w (a_id a) ''credential_unavailable'' g)
         | Some expires \<Rightarrow>
             (if a_provider a = provider_antigravity \<and> expires - clock w g \<le> minute
              then retry_refreshed w route a g
              else
                (case round_trip w a g of
                   (Inl e, g1) \<Rightarrow> evaluate_failure w (p_provider (r_pool route)) (a_id a) e g1
                 | (Inr resp, g1) \<Rightarrow>
                     (if \<not> is_authentication_status (a_provider a) (rs_status resp)
                      then evaluate_response w (k_id (r_key route)) (a_id a) resp g1
                      else if \<not> refreshable_credentials a
                      then (Again RetryAuth, set_status w (a_id a) account_auth_failed None g1)
                      else retry_refreshed w route a g1)))))"

section \<open>Calls\<close>

definition retry_failure :: "retry_reason \<Rightarrow> call_result" where
  "retry_failure reason =
     (case reason of
        RetryAuth \<Rightarrow> Refused 401 ''provider authentication failed'' ''provider_authentication_error''
      | RetryRefresh \<Rightarrow> Refused 503 ''provider credential refresh is temporarily unavailable'' ''provider_error''
      | RetryRateLimit \<Rightarrow> Refused 429 ''all eligible accounts are rate limited'' ''subpool_rate_limited''
      | RetryTimeout \<Rightarrow> Refused 504 ''provider response timed out'' ''provider_timeout''
      | RetryUnsupported \<Rightarrow>
          Refused 400 ''no eligible account supports the requested model or endpoint'' ''unsupported_provider_endpoint''
      | _ \<Rightarrow> Refused 503 ''no eligible account'' ''subpool_no_eligible_account'')"

definition reassign ::
  "world \<Rightarrow> key_route \<Rightarrow> string list \<Rightarrow> gateway \<Rightarrow> (store_error + account) \<times> gateway" where
  "reassign w route excluded g =
     store_do w (\<lambda>i now d. reassign_api_key (w_rnd w i) now (k_id (r_key route)) (p_id (r_pool route)) excluded d) g"

text \<open>The loop over the accounts: \<open>left\<close> is the number of attempts after this one.\<close>

fun attempts ::
  "world \<Rightarrow> key_route \<Rightarrow> string \<Rightarrow> bool \<Rightarrow> nat \<Rightarrow> account \<Rightarrow> string list \<Rightarrow> gateway \<Rightarrow> call_result \<times> gateway" where
  "attempts w route kind continuation left a attempted g =
     (let attempted' = attempted @ [a_id a] in
      case attempt_account w route kind a g of
        (Complete (Some resp), g1) \<Rightarrow> (Served resp, g1)
      | (Complete None, g1) \<Rightarrow> (Dropped, g1)
      | (Again reason, g1) \<Rightarrow>
          (if reason = RetryInvalid
           then (Refused 400 ''client_metadata must be an object'' ''invalid_request_error'', g1)
           else if reason = RetryTimeout \<or> continuation then (retry_failure reason, g1)
           else
             (case left of
                0 \<Rightarrow> (retry_failure reason, g1)
              | Suc m \<Rightarrow>
                  (case reassign w route attempted' g1 of
                     (Inl e, g2) \<Rightarrow> (retry_failure reason, g2)
                   | (Inr next_account, g2) \<Rightarrow> attempts w route kind continuation m next_account attempted' g2))))"

declare attempts.simps [simp del]

definition max_provider_attempts :: nat where "max_provider_attempts = 8"

definition session_unavailable :: call_result where
  "session_unavailable = Refused 503 ''session account is unavailable'' ''subpool_session_account_unavailable''"

text \<open>The steps before the loop: \<open>prefer_key_account\<close> reassigns a key of a pool of static credentials,
  \<open>prefer_by_quota\<close> asks for the account with the most quota left; both keep the account when the store
  fails.\<close>

definition prefer_key_account ::
  "world \<Rightarrow> key_route \<Rightarrow> string \<Rightarrow> bool \<Rightarrow> account \<Rightarrow> gateway \<Rightarrow> account \<times> gateway" where
  "prefer_key_account w route kind continuation a g =
     (if \<not> continuation \<and> \<not> is_image_request kind
         \<and> (p_provider (r_pool route) = provider_mixed \<or> p_provider (r_pool route) = provider_openai_compatible)
         \<and> a_credential_type a = credential_api_key
      then (case reassign w route [] g of (Inl e, g1) \<Rightarrow> (a, g1) | (Inr b, g1) \<Rightarrow> (b, g1))
      else (a, g))"

definition prefer_by_quota ::
  "world \<Rightarrow> key_route \<Rightarrow> string \<Rightarrow> bool \<Rightarrow> account \<Rightarrow> gateway \<Rightarrow> account \<times> gateway" where
  "prefer_by_quota w route kind continuation a g =
     (if \<not> continuation \<and> \<not> is_image_request kind \<and> r_membership route
         \<and> a_provider (r_account route) = provider_codex \<and> account_healthy a (clock w g)
      then
        (case store_do w (\<lambda>_ now d. case prefer_quota_account (w_quota_routing w) (clock w g) now route d of
                Inl e \<Rightarrow> Inl (wrap_db [] e) | Inr (d', b, _) \<Rightarrow> Inr (d', b)) g of
           (Inl e, g1) \<Rightarrow> (a, g1) | (Inr b, g1) \<Rightarrow> (b, g1))
      else (a, g))"

definition call :: "world \<Rightarrow> key_route \<Rightarrow> string \<Rightarrow> string \<Rightarrow> gateway \<Rightarrow> call_result \<times> gateway" where
  "call w route kind previous g =
     (if has_prefix ''resp_subpool_cmp_'' previous
      then (Refused 400
              ''Subpool compaction responses do not store upstream history; replay the compaction item and full remaining input''
              ''previous_response_not_found'', g)
      else
        let continuation = (previous \<noteq> []) in
        case (if continuation
              then store_do w (\<lambda>_ now d. read_only d
                     (resolve_session_account now (k_id (r_key route)) (w_session_hash w previous) d)) g
              else (Inr (r_account route), g)) of
          (Inl e, g1) \<Rightarrow> (session_unavailable, g1)
        | (Inr a0, g1) \<Rightarrow>
            (case prefer_key_account w route kind continuation a0 g1 of (a1, g2) \<Rightarrow>
             case prefer_by_quota w route kind continuation a1 g2 of (a2, g3) \<Rightarrow>
             let start = (\<lambda>a attempted g4.
                   attempts w route kind continuation (max_provider_attempts - 1) a attempted
                     (if a_provider a = provider_codex \<and> \<not> is_image_request kind
                      then g4\<lparr>g_stats := record_routing continuation False (g_stats g4)\<rparr> else g4))
             in (if \<not> continuation \<and> \<not> r_membership route \<or> \<not> account_healthy a2 (clock w g3)
                 then
                   (if continuation then (session_unavailable, g3)
                    else
                      (case reassign w route [a_id a2] g3 of
                         (Inl e, g4) \<Rightarrow> (Refused 503 ''no eligible account'' ''subpool_no_eligible_account'', g4)
                       | (Inr a3, g4) \<Rightarrow> start a3 [a_id a2] g4))
                 else start a2 [] g3)))"

end
