(* ===== verification/Gateway_Routing.thy ===== *)
theory Gateway_Routing
  imports Gateway_Call Store_Binding
begin

text \<open>
  Where a request goes and what the client gets to see: the round trips that \<open>call\<close> makes, the answers
  that pass, the errors it reports, how long a rate-limited account rests, who is let in.
\<close>

section \<open>What the steps leave alone\<close>

lemma store_do_sent [frame_simps]: "g_sent (snd (store_do w f g)) = g_sent g"
  by (auto simp: store_do_def Let_def split: sum.splits option.splits)

lemma store_note_sent [frame_simps]: "g_sent (store_note w f g) = g_sent g"
  by (simp add: store_note_def frame_simps)

lemma reports_sent [frame_simps]:
  "g_sent (set_status w aid s c g) = g_sent g"
  "g_sent (record_health_failure_code w aid code g) = g_sent g"
  "g_sent (snd (record_refresh_failure w aid e g)) = g_sent g"
  by (simp_all add: set_status_def record_health_failure_code_def record_refresh_failure_def Let_def frame_simps)

lemma evaluate_response_sent [frame_simps]: "g_sent (snd (evaluate_response w kid aid resp g)) = g_sent g"
  by (simp add: evaluate_response_def Let_def frame_simps case_prod_beta)

lemma evaluate_failure_sent [frame_simps]: "g_sent (snd (evaluate_failure w pp aid e g)) = g_sent g"
  by (cases e) (simp_all add: evaluate_failure_def terminal_adapter_failure_def evaluate_provider_error_def
      classify_provider_error_def Let_def frame_simps)

lemma store_do_pair: "store_do w f g = (x, g') \<Longrightarrow> g_sent g' = g_sent g"
  using store_do_sent [of w f g] by simp

lemma refresh_pair:
  "refresh w a g = (x, g') \<Longrightarrow> g_sent g' = g_sent g"
  by (auto simp: refresh_def split: prod.splits)

section \<open>One attempt\<close>

text \<open>\<open>comes_from w a b\<close>: \<open>b\<close> is the account tried, or what a refresh of its credentials returned.\<close>

definition comes_from :: "world \<Rightarrow> account \<Rightarrow> account \<Rightarrow> bool" where
  "comes_from w a b \<longleftrightarrow> b = a \<or> (\<exists>i d d'. w_refresh w i (a_id a) (a_version a) d = (d', Inr b))"

text \<open>\<open>passes w kid b r\<close>: if \<open>r\<close> lets an upstream response through, it is one of \<open>b\<close> that was evaluated.\<close>

definition passes :: "world \<Rightarrow> string \<Rightarrow> account \<Rightarrow> attempt \<Rightarrow> bool" where
  "passes w kid b r \<longleftrightarrow>
     (\<forall>resp. r = Complete (Some (Upstream resp)) \<longrightarrow>
        (\<exists>raw g. \<not> is_authentication_status (a_provider b) (rs_status raw)
           \<and> r = fst (evaluate_response w kid (a_id b) raw g)))"

lemma passes_Again [simp]: "passes w kid b (Again reason)"
  by (simp add: passes_def)

lemma passes_failure: "passes w kid b (fst (evaluate_failure w pp aid e g))"
  by (cases e) (auto simp: passes_def evaluate_failure_def terminal_adapter_failure_def
      evaluate_provider_error_def classify_provider_error_def Let_def)

lemma passes_response:
  "\<not> is_authentication_status (a_provider b) (rs_status raw) \<Longrightarrow>
   passes w kid b (fst (evaluate_response w kid (a_id b) raw g))"
  unfolding passes_def by blast

text \<open>What one round trip to \<open>b\<close> leads to, whatever the answer.\<close>

lemma round_trip_outcome:
  assumes "round_trip w b g = (y, g1)"
  shows "g_sent g1 = g_sent g @ [b]"
    and "y = Inl e \<Longrightarrow> evaluate_failure w pp (a_id b) e g1 = (r, g') \<Longrightarrow>
      g_sent g' = g_sent g @ [b] \<and> passes w kid b r"
    and "y = Inr raw \<Longrightarrow> \<not> is_authentication_status (a_provider b) (rs_status raw) \<Longrightarrow>
      evaluate_response w kid (a_id b) raw g1 = (r, g') \<Longrightarrow>
      g_sent g' = g_sent g @ [b] \<and> passes w kid b r"
proof -
  show s: "g_sent g1 = g_sent g @ [b]" using assms by (auto simp: round_trip_def)
  show "g_sent g' = g_sent g @ [b] \<and> passes w kid b r"
    if "y = Inl e" "evaluate_failure w pp (a_id b) e g1 = (r, g')"
    using evaluate_failure_sent [of w pp "a_id b" e g1] passes_failure [of w kid b pp "a_id b" e g1] that s
    by simp
  show "g_sent g' = g_sent g @ [b] \<and> passes w kid b r"
    if "y = Inr raw" "\<not> is_authentication_status (a_provider b) (rs_status raw)"
      "evaluate_response w kid (a_id b) raw g1 = (r, g')"
    using evaluate_response_sent [of w kid "a_id b" raw g1] passes_response [of b raw w kid g1] that s
    by simp
qed

text \<open>The reasons an attempt can give up for without asking a provider.\<close>

definition early_reasons :: "retry_reason set" where
  "early_reasons = {RetryUnsupported, RetryUnavailable, RetryAuth, RetryRefresh}"

lemma retry_refreshed_sent:
  assumes "retry_refreshed w route a g = (r, g')"
  shows "(g_sent g' = g_sent g \<and> (\<exists>reason \<in> early_reasons. r = Again reason))
    \<or> (\<exists>b. comes_from w a b \<and> g_sent g' = g_sent g @ [b] \<and> passes w (k_id (r_key route)) b r)"
proof -
  obtain x g1 where x: "refresh w a g = (x, g1)" by (cases "refresh w a g")
  note s = refresh_pair [OF x]
  show ?thesis
  proof (cases x)
    case (Inl e)
    then show ?thesis using assms x s
      by (auto simp: retry_refreshed_def record_refresh_failure_def frame_simps early_reasons_def split: if_splits)
  next
    case (Inr b)
    have c: "comes_from w a b"
      using x Inr unfolding comes_from_def refresh_def by (auto split: prod.splits)
    show ?thesis
    proof (cases "credentials w b")
      case None
      then show ?thesis using assms x Inr s by (auto simp: retry_refreshed_def frame_simps early_reasons_def)
    next
      case (Some expires)
      obtain y g2 where y: "round_trip w b g1 = (y, g2)" by (cases "round_trip w b g1")
      have "g_sent g' = g_sent g1 @ [b] \<and> passes w (k_id (r_key route)) b r"
        using assms x Inr Some y round_trip_outcome [OF y]
        by (auto simp: retry_refreshed_def frame_simps split: sum.splits if_splits)
      then show ?thesis using c s by auto
    qed
  qed
qed

lemma attempt_sent:
  assumes "attempt_account w route kind a g = (r, g')"
  shows "\<exists>bs. g_sent g' = g_sent g @ bs \<and> length bs \<le> 2 \<and> (\<forall>b \<in> set bs. comes_from w a b)
    \<and> (bs = [] \<longrightarrow> (\<exists>reason \<in> early_reasons. r = Again reason))
    \<and> (bs \<noteq> [] \<longrightarrow> passes w (k_id (r_key route)) (last bs) r)
    \<and> (bs \<noteq> [] \<longrightarrow> is_image_request kind \<longrightarrow> is_codex_subscription a)"
proof (cases "is_image_request kind \<and> \<not> is_codex_subscription a")
  case True
  then show ?thesis using assms by (intro exI [of _ "[]"]) (auto simp: attempt_account_def early_reasons_def)
next
  case sub: False
  have refreshed: ?thesis
    if "retry_refreshed w route a g1 = (r, g')" "g_sent g1 = g_sent g @ pre"
      "length pre \<le> 1" "\<forall>b \<in> set pre. comes_from w a b" "pre \<noteq> [] \<longrightarrow> True" for g1 pre
    using retry_refreshed_sent [OF that(1)]
  proof (elim disjE exE bexE conjE)
    fix reason assume r: "reason \<in> early_reasons" "g_sent g' = g_sent g1" "r = Again reason"
    show ?thesis using r that(2-4) sub by (intro exI [of _ pre]) auto
  next
    fix b assume b: "comes_from w a b" "g_sent g' = g_sent g1 @ [b]" "passes w (k_id (r_key route)) b r"
    show ?thesis using b that(2-4) sub by (intro exI [of _ "pre @ [b]"]) auto
  qed
  show ?thesis
  proof (cases "credentials w a")
    case None
    then show ?thesis using assms sub
      by (intro exI [of _ "[]"]) (auto simp: attempt_account_def frame_simps early_reasons_def split: if_splits)
  next
    case (Some expires)
    show ?thesis
    proof (cases "a_provider a = provider_antigravity \<and> expires - clock w g \<le> minute")
      case True
      then have "retry_refreshed w route a g = (r, g')"
        using assms sub Some by (simp add: attempt_account_def split: if_splits)
      then show ?thesis using refreshed [of g "[]"] by simp
    next
      case False
      obtain y g1 where y: "round_trip w a g = (y, g1)" by (cases "round_trip w a g")
      have c: "comes_from w a a" by (simp add: comes_from_def)
      have att: "(case y of Inl e \<Rightarrow> evaluate_failure w (p_provider (r_pool route)) (a_id a) e g1
          | Inr resp \<Rightarrow>
              (if \<not> is_authentication_status (a_provider a) (rs_status resp)
               then evaluate_response w (k_id (r_key route)) (a_id a) resp g1
               else if \<not> refreshable_credentials a
               then (Again RetryAuth, set_status w (a_id a) account_auth_failed None g1)
               else retry_refreshed w route a g1)) = (r, g')"
        using assms sub Some False y by (auto simp: attempt_account_def split: if_splits)
      consider "retry_refreshed w route a g1 = (r, g')" | "g_sent g' = g_sent g @ [a] \<and> passes w (k_id (r_key route)) a r"
        using att round_trip_outcome [OF y] by (auto simp: frame_simps split: sum.splits if_splits)
      then show ?thesis
      proof cases
        case 1
        then show ?thesis using refreshed [of g1 "[a]"] round_trip_outcome(1) [OF y] c by simp
      next
        case 2
        then show ?thesis using c sub by (intro exI [of _ "[a]"]) auto
      qed
    qed
  qed
qed

section \<open>The loop\<close>

lemma reassign_sent: "reassign w route excluded g = (x, g') \<Longrightarrow> g_sent g' = g_sent g"
  unfolding reassign_def by (rule store_do_pair)

lemma reassign_account:
  "reassign_api_key rnd now kid pid excluded db = Inr (db', acc) \<Longrightarrow> a_id acc \<notin> set excluded"
proof -
  assume "reassign_api_key rnd now kid pid excluded db = Inr (db', acc)"
  then obtain aid row d where c: "choose_account rnd now pid excluded db = Inr aid"
    and g: "q_get_routable aid d = Inr row" and acc: "acc = route_account row"
    by (auto simp: reassign_api_key_def wrapped_def split: sum.splits)
  obtain a m where "can_serve db now pid excluded a m" "ar_id a = aid" by (rule choose_account_Inr [OF c])
  moreover have "ar_id row = aid"
    using find_row_Inr [of "\<lambda>a. ar_id a = aid" "t_accounts d" row] g by (simp add: q_get_routable_def)
  ultimately show ?thesis by (simp add: acc can_serve_def route_account_def no_account_def)
qed

lemma reassign_fresh: "reassign w route excluded g = (Inr b, g') \<Longrightarrow> a_id b \<notin> set excluded"
  unfolding reassign_def store_do_def Let_def
  by (auto split: sum.splits option.splits dest: reassign_account)

text \<open>A run: an account tried, with the accounts of the round trips made for it.\<close>

definition good_run :: "world \<Rightarrow> string \<Rightarrow> account \<times> account list \<Rightarrow> bool" where
  "good_run w kind = (\<lambda>(a, bs). length bs \<le> 2 \<and> (\<forall>b \<in> set bs. comes_from w a b)
     \<and> (bs \<noteq> [] \<longrightarrow> is_image_request kind \<longrightarrow> is_codex_subscription a))"

definition runs_sent :: "(account \<times> account list) list \<Rightarrow> account list" where
  "runs_sent runs = concat (map snd runs)"

lemma runs_sent_simps [simp]: "runs_sent [] = []" "runs_sent (p # ps) = snd p @ runs_sent ps"
  by (simp_all add: runs_sent_def)

definition good_end :: "world \<Rightarrow> string \<Rightarrow> account list \<Rightarrow> call_result \<Rightarrow> bool" where
  "good_end w kid sent r \<longleftrightarrow>
     (\<forall>resp. r = Served (Upstream resp) \<longrightarrow> sent \<noteq> [] \<and> passes w kid (last sent) (Complete (Some (Upstream resp))))"

lemma retry_failure_refuses: "retry_failure reason \<noteq> Served x"
  by (cases reason) (simp_all add: retry_failure_def)

lemma good_end_cons: "good_end w kid sent r \<Longrightarrow> good_end w kid (pre @ sent) r"
  by (auto simp: good_end_def)

text \<open>What a client is told when the last attempt ends for a reason.\<close>

definition refused_for :: "retry_reason \<Rightarrow> call_result \<Rightarrow> bool" where
  "refused_for reason r \<longleftrightarrow>
     r = (if reason = RetryInvalid then Refused 400 ''client_metadata must be an object'' ''invalid_request_error''
          else retry_failure reason)"

lemma attempts_step [consumes 2]:
  assumes "attempts w route kind continuation left a attempted g = (r, g')"
    and "attempt_account w route kind a g = (x, g1)"
  obtains (stop) "g_sent g' = g_sent g1" and "\<And>ans. r = Served ans \<Longrightarrow> x = Complete (Some ans)"
      and "\<And>s m c. r = Refused s m c \<Longrightarrow> \<exists>reason. x = Again reason \<and> refused_for reason (Refused s m c)"
  | (again) m g2 b where "left = Suc m" and "\<not> continuation" and "g_sent g2 = g_sent g1"
      and "a_id b \<notin> set (attempted @ [a_id a])"
      and "attempts w route kind continuation m b (attempted @ [a_id a]) g2 = (r, g')"
proof (cases x)
  case (Complete ans)
  then show thesis using assms stop
    by (cases ans) (auto simp: attempts.simps [of w route kind continuation left] Let_def)
next
  case (Again reason)
  show thesis
  proof (cases "reason = RetryInvalid \<or> reason = RetryTimeout \<or> continuation \<or> left = 0")
    case True
    then show thesis using assms Again stop
      by (auto simp: attempts.simps [of w route kind continuation left] Let_def retry_failure_refuses refused_for_def
          split: if_splits nat.splits)
  next
    case False
    then obtain m where m: "left = Suc m" by (cases left) auto
    obtain y g2 where y: "reassign w route (attempted @ [a_id a]) g1 = (y, g2)"
      by (cases "reassign w route (attempted @ [a_id a]) g1")
    have eq: "(case y of Inl e \<Rightarrow> (retry_failure reason, g2)
        | Inr b \<Rightarrow> attempts w route kind continuation m b (attempted @ [a_id a]) g2) = (r, g')"
      using assms(1) assms(2) Again False y unfolding m
      by (auto simp: attempts.simps [of w route kind continuation "Suc m"] Let_def split: sum.splits)
    show thesis
    proof (cases y)
      case (Inl e)
      then show thesis using eq reassign_sent [OF y] using False Again by (intro stop) (auto simp: retry_failure_refuses refused_for_def)
    next
      case (Inr b)
      show thesis
        by (rule again [OF m _ reassign_sent [OF y] reassign_fresh [OF y [unfolded Inr]]])
           (use eq Inr False in auto)
    qed
  qed
qed

lemma attempts_runs:
  assumes "attempts w route kind continuation left a attempted g = (r, g')" and "a_id a \<notin> set attempted"
  shows "\<exists>runs. g_sent g' = g_sent g @ runs_sent runs \<and> runs \<noteq> [] \<and> fst (hd runs) = a
    \<and> length runs \<le> Suc left \<and> (continuation \<longrightarrow> length runs = 1)
    \<and> distinct (map (\<lambda>p. a_id (fst p)) runs) \<and> (\<forall>p \<in> set runs. a_id (fst p) \<notin> set attempted)
    \<and> (\<forall>p \<in> set runs. good_run w kind p) \<and> good_end w (k_id (r_key route)) (runs_sent runs) r"
  using assms
proof (induction left arbitrary: a attempted g rule: less_induct)
  case (less left a attempted g)
  obtain x g1 where x: "attempt_account w route kind a g = (x, g1)" by (cases "attempt_account w route kind a g")
  obtain bs where bs: "g_sent g1 = g_sent g @ bs" "length bs \<le> 2" "\<forall>b \<in> set bs. comes_from w a b"
    "bs = [] \<longrightarrow> (\<exists>reason \<in> early_reasons. x = Again reason)" "bs \<noteq> [] \<longrightarrow> passes w (k_id (r_key route)) (last bs) x"
    "bs \<noteq> [] \<longrightarrow> is_image_request kind \<longrightarrow> is_codex_subscription a"
    using attempt_sent [OF x] by blast
  have run: "good_run w kind (a, bs)" using bs by (simp add: good_run_def)
  from less.prems(1) x show ?case
  proof (cases rule: attempts_step)
    case stop
    have "good_end w (k_id (r_key route)) bs r" using stop(2) bs(4,5) by (auto simp: good_end_def)
    then show ?thesis using bs(1) run less.prems(2) stop(1) by (intro exI [of _ "[(a, bs)]"]) auto
  next
    case (again m g2 b)
    have "m < left" using again(1) by simp
    from less.IH [OF this again(5,4)] obtain runs where runs: "g_sent g' = g_sent g2 @ runs_sent runs" "runs \<noteq> []"
      "length runs \<le> Suc m" "distinct (map (\<lambda>p. a_id (fst p)) runs)"
      "\<forall>p \<in> set runs. a_id (fst p) \<notin> set (attempted @ [a_id a])" "\<forall>p \<in> set runs. good_run w kind p"
      "good_end w (k_id (r_key route)) (runs_sent runs) r" by blast
    show ?thesis
    proof (intro exI [of _ "(a, bs) # runs"] conjI)
      show "good_end w (k_id (r_key route)) (runs_sent ((a, bs) # runs)) r"
        using good_end_cons [OF runs(7)] by simp
    qed (use runs again bs run less.prems(2) in auto)
  qed
qed

section \<open>Calls\<close>

lemma prefer_key_account_sent: "prefer_key_account w route kind c a g = (b, g') \<Longrightarrow> g_sent g' = g_sent g"
  by (auto simp: prefer_key_account_def dest: reassign_sent split: if_splits prod.splits sum.splits)

lemma prefer_by_quota_sent: "prefer_by_quota w route kind c a g = (b, g') \<Longrightarrow> g_sent g' = g_sent g"
  by (auto simp: prefer_by_quota_def dest: store_do_pair split: if_splits prod.splits sum.splits)

lemma prefer_continuation:
  "prefer_key_account w route kind True a g = (a, g)" "prefer_by_quota w route kind True a g = (a, g)"
  by (simp_all add: prefer_key_account_def prefer_by_quota_def)

lemma session_unavailable_refuses: "session_unavailable \<noteq> Served x"
  by (simp add: session_unavailable_def)

text \<open>The session's account, as a continuation reads it.\<close>

definition session_account :: "world \<Rightarrow> key_route \<Rightarrow> string \<Rightarrow> gateway \<Rightarrow> store_error + account" where
  "session_account w route previous g =
     resolve_session_account (w_tx w (g_step g)) (k_id (r_key route)) (w_session_hash w previous)
       (w_others w (g_step g) (g_db g))"

definition no_session_here :: call_result where
  "no_session_here = Refused 400
     ''Subpool compaction responses do not store upstream history; replay the compaction item and full remaining input''
     ''previous_response_not_found''"

definition nobody_left :: call_result where
  "nobody_left = Refused 503 ''no eligible account'' ''subpool_no_eligible_account''"

text \<open>A call is refused before any provider is asked, or it is the loop on an account that is not among those
  given up, and for a continuation is that of the session.\<close>

lemma call_cases [consumes 1]:
  assumes "call w route kind previous g = (r, g')"
  obtains (early) "g_sent g' = g_sent g"
      and "r = nobody_left \<or> previous \<noteq> [] \<and> r \<in> {no_session_here, session_unavailable}"
  | (loop) a att g4 where "attempts w route kind (previous \<noteq> []) 7 a att g4 = (r, g')"
      and "a_id a \<notin> set att" and "g_sent g4 = g_sent g"
      and "previous \<noteq> [] \<longrightarrow> session_account w route previous g = Inr a"
proof (cases "has_prefix ''resp_subpool_cmp_'' previous")
  case True
  then show thesis using assms early by (cases previous) (auto simp: call_def no_session_here_def)
next
  case np: False
  define c where "c = (previous \<noteq> [])"
  obtain y g1 where y: "(if c then store_do w (\<lambda>_ now d. read_only d
         (resolve_session_account now (k_id (r_key route)) (w_session_hash w previous) d)) g
       else (Inr (r_account route), g)) = (y, g1)" by (meson surj_pair)
  have s1: "g_sent g1 = g_sent g" using y by (auto split: if_splits dest: store_do_pair)
  show thesis
  proof (cases y)
    case (Inl e)
    then show thesis using assms np y s1 early
      by (auto simp: call_def c_def [symmetric] split: if_splits)
  next
    case (Inr a0)
    obtain a1 g2 where a1: "prefer_key_account w route kind c a0 g1 = (a1, g2)" by (meson surj_pair)
    obtain a2 g3 where a2: "prefer_by_quota w route kind c a1 g2 = (a2, g3)" by (meson surj_pair)
    have s3: "g_sent g3 = g_sent g"
      using prefer_key_account_sent [OF a1] prefer_by_quota_sent [OF a2] s1 by simp
    have session: "session_account w route previous g = Inr a2" if "c"
    proof -
      have "a2 = a0" using a1 a2 that prefer_continuation [of w route kind] by simp
      then show ?thesis using y Inr that
        by (auto simp: store_do_def session_account_def read_only_def Let_def split: sum.splits option.splits)
    qed
    define observe where "observe a g4 = (if a_provider a = provider_codex \<and> \<not> is_image_request kind
        then g4\<lparr>g_stats := record_routing c False (g_stats g4)\<rparr> else g4)" for a :: account and g4 :: gateway
    have so: "g_sent (observe a g4) = g_sent g4" for a g4 by (simp add: observe_def)
    have body: "(if \<not> c \<and> \<not> r_membership route \<or> \<not> account_healthy a2 (clock w g3)
        then (if c then (session_unavailable, g3)
              else (case reassign w route [a_id a2] g3 of
                  (Inl e, g4) \<Rightarrow> (Refused 503 ''no eligible account'' ''subpool_no_eligible_account'', g4)
                | (Inr a3, g4) \<Rightarrow> attempts w route kind c (max_provider_attempts - 1) a3 [a_id a2] (observe a3 g4)))
        else attempts w route kind c (max_provider_attempts - 1) a2 [] (observe a2 g3)) = (r, g')"
      using assms [unfolded call_def Let_def, folded c_def, unfolded if_not_P [OF np] y Inr prod.case sum.case
          a1 a2, folded observe_def] .
    show thesis
    proof (cases "\<not> c \<and> \<not> r_membership route \<or> \<not> account_healthy a2 (clock w g3)")
      case False
      then show thesis using body so s3 session
        by (intro loop [of a2 "[]" "observe a2 g3"]) (auto simp: c_def max_provider_attempts_def)
    next
      case moved: True
      show thesis
      proof (cases c)
        case True
        then show thesis using body moved s3 early by (auto simp: c_def)
      next
        case nc: False
        obtain z g4 where z: "reassign w route [a_id a2] g3 = (z, g4)" by (meson surj_pair)
        have s4: "g_sent g4 = g_sent g" using reassign_sent [OF z] s3 by simp
        show thesis
        proof (cases z)
          case (Inl e)
          then show thesis using body moved nc z s4 early by (auto simp: nobody_left_def)
        next
          case (Inr a3)
          have "attempts w route kind c (max_provider_attempts - 1) a3 [a_id a2] (observe a3 g4) = (r, g')"
            using body moved nc z Inr by simp
          then show thesis using reassign_fresh [of w route "[a_id a2]" g3 a3 g4] z Inr so s4 nc
            by (intro loop [of a3 "[a_id a2]" "observe a3 g4"]) (auto simp: c_def max_provider_attempts_def)
        qed
      qed
    qed
  qed
qed

lemma early_refuses: "r = nobody_left \<or> P \<and> r \<in> {no_session_here, session_unavailable} \<Longrightarrow> r \<noteq> Served x"
  by (auto simp: nobody_left_def no_session_here_def session_unavailable_def)

lemma call_runs:
  assumes "call w route kind previous g = (r, g')"
  shows "\<exists>runs. g_sent g' = g_sent g @ runs_sent runs \<and> length runs \<le> 8
    \<and> distinct (map (\<lambda>p. a_id (fst p)) runs) \<and> (\<forall>p \<in> set runs. good_run w kind p)
    \<and> good_end w (k_id (r_key route)) (runs_sent runs) r
    \<and> (previous \<noteq> [] \<longrightarrow> (\<forall>p \<in> set runs. session_account w route previous g = Inr (fst p)))"
  using assms
proof (cases rule: call_cases)
  case early
  then show ?thesis using early_refuses [OF early(2)] by (intro exI [of _ "[]"]) (simp add: good_end_def)
next
  case (loop a att g4)
  from attempts_runs [OF loop(1,2)] obtain runs where runs: "g_sent g' = g_sent g4 @ runs_sent runs" "runs \<noteq> []"
    "fst (hd runs) = a" "length runs \<le> Suc 7" "previous \<noteq> [] \<longrightarrow> length runs = 1"
    "distinct (map (\<lambda>p. a_id (fst p)) runs)" "\<forall>p \<in> set runs. good_run w kind p"
    "good_end w (k_id (r_key route)) (runs_sent runs) r" by blast
  have "previous \<noteq> [] \<longrightarrow> (\<forall>p \<in> set runs. session_account w route previous g = Inr (fst p))"
  proof
    assume p: "previous \<noteq> []"
    then obtain q where "runs = [q]" using runs(2,5) by (cases runs) auto
    then show "\<forall>p \<in> set runs. session_account w route previous g = Inr (fst p)" using runs(3) p loop(4) by simp
  qed
  then show ?thesis using runs loop(3) by (intro exI [of _ runs]) auto
qed

section \<open>Properties\<close>

definition refresh_keeps_id :: "world \<Rightarrow> bool" where
  "refresh_keeps_id w \<longleftrightarrow> (\<forall>i aid v d d' b. w_refresh w i aid v d = (d', Inr b) \<longrightarrow> a_id b = aid)"

lemma comes_from_id: "refresh_keeps_id w \<Longrightarrow> comes_from w a b \<Longrightarrow> a_id b = a_id a"
  by (auto simp: refresh_keeps_id_def comes_from_def)

lemma good_run_ids:
  "refresh_keeps_id w \<Longrightarrow> good_run w kind p \<Longrightarrow> length (snd p) \<le> 2 \<and> (\<forall>b \<in> set (snd p). a_id b = a_id (fst p))"
  by (cases p) (auto simp: good_run_def comes_from_id)

lemma runs_sent_ids:
  assumes "refresh_keeps_id w" and "\<forall>p \<in> set runs. good_run w kind p"
  shows "a_id ` set (runs_sent runs) \<subseteq> set (map (\<lambda>p. a_id (fst p)) runs)"
  using assms(2)
proof (induction runs)
  case (Cons p runs)
  then show ?case using good_run_ids [OF assms(1), of kind p] by auto
qed simp

lemma runs_sent_count:
  assumes "refresh_keeps_id w" and "\<forall>p \<in> set runs. good_run w kind p" and "distinct (map (\<lambda>p. a_id (fst p)) runs)"
  shows "count_if (\<lambda>b. a_id b = aid) (runs_sent runs) \<le> 2"
  using assms(2,3)
proof (induction runs)
  case (Cons p runs)
  have p: "length (snd p) \<le> 2" "\<forall>b \<in> set (snd p). a_id b = a_id (fst p)"
    using good_run_ids [OF assms(1), of kind p] Cons.prems by auto
  show ?case
  proof (cases "a_id (fst p) = aid")
    case True
    then have "aid \<notin> a_id ` set (runs_sent runs)"
      using runs_sent_ids [OF assms(1), of runs kind] Cons.prems by auto
    then have "count_if (\<lambda>b. a_id b = aid) (runs_sent runs) = 0" by (intro count_if_zero) auto
    then show ?thesis using p(1) count_if_le_length [of "\<lambda>b. a_id b = aid" "snd p"] by simp
  next
    case False
    then have "count_if (\<lambda>b. a_id b = aid) (snd p) = 0" using p(2) by (intro count_if_zero) auto
    then show ?thesis using Cons by simp
  qed
qed simp

text \<open>C18. However the providers answer and whatever else happens meanwhile, a request is sent to at most
  eight accounts, and to each of them at most twice: the second time with refreshed credentials.\<close>

theorem call_spread:
  assumes "refresh_keeps_id w" and "call w route kind previous g = (r, g')"
  shows "\<exists>sent. g_sent g' = g_sent g @ sent \<and> card (a_id ` set sent) \<le> 8
    \<and> (\<forall>aid. count_if (\<lambda>b. a_id b = aid) sent \<le> 2)"
proof -
  obtain runs where runs: "g_sent g' = g_sent g @ runs_sent runs" "length runs \<le> 8"
    "distinct (map (\<lambda>p. a_id (fst p)) runs)" "\<forall>p \<in> set runs. good_run w kind p"
    using call_runs [OF assms(2)] by blast
  have "card (a_id ` set (runs_sent runs)) \<le> card (set (map (\<lambda>p. a_id (fst p)) runs))"
    by (intro card_mono runs_sent_ids [OF assms(1) runs(4)]) simp
  also have "\<dots> \<le> 8" using card_length [of "map (\<lambda>p. a_id (fst p)) runs"] runs(2) by simp
  finally show ?thesis using runs runs_sent_count [OF assms(1) runs(4,3)] by blast
qed

text \<open>C19. A request that continues a response goes to the account that the session of that response is bound
  to, or to nobody: it is never moved to another account.\<close>

theorem continuation_stays:
  assumes "refresh_keeps_id w" and "call w route kind previous g = (r, g')" and "previous \<noteq> []"
  shows "\<exists>sent. g_sent g' = g_sent g @ sent
    \<and> (\<forall>b \<in> set sent. \<exists>a. session_account w route previous g = Inr a \<and> a_id b = a_id a)"
proof -
  obtain runs where runs: "g_sent g' = g_sent g @ runs_sent runs" "\<forall>p \<in> set runs. good_run w kind p"
    "\<forall>p \<in> set runs. session_account w route previous g = Inr (fst p)"
    using call_runs [OF assms(2)] assms(3) by blast
  have "\<forall>b \<in> set (runs_sent runs). \<exists>a. session_account w route previous g = Inr a \<and> a_id b = a_id a"
    using runs(2,3)
  proof (induction runs)
    case (Cons p runs)
    then show ?case using good_run_ids [OF assms(1), of kind p] by auto
  qed simp
  then show ?thesis using runs(1) by blast
qed

lemma unsupported_account [simp]:
  "unsupported_model_response (resp\<lparr>rs_account := aid\<rparr>) = unsupported_model_response resp"
  by (simp add: unsupported_model_response_def)

text \<open>C20. An upstream response that reaches the client is the answer to the last round trip, and names its
  account; it is no rate limit, server error or rejected credential, and does not say that the account
  lacks the model: after one of those the request is tried elsewhere or refused.\<close>

theorem served_response:
  assumes "call w route kind previous g = (Served (Upstream resp), g')"
  shows "\<exists>pre b. g_sent g' = pre @ [b] \<and> rs_account resp = a_id b
    \<and> rs_status resp \<noteq> 429 \<and> rs_status resp < 500 \<and> \<not> rs_model_limit resp
    \<and> \<not> is_authentication_status (a_provider b) (rs_status resp) \<and> \<not> unsupported_model_response resp"
proof -
  obtain runs where runs: "g_sent g' = g_sent g @ runs_sent runs"
    and e: "good_end w (k_id (r_key route)) (runs_sent runs) (Served (Upstream resp))"
    using call_runs [OF assms] by blast
  then obtain pre b where pre: "runs_sent runs = pre @ [b]"
    and p: "passes w (k_id (r_key route)) b (Complete (Some (Upstream resp)))"
    by (auto simp: good_end_def) (metis append_butlast_last_id)
  from p obtain raw g0 where raw: "\<not> is_authentication_status (a_provider b) (rs_status raw)"
    "Complete (Some (Upstream resp)) = fst (evaluate_response w (k_id (r_key route)) (a_id b) raw g0)"
    unfolding passes_def by blast
  have "resp = raw\<lparr>rs_account := a_id b\<rparr> \<and> rs_status raw \<noteq> 429 \<and> rs_status raw < 500
      \<and> \<not> rs_model_limit raw \<and> \<not> unsupported_model_response raw"
    using raw(2) by (auto simp: evaluate_response_def Let_def split: if_splits prod.splits)
  then show ?thesis using raw(1) runs pre by (intro exI [of _ "g_sent g @ pre"] exI [of _ b]) simp
qed

text \<open>Image requests go to Codex subscriptions only: every account one is sent to is a Codex subscription
  or what a refresh of one returned.\<close>

theorem images_to_codex:
  assumes "is_image_request kind" and "call w route kind previous g = (r, g')"
  shows "\<exists>sent. g_sent g' = g_sent g @ sent
    \<and> (\<forall>b \<in> set sent. \<exists>a. is_codex_subscription a \<and> comes_from w a b)"
proof -
  obtain runs where runs: "g_sent g' = g_sent g @ runs_sent runs" "\<forall>p \<in> set runs. good_run w kind p"
    using call_runs [OF assms(2)] by blast
  have "\<forall>b \<in> set (runs_sent runs). \<exists>a. is_codex_subscription a \<and> comes_from w a b"
    using runs(2)
  proof (induction runs)
    case (Cons p runs)
    then show ?case using assms(1) by (cases p) (auto simp: good_run_def)
  qed simp
  then show ?thesis using runs(1) by blast
qed

definition sample_route :: key_route where
  "sample_route = \<lparr>r_key = sample_key,
     r_pool = \<lparr>p_id = ''p'', p_name = ''main'', p_provider = provider_codex, p_accounts = [], p_created = 0, p_updated = 0\<rparr>,
     r_account = route_account (sample_account ''a''), r_membership = True\<rparr>"

definition sample_response :: "int \<Rightarrow> response" where
  "sample_response status = \<lparr>rs_status = status, rs_retry_after = [], rs_body = [], rs_readable = True,
     rs_model_limit = False, rs_account = []\<rparr>"

definition sample_world :: "int \<Rightarrow> world" where
  "sample_world status = \<lparr>w_now = (\<lambda>_. 0), w_tx = (\<lambda>_. 0), w_rnd = (\<lambda>_ _. 0), w_others = (\<lambda>_ d. d), w_fault = (\<lambda>_. None),
     w_canceled = (\<lambda>_. False), w_decrypt = Some, w_decode = (\<lambda>_ _. Some 0), w_refresh = (\<lambda>_ _ _ d. (d, Inl RefreshOther)),
     w_round_trip = (\<lambda>_ _. Inr (sample_response status)), w_digest = id, w_session_hash = id, w_parse_time = (\<lambda>_. None),
     w_quota_routing = False\<rparr>"

definition sample_gateway :: gateway where
  "sample_gateway = \<lparr>g_db = sample_db\<lparr>t_sessions := [\<lparr>s_key = ''k'', s_pool = ''p'', s_hash = ''r'', s_account = ''a'', s_expires = 9\<rparr>]\<rparr>, g_activity = [], g_stats = \<lparr>rc_unbound = 0, rc_continuation = 0, rc_connection = 0\<rparr>,
     g_step = 0, g_sent = []\<rparr>"

lemma sample_refresh: "refresh_keeps_id (sample_world status)"
  by (simp add: refresh_keeps_id_def sample_world_def)

lemma sample_world_simps [simp]:
  "w_now (sample_world st) i = 0" "w_tx (sample_world st) i = 0" "w_others (sample_world st) i d = d"
  "w_fault (sample_world st) i = None" "w_decrypt (sample_world st) c = Some c" "w_decode (sample_world st) p c = Some 0"
  "w_round_trip (sample_world st) i a = Inr (sample_response st)" "w_quota_routing (sample_world st) = False"
  "w_rnd (sample_world st) i = (\<lambda>_. 0)" "w_parse_time (sample_world st) h = None"
  "w_digest (sample_world st) x = x" "w_session_hash (sample_world st) x = x" "w_canceled (sample_world st) i = False"
  by (simp_all add: sample_world_def)

definition sample_caller :: account where
  "sample_caller = r_account sample_route"

lemma sample_caller_simps [simp]:
  "a_id sample_caller = ''a''" "a_provider sample_caller = provider_codex" "a_ciphertext sample_caller = []"
  "r_account sample_route = sample_caller" "r_membership sample_route"
  "p_provider (r_pool sample_route) = provider_codex" "account_healthy sample_caller now"
  "is_codex_subscription sample_caller" "k_id (r_key sample_route) = ''k''"
  by (simp_all add: sample_caller_def sample_route_def no_account_def account_healthy_def is_codex_subscription_def
      route_account_def sample_account_def sample_key_def domain_consts)

lemma sample_attempt:
  "attempt_account (sample_world 404) sample_route kind sample_caller g
    = (Complete (Some (Upstream ((sample_response 404)\<lparr>rs_account := ''a''\<rparr>))),
       g\<lparr>g_step := Suc (g_step g), g_sent := g_sent g @ [sample_caller]\<rparr>)"
proof -
  have "json_parse [] = None" by code_simp
  then show ?thesis
    by (simp add: attempt_account_def credentials_def round_trip_def is_authentication_status_def
        evaluate_response_def sample_response_def unsupported_model_response_def error_envelope_def Let_def domain_consts)
qed

lemma sample_session:
  "resolve_session_account 0 ''k'' ''r'' (g_db sample_gateway) = Inr sample_caller"
  by (simp add: resolve_session_account_def q_resolve_session_def sample_gateway_def sample_simps first_row_def
      sample_caller_def sample_route_def)

lemma sample_call:
  "\<exists>g'. call (sample_world 404) sample_route kind [] sample_gateway
      = (Served (Upstream ((sample_response 404)\<lparr>rs_account := ''a''\<rparr>)), g') \<and> g_sent g' = [sample_caller]"
  by (simp add: call_def prefer_key_account_def prefer_by_quota_def store_do_def prefer_quota_account_def Let_def
      sample_attempt attempts.simps sample_gateway_def clock_def domain_consts)

lemma sample_continuation:
  "\<exists>g'. call (sample_world 404) sample_route kind ''r'' sample_gateway
      = (Served (Upstream ((sample_response 404)\<lparr>rs_account := ''a''\<rparr>)), g') \<and> g_sent g' = [sample_caller]"
proof -
  have "w_session_hash (sample_world 404) ''r'' = ''r''" by (simp add: sample_world_def)
  then show ?thesis using sample_session
    by (simp add: call_def prefer_continuation store_do_def Let_def read_only_def
        sample_attempt attempts.simps) (simp add: sample_gateway_def)
qed

theorem call_spread_witness:
  "\<exists>g'. call (sample_world 404) sample_route ''responses'' [] sample_gateway
      = (Served (Upstream ((sample_response 404)\<lparr>rs_account := ''a''\<rparr>)), g')
    \<and> card (a_id ` set (g_sent g')) \<le> 8"
proof -
  obtain g' where c: "call (sample_world 404) sample_route ''responses'' [] sample_gateway
      = (Served (Upstream ((sample_response 404)\<lparr>rs_account := ''a''\<rparr>)), g')" using sample_call by blast
  show ?thesis using call_spread [OF sample_refresh c] c by (simp add: sample_gateway_def)
qed

theorem continuation_stays_witness:
  "\<exists>g'. call (sample_world 404) sample_route ''responses'' ''r'' sample_gateway
      = (Served (Upstream ((sample_response 404)\<lparr>rs_account := ''a''\<rparr>)), g')
    \<and> g_sent g' \<noteq> [] \<and> (\<forall>b \<in> set (g_sent g'). a_id b = ''a'')"
proof -
  obtain g' where c: "call (sample_world 404) sample_route ''responses'' ''r'' sample_gateway
      = (Served (Upstream ((sample_response 404)\<lparr>rs_account := ''a''\<rparr>)), g')" and s: "g_sent g' = [sample_caller]"
    using sample_continuation by blast
  have "session_account (sample_world 404) sample_route ''r'' sample_gateway = Inr sample_caller"
    using sample_session by (simp add: session_account_def)
  then have "\<forall>b \<in> set (g_sent g'). a_id b = ''a''"
    using continuation_stays [OF sample_refresh c] by (auto simp: sample_gateway_def)
  then show ?thesis using c s by auto
qed

theorem served_response_witness:
  "\<exists>g'. call (sample_world 404) sample_route ''responses'' [] sample_gateway
      = (Served (Upstream ((sample_response 404)\<lparr>rs_account := ''a''\<rparr>)), g')
    \<and> \<not> unsupported_model_response (sample_response 404)"
proof -
  obtain g' where c: "call (sample_world 404) sample_route ''responses'' [] sample_gateway
      = (Served (Upstream ((sample_response 404)\<lparr>rs_account := ''a''\<rparr>)), g')" using sample_call by blast
  show ?thesis using served_response [OF c] c by auto
qed

theorem images_to_codex_witness:
  "\<exists>g'. call (sample_world 404) sample_route ''image_edits'' [] sample_gateway
      = (Served (Upstream ((sample_response 404)\<lparr>rs_account := ''a''\<rparr>)), g')
    \<and> (\<forall>b \<in> set (g_sent g'). \<exists>a. is_codex_subscription a \<and> comes_from (sample_world 404) a b)"
proof -
  obtain g' where c: "call (sample_world 404) sample_route ''image_edits'' [] sample_gateway
      = (Served (Upstream ((sample_response 404)\<lparr>rs_account := ''a''\<rparr>)), g')" using sample_call by blast
  show ?thesis using images_to_codex [OF _ c] c by (auto simp: is_image_request_def sample_gateway_def)
qed

end
