(* ===== verification/Gateway_Limits.thy ===== *)
theory Gateway_Limits
  imports Gateway_Routing Store_Integrity
begin

text \<open>
  How long a rate-limited account rests, and who may call: \<open>retryAfter\<close> with its overflow, the report of a
  \<open>429\<close> down to the row of the account, and \<open>authorize\<close>.
\<close>

section \<open>Retry-After\<close>

text \<open>A rate-limited account rests at most 15 minutes; a header with a number of seconds is followed
  exactly up to there, and without a usable header it rests for one minute.\<close>

theorem retry_after_bounded:
  "retry_after parse_time header now \<le> now + 15 * minute
    \<and> (\<forall>n. atoi (trim_space header) = Some n \<and> 0 \<le> n \<and> n \<le> 9223372036
         \<longrightarrow> retry_after parse_time header now = now + min (n * second) (15 * minute))
    \<and> (atoi (trim_space header) = None \<and> parse_time (trim_space header) = None
         \<longrightarrow> retry_after parse_time header now = now + minute)"
proof (intro conjI allI impI)
  show "retry_after parse_time header now \<le> now + 15 * minute"
    by (simp add: retry_after_def max_rate_limit_cooldown_def Let_def)
  fix n assume n: "atoi (trim_space header) = Some n \<and> 0 \<le> n \<and> n \<le> 9223372036"
  then have "wrap64 (n * second) = n * second"
    by (intro wrap64_id) (simp add: in_int64_def max_int64_def second_def)
  with n show "retry_after parse_time header now = now + min (n * second) (15 * minute)"
    by (simp add: retry_after_def max_rate_limit_cooldown_def Let_def min_def)
next
  assume "atoi (trim_space header) = None \<and> parse_time (trim_space header) = None"
  then show "retry_after parse_time header now = now + minute"
    by (simp add: retry_after_def max_rate_limit_cooldown_def Let_def minute_def second_def)
qed

lemma trim_space_digits: "list_all is_digit s \<Longrightarrow> trim_space s = s"
proof -
  have sp: "space_run (c # t) = 0" "space_run_rev (c # t) = 0" if "is_digit c" for c t
    using that by (auto simp: is_digit_def ascii_space_def space2_def space3_def split: list.splits)
  assume d: "list_all is_digit s"
  have "space_run s = 0" using d sp by (cases s) simp_all
  moreover have "space_run_rev (rev s) = 0"
    using d sp by (cases "rev s") (auto simp: list_all_iff simp flip: set_rev [of s])
  ultimately show ?thesis by (rule trim_space_id)
qed

theorem retry_after_bounded_witness:
  "retry_after (\<lambda>_. None) ''60'' 7 = 7 + min (60 * second) (15 * minute)"
proof -
  have "trim_space ''60'' = ''60''" by (rule trim_space_digits) (simp add: is_digit_def)
  moreover have "atoi ''60'' = Some 60"
    by (simp add: atoi_def is_digit_def digits_val_def in_int64_def max_int64_def)
  ultimately show ?thesis using retry_after_bounded [of "\<lambda>_. None" "''60''" 7] by simp
qed

text \<open>C22. The conversion of the seconds to a duration overflows: a provider that asks for 9223372037 seconds of rest, some
  292 years, gets none at all, since the product wraps to a negative number and the end of the cooldown lies in the
  past.\<close>

theorem retry_after_overflows:
  "retry_after parse_time ''9223372037'' now < now"
proof -
  have "trim_space ''9223372037'' = ''9223372037''" by (rule trim_space_digits) (simp add: is_digit_def)
  moreover have "atoi ''9223372037'' = Some 9223372037"
    by (simp add: atoi_def is_digit_def digits_val_def in_int64_def max_int64_def)
  ultimately show ?thesis
    by (simp add: retry_after_def Let_def max_rate_limit_cooldown_def minute_def second_def wrap64_def)
qed

section \<open>A rate-limited account rests\<close>

definition rests_until :: "string \<Rightarrow> time \<Rightarrow> db \<Rightarrow> bool" where
  "rests_until aid t db \<longleftrightarrow>
     (\<forall>a \<in> set (t_accounts db). ar_id a = aid \<longrightarrow>
        ar_status a = account_cooling_down \<and> ar_cooldown a = Some t \<and> (\<forall>now < t. \<not> routable now a))"

lemma cooling_down_rests:
  assumes "update_provider_status tx aid account_cooling_down (Some t) db = Inr db'"
  shows "rests_until aid t db'"
proof -
  define rest where "rest a \<longleftrightarrow> (ar_id a = aid \<longrightarrow> ar_status a = account_cooling_down \<and> ar_cooldown a = Some t)"
    for a :: account_row
  obtain f where db': "t_accounts db' = update_rows (by_id aid) f (t_accounts db)" and f: "\<And>a. rest (f a)"
  proof -
    note eq = assms [unfolded update_provider_status_def wrap_mutation_Inr q_update_status_def update_accounts_def]
    show thesis
      by (rule that [of "\<lambda>a. a\<lparr>ar_status := account_cooling_down, ar_cooldown := Some t, ar_last_failure := Some tx,
            ar_health := health_healthy, ar_checked_at := Some tx, ar_health_error := None, ar_failures := 0,
            ar_next_check := Some (tx + five_minutes), ar_updated := tx\<rparr>"])
         (use eq in \<open>auto simp: rest_def account_cooling_down_def account_active_def account_auth_failed_def coalesce_def split: if_splits\<close>)
  qed
  have "rest a" if "a \<in> set (t_accounts db')" for a
    using that unfolding db' by (rule update_rows_all) (simp_all add: f, simp add: rest_def by_id_def)
  then show ?thesis by (auto simp: rests_until_def rest_def routable_def account_cooling_down_def account_active_def)
qed

text \<open>When a provider answers \<open>429\<close>, not for one model only, the attempt ends with a rate limit, and once
  the store has taken the report, the account rests until the time \<open>retryAfter\<close> says, at most 15
  minutes ahead: before that no key is routed to it.\<close>

theorem rate_limited_account_rests:
  assumes "rs_status resp = 429" and "\<not> rs_model_limit resp" and "w_fault w (g_step g) = None"
    and "aid \<in> set (account_ids (w_others w (g_step g) (g_db g)))"
    and "evaluate_response w kid aid resp g = (r, g')"
  shows "r = Again RetryRateLimit
    \<and> rests_until aid (retry_after (w_parse_time w) (rs_retry_after resp) (clock w g)) (g_db g')
    \<and> retry_after (w_parse_time w) (rs_retry_after resp) (clock w g) \<le> clock w g + 15 * minute"
proof -
  define t where "t = retry_after (w_parse_time w) (rs_retry_after resp) (clock w g)"
  define d where "d = w_others w (g_step g) (g_db g)"
  have t: "t \<le> clock w g + 15 * minute"
    by (simp add: t_def retry_after_def max_rate_limit_cooldown_def Let_def)
  have "list_ex (by_id aid) (t_accounts d)"
    using assms(4) by (auto simp: d_def account_ids_def list_ex_iff by_id_def)
  then have "count_if (by_id aid) (t_accounts d) \<noteq> 0"
    by (auto simp: count_if_def filter_empty_conv list_ex_iff)
  then obtain d' where d': "update_provider_status (w_tx w (g_step g)) aid account_cooling_down (Some t) d = Inr d'"
    by (simp add: update_provider_status_def q_update_status_def statuses_def domain_consts update_accounts_def)
  have "r = Again RetryRateLimit" "g_db g' = d'"
    using assms(1-3,5) d' unfolding evaluate_response_def Let_def set_status_def store_note_def store_do_def
    by (auto simp: t_def [symmetric] d_def [symmetric] no_result_def)
  then show ?thesis using cooling_down_rests [OF d'] t by (simp add: t_def [symmetric])
qed

theorem rate_limited_account_rests_witness:
  "\<exists>g'. evaluate_response (sample_world 429) ''k'' ''a'' (sample_response 429) sample_gateway = (Again RetryRateLimit, g')
    \<and> rests_until ''a'' minute (g_db g')"
proof -
  obtain r g' where e: "evaluate_response (sample_world 429) ''k'' ''a'' (sample_response 429) sample_gateway = (r, g')"
    by (meson surj_pair)
  have t: "retry_after (w_parse_time (sample_world 429)) (rs_retry_after (sample_response 429))
      (clock (sample_world 429) sample_gateway) = minute"
    by (simp add: retry_after_def sample_response_def trim_space_id atoi_def clock_def Let_def
        max_rate_limit_cooldown_def minute_def second_def)
  have "r = Again RetryRateLimit \<and> rests_until ''a'' minute (g_db g')"
    using rate_limited_account_rests [OF _ _ _ _ e] unfolding t
    by (simp add: sample_response_def sample_gateway_def account_ids_def sample_simps)
  then show ?thesis using e by blast
qed

section \<open>Who may call\<close>

text \<open>The row of a key that a token names: its digest is the token's, it is neither revoked nor expired, and the
  route has its id, scopes and limit, its pool, and the account it is bound to.\<close>

definition row_of_token :: "time \<Rightarrow> string \<Rightarrow> db \<Rightarrow> key_row \<Rightarrow> key_route \<Rightarrow> bool" where
  "row_of_token now digest d k route \<longleftrightarrow>
     k \<in> set (t_keys d) \<and> kr_hmac k = digest \<and> kr_revoked k = None \<and> (\<forall>t. kr_expires k = Some t \<longrightarrow> now < t)
     \<and> k_id (r_key route) = kr_id k \<and> k_scopes (r_key route) = kr_scopes k \<and> k_rate_limit (r_key route) = kr_rate_limit k
     \<and> p_id (r_pool route) = kr_pool k
     \<and> (\<exists>b \<in> set (t_bindings d). b_key b = kr_id k \<and> b_account b = a_id (r_account route))"

lemma resolve_row:
  assumes "resolve_api_key now digest d = Inr route"
  shows "\<exists>k. row_of_token now digest d k route"
proof -
  obtain r where r: "q_resolve_api_key now digest d = Inr r" "route = route_of_row r"
    using assms by (auto simp: resolve_api_key_def split: sum.splits)
  define rows where "rows = [r. k \<leftarrow> filter (\<lambda>k. kr_hmac k = digest \<and> key_live now k) (t_keys d),
                   b \<leftarrow> filter (\<lambda>b. b_key b = kr_id k) (t_bindings d), r \<leftarrow> route_rows d k (b_account b)]"
  have "r \<in> set rows" using r(1) unfolding q_resolve_api_key_def rows_def [symmetric] first_row_def by (cases rows) simp_all
  then obtain k b where k: "k \<in> set (t_keys d)" "kr_hmac k = digest" "key_live now k"
    and b: "b \<in> set (t_bindings d)" "b_key b = kr_id k" and rr: "r \<in> set (route_rows d k (b_account b))"
    unfolding rows_def by auto
  have "rr_key r = k" "ar_id (rr_account r) = b_account b" "pr_id (rr_pool r) = kr_pool k"
    using rr by (auto simp: route_rows_def)
  then have "row_of_token now digest d k route"
    using k b r(2) by (auto simp: row_of_token_def key_live_def route_of_row_def route_account_def no_account_def Let_def
        split: option.splits)
  then show ?thesis ..
qed

text \<open>What the limiter says of the key, on the database it finds after the key was resolved.\<close>

definition limiter_answer :: "world \<Rightarrow> gateway \<Rightarrow> key_row \<Rightarrow> store_error + (db \<times> bool)" where
  "limiter_answer w g k =
     allow_api_key_request (kr_id k) (kr_rate_limit k) (w_now w (Suc (g_step g)))
       (w_others w (Suc (g_step g)) (w_others w (g_step g) (g_db g)))"

text \<open>C23. A request is let in exactly as documented. The header is two words, \<open>Bearer\<close> in any case and a token that begins
  with \<open>sk-\<close>; the digest of the token is that of a key in the database that is neither revoked nor expired and is bound
  to the account of the route; the scopes of the key are none (all are meant), or hold \<open>*\<close> or the scope of the endpoint;
  and the rate limiter has allowed the request. A refusal is 401 only when the header is not of that form or the store has
  not resolved the token, 403 only when the scopes lack the endpoint's, 429 only when the limiter has said no, and 503 only
  when the limiter failed. Without such a header the store is asked nothing.\<close>

theorem authorize_checks:
  assumes "authorize w header scope g = (x, g')"
  shows "(\<forall>route. x = Inr route \<longrightarrow>
      (\<exists>scheme token k. fields_from 0 [] header = [scheme, token] \<and> map lower_char scheme = ''bearer'' \<and> take 3 token = ''sk-''
         \<and> row_of_token (w_tx w (g_step g)) (w_digest w token) (w_others w (g_step g) (g_db g)) k route
         \<and> (kr_scopes k = [] \<or> ''*'' \<in> set (kr_scopes k) \<or> scope \<in> set (kr_scopes k))
         \<and> limiter_answer w g k = Inr (g_db g', True)))
    \<and> (\<forall>e. x = Inl e \<longrightarrow>
         (ge_status e, ge_code e) = (401, ''invalid_api_key'')
           \<and> ((\<forall>token. w_fault w (g_step g) = None
                 \<and> (\<exists>scheme. fields_from 0 [] header = [scheme, token] \<and> map lower_char scheme = ''bearer'') \<and> take 3 token = ''sk-'' \<longrightarrow>
                 (\<exists>err. resolve_api_key (w_tx w (g_step g)) (w_digest w token) (w_others w (g_step g) (g_db g)) = Inl err)))
       \<or> (\<exists>token k route. row_of_token (w_tx w (g_step g)) (w_digest w token) (w_others w (g_step g) (g_db g)) k route
           \<and> ((ge_status e, ge_code e) = (403, ''insufficient_scope'')
                \<and> kr_scopes k \<noteq> [] \<and> ''*'' \<notin> set (kr_scopes k) \<and> scope \<notin> set (kr_scopes k)
              \<or> (ge_status e, ge_code e) = (429, ''subpool_rate_limited'')
                \<and> limiter_answer w g k = Inr (g_db g', False)
              \<or> (ge_status e, ge_code e) = (503, ''server_error'')
                \<and> (w_fault w (Suc (g_step g)) \<noteq> None \<or> (\<exists>err. limiter_answer w g k = Inl err)))))
    \<and> ((\<forall>scheme token. fields_from 0 [] header = [scheme, token] \<and> map lower_char scheme = ''bearer'' \<longrightarrow> take 3 token \<noteq> ''sk-'')
        \<longrightarrow> x = Inl invalid_key \<and> g' = g)"
proof -
  define shaped where "shaped token \<longleftrightarrow> (\<exists>scheme. fields_from 0 [] header = [scheme, token] \<and> map lower_char scheme = ''bearer'')
    \<and> take 3 token = ''sk-''" for token
  have sk: "has_prefix key_prefix t \<longleftrightarrow> take 3 t = ''sk-''" for t
    by (cases t; cases "tl t"; cases "tl (tl t)")
       (auto simp: key_prefix_def)
  have bearer: "bearer header = Some token \<longleftrightarrow> shaped token" for token
    by (auto simp: bearer_def shaped_def sk split: list.splits)
  have none: "bearer header = None \<longleftrightarrow> (\<forall>token. \<not> shaped token)" by (metis bearer option.exhaust option.distinct(1))
  show ?thesis
  proof (cases "bearer header")
    case None
    then have "x = Inl invalid_key" "g' = g" using assms by (auto simp: authorize_def authenticate_def)
    then show ?thesis using None none by (auto simp: invalid_key_def shaped_def)
  next
    case (Some token)
    obtain scheme where f: "fields_from 0 [] header = [scheme, token]" "map lower_char scheme = ''bearer''" "take 3 token = ''sk-''"
      using Some bearer by (auto simp: shaped_def)
    obtain y g1 where y: "store_do w (\<lambda>_ now d. read_only d (resolve_api_key now (w_digest w token) d)) g = (y, g1)"
      by (meson surj_pair)
    have step: "g_step g1 = Suc (g_step g)" "g_db g1 = w_others w (g_step g) (g_db g)"
      using y by (auto simp: store_do_def read_only_def Let_def split: sum.splits option.splits)
    show ?thesis
    proof (cases y)
      case (Inl e)
      then have x: "x = Inl invalid_key" using assms Some y by (auto simp: authorize_def authenticate_def)
      have "w_fault w (g_step g) = None \<longrightarrow>
          (\<exists>err. resolve_api_key (w_tx w (g_step g)) (w_digest w token) (w_others w (g_step g) (g_db g)) = Inl err)"
        using y Inl by (auto simp: store_do_def read_only_def Let_def split: sum.splits option.splits)
      then show ?thesis using x f by (auto simp: invalid_key_def)
    next
      case (Inr route)
      have "resolve_api_key (w_tx w (g_step g)) (w_digest w token) (w_others w (g_step g) (g_db g)) = Inr route"
        using y Inr by (auto simp: store_do_def read_only_def Let_def split: sum.splits option.splits)
      then obtain k where k: "row_of_token (w_tx w (g_step g)) (w_digest w token) (w_others w (g_step g) (g_db g)) k route"
        using resolve_row by blast
      then have same: "k_scopes (r_key route) = kr_scopes k" "k_id (r_key route) = kr_id k" "k_rate_limit (r_key route) = kr_rate_limit k"
        by (auto simp: row_of_token_def)
      have scope: "scope_allowed (k_scopes (r_key route)) scope
          \<longleftrightarrow> kr_scopes k = [] \<or> ''*'' \<in> set (kr_scopes k) \<or> scope \<in> set (kr_scopes k)"
        by (auto simp: scope_allowed_def same list_ex_iff)
      obtain z g2 where z: "store_do w (\<lambda>_ now d. allow_api_key_request (k_id (r_key route)) (k_rate_limit (r_key route))
          (clock w g1) d) g1 = (z, g2)" by (meson surj_pair)
      have ok: "limiter_answer w g k = Inr (g_db g2, b)" if "z = Inr b" for b
        using z that by (auto simp: same step limiter_answer_def clock_def store_do_def Let_def split: sum.splits option.splits)
      have bad: "w_fault w (Suc (g_step g)) \<noteq> None \<or> (\<exists>err. limiter_answer w g k = Inl err)"
        if "z = Inl e" for e
        using z that by (auto simp: same step limiter_answer_def clock_def store_do_def Let_def split: sum.splits option.splits)
      show ?thesis
      proof (cases "scope_allowed (k_scopes (r_key route)) scope")
        case False
        then have "x = Inl \<lparr>ge_status = 403, ge_message = ''API key scope does not allow this endpoint'', ge_code = ''insufficient_scope''\<rparr>"
          using assms Some y Inr by (auto simp: authorize_def authenticate_def)
        then show ?thesis using False scope k f by auto
      next
        case True
        note s = True [unfolded scope]
        show ?thesis
        proof (cases z)
          case (Inl e)
          then have "x = Inl \<lparr>ge_status = 503, ge_message = ''rate limit state is unavailable'', ge_code = ''server_error''\<rparr>"
            using assms Some y Inr z True by (auto simp: authorize_def authenticate_def allow_request_def)
          then show ?thesis using bad [OF Inl] k f by auto
        next
          case b: (Inr b)
          have x: "x = (if b then Inr route else Inl \<lparr>ge_status = 429, ge_message = ''API key rate limit exceeded'',
              ge_code = ''subpool_rate_limited''\<rparr>)" "g' = g2"
            using assms Some y Inr z b True by (auto simp: authorize_def authenticate_def allow_request_def split: if_splits)
          show ?thesis using x ok [OF b] k f s by (cases b) (simp_all, blast+)
        qed
      qed
    qed
  qed
qed

text \<open>A gateway whose database holds a key.\<close>

definition keyed_gateway :: gateway where
  "keyed_gateway = sample_gateway\<lparr>g_db := sample_db\<lparr>t_employees := [(''e'', ''Ann'')],
     t_keys := [\<lparr>kr_id = ''k'', kr_pool = ''p'', kr_employee = ''e'', kr_hmac = ''sk-1'', kr_hint = [],
       kr_scopes = [], kr_rate_limit = 0, kr_expires = None, kr_revoked = None, kr_last_used = None, kr_created = 0\<rparr>],
     t_bindings := [\<lparr>b_key = ''k'', b_account = ''a'', b_assigned = 0\<rparr>]\<rparr>\<rparr>"

lemma keyed_bearer: "bearer ''Bearer sk-1'' = Some ''sk-1''"
  by code_simp

lemma keyed_route:
  "\<exists>route. resolve_api_key 0 ''sk-1'' (g_db keyed_gateway) = Inr route \<and> k_scopes (r_key route) = []
     \<and> k_rate_limit (r_key route) = 0"
  by (simp add: resolve_api_key_def q_resolve_api_key_def keyed_gateway_def route_rows_def first_row_def
      key_live_def sample_simps route_of_row_def Let_def)

lemma keyed_fields: "fields_from 0 [] ''Bearer sk-1'' = [''Bearer'', ''sk-1'']"
  by code_simp

lemma keyed_world: "w_digest (sample_world n) s = s" "w_others (sample_world n) i d = d"
  by (simp_all add: sample_world_def)

theorem authorize_checks_witness:
  "\<exists>route g'. authorize (sample_world 200) ''Bearer sk-1'' ''responses'' keyed_gateway = (Inr route, g')
    \<and> (\<exists>k. k \<in> set (t_keys (g_db keyed_gateway)) \<and> kr_hmac k = ''sk-1'')"
proof -
  obtain route where r: "resolve_api_key 0 ''sk-1'' (g_db keyed_gateway) = Inr route" "k_scopes (r_key route) = []"
    "k_rate_limit (r_key route) = 0" using keyed_route by blast
  have "\<exists>g'. authorize (sample_world 200) ''Bearer sk-1'' ''responses'' keyed_gateway = (Inr route, g')"
    using r by (simp add: authorize_def authenticate_def keyed_bearer store_do_def read_only_def Let_def
        scope_allowed_def allow_request_def allow_api_key_request_def)
  then obtain g' where a: "authorize (sample_world 200) ''Bearer sk-1'' ''responses'' keyed_gateway = (Inr route, g')"
    by blast
  from authorize_checks [OF a] obtain k where "row_of_token (w_tx (sample_world 200) (g_step keyed_gateway))
      (w_digest (sample_world 200) ''sk-1'') (w_others (sample_world 200) (g_step keyed_gateway) (g_db keyed_gateway)) k route"
    using keyed_fields by auto
  then have "k \<in> set (t_keys (g_db keyed_gateway)) \<and> kr_hmac k = ''sk-1''"
    by (simp add: row_of_token_def keyed_world)
  then show ?thesis using a by blast
qed

end
