(* ===== verification/Gateway_Errors.thy ===== *)
theory Gateway_Errors
  imports Gateway_Routing
begin

text \<open>
  The errors that \<open>call\<close> makes up itself (\<open>internal/gateway/server.go\<close>): which of them a client gets, and what must have
  happened for it, in terms of what the provider asked last answered and of what a refresh of credentials returned.
\<close>

section \<open>Steps\<close>

definition later :: "gateway \<Rightarrow> gateway \<Rightarrow> bool" where
  "later g g' \<longleftrightarrow> g_sent g' = g_sent g \<and> g_step g \<le> g_step g'"

lemma later_refl [simp]: "later g g"
  by (simp add: later_def)

lemma later_trans [trans]: "later g g1 \<Longrightarrow> later g1 g2 \<Longrightarrow> later g g2"
  by (simp add: later_def)




lemma refresh_later: "refresh w a g = (x, g') \<Longrightarrow> later g g'"
  by (auto simp: later_def refresh_def split: prod.splits)



definition refresh_failed :: "world \<Rightarrow> gateway \<Rightarrow> refresh_failure \<Rightarrow> bool" where
  "refresh_failed w g e \<longleftrightarrow> (\<exists>i < g_step g. \<exists>aid v d. snd (w_refresh w i aid v d) = Inl e)"




lemma refresh_failure: "refresh w a g = (Inl e, g1) \<Longrightarrow> refresh_failed w g1 e"
  unfolding refresh_def refresh_failed_def
  by (auto split: prod.splits intro!: exI [of _ "g_step g"] exI [of _ "a_id a"] exI [of _ "a_version a"]
      exI [of _ "w_others w (g_step g) (g_db g)"])

section \<open>Why an attempt is given up\<close>









section \<open>Why a call is refused\<close>







end
