(* ===== verification/Gateway_Usage.thy ===== *)
theory Gateway_Usage
  imports Gateway Store_Usage
begin

text \<open>
  \<open>internal/gateway/proxy.go\<close>: what the gateway records about a response it served: the tokens, the
  account, the session. Every write is tried up to three times, under the same event hash, because an
  answer of the database can get lost after the transaction is committed. \<open>RecordProviderRequest\<close> of
  \<open>internal/store/reports.go\<close>.
\<close>

section \<open>The store operation\<close>

definition q_record_provider_request :: "string \<Rightarrow> string \<Rightarrow> string \<Rightarrow> time \<Rightarrow> db \<Rightarrow> pg_error + db" where
  "q_record_provider_request kid hash aid ts db =
     (if list_ex (\<lambda>e. ev_key e = kid \<and> ev_hash e = hash) (t_events db) then Inr db
      else if kid \<notin> set (key_ids db) \<or> aid \<notin> set (account_ids db) then Inl foreign_key_violation
      else Inr (db\<lparr>t_events := t_events db @ [\<lparr>ev_key = kid, ev_hash = hash, ev_account = aid, ev_at = ts\<rparr>]\<rparr>))"

definition record_provider_request :: "string \<Rightarrow> string \<Rightarrow> string \<Rightarrow> time \<Rightarrow> db \<Rightarrow> store_error + db" where
  "record_provider_request kid hash aid ts db =
     wrapped ''record provider request'' (q_record_provider_request kid hash aid ts db)"

section \<open>Trying again\<close>

text \<open>What can happen to a call of the store: it is carried out and answered, it never arrives, or it is
  carried out and the answer is lost (the caller sees an error).\<close>

datatype delivery = Answered | NotSent | AnswerLost

text \<open>The loop of \<open>addUsage\<close>, \<open>saveSession\<close> and \<open>addAccountUsage\<close>: the call of the given attempt, then, unless
  it succeeded or was the third, a pause (\<open>wait_ok\<close> says that the deadline allows it) and the next. The
  second result says whether an attempt succeeded.\<close>

fun retrying ::
  "(nat \<Rightarrow> delivery) \<Rightarrow> (nat \<Rightarrow> bool) \<Rightarrow> (nat \<Rightarrow> db \<Rightarrow> store_error + db) \<Rightarrow> nat \<Rightarrow> nat \<Rightarrow> db \<Rightarrow> db \<times> bool" where
  "retrying deliver wait_ok f attempt 0 db = (db, False)"
| "retrying deliver wait_ok f attempt (Suc left) db =
     (let again = (\<lambda>d. if attempt < 3 \<and> \<not> wait_ok attempt then (d, False)
                       else retrying deliver wait_ok f (attempt + 1) left d)
      in case (deliver attempt, f attempt db) of
           (NotSent, _) \<Rightarrow> again db
         | (Answered, Inr d) \<Rightarrow> (d, True)
         | (AnswerLost, Inr d) \<Rightarrow> again d
         | (_, Inl e) \<Rightarrow> again db)"

record recorder =
  re_deliver :: "nat \<Rightarrow> delivery"
  re_wait_ok :: "nat \<Rightarrow> bool"
  re_now :: "nat \<Rightarrow> time"
  re_tx :: "nat \<Rightarrow> time"

definition add_usage_retrying ::
  "recorder \<Rightarrow> string \<Rightarrow> string \<Rightarrow> string \<Rightarrow> int \<Rightarrow> int \<Rightarrow> db \<Rightarrow> db \<times> bool" where
  "add_usage_retrying rc kid hash model input output db =
     retrying (re_deliver rc) (re_wait_ok rc)
       (\<lambda>i. add_usage (re_tx rc i) kid hash model (re_now rc i) input output) 1 3 db"

definition save_session_retrying ::
  "world \<Rightarrow> recorder \<Rightarrow> string \<Rightarrow> string \<Rightarrow> string \<Rightarrow> string \<Rightarrow> db \<Rightarrow> db \<times> bool" where
  "save_session_retrying w rc kid pid rid aid db =
     retrying (re_deliver rc) (re_wait_ok rc)
       (\<lambda>i. save_session_binding (re_tx rc i) kid pid (w_session_hash w rid) aid (re_now rc i + 24 * hour)) 1 3 db"

definition usage_event_hash :: "world \<Rightarrow> string \<Rightarrow> string \<Rightarrow> string" where
  "usage_event_hash w rid fallback = (if rid = [] then fallback else w_digest w (''usage-event:'' @ rid))"

text \<open>\<open>randomUsageEventHash\<close> with the 32 random bytes as an argument; when the system has none, the clock
  and a sequence number stand in for them.\<close>

definition random_usage_event_hash :: "world \<Rightarrow> string option \<Rightarrow> (time \<Rightarrow> nat \<Rightarrow> string) \<Rightarrow> time \<Rightarrow> nat \<Rightarrow> string" where
  "random_usage_event_hash w random render now sequence =
     w_digest w (''usage-event-fallback:'' @ (case random of Some bytes \<Rightarrow> bytes | None \<Rightarrow> render now sequence))"

definition add_account_usage ::
  "world \<Rightarrow> recorder \<Rightarrow> recorder \<Rightarrow> string \<Rightarrow> string \<Rightarrow> string \<Rightarrow> string \<Rightarrow> string \<Rightarrow> int \<Rightarrow> int \<Rightarrow> db \<Rightarrow> db" where
  "add_account_usage w rc1 rc2 fallback kid aid rid model input output db =
     (let db1 = fst (add_usage_retrying rc1 kid (usage_event_hash w rid fallback) model input output db)
      in if aid = [] then db1
         else
           let hash = (if rid = [] then fallback else w_session_hash w rid)
           in fst (retrying (re_deliver rc2) (re_wait_ok rc2)
                (\<lambda>i. record_provider_request kid hash aid (re_now rc2 i)) 1 3 db1))"

section \<open>Billing exactly once\<close>

lemma add_usage_retrying_once:
  assumes "db_ok db" and "retrying deliver wait_ok (\<lambda>i. add_usage (tx i) kid hash model (now i) input output) attempt left db = (db', acked)"
  shows "event_seen db' kid hash = (event_seen db kid hash \<or> db' \<noteq> db)
    \<and> (db' \<noteq> db \<longrightarrow> \<not> event_seen db kid hash \<and> (\<forall>k. totals db' k = (if counts_for k kid
         then (fst (totals db k) + input, snd (totals db k) + output) else totals db k)))
    \<and> (acked \<longrightarrow> event_seen db' kid hash)"
  using assms
proof (induction left arbitrary: attempt db)
  case (Suc left)
  let ?f = "\<lambda>i. add_usage (tx i) kid hash model (now i) input output"
  define again where "again d = (if attempt < 3 \<and> \<not> wait_ok attempt then (d, False)
      else retrying deliver wait_ok ?f (attempt + 1) left d)" for d
  have eq: "(case (deliver attempt, ?f attempt db) of
       (NotSent, _) \<Rightarrow> again db | (Answered, Inr d) \<Rightarrow> (d, True) | (AnswerLost, Inr d) \<Rightarrow> again d
     | (_, Inl e) \<Rightarrow> again db) = (db', acked)"
    using Suc.prems(2) unfolding retrying.simps Let_def again_def .
  have rest: "event_seen db' kid hash = (event_seen d kid hash \<or> db' \<noteq> d)
    \<and> (db' \<noteq> d \<longrightarrow> \<not> event_seen d kid hash \<and> (\<forall>k. totals db' k = (if counts_for k kid
         then (fst (totals d k) + input, snd (totals d k) + output) else totals d k)))
    \<and> (acked \<longrightarrow> event_seen db' kid hash)" if "db_ok d" "again d = (db', acked)" for d
    using that Suc.IH [of d "attempt + 1"] by (auto simp: again_def split: if_splits)
  have step: "event_seen d kid hash \<and> db_ok d \<and> (event_seen db kid hash \<longrightarrow> d = db)
      \<and> (\<not> event_seen db kid hash \<longrightarrow> d \<noteq> db \<and> (\<forall>k. totals d k = (if counts_for k kid
         then (fst (totals db k) + input, snd (totals db k) + output) else totals db k)))"
    if "?f attempt db = Inr d" for d
    using add_usage_events [OF that, of kid hash] add_usage_ok [OF Suc.prems(1) that] add_usage_seen [OF that]
      add_usage_totals [OF _ that] db_okD(10) [OF Suc.prems(1)] by auto
  show ?case
  proof (cases "?f attempt db")
    case (Inl e)
    then have "again db = (db', acked)" using eq by (cases "deliver attempt") simp_all
    then show ?thesis using rest Suc.prems(1) by blast
  next
    case (Inr d)
    note d = step [OF Inr]
    consider "again db = (db', acked)" | "db' = d \<and> acked" | "again d = (db', acked)"
      using eq Inr by (cases "deliver attempt") auto
    then show ?thesis
    proof cases
      case 1
      then show ?thesis using rest Suc.prems(1) by blast
    next
      case 2
      then show ?thesis using d by (cases "event_seen db kid hash") auto
    next
      case 3
      then have "db' = d" using rest [of d] d by blast
      then show ?thesis using d by (cases "event_seen db kid hash") auto
    qed
  qed
qed simp

text \<open>C24. Recording the tokens of a response bills them at most once, whatever gets lost on the way to the
  database: if one of the three attempts was acknowledged the event is recorded, and recorded or not,
  the totals grow by the tokens exactly when it became recorded now, and otherwise nothing changes.\<close>

theorem usage_billed_once:
  assumes "db_ok db" and "add_usage_retrying rc kid hash model input output db = (db', acknowledged)"
  shows "(acknowledged \<longrightarrow> event_seen db' kid hash)
    \<and> get_usage_totals kid None None db' =
       (if event_seen db' kid hash \<and> \<not> event_seen db kid hash
        then (fst (get_usage_totals kid None None db) + input, snd (get_usage_totals kid None None db) + output)
        else get_usage_totals kid None None db)"
  using add_usage_retrying_once [OF assms(1) assms(2) [unfolded add_usage_retrying_def]]
  unfolding totals_def [symmetric] by (auto simp: counts_for_def)

definition lossy_recorder :: recorder where
  "lossy_recorder = \<lparr>re_deliver = (\<lambda>i. if i = 1 then AnswerLost else if i = 2 then NotSent else Answered),
     re_wait_ok = (\<lambda>_. True), re_now = (\<lambda>_. 2), re_tx = (\<lambda>_. 3)\<rparr>"

theorem usage_billed_once_witness:
  "\<exists>db'. add_usage_retrying lossy_recorder ''k'' ''h'' ''gpt'' 10 4 usage_db = (db', True)
    \<and> get_usage_totals ''k'' None None db' = (10, 4)"
proof -
  obtain db' b where a: "add_usage_retrying lossy_recorder ''k'' ''h'' ''gpt'' 10 4 usage_db = (db', b)"
    by (meson surj_pair)
  have b: b using a
    by (simp add: add_usage_retrying_def lossy_recorder_def eval_nat_numeral add_usage_def usage_db_def fresh_db_def
        sample_key_row_def q_dedup_event_def key_ids_def q_add_usage_def same_usage_def q_update_key_activity_def
        trim_space_id Let_def)
  have "\<not> event_seen usage_db ''k'' ''h''" by (simp add: event_seen_def usage_db_def fresh_db_def)
  moreover have "get_usage_totals ''k'' None None usage_db = (0, 0)"
    by (simp add: get_usage_totals_def q_usage_totals_def usage_db_def fresh_db_def)
  ultimately show ?thesis using usage_billed_once [OF usage_db_ok a] a b by simp
qed

end
