(* ===== verification/WS_Hub.thy ===== *)
theory WS_Hub
  imports Ledger
begin

text \<open>
  \<open>internal/gateway/responsesws/hub.go\<close>: the counters that all WebSocket sessions share. Connections are
  bounded over all and per key, turns per account; every operation is one critical section of the
  hub's mutex. A Go map from names to positive counters is a partial function, whose missing
  entries count zero. Sessions are numbers.
\<close>

definition max_connections :: int where "max_connections = 256"
definition max_connections_per_key :: int where "max_connections_per_key = 32"
definition max_turns_per_account :: int where "max_turns_per_account = 16"

record hub =
  hb_sessions :: "nat list"
  hb_connections :: "string \<Rightarrow> int option"
  hb_account_turns :: "string \<Rightarrow> int option"
  hb_active :: int
  hb_closing :: bool
  hb_reject :: int
  hb_reject_per_key :: int
  hb_reject_global :: int
  hb_reject_closing :: int

definition new_hub :: hub where
  "new_hub = \<lparr>hb_sessions = [], hb_connections = Map.empty, hb_account_turns = Map.empty, hb_active = 0,
     hb_closing = False, hb_reject = 0, hb_reject_per_key = 0, hb_reject_global = 0, hb_reject_closing = 0\<rparr>"

definition counter :: "(string \<Rightarrow> int option) \<Rightarrow> string \<Rightarrow> int" where
  "counter m k = (case m k of None \<Rightarrow> 0 | Some n \<Rightarrow> n)"

text \<open>\<open>m[k]++\<close>, and the release of one unit, which deletes an entry of one or less.\<close>

definition count_up :: "string \<Rightarrow> (string \<Rightarrow> int option) \<Rightarrow> string \<Rightarrow> int option" where
  "count_up k m = m(k \<mapsto> counter m k + 1)"

definition count_down :: "string \<Rightarrow> (string \<Rightarrow> int option) \<Rightarrow> string \<Rightarrow> int option" where
  "count_down k m = (if counter m k \<le> 1 then m(k := None) else m(k \<mapsto> counter m k - 1))"

section \<open>Operations\<close>

definition reserve_connection :: "string \<Rightarrow> hub \<Rightarrow> hub \<times> bool" where
  "reserve_connection kid h =
     (if hb_closing h then
        (h\<lparr>hb_reject_closing := hb_reject_closing h + 1, hb_reject := hb_reject h + 1\<rparr>, False)
      else if max_connections \<le> hb_active h then
        (h\<lparr>hb_reject_global := hb_reject_global h + 1, hb_reject := hb_reject h + 1\<rparr>, False)
      else if max_connections_per_key \<le> counter (hb_connections h) kid then
        (h\<lparr>hb_reject_per_key := hb_reject_per_key h + 1, hb_reject := hb_reject h + 1\<rparr>, False)
      else
        (h\<lparr>hb_active := hb_active h + 1, hb_connections := count_up kid (hb_connections h)\<rparr>, True))"

definition add_session :: "nat \<Rightarrow> hub \<Rightarrow> hub \<times> bool" where
  "add_session sid h =
     (if hb_closing h then (h, False) else (h\<lparr>hb_sessions := List.insert sid (hb_sessions h)\<rparr>, True))"

definition release_connection :: "string \<Rightarrow> hub \<Rightarrow> hub" where
  "release_connection kid h =
     h\<lparr>hb_active := (if 0 < hb_active h then hb_active h - 1 else hb_active h),
       hb_connections := count_down kid (hb_connections h)\<rparr>"

definition remove_session :: "nat \<Rightarrow> string \<Rightarrow> hub \<Rightarrow> hub" where
  "remove_session sid kid h =
     release_connection kid (h\<lparr>hb_sessions := filter (\<lambda>i. i \<noteq> sid) (hb_sessions h)\<rparr>)"

definition reserve_account_turn :: "string \<Rightarrow> hub \<Rightarrow> hub option" where
  "reserve_account_turn aid h =
     (if max_turns_per_account \<le> counter (hb_account_turns h) aid then None
      else Some (h\<lparr>hb_account_turns := count_up aid (hb_account_turns h)\<rparr>))"

definition release_account_turn :: "string \<Rightarrow> hub \<Rightarrow> hub" where
  "release_account_turn aid h = h\<lparr>hb_account_turns := count_down aid (hb_account_turns h)\<rparr>"

text \<open>\<open>CloseAll\<close> and \<open>CloseAccount\<close>: the sessions to close; \<open>pinned_to\<close> reads the account a session is pinned to.\<close>

definition close_all :: "hub \<Rightarrow> hub \<times> nat list" where
  "close_all h = (h\<lparr>hb_closing := True\<rparr>, hb_sessions h)"

definition close_account :: "(nat \<Rightarrow> string option) \<Rightarrow> string \<Rightarrow> hub \<Rightarrow> nat list" where
  "close_account pinned_to aid h = filter (\<lambda>sid. pinned_to sid = Some aid) (hb_sessions h)"

section \<open>Counters\<close>

lemma counter_up [acct_simps]: "counter (count_up k m) j = counter m j + (if j = k then 1 else 0)"
  by (simp add: counter_def count_up_def)

lemma counter_down [acct_simps]:
  "0 \<le> counter m k \<Longrightarrow> counter (count_down k m) j = (if j = k then max 0 (counter m k - 1) else counter m j)"
  by (simp add: counter_def count_down_def)

lemma counter_empty [simp]: "counter Map.empty k = 0"
  by (simp add: counter_def)

lemma release_turn_used [acct_simps]:
  "0 \<le> counter (hb_account_turns h) a \<Longrightarrow> counter (hb_account_turns (release_account_turn a h)) b
    = (if b = a then max 0 (counter (hb_account_turns h) a - 1) else counter (hb_account_turns h) b)"
  by (simp add: release_account_turn_def acct_simps)

lemma reserve_turn_used:
  "reserve_account_turn a h = Some h' \<Longrightarrow>
   counter (hb_account_turns h') b = counter (hb_account_turns h) b + (if b = a then 1 else 0)
   \<and> counter (hb_account_turns h') a \<le> max_turns_per_account"
  by (auto simp: reserve_account_turn_def acct_simps split: if_splits)

text \<open>The turns of the accounts are a ledger whose tokens are single turns.\<close>

definition turns_ok :: "hub \<Rightarrow> bool" where
  "turns_ok h \<longleftrightarrow> (\<forall>a. 0 \<le> counter (hb_account_turns h) a)"

definition take_turn :: "unit \<Rightarrow> string \<Rightarrow> int \<Rightarrow> hub \<Rightarrow> hub option" where
  "take_turn u aid n h = (if n = 1 then reserve_account_turn aid h else None)"

definition give_turns :: "string \<Rightarrow> int \<Rightarrow> hub \<Rightarrow> hub" where
  "give_turns aid n = release_account_turn aid ^^ nat n"

lemma give_turns_used:
  "turns_ok h \<Longrightarrow> int n \<le> counter (hb_account_turns h) a \<Longrightarrow>
   turns_ok ((release_account_turn a ^^ n) h)
   \<and> counter (hb_account_turns ((release_account_turn a ^^ n) h)) b
      = counter (hb_account_turns h) b - (if b = a then int n else 0)"
proof (induction n arbitrary: b)
  case (Suc n)
  then have IH: "turns_ok ((release_account_turn a ^^ n) h)"
    "\<And>b. counter (hb_account_turns ((release_account_turn a ^^ n) h)) b
      = counter (hb_account_turns h) b - (if b = a then int n else 0)" by simp_all
  then have "\<And>b. counter (hb_account_turns (release_account_turn a ((release_account_turn a ^^ n) h))) b
      = counter (hb_account_turns h) b - (if b = a then int (Suc n) else 0)"
    using Suc.prems(2) by (simp add: release_turn_used turns_ok_def)
  moreover from this have "turns_ok (release_account_turn a ((release_account_turn a ^^ n) h))"
    using Suc.prems by (simp add: turns_ok_def)
  ultimately show ?case by simp
qed simp

interpretation hub_turns: ledger "\<lambda>h. counter (hb_account_turns h)" take_turn give_turns
  "\<lambda>_. max_turns_per_account" turns_ok
proof unfold_locales
  fix s s' :: hub and a :: unit and k :: string and n :: int
  assume ok: "turns_ok s" and acq: "take_turn a k n s = Some s'"
  then have r: "n = 1" "reserve_account_turn k s = Some s'" by (auto simp: take_turn_def split: if_splits)
  show "counter (hb_account_turns s') j = counter (hb_account_turns s) j + (if j = k then n else 0)" for j
    using reserve_turn_used [OF r(2), of j] r(1) by simp
  then show "turns_ok s'" using ok r(1) by (simp add: turns_ok_def)
  show "counter (hb_account_turns s') k \<le> max_turns_per_account" by (rule reserve_turn_used [OF r(2), THEN conjunct2])
next
  fix s s' :: hub and a :: unit and k :: string and n :: int
  assume "take_turn a k n s = Some s'"
  then show "0 \<le> n" by (simp add: take_turn_def split: if_splits)
next
  fix s :: hub and k :: string and n :: int
  assume "turns_ok s" "0 \<le> n" "n \<le> counter (hb_account_turns s) k"
  then show "turns_ok (give_turns k n s)"
    and "counter (hb_account_turns (give_turns k n s)) j = counter (hb_account_turns s) j - (if j = k then n else 0)" for j
    using give_turns_used [of s "nat n" k] by (simp_all add: give_turns_def)
qed

section \<open>Connections\<close>

text \<open>Connections come and go: \<open>Connect\<close> is the reservation of \<open>Handle\<close> (a refused client holds nothing),
  \<open>Disconnect\<close> the release by one that holds a connection, \<open>Shutdown\<close> is \<open>CloseAll\<close>.\<close>

datatype connection_op = Connect string | Disconnect nat | Shutdown

fun connection_step :: "connection_op \<Rightarrow> hub \<times> string list \<Rightarrow> hub \<times> string list" where
  "connection_step (Connect kid) (h, open) =
     (case reserve_connection kid h of (h', ok) \<Rightarrow> (h', if ok then kid # open else open))"
| "connection_step (Disconnect i) (h, open) =
     (if i < length open then (release_connection (open ! i) h, drop_nth i open) else (h, open))"
| "connection_step Shutdown (h, open) = (fst (close_all h), open)"

definition connections_agree :: "hub \<times> string list \<Rightarrow> bool" where
  "connections_agree st \<longleftrightarrow>
     hb_active (fst st) = int (length (snd st)) \<and> hb_active (fst st) \<le> max_connections
   \<and> (\<forall>k. counter (hb_connections (fst st)) k = int (count_list (snd st) k))
   \<and> (\<forall>k. counter (hb_connections (fst st)) k \<le> max_connections_per_key)"

lemma count_list_drop_nth:
  "i < length xs \<Longrightarrow> int (count_list (drop_nth i xs) k) = int (count_list xs k) - (if xs ! i = k then 1 else 0)"
proof -
  assume i: "i < length xs"
  then have "count_list xs k = count_list (take i xs @ xs ! i # drop (Suc i) xs) k"
    by (simp flip: id_take_nth_drop)
  then show ?thesis by (simp add: drop_nth_def)
qed

lemma connection_step_agrees: "connections_agree st \<Longrightarrow> connections_agree (connection_step op st)"
proof (cases st)
  case (Pair h xs)
  assume "connections_agree st"
  then have ok: "hb_active h = int (length xs)" "hb_active h \<le> max_connections"
    "\<And>k. counter (hb_connections h) k = int (count_list xs k)"
    "\<And>k. counter (hb_connections h) k \<le> max_connections_per_key"
    unfolding connections_agree_def Pair fst_conv snd_conv by blast+
  show ?thesis
  proof (cases op)
    case (Connect kid)
    then show ?thesis using ok
      by (auto simp: Pair connections_agree_def reserve_connection_def counter_up)
  next
    case (Disconnect i)
    show ?thesis
    proof (cases "i < length xs")
      case True
      then have "1 \<le> count_list xs (xs ! i)"
        by (metis One_nat_def Suc_leI count_list_0_iff gr0I nth_mem)
      then have down: "counter (count_down (xs ! i) (hb_connections h)) k = int (count_list (drop_nth i xs) k)" for k
        using ok(3) count_list_drop_nth [OF True, of k] by (simp add: counter_down)
      have "length (drop_nth i xs) = length xs - 1" using True by (simp add: drop_nth_def)
      moreover have "int (count_list (drop_nth i xs) k) \<le> max_connections_per_key" for k
        using ok(3,4) [of k] count_list_drop_nth [OF True, of k] by (simp split: if_splits)
      ultimately show ?thesis using True ok(1,2) down
        by (auto simp add: Disconnect Pair connections_agree_def release_connection_def of_nat_diff)
    qed (use ok in \<open>simp add: Disconnect Pair connections_agree_def\<close>)
  next
    case Shutdown
    then show ?thesis using ok by (simp add: Pair connections_agree_def close_all_def)
  qed
qed

lemma connection_steps_agree: "connections_agree st \<Longrightarrow> connections_agree (fold connection_step ops st)"
  by (induction ops arbitrary: st) (simp_all add: connection_step_agrees)

text \<open>Whatever sequence of clients connects and disconnects, the hub counts exactly the open connections,
  over all and for every key, never more than 256 and 32; and after a shutdown it accepts nobody.\<close>

theorem connections_exact:
  assumes "fold connection_step ops (new_hub, []) = (h, open)"
  shows "hb_active h = int (length open) \<and> length open \<le> 256
    \<and> counter (hb_connections h) kid = int (count_list open kid) \<and> count_list open kid \<le> 32
    \<and> \<not> snd (reserve_connection kid (fst (close_all h)))"
proof -
  have "connections_agree (new_hub, [])"
    by (simp add: connections_agree_def new_hub_def max_connections_def max_connections_per_key_def)
  then have "connections_agree (h, open)" using connection_steps_agree [of "(new_hub, [])" ops] assms by simp
  then show ?thesis
    by (simp add: connections_agree_def max_connections_def max_connections_per_key_def reserve_connection_def close_all_def)
       (metis of_nat_le_iff of_nat_numeral)
qed

theorem connections_exact_witness:
  "\<exists>h. fold connection_step [Connect ''k'', Connect ''l'', Connect ''k'', Disconnect 1] (new_hub, []) = (h, [''k'', ''k''])
    \<and> counter (hb_connections h) ''k'' = 2"
proof -
  obtain h where f: "fold connection_step [Connect ''k'', Connect ''l'', Connect ''k'', Disconnect 1] (new_hub, [])
      = (h, [''k'', ''k''])"
    by (simp add: reserve_connection_def new_hub_def max_connections_def max_connections_per_key_def count_up_def
        counter_def drop_nth_def)
  show ?thesis using connections_exact [OF f, of "''k''"] f by auto
qed

end
