(* ===== verification/WS_Protocol.thy ===== *)
theory WS_Protocol
  imports Gateway Json_Write
begin

text \<open>
  \<open>internal/gateway/responsesws/protocol.go\<close>: the messages of a WebSocket session. What a client sends is
  parsed and checked, what an upstream sends is classified and observed for the turn it belongs to.
\<close>

section \<open>Requests\<close>

record request_error =
  we_status :: int
  we_message :: string
  we_code :: string

record ws_request =
  wr_type :: string
  wr_stream :: "string option"
  wr_model :: string
  wr_previous :: string
  wr_raw :: string

definition bad_request :: "string \<Rightarrow> string \<Rightarrow> request_error" where
  "bad_request message code = \<lparr>we_status = 400, we_message = message, we_code = code\<rparr>"

definition max_stream_id_bytes :: nat where "max_stream_id_bytes = 256"

definition char_between :: "char \<Rightarrow> char \<Rightarrow> char \<Rightarrow> bool" where
  "char_between lo hi c \<longleftrightarrow> lo \<le> c \<and> c \<le> hi"

definition stream_id_char :: "char \<Rightarrow> bool" where
  "stream_id_char c \<longleftrightarrow>
     list_ex (\<lambda>(lo, hi). char_between lo hi c) [(CHR ''a'', CHR ''z''), (CHR ''A'', CHR ''Z''), (CHR ''0'', CHR ''9'')]
     \<or> c \<in> {CHR ''_'', CHR ''-'', CHR ''.''}"

definition valid_stream_id :: "string \<Rightarrow> bool" where
  "valid_stream_id sid \<longleftrightarrow> sid \<noteq> [] \<and> length sid \<le> max_stream_id_bytes \<and> list_all stream_id_char sid"

definition decode_ws_request :: "string \<Rightarrow> ws_request option" where
  "decode_ws_request data =
     (case json_parse data of
        None \<Rightarrow> None
      | Some v \<Rightarrow>
          (case struct_members v of
             None \<Rightarrow> None
           | Some ms \<Rightarrow>
               (case (str_field ''type'' ms, decode_ptr store_string [] (field_vals ''stream_id'' ms),
                      str_field ''model'' ms, str_field ''previous_response_id'' ms) of
                  (Some t, Some s, Some m, Some p) \<Rightarrow>
                    Some \<lparr>wr_type = t, wr_stream = s, wr_model = m, wr_previous = p, wr_raw = []\<rparr>
                | _ \<Rightarrow> None)))"

definition single_fields :: "string list" where
  "single_fields = [''type'', ''stream_id'', ''previous_response_id'', ''model'']"

definition parse_ws_request :: "string \<Rightarrow> request_error + ws_request" where
  "parse_ws_request payload =
     (let trimmed = trim_space payload in
      if trimmed = [] then Inl (bad_request ''invalid response.create message'' ''invalid_request_error'')
      else
        (case parse_object trimmed of
           Inl _ \<Rightarrow> Inl (bad_request ''response.create message must be a JSON object'' ''invalid_request_error'')
         | Inr ob \<Rightarrow>
             (case find (\<lambda>field. duplicate field ob) single_fields of
                Some field \<Rightarrow> Inl (bad_request (''duplicate '' @ field @ '' field'') ''invalid_request_error'')
              | None \<Rightarrow>
                  (case decode_ws_request trimmed of
                     None \<Rightarrow> Inl (bad_request ''type must be response.create'' ''invalid_request_error'')
                   | Some r \<Rightarrow>
                       (if wr_type r \<noteq> ''response.create''
                        then Inl (bad_request ''type must be response.create'' ''invalid_request_error'')
                        else if has_prefix ''resp_subpool_cmp_'' (wr_previous r)
                        then Inl (bad_request
                          ''Subpool compaction responses do not store upstream history; replay the compaction item and full remaining input''
                          ''previous_response_not_found'')
                        else if (case wr_stream r of None \<Rightarrow> False | Some s \<Rightarrow> \<not> valid_stream_id s)
                        then Inl (bad_request
                          ''stream_id must contain 1-256 letters, numbers, underscores, hyphens, or periods''
                          ''invalid_stream_id'')
                        else Inr (r\<lparr>wr_raw := trimmed\<rparr>))))))"

definition stream_id :: "ws_request \<Rightarrow> string" where
  "stream_id r = (case wr_stream r of None \<Rightarrow> [] | Some s \<Rightarrow> s)"

text \<open>\<open>preparePayload\<close> for the HTTP bridge.\<close>

definition bridge_payload :: "string \<Rightarrow> request_error + string" where
  "bridge_payload raw =
     (case parse_object raw of
        Inl _ \<Rightarrow> Inl (bad_request ''invalid response.create message'' ''invalid_request_error'')
      | Inr body \<Rightarrow>
          let edited = object_delete ''stream_id'' (object_delete ''type'' body)
          in Inr (object_bytes (case object_set ''stream'' ''true'' edited of Some b \<Rightarrow> b | None \<Rightarrow> edited)))"

section \<open>Events\<close>

record ws_event =
  we_type :: string
  we_stream :: string

text \<open>A member of the wrong type leaves its field empty: the error is ignored.\<close>

definition parse_ws_event :: "string \<Rightarrow> ws_event" where
  "parse_ws_event payload =
     (case json_parse payload of
        None \<Rightarrow> \<lparr>we_type = [], we_stream = []\<rparr>
      | Some v \<Rightarrow>
          (let ms = (case struct_members v of None \<Rightarrow> [] | Some ms \<Rightarrow> ms);
               text = (\<lambda>name. fold (\<lambda>v s. case v of JStr t \<Rightarrow> t | _ \<Rightarrow> s) (field_vals name ms) [])
           in \<lparr>we_type = text ''type'', we_stream = text ''stream_id''\<rparr>))"

definition terminal_event :: "string \<Rightarrow> bool" where
  "terminal_event t \<longleftrightarrow>
     t \<in> {''response.completed'', ''response.incomplete'', ''response.failed'', ''response.done'', ''error''}"

definition ws_retry_error :: "retry_reason \<Rightarrow> string \<times> string" where
  "ws_retry_error reason =
     (case reason of
        RetryAuth \<Rightarrow> (''provider_authentication_error'', ''provider authentication failed'')
      | RetryRateLimit \<Rightarrow> (''subpool_rate_limited'', ''provider is rate limited'')
      | RetryInvalid \<Rightarrow> (''invalid_request_error'', ''client_metadata must be an object'')
      | RetryUnsupported \<Rightarrow>
          (''unsupported_provider_endpoint'', ''no eligible account supports this Responses API request'')
      | _ \<Rightarrow> (''provider_error'', ''provider is unavailable''))"

definition bridge_retry_safe :: "retry_reason \<Rightarrow> bool" where
  "bridge_retry_safe reason \<longleftrightarrow>
     reason \<in> {RetryUnavailable, RetryAuth, RetryRefresh, RetryRateLimit, RetryProvider5xx, RetryUnsupported}"

section \<open>Properties\<close>

text \<open>A message that is accepted as a request is well formed: without the white space around it, it is a
  JSON object in which none of the four members the session reads is repeated; it asks for
  \<open>response.create\<close>, it continues no response made up by a compaction, and its stream id, if it has
  one, is 1 to 256 characters of the allowed set.\<close>

theorem accepted_request_well_formed:
  assumes "parse_ws_request payload = Inr r"
  shows "\<exists>ms. json_parse (trim_space payload) = Some (JObj ms) \<and> wr_raw r = trim_space payload
    \<and> (\<forall>field \<in> set single_fields. count_if (\<lambda>m. fst m = field) ms \<le> 1)
    \<and> str_field ''type'' ms = Some ''response.create'' \<and> str_field ''model'' ms = Some (wr_model r)
    \<and> str_field ''previous_response_id'' ms = Some (wr_previous r)
    \<and> \<not> has_prefix ''resp_subpool_cmp_'' (wr_previous r)
    \<and> (\<forall>sid. wr_stream r = Some sid \<longrightarrow> valid_stream_id sid)"
proof -
  let ?t = "trim_space payload"
  obtain ob where ob: "parse_object ?t = Inr ob" and dup: "find (\<lambda>field. duplicate field ob) single_fields = None"
    and dec: "\<exists>q. decode_ws_request ?t = Some q \<and> wr_type q = ''response.create''
      \<and> \<not> has_prefix ''resp_subpool_cmp_'' (wr_previous q)
      \<and> \<not> (case wr_stream q of None \<Rightarrow> False | Some sid \<Rightarrow> \<not> valid_stream_id sid) \<and> r = q\<lparr>wr_raw := ?t\<rparr>"
    using assms by (auto simp: parse_ws_request_def Let_def split: if_splits sum.splits option.splits)
  obtain ms where ms: "json_parse ?t = Some (JObj ms)"
    and d: "\<And>k. duplicate k ob \<longleftrightarrow> 1 < count_if (\<lambda>m. fst m = k) ms"
    using parse_object_spec [of ?t] ob by (auto simp: trim_space_idem split: option.splits json.splits)
  obtain q where q: "decode_ws_request ?t = Some q" "wr_type q = ''response.create''"
    "\<not> has_prefix ''resp_subpool_cmp_'' (wr_previous q)"
    "\<not> (case wr_stream q of None \<Rightarrow> False | Some sid \<Rightarrow> \<not> valid_stream_id sid)" "r = q\<lparr>wr_raw := ?t\<rparr>"
    using dec by blast
  have "\<forall>field \<in> set single_fields. count_if (\<lambda>m. fst m = field) ms \<le> 1"
    using dup d by (auto simp: find_None_iff not_less)
  moreover have "str_field ''type'' ms = Some (wr_type q) \<and> str_field ''model'' ms = Some (wr_model q)
      \<and> str_field ''previous_response_id'' ms = Some (wr_previous q)"
    using q(1) by (auto simp: decode_ws_request_def ms struct_members_def split: option.splits)
  moreover have "\<forall>sid. wr_stream r = Some sid \<longrightarrow> valid_stream_id sid" using q(4,5) by auto
  ultimately show ?thesis using ms q by auto
qed

definition two_models :: string where
  "two_models = ''{\"type\":\"response.create\",\"model\":\"a\",\"Model\":\"b\"}''"

lemma two_models_members:
  "json_parse two_models = Some (JObj [(''type'', JStr ''response.create''), (''model'', JStr ''a''), (''Model'', JStr ''b'')])"
  by code_simp

lemma fold_request_names:
  "fold_name ''type'' = ''type''" "fold_name ''model'' = ''model''" "fold_name ''Model'' = ''model''"
  "fold_name ''stream_id'' = ''stream_id''" "fold_name ''previous_response_id'' = ''previous_response_id''"
  by (simp_all add: fold_name_ascii lower_char_def char_of_def bit_0 del: fold_name.simps)

lemma two_models_trim: "trim_space two_models = two_models"
  by (rule trim_space_id) (simp_all add: two_models_def ascii_space_def space2_def space3_def)

lemma two_models_object:
  "\<exists>ob m. parse_object two_models = Inr ob \<and> object_value ''model'' ob = Some m \<and> json_parse m = Some (JStr ''a'')
    \<and> (\<forall>k. duplicate k ob \<longleftrightarrow> 1 < count_if (\<lambda>m. fst m = k)
       [(''type'', JStr ''response.create''), (''model'', JStr ''a''), (''Model'', JStr ''b'')])"
proof -
  obtain ob where ob: "parse_object two_models = Inr ob"
    and v: "rel_option (\<lambda>t v. json_parse t = Some v) (object_value ''model'' ob)
      (jget ''model'' [(''type'', JStr ''response.create''), (''model'', JStr ''a''), (''Model'', JStr ''b'')])"
    and d: "\<forall>k. duplicate k ob \<longleftrightarrow> 1 < count_if (\<lambda>m. fst m = k)
       [(''type'', JStr ''response.create''), (''model'', JStr ''a''), (''Model'', JStr ''b'')]"
    using parse_object_spec [of two_models] unfolding two_models_trim two_models_members by auto
  have "jget ''model'' [(''type'', JStr ''response.create''), (''model'', JStr ''a''), (''Model'', JStr ''b'')]
      = Some (JStr ''a'')"
    by (simp add: jget_def)
  then obtain m where "object_value ''model'' ob = Some m" "json_parse m = Some (JStr ''a'')"
    using v by (auto simp: option_rel_Some2)
  then show ?thesis using ob d by blast
qed

definition two_models_request :: ws_request where
  "two_models_request = \<lparr>wr_type = ''response.create'', wr_stream = None, wr_model = ''b'', wr_previous = [],
     wr_raw = two_models\<rparr>"

lemma two_models_accepted: "parse_ws_request two_models = Inr two_models_request"
proof -
  obtain ob where ob: "parse_object two_models = Inr ob" "\<forall>k. duplicate k ob \<longleftrightarrow> 1 < count_if (\<lambda>m. fst m = k)
       [(''type'', JStr ''response.create''), (''model'', JStr ''a''), (''Model'', JStr ''b'')]"
    using two_models_object by blast
  have dec: "decode_ws_request two_models = Some \<lparr>wr_type = ''response.create'', wr_stream = None, wr_model = ''b'',
      wr_previous = [], wr_raw = []\<rparr>"
    by (simp add: decode_ws_request_def two_models_members struct_members_def str_field_def field_vals_def
        fold_request_names decode_field_def store_string_def decode_ptr_def del: fold_name.simps)
  have "two_models \<noteq> []" by (simp add: two_models_def)
  then show ?thesis using ob
    by (simp add: parse_ws_request_def two_models_trim dec single_fields_def two_models_request_def)
qed

text \<open>C28. The check for repeated members compares names exactly, the decoder that reads them ignores case: a
  message with the members \<open>model\<close> and \<open>Model\<close> passes, the session works with the value of the second,
  and the message it passes on has the first under \<open>model\<close>.\<close>

theorem model_in_two_spellings:
  "\<exists>payload r ob m. parse_ws_request payload = Inr r \<and> wr_model r = ''b''
    \<and> parse_object (wr_raw r) = Inr ob \<and> \<not> duplicate ''model'' ob
    \<and> object_value ''model'' ob = Some m \<and> json_parse m = Some (JStr ''a'')"
proof -
  obtain ob m where ob: "parse_object two_models = Inr ob" "object_value ''model'' ob = Some m"
    "json_parse m = Some (JStr ''a'')" "\<forall>k. duplicate k ob \<longleftrightarrow> 1 < count_if (\<lambda>m. fst m = k)
       [(''type'', JStr ''response.create''), (''model'', JStr ''a''), (''Model'', JStr ''b'')]"
    using two_models_object by blast
  then have "\<not> duplicate ''model'' ob" by simp
  moreover have "wr_model two_models_request = ''b''" "wr_raw two_models_request = two_models"
    by (simp_all add: two_models_request_def)
  ultimately show ?thesis using two_models_accepted ob by metis
qed

theorem accepted_request_well_formed_witness:
  "parse_ws_request two_models = Inr two_models_request \<and> wr_raw two_models_request = trim_space two_models"
  using accepted_request_well_formed [OF two_models_accepted] two_models_accepted by blast

end
