(* ===== verification/WS_Session.thy ===== *)
theory WS_Session
  imports WS_Hub WS_Protocol
begin

text \<open>
  \<open>internal/gateway/responsesws/session.go\<close> and \<open>protocol.go\<close>: the state of a WebSocket session and its
  critical sections. Each definition is what happens while the session's mutex is held once; the
  goroutines of the session and of the hub interleave between them (\<open>WS_System\<close>).

  Turns are shared by pointers: a turn is an index into \<open>ss_turns\<close>, which keeps finished turns too.
  A connection to an upstream is a number, with the account it was dialed for: the code keeps no such field, the
  credentials in the handshake of \<open>dialCodex\<close> bind the connection to its account for good. The set of remembered response ids is a list without
  repetitions, and where the code deletes whichever id the map yields first, the position is an
  argument.
\<close>

section \<open>State\<close>

record turn =
  tn_stream :: string
  tn_account :: string
  tn_model :: string
  tn_response :: string
  tn_input :: int
  tn_output :: int
  tn_terminal :: string
  tn_continuation :: bool
  tn_forwarded :: bool
  tn_finished :: bool
  tn_limit_recorded :: bool
  tn_usage_recorded :: bool
  tn_no_session :: bool
  tn_body :: bool

text \<open>\<open>tn_body\<close>: the turn still holds the admission of its request body (\<open>releaseBody\<close>).\<close>

record connection =
  cn_number :: nat
  cn_account :: string

record session =
  ss_account :: account
  ss_upstream :: "connection option"
  ss_upstream_model :: string
  ss_native :: bool
  ss_pinned :: bool
  ss_switching :: bool
  ss_closed :: bool
  ss_turns :: "turn list"
  ss_streams :: "(string \<times> nat list \<times> bool) list"
  ss_named :: "string list"
  ss_responses :: "string list"
  ss_pending :: int

definition new_session :: session where
  "new_session = \<lparr>ss_account = no_account, ss_upstream = None, ss_upstream_model = [], ss_native = False,
     ss_pinned = False, ss_switching = False, ss_closed = False, ss_turns = [], ss_streams = [], ss_named = [],
     ss_responses = [], ss_pending = 0\<rparr>"

definition max_turns_per_connection :: int where "max_turns_per_connection = 16"
definition max_named_streams :: nat where "max_named_streams = 32"
definition max_remembered_ids :: nat where "max_remembered_ids = 128"

definition set_turn :: "nat \<Rightarrow> turn \<Rightarrow> session \<Rightarrow> session" where
  "set_turn i t s = s\<lparr>ss_turns := (ss_turns s)[i := t]\<rparr>"

section \<open>Pinning\<close>

definition pin_account :: "account \<Rightarrow> connection option \<Rightarrow> bool \<Rightarrow> string \<Rightarrow> session \<Rightarrow> session option" where
  "pin_account a upstream native model s =
     (if ss_closed s then None
      else Some (s\<lparr>ss_account := a, ss_upstream := upstream, ss_upstream_model := model, ss_native := native,
                   ss_pinned := True\<rparr>))"

definition reset_bridge_pin :: "session \<Rightarrow> session" where
  "reset_bridge_pin s =
     (if \<not> ss_closed s \<and> \<not> ss_native s \<and> ss_pending s = 0
      then s\<lparr>ss_pinned := False, ss_account := no_account\<rparr> else s)"

text \<open>The second critical section of \<open>resolveRoute\<close>, of the account just read from the store under the id that the
  first one found; the session need not be pinned to that account any more.\<close>

definition refresh_pinned :: "account \<Rightarrow> session \<Rightarrow> session" where
  "refresh_pinned a s = s\<lparr>ss_account := a\<rparr>"

section \<open>Turns\<close>

definition closing_error :: request_error where
  "closing_error = \<lparr>we_status = 503, we_message = ''WebSocket session is closing'', we_code = ''server_error''\<rparr>"

definition failover_error :: request_error where
  "failover_error = \<lparr>we_status = 503, we_message = ''provider account failover is in progress'', we_code = ''provider_error''\<rparr>"

text \<open>The first critical section of \<open>reserveTurn\<close>: the account to charge.\<close>

definition reserve_check :: "ws_request \<Rightarrow> session \<Rightarrow> request_error + string" where
  "reserve_check r s =
     (if ss_closed s then Inl closing_error
      else if ss_switching s then Inl failover_error
      else if max_turns_per_connection \<le> ss_pending s then
        Inl \<lparr>we_status = 429, we_message = ''connection turn capacity exceeded'', we_code = ''subpool_capacity_exceeded''\<rparr>
      else if wr_stream r \<noteq> None \<and> stream_id r \<notin> set (ss_named s) \<and> max_named_streams \<le> length (ss_named s) then
        Inl (bad_request ''too many named streams'' ''invalid_stream_id'')
      else Inr (a_id (ss_account s)))"

definition new_turn :: "ws_request \<Rightarrow> string \<Rightarrow> turn" where
  "new_turn r aid =
     \<lparr>tn_stream = stream_id r, tn_account = aid, tn_model = wr_model r, tn_response = [], tn_input = 0, tn_output = 0,
      tn_terminal = [], tn_continuation = (wr_previous r \<noteq> []), tn_forwarded = False, tn_finished = False,
      tn_limit_recorded = False, tn_usage_recorded = False, tn_no_session = False, tn_body = True\<rparr>"

definition stream_of :: "string \<Rightarrow> session \<Rightarrow> nat list \<times> bool" where
  "stream_of sid s = (case map_of (ss_streams s) sid of None \<Rightarrow> ([], False) | Some st \<Rightarrow> st)"

text \<open>The second critical section of \<open>reserveTurn\<close>, after the hub has charged the account.\<close>

definition commit_turn :: "ws_request \<Rightarrow> string \<Rightarrow> session \<Rightarrow> request_error + session" where
  "commit_turn r aid s =
     (if ss_closed s then Inl closing_error
      else if ss_switching s then Inl failover_error
      else
        case stream_of (stream_id r) s of (ids, running) \<Rightarrow>
        Inr (s\<lparr>ss_named := (if wr_stream r \<noteq> None then List.insert (stream_id r) (ss_named s) else ss_named s),
               ss_turns := ss_turns s @ [new_turn r aid],
               ss_streams := AList.update (stream_id r) (ids @ [length (ss_turns s)], running) (ss_streams s),
               ss_pending := ss_pending s + 1\<rparr>))"

definition current_turn :: "string \<Rightarrow> session \<Rightarrow> nat option" where
  "current_turn sid s = (case fst (stream_of sid s) of [] \<Rightarrow> None | i # _ \<Rightarrow> Some i)"

text \<open>\<open>rememberResponseLocked\<close>: a full set loses an id first, even when the new one is known already.\<close>

definition remember_response :: "nat \<Rightarrow> string \<Rightarrow> session \<Rightarrow> session" where
  "remember_response pick rid s =
     (let kept = (if max_remembered_ids \<le> length (ss_responses s)
                  then drop_nth (pick mod length (ss_responses s)) (ss_responses s) else ss_responses s)
      in s\<lparr>ss_responses := List.insert rid kept\<rparr>)"

definition successful_terminal :: "turn \<Rightarrow> bool" where
  "successful_terminal t \<longleftrightarrow> tn_terminal t = ''response.completed'' \<or> tn_terminal t = ''response.incomplete''"

text \<open>\<open>observeTurn\<close>, of a payload and the type of its event.\<close>

definition response_model :: "string \<Rightarrow> string" where
  "response_model payload =
     (case unmarshal_map payload of
        None \<Rightarrow> []
      | Some value \<Rightarrow>
          (case jget_obj ''response'' value of
             None \<Rightarrow> []
           | Some response \<Rightarrow> (case jget_str ''model'' response of None \<Rightarrow> [] | Some m \<Rightarrow> m)))"

definition observed :: "string \<Rightarrow> string \<Rightarrow> turn \<Rightarrow> turn" where
  "observed payload kind t =
     (let rid = response_id payload; (input, output) = event_usage payload; model = response_model payload
      in t\<lparr>tn_forwarded := True,
           tn_response := (if rid \<noteq> [] then rid else tn_response t),
           tn_input := (if tn_input t < input then input else tn_input t),
           tn_output := (if tn_output t < output then output else tn_output t),
           tn_model := (if model \<noteq> [] then model else tn_model t),
           tn_terminal := (if terminal_event kind then kind else tn_terminal t)\<rparr>)"

definition observe_turn :: "nat \<Rightarrow> nat \<Rightarrow> string \<Rightarrow> string \<Rightarrow> session \<Rightarrow> session" where
  "observe_turn pick i payload kind s =
     (if tn_finished (ss_turns s ! i) then s
      else
        let t = observed payload kind (ss_turns s ! i); s' = set_turn i t s
        in if (kind = ''response.completed'' \<or> kind = ''response.incomplete'') \<and> tn_response t \<noteq> [] \<and> \<not> tn_no_session t
           then remember_response pick (tn_response t) s' else s')"

text \<open>The critical section of \<open>finishTurn\<close>, \<open>None\<close> when the turn was finished already; the turn it returns is
  the one whose account is released and whose completion is recorded.\<close>

definition mark_finished :: "nat \<Rightarrow> nat \<Rightarrow> session \<Rightarrow> (session \<times> turn) option" where
  "mark_finished pick i s =
     (let t = ss_turns s ! i in
      if tn_finished t then None
      else
        let s1 = set_turn i (t\<lparr>tn_finished := True, tn_body := False\<rparr>) s;
            s2 = (case map_of (ss_streams s) (tn_stream t) of
                    None \<Rightarrow> s1
                  | Some (ids, running) \<Rightarrow>
                      s1\<lparr>ss_streams := AList.update (tn_stream t) (remove1 i ids, running) (ss_streams s)\<rparr>);
            s3 = s2\<lparr>ss_pending := (if 0 < ss_pending s then ss_pending s - 1 else ss_pending s)\<rparr>;
            s4 = (if successful_terminal t \<and> tn_response t \<noteq> [] \<and> \<not> tn_no_session t
                  then remember_response pick (tn_response t) s3 else s3)
        in Some (s4, t))"

text \<open>What \<open>finishTurn\<close> hands to \<open>CompleteTurn\<close>: account, response id, model and tokens.\<close>

definition completion :: "turn \<Rightarrow> (string \<times> string \<times> string \<times> int \<times> int) option" where
  "completion t =
     (if \<not> successful_terminal t then None
      else Some (tn_account t, if tn_no_session t then [] else tn_response t, tn_model t,
                 if tn_usage_recorded t then 0 else tn_input t, if tn_usage_recorded t then 0 else tn_output t))"

text \<open>\<open>recordBridgeLimit\<close>: the account whose limit is reported, if any.\<close>

definition record_limit :: "nat \<Rightarrow> limit_kind \<Rightarrow> session \<Rightarrow> session \<times> string option" where
  "record_limit i limit s =
     (if limit = LimitNone \<or> tn_limit_recorded (ss_turns s ! i) then (s, None)
      else (set_turn i ((ss_turns s ! i)\<lparr>tn_limit_recorded := True\<rparr>) s,
            nullif_empty (tn_account (ss_turns s ! i))))"

definition note_bridge_headers :: "nat \<Rightarrow> bool \<Rightarrow> bool \<Rightarrow> session \<Rightarrow> session" where
  "note_bridge_headers i usage_recorded no_session s =
     set_turn i ((ss_turns s ! i)\<lparr>tn_usage_recorded := usage_recorded, tn_no_session := no_session\<rparr>) s"

section \<open>Changing the account\<close>

text \<open>The first critical section of \<open>retryNativeLimitedTurn\<close>: the second result says whether the turn may be
  sent to another account.\<close>

definition begin_switch :: "nat option \<Rightarrow> connection \<Rightarrow> session \<Rightarrow> session \<times> bool" where
  "begin_switch turn failed s =
     (let owns = (ss_native s \<and> ss_upstream s = Some failed \<and> \<not> ss_switching s);
          safe = (owns \<and> (case turn of None \<Rightarrow> False
                          | Some i \<Rightarrow> \<not> tn_finished (ss_turns s ! i) \<and> \<not> tn_continuation (ss_turns s ! i)
                                    \<and> \<not> tn_forwarded (ss_turns s ! i))
                  \<and> ss_pending s = 1)
      in (if owns then s\<lparr>ss_switching := True\<rparr> else s, safe))"

definition finish_switch :: "session \<Rightarrow> session" where
  "finish_switch s = s\<lparr>ss_switching := False\<rparr>"

definition transfer_native :: "nat \<Rightarrow> connection \<Rightarrow> connection \<Rightarrow> account \<Rightarrow> session \<Rightarrow> (session \<times> string) option" where
  "transfer_native i failed next_conn a s =
     (let t = ss_turns s ! i in
      if ss_closed s \<or> \<not> ss_native s \<or> \<not> ss_switching s \<or> ss_upstream s \<noteq> Some failed \<or> tn_finished t
         \<or> tn_forwarded t \<or> ss_pending s \<noteq> 1 then None
      else Some (set_turn i (t\<lparr>tn_account := a_id a\<rparr>) (s\<lparr>ss_account := a, ss_upstream := Some next_conn\<rparr>),
                 tn_account t))"

definition transfer_bridge :: "nat \<Rightarrow> account \<Rightarrow> session \<Rightarrow> (session \<times> string) option" where
  "transfer_bridge i a s =
     (let t = ss_turns s ! i in
      if a_id a = [] \<or> ss_closed s \<or> ss_native s \<or> \<not> ss_pinned s \<or> tn_finished t then None
      else Some (set_turn i (t\<lparr>tn_account := a_id a\<rparr>) (s\<lparr>ss_account := a\<rparr>), tn_account t))"

section \<open>Bridges and the end\<close>

text \<open>\<open>startBridge\<close>: \<open>None\<close> when none is to be started; \<open>runBridge\<close> takes the next turn of the stream or stops.\<close>

definition start_bridge :: "string \<Rightarrow> session \<Rightarrow> session option" where
  "start_bridge sid s =
     (case map_of (ss_streams s) sid of
        None \<Rightarrow> None
      | Some (ids, running) \<Rightarrow>
          (if ss_closed s \<or> running then None
           else Some (s\<lparr>ss_streams := AList.update sid (ids, True) (ss_streams s)\<rparr>)))"

definition next_bridge_turn :: "string \<Rightarrow> session \<Rightarrow> session \<times> nat option" where
  "next_bridge_turn sid s =
     (case map_of (ss_streams s) sid of
        None \<Rightarrow> (s, None)
      | Some ([], running) \<Rightarrow> (s\<lparr>ss_streams := AList.update sid ([], False) (ss_streams s)\<rparr>, None)
      | Some (i # ids, running) \<Rightarrow> (s, Some i))"

text \<open>\<open>close\<close>: the turns to finish; \<open>closeOnce\<close> lets only the first call in.\<close>

definition start_close :: "session \<Rightarrow> (session \<times> nat list) option" where
  "start_close s =
     (if ss_closed s then None
      else Some (s\<lparr>ss_closed := True\<rparr>, concat (map (\<lambda>st. fst (snd st)) (ss_streams s))))"

end
