(* ===== verification/WS_System.thy ===== *)
theory WS_System
  imports WS_Session
begin

text \<open>
  The WebSocket sessions of a hub as a state machine. A step is one critical section of one goroutine; a
  reader that has checked a request and not yet committed its turn is at a program point of its own,
  and an account turn that a goroutine holds between two critical sections (reserved for a transfer,
  or about to be released) is in \<open>wy_held\<close>. Every interleaving of the goroutines is a run.
\<close>

section \<open>States and steps\<close>

text \<open>Messages of a client are handled one after the other: \<open>Reading\<close> is the point between two of them (and
  everything of \<open>handleRequest\<close> outside \<open>reserveTurn\<close>). The reader and the bridges resolve the route of a pinned
  session in two critical sections; \<open>wy_resolving\<close> has the session and the account of each that is
  between them.\<close>

datatype reader_point = Reading | Checked ws_request string | Charged ws_request string

record proc =
  pc_session :: session
  pc_reader :: reader_point

record ws_system =
  wy_hub :: hub
  wy_procs :: "proc list"
  wy_held :: "string list"
  wy_resolving :: "(nat \<times> string) list"

definition no_system :: ws_system where
  "no_system = \<lparr>wy_hub = new_hub, wy_procs = [], wy_held = [], wy_resolving = []\<rparr>"

datatype session_op =
  Pin account "connection option" bool string | ResetPin | BeginSwitch "nat option" connection | FinishSwitch
| Observe nat nat string string | BridgeHeaders nat bool bool | Limit nat limit_kind
| StartBridge string | NextBridge string | Close

text \<open>The turn an operation names.\<close>

fun names_turn :: "session_op \<Rightarrow> nat option" where
  "names_turn (BeginSwitch i f) = i"
| "names_turn (Observe pick i payload kind) = Some i"
| "names_turn (BridgeHeaders i u n) = Some i"
| "names_turn (Limit i l) = Some i"
| "names_turn _ = None"

fun session_step :: "session_op \<Rightarrow> session \<Rightarrow> session" where
  "session_step (Pin a up native model) s = (case pin_account a up native model s of None \<Rightarrow> s | Some s' \<Rightarrow> s')"
| "session_step ResetPin s = reset_bridge_pin s"
| "session_step (BeginSwitch i failed) s = fst (begin_switch i failed s)"
| "session_step FinishSwitch s = finish_switch s"
| "session_step (Observe pick i payload kind) s = observe_turn pick i payload kind s"
| "session_step (BridgeHeaders i u n) s = note_bridge_headers i u n s"
| "session_step (Limit i l) s = fst (record_limit i l s)"
| "session_step (StartBridge sid) s = (case start_bridge sid s of None \<Rightarrow> s | Some s' \<Rightarrow> s')"
| "session_step (NextBridge sid) s = fst (next_bridge_turn sid s)"
| "session_step Close s = (case start_close s of None \<Rightarrow> s | Some (s', _) \<Rightarrow> s')"

text \<open>Only the reader pins, when \<open>ensurePinned\<close> has found that the session is not, to the account that the connection was
  dialed for, if there is one; and only it takes a pin back.\<close>

fun may_run :: "session_op \<Rightarrow> session \<Rightarrow> reader_point \<Rightarrow> bool" where
  "may_run (Pin a up native model) s r \<longleftrightarrow>
     r = Reading \<and> \<not> ss_pinned s \<and> (case up of None \<Rightarrow> True | Some c \<Rightarrow> cn_account c = a_id a)"
| "may_run ResetPin s r \<longleftrightarrow> r = Reading"
| "may_run op s r \<longleftrightarrow> (\<forall>i. names_turn op = Some i \<longrightarrow> i < length (ss_turns s))"

definition set_proc :: "nat \<Rightarrow> session \<Rightarrow> reader_point \<Rightarrow> ws_system \<Rightarrow> ws_system" where
  "set_proc p s r y = y\<lparr>wy_procs := (wy_procs y)[p := \<lparr>pc_session = s, pc_reader = r\<rparr>]\<rparr>"

abbreviation session_at :: "ws_system \<Rightarrow> nat \<Rightarrow> session" where
  "session_at y p \<equiv> pc_session (wy_procs y ! p)"

abbreviation reader_at :: "ws_system \<Rightarrow> nat \<Rightarrow> reader_point" where
  "reader_at y p \<equiv> pc_reader (wy_procs y ! p)"

inductive ws_step :: "ws_system \<Rightarrow> ws_system \<Rightarrow> bool" where
  Open: "ws_step y (y\<lparr>wy_procs := wy_procs y @ [\<lparr>pc_session = new_session, pc_reader = Reading\<rparr>]\<rparr>)"
| Resolve: "p < length (wy_procs y) \<Longrightarrow> ss_pinned (session_at y p) \<Longrightarrow>
    ws_step y (y\<lparr>wy_resolving := (p, a_id (ss_account (session_at y p))) # wy_resolving y\<rparr>)"
| Resolved: "p < length (wy_procs y) \<Longrightarrow> (p, a_id acc) \<in> set (wy_resolving y) \<Longrightarrow>
    ws_step y (set_proc p (refresh_pinned acc (session_at y p)) (reader_at y p)
      (y\<lparr>wy_resolving := remove1 (p, a_id acc) (wy_resolving y)\<rparr>))"
| Unresolved: "ws_step y (y\<lparr>wy_resolving := remove1 r (wy_resolving y)\<rparr>)"
| Local: "p < length (wy_procs y) \<Longrightarrow> may_run op (session_at y p) (reader_at y p) \<Longrightarrow>
    ws_step y (set_proc p (session_step op (session_at y p)) (reader_at y p) y)"
| Check: "p < length (wy_procs y) \<Longrightarrow> reader_at y p = Reading \<Longrightarrow> reserve_check r (session_at y p) = Inr a \<Longrightarrow>
    ws_step y (set_proc p (session_at y p) (Checked r a) y)"
| Charge: "p < length (wy_procs y) \<Longrightarrow> reader_at y p = Checked r a \<Longrightarrow> reserve_account_turn a (wy_hub y) = Some h \<Longrightarrow>
    ws_step y (set_proc p (session_at y p) (Charged r a) (y\<lparr>wy_hub := h\<rparr>))"
| Full: "p < length (wy_procs y) \<Longrightarrow> reader_at y p = Checked r a \<Longrightarrow> reserve_account_turn a (wy_hub y) = None \<Longrightarrow>
    ws_step y (set_proc p (session_at y p) Reading y)"
| Commit: "p < length (wy_procs y) \<Longrightarrow> reader_at y p = Charged r a \<Longrightarrow> commit_turn r a (session_at y p) = Inr s \<Longrightarrow>
    ws_step y (set_proc p s Reading y)"
| Refuse: "p < length (wy_procs y) \<Longrightarrow> reader_at y p = Charged r a \<Longrightarrow> commit_turn r a (session_at y p) = Inl e \<Longrightarrow>
    ws_step y (set_proc p (session_at y p) Reading (y\<lparr>wy_held := a # wy_held y\<rparr>))"
| Hold: "reserve_account_turn a (wy_hub y) = Some h \<Longrightarrow>
    ws_step y (y\<lparr>wy_hub := h, wy_held := a # wy_held y\<rparr>)"
| Native: "p < length (wy_procs y) \<Longrightarrow> i < length (ss_turns (session_at y p)) \<Longrightarrow> a_id acc \<in> set (wy_held y) \<Longrightarrow>
    transfer_native i failed conn acc (session_at y p) = Some (s, old) \<Longrightarrow> cn_account conn = a_id acc \<Longrightarrow>
    ws_step y (set_proc p s (reader_at y p) (y\<lparr>wy_held := old # remove1 (a_id acc) (wy_held y)\<rparr>))"
| Bridge: "p < length (wy_procs y) \<Longrightarrow> i < length (ss_turns (session_at y p)) \<Longrightarrow> a_id acc \<in> set (wy_held y) \<Longrightarrow>
    transfer_bridge i acc (session_at y p) = Some (s, old) \<Longrightarrow>
    ws_step y (set_proc p s (reader_at y p) (y\<lparr>wy_held := old # remove1 (a_id acc) (wy_held y)\<rparr>))"
| Finish: "p < length (wy_procs y) \<Longrightarrow> i < length (ss_turns (session_at y p)) \<Longrightarrow>
    mark_finished pick i (session_at y p) = Some (s, t) \<Longrightarrow>
    ws_step y (set_proc p s (reader_at y p) (y\<lparr>wy_held := tn_account t # wy_held y\<rparr>))"
| Release: "a \<in> set (wy_held y) \<Longrightarrow>
    ws_step y (y\<lparr>wy_hub := release_account_turn a (wy_hub y), wy_held := remove1 a (wy_held y)\<rparr>)"

inductive ws_reach :: "ws_system \<Rightarrow> bool" where
  start: "ws_reach no_system"
| step: "ws_reach y \<Longrightarrow> ws_step y y' \<Longrightarrow> ws_reach y'"

section \<open>The invariant of a session\<close>

definition open_turn :: "turn \<Rightarrow> bool" where
  "open_turn t \<longleftrightarrow> \<not> tn_finished t"

text \<open>The turns of a stream that are not finished, oldest first.\<close>

definition open_on :: "string \<Rightarrow> session \<Rightarrow> nat list" where
  "open_on sid s = filter (\<lambda>i. open_turn (ss_turns s ! i) \<and> tn_stream (ss_turns s ! i) = sid) [0..<length (ss_turns s)]"

definition responses_ok :: "session \<Rightarrow> bool" where
  "responses_ok s \<longleftrightarrow> distinct (ss_responses s) \<and> length (ss_responses s) \<le> max_remembered_ids"

definition session_ok :: "session \<Rightarrow> bool" where
  "session_ok s \<longleftrightarrow>
     ss_pending s = int (count_if open_turn (ss_turns s)) \<and> ss_pending s \<le> max_turns_per_connection
   \<and> (\<forall>sid. fst (stream_of sid s) = open_on sid s)
   \<and> length (ss_named s) \<le> max_named_streams \<and> responses_ok s
   \<and> (\<forall>i < length (ss_turns s). tn_body (ss_turns s ! i) = open_turn (ss_turns s ! i))"

definition may_name :: "ws_request \<Rightarrow> session \<Rightarrow> bool" where
  "may_name r s \<longleftrightarrow> wr_stream r = None \<or> stream_id r \<in> set (ss_named s) \<or> length (ss_named s) < max_named_streams"

fun reader_ok :: "reader_point \<Rightarrow> session \<Rightarrow> bool" where
  "reader_ok Reading s \<longleftrightarrow> True"
| "reader_ok (Checked r a) s \<longleftrightarrow> ss_pending s < max_turns_per_connection \<and> may_name r s"
| "reader_ok (Charged r a) s \<longleftrightarrow> ss_pending s < max_turns_per_connection \<and> may_name r s"

text \<open>The open turns charged to an account.\<close>

definition charges :: "string \<Rightarrow> turn \<Rightarrow> bool" where
  "charges a t \<longleftrightarrow> open_turn t \<and> tn_account t = a"

definition charged :: "string \<Rightarrow> session \<Rightarrow> nat" where
  "charged a s = count_if (charges a) (ss_turns s)"

lemma count_if_list_update:
  "i < length xs \<Longrightarrow> count_if P (xs[i := x]) + (if P (xs ! i) then 1 else 0) = count_if P xs + (if P x then 1 else 0)"
proof (induction xs arbitrary: i)
  case (Cons y ys)
  then show ?case by (cases i) (auto split: if_splits)
qed simp

section \<open>Operations on one turn, and those on none\<close>

text \<open>\<open>frame s s'\<close>: \<open>s'\<close> has the counters, names and streams of \<open>s\<close>; with the turns in the same fate, it
  is as good as \<open>s\<close>.\<close>

definition frame :: "session \<Rightarrow> session \<Rightarrow> bool" where
  "frame s s' \<longleftrightarrow> ss_pending s' = ss_pending s \<and> ss_named s' = ss_named s
     \<and> (\<forall>sid. fst (stream_of sid s') = fst (stream_of sid s)) \<and> (responses_ok s \<longrightarrow> responses_ok s')"

definition same_fate :: "turn \<Rightarrow> turn \<Rightarrow> bool" where
  "same_fate t t' \<longleftrightarrow> tn_finished t' = tn_finished t \<and> tn_stream t' = tn_stream t \<and> tn_body t' = tn_body t"

lemma frame_trans: "frame s s' \<Longrightarrow> frame s' s'' \<Longrightarrow> frame s s''"
  by (simp add: frame_def)

lemma frame_ok:
  assumes "frame s s'" and "ss_turns s' = ss_turns s" and "session_ok s" and "reader_ok r s"
  shows "session_ok s' \<and> reader_ok r s' \<and> charged a s' = charged a s"
proof -
  have "open_on sid s' = open_on sid s" for sid using assms(2) by (simp add: open_on_def)
  then show ?thesis
    using assms by (cases r) (auto simp: session_ok_def frame_def may_name_def charged_def)
qed

lemma set_turn_ok:
  assumes "i < length (ss_turns s)" and "same_fate (ss_turns s ! i) t" and "session_ok s" and "reader_ok r s"
  shows "session_ok (set_turn i t s) \<and> reader_ok r (set_turn i t s)
    \<and> charged a (set_turn i t s) + (if charges a (ss_turns s ! i) then 1 else 0) = charged a s + (if charges a t then 1 else 0)"
proof -
  have o: "open_turn ((ss_turns s)[i := t] ! j) = open_turn (ss_turns s ! j)"
    "tn_stream ((ss_turns s)[i := t] ! j) = tn_stream (ss_turns s ! j)"
    "tn_body ((ss_turns s)[i := t] ! j) = tn_body (ss_turns s ! j)" if "j < length (ss_turns s)" for j
    using assms(1,2) that by (auto simp: nth_list_update same_fate_def open_turn_def)
  have "open_on sid (set_turn i t s) = open_on sid s" for sid
    unfolding open_on_def by (rule filter_cong) (simp_all add: set_turn_def o)
  moreover have "count_if open_turn ((ss_turns s)[i := t]) = count_if open_turn (ss_turns s)"
    using count_if_list_update [OF assms(1), of open_turn t] assms(2) by (simp add: same_fate_def open_turn_def split: if_splits)
  ultimately show ?thesis
    using assms(3,4) count_if_list_update [OF assms(1), of "charges a" t] o
    by (cases r) (auto simp: session_ok_def set_turn_def charged_def may_name_def stream_of_def responses_ok_def)
qed

lemma drop_nth_distinct: "distinct xs \<Longrightarrow> distinct (drop_nth i xs)"
proof -
  assume d: "distinct xs"
  have "distinct (take i xs @ drop i xs)" using d by simp
  moreover have "set (drop (Suc i) xs) \<subseteq> set (drop i xs)" by (simp add: set_drop_subset_set_drop)
  moreover have "set (take i xs) \<inter> set (drop i xs) = {}" by (simp add: set_take_disj_set_drop_if_distinct d)
  ultimately show ?thesis using d by (auto simp: drop_nth_def)
qed

lemma remember_response_frame: "frame s (remember_response pick rid s)"
proof -
  define kept where "kept = (if max_remembered_ids \<le> length (ss_responses s)
      then drop_nth (pick mod length (ss_responses s)) (ss_responses s) else ss_responses s)"
  have "distinct kept \<and> length kept < max_remembered_ids" if "responses_ok s"
  proof
    show "distinct kept" using that by (simp add: kept_def drop_nth_distinct responses_ok_def)
    show "length kept < max_remembered_ids"
    proof (cases "max_remembered_ids \<le> length (ss_responses s)")
      case True
      then have "pick mod length (ss_responses s) < length (ss_responses s)" by (intro mod_less_divisor) (auto simp: max_remembered_ids_def)
      then show ?thesis using that True by (simp add: kept_def drop_nth_def responses_ok_def)
    qed (simp add: kept_def)
  qed
  then have "responses_ok s \<longrightarrow> responses_ok (remember_response pick rid s)"
    by (auto simp add: remember_response_def Let_def kept_def [symmetric] responses_ok_def List.insert_def)
  then show ?thesis by (simp add: frame_def remember_response_def Let_def stream_of_def)
qed

lemma remember_response_turns [simp]: "ss_turns (remember_response pick rid s) = ss_turns s"
  by (simp add: remember_response_def Let_def)

lemma observed_fate: "same_fate t (observed payload kind t)" "charges a (observed payload kind t) = charges a t"
  by (simp_all add: same_fate_def observed_def charges_def open_turn_def Let_def case_prod_beta)

lemma observe_turn_ok:
  assumes "i < length (ss_turns s)" and "session_ok s" and "reader_ok r s"
  shows "session_ok (observe_turn pick i payload kind s) \<and> reader_ok r (observe_turn pick i payload kind s)
    \<and> charged a (observe_turn pick i payload kind s) = charged a s"
proof -
  define s' where "s' = set_turn i (observed payload kind (ss_turns s ! i)) s"
  have ok: "session_ok s' \<and> reader_ok r s' \<and> charged a s' = charged a s"
    using set_turn_ok [OF assms(1) observed_fate(1) assms(2,3), of payload kind a]
    by (simp add: s'_def observed_fate)
  consider "observe_turn pick i payload kind s = s" | "observe_turn pick i payload kind s = s'"
    | rid where "observe_turn pick i payload kind s = remember_response pick rid s'"
  proof (cases "tn_finished (ss_turns s ! i)")
    case False
    then have "observe_turn pick i payload kind s = (if (kind = ''response.completed'' \<or> kind = ''response.incomplete'')
        \<and> tn_response (observed payload kind (ss_turns s ! i)) \<noteq> [] \<and> \<not> tn_no_session (observed payload kind (ss_turns s ! i))
        then remember_response pick (tn_response (observed payload kind (ss_turns s ! i))) s' else s')"
      by (simp add: observe_turn_def Let_def s'_def)
    then show thesis using that(2,3) by (metis (full_types))
  qed (use that(1) in \<open>simp add: observe_turn_def\<close>)
  then show ?thesis
  proof cases
    case 3
    then show ?thesis using frame_ok [OF remember_response_frame [of s' pick rid], of r a] ok by simp
  qed (use assms ok in simp_all)
qed

lemma stream_update [simp]:
  "stream_of sid (s\<lparr>ss_streams := AList.update k v (ss_streams s)\<rparr>) = (if sid = k then v else stream_of sid s)"
  by (simp add: stream_of_def update_conv')

lemma may_run_names: "may_run op s r \<Longrightarrow> \<forall>i. names_turn op = Some i \<longrightarrow> i < length (ss_turns s)"
  by (cases op) auto

text \<open>Every operation of the session alone keeps the invariant and charges nobody else.\<close>

lemma session_step_ok:
  assumes "\<forall>i. names_turn op = Some i \<longrightarrow> i < length (ss_turns s)" and "session_ok s" and "reader_ok r s"
  shows "session_ok (session_step op s) \<and> reader_ok r (session_step op s) \<and> charged a (session_step op s) = charged a s"
proof -
  have fr: ?thesis if "frame s (session_step op s)" "ss_turns (session_step op s) = ss_turns s"
    using frame_ok [OF that assms(2,3)] by simp
  have tn: ?thesis if "session_step op s = set_turn i t s" "names_turn op = Some i" "same_fate (ss_turns s ! i) t"
      "charges a t = charges a (ss_turns s ! i)" for i t
    using set_turn_ok [of i s t r a] that assms by simp
  show ?thesis
  proof (cases op)
    case (Observe pick i payload kind)
    then show ?thesis using observe_turn_ok [of i s r pick payload kind a] assms by simp
  next
    case (BridgeHeaders i u n)
    then show ?thesis
      by (intro tn [of i "(ss_turns s ! i)\<lparr>tn_usage_recorded := u, tn_no_session := n\<rparr>"])
         (simp_all add: note_bridge_headers_def same_fate_def charges_def open_turn_def)
  next
    case (Limit i l)
    show ?thesis
    proof (cases "l = LimitNone \<or> tn_limit_recorded (ss_turns s ! i)")
      case True
      then show ?thesis using assms Limit by (simp add: record_limit_def)
    next
      case False
      then show ?thesis using Limit
        by (intro tn [of i "(ss_turns s ! i)\<lparr>tn_limit_recorded := True\<rparr>"])
           (simp_all add: record_limit_def same_fate_def charges_def open_turn_def)
    qed
  next
    case (StartBridge sid)
    then show ?thesis
      by (intro fr) (auto simp: start_bridge_def frame_def responses_ok_def stream_of_def [of sid]
          split: option.splits)
  next
    case (NextBridge sid)
    then show ?thesis
      by (intro fr) (auto simp: next_bridge_turn_def frame_def responses_ok_def stream_of_def [of sid]
          split: option.splits list.splits)
  qed (intro fr; auto simp: pin_account_def reset_bridge_pin_def begin_switch_def finish_switch_def start_close_def
      frame_def responses_ok_def stream_of_def Let_def)+
qed

section \<open>Turns that come and go\<close>

lemma commit_turn_ok:
  assumes "commit_turn q b s = Inr s'" and "session_ok s" and "reader_ok (Charged q b) s"
  shows "session_ok s' \<and> charged a s' = charged a s + (if b = a then 1 else 0)"
proof -
  obtain ids running where st: "stream_of (stream_id q) s = (ids, running)" by (meson surj_pair)
  have s': "s' = s\<lparr>ss_named := (if wr_stream q \<noteq> None then List.insert (stream_id q) (ss_named s) else ss_named s),
      ss_turns := ss_turns s @ [new_turn q b],
      ss_streams := AList.update (stream_id q) (ids @ [length (ss_turns s)], running) (ss_streams s),
      ss_pending := ss_pending s + 1\<rparr>"
    using assms(1) st by (auto simp: commit_turn_def split: if_splits)
  have new: "open_turn (new_turn q b)" "tn_stream (new_turn q b) = stream_id q" "tn_body (new_turn q b)"
    "tn_account (new_turn q b) = b" by (simp_all add: new_turn_def open_turn_def)
  have old: "open_on sid s' = open_on sid s @ (if sid = stream_id q then [length (ss_turns s)] else [])" for sid
  proof -
    have "filter (\<lambda>i. open_turn (ss_turns s' ! i) \<and> tn_stream (ss_turns s' ! i) = sid) [0..<length (ss_turns s)]
        = open_on sid s"
      unfolding open_on_def by (rule filter_cong) (simp_all add: s' nth_append)
    then show ?thesis by (auto simp: open_on_def s' new nth_append)
  qed
  have ids: "ids = open_on (stream_id q) s" using assms(2) st by (metis fst_conv session_ok_def)
  have streams: "fst (stream_of sid s') = open_on sid s'" for sid
    using assms(2) ids st by (simp add: old session_ok_def) (auto simp: s' stream_of_def update_conv')
  have named: "length (ss_named s') \<le> max_named_streams"
    using assms(2,3) by (auto simp: s' session_ok_def may_name_def List.insert_def)
  have "tn_body (ss_turns s' ! i) = open_turn (ss_turns s' ! i)" if "i < length (ss_turns s')" for i
    using that assms(2) new by (cases "i = length (ss_turns s)") (auto simp: s' session_ok_def nth_append)
  then have "session_ok s'"
    using assms(2,3) streams named new(1) by (auto simp: session_ok_def responses_ok_def s')
  moreover have "charged a s' = charged a s + (if b = a then 1 else 0)"
    using new by (simp add: charged_def charges_def s')
  ultimately show ?thesis by blast
qed

lemma mark_finished_ok:
  assumes "mark_finished pick i s = Some (s', t)" and "i < length (ss_turns s)" and "session_ok s" and "reader_ok r s"
  shows "session_ok s' \<and> reader_ok r s' \<and> t = ss_turns s ! i \<and> open_turn t
    \<and> charged a s' + (if tn_account t = a then 1 else 0) = charged a s \<and> \<not> open_turn (ss_turns s' ! i)"
proof -
  define sid where "sid = tn_stream (ss_turns s ! i)"
  define done_turn where "done_turn = (ss_turns s ! i)\<lparr>tn_finished := True, tn_body := False\<rparr>"
  have t: "t = ss_turns s ! i" "open_turn t"
    using assms(1) by (auto simp: mark_finished_def open_turn_def Let_def split: if_splits)
  obtain ids running where st: "stream_of sid s = (ids, running)" by (meson surj_pair)
  have ids: "ids = open_on sid s" using assms(3) st by (metis fst_conv session_ok_def)
  have "i \<in> set (open_on sid s)" using assms(2) t by (simp add: open_on_def sid_def)
  then have some: "map_of (ss_streams s) sid = Some (ids, running)"
    using st ids by (auto simp: stream_of_def split: option.splits)
  have pos: "1 \<le> count_if open_turn (ss_turns s)"
    using count_if_list_update [OF assms(2), of open_turn done_turn] t by (simp add: done_turn_def open_turn_def)
  define s1 where "s1 = s\<lparr>ss_turns := (ss_turns s)[i := done_turn],
      ss_streams := AList.update sid (remove1 i ids, running) (ss_streams s), ss_pending := ss_pending s - 1\<rparr>"
  have mark: "s' = s1 \<or> (\<exists>rid. s' = remember_response pick rid s1)"
    using assms(1,3) t some pos
    by (auto simp: mark_finished_def Let_def s1_def done_turn_def sid_def set_turn_def session_ok_def split: if_splits)
  have nth: "ss_turns s1 ! j = (if j = i then done_turn else ss_turns s ! j)" for j
    using assms(2) by (simp add: s1_def nth_list_update)
  have "\<not> open_turn done_turn" "\<not> tn_body done_turn" by (simp_all add: done_turn_def open_turn_def)
  note d = this
  have "distinct (open_on sid s)" by (simp add: open_on_def)
  then have rem: "remove1 i ids = filter (\<lambda>j. j \<noteq> i) (open_on sid s)"
    by (simp add: ids distinct_remove1_removeAll removeAll_filter_not_eq) (rule filter_cong; auto)
  have on: "open_on k s1 = filter (\<lambda>j. j \<noteq> i) (open_on k s)" for k
    unfolding open_on_def filter_filter by (rule filter_cong) (simp add: s1_def, auto simp: nth d)
  have off: "filter (\<lambda>j. j \<noteq> i) (open_on k s) = open_on k s" if "k \<noteq> sid" for k
    unfolding open_on_def filter_filter by (rule filter_cong) (use that in \<open>auto simp: sid_def\<close>)
  have streams: "fst (stream_of k s1) = open_on k s1" for k
    using assms(3) by (cases "k = sid") (simp_all add: on off rem, simp_all add: s1_def rem stream_of_def update_conv',
      simp_all add: session_ok_def stream_of_def)
  have cnt: "count_if open_turn (ss_turns s1) + 1 = count_if open_turn (ss_turns s)"
    using count_if_list_update [OF assms(2), of open_turn done_turn] t d by (simp add: s1_def)
  have ch: "charged a s1 + (if tn_account t = a then 1 else 0) = charged a s"
    using count_if_list_update [OF assms(2), of "charges a" done_turn] t d by (simp add: charged_def s1_def charges_def)
  have body: "tn_body (ss_turns s1 ! j) = open_turn (ss_turns s1 ! j)" if "j < length (ss_turns s1)" for j
    using that assms(3) d by (simp add: nth session_ok_def) (simp add: s1_def)
  have ok1: "session_ok s1"
    using assms(3) streams cnt body by (auto simp: session_ok_def s1_def responses_ok_def)
  have "reader_ok r s1" using assms(4) by (cases r) (auto simp: s1_def may_name_def)
  then have "session_ok s' \<and> reader_ok r s' \<and> charged a s' = charged a s1 \<and> ss_turns s' = ss_turns s1"
    using mark ok1 frame_ok [OF remember_response_frame [of s1 pick], of _ r a] by auto
  then show ?thesis using t ch d(1) nth [of i] by simp
qed

lemma transfer_ok:
  assumes "transfer_native i failed conn acc s = Some (s', old) \<or> transfer_bridge i acc s = Some (s', old)"
    and "i < length (ss_turns s)" and "session_ok s" and "reader_ok r s"
  shows "session_ok s' \<and> reader_ok r s'
    \<and> charged a s' + (if old = a then 1 else 0) = charged a s + (if a_id acc = a then 1 else 0)"
proof -
  let ?t = "(ss_turns s ! i)\<lparr>tn_account := a_id acc\<rparr>"
  have live: "open_turn (ss_turns s ! i)" and old: "old = tn_account (ss_turns s ! i)"
    using assms(1) by (auto simp: transfer_native_def transfer_bridge_def open_turn_def Let_def split: if_splits)
  have "\<exists>s1. s' = set_turn i ?t s1 \<and> frame s s1 \<and> ss_turns s1 = ss_turns s"
    using assms(1)
    by (auto simp: transfer_native_def transfer_bridge_def Let_def frame_def stream_of_def responses_ok_def
        split: if_splits intro!: exI)
  then obtain s1 where s1: "s' = set_turn i ?t s1" "frame s s1" "ss_turns s1 = ss_turns s" by blast
  have "session_ok s1 \<and> reader_ok r s1 \<and> charged a s1 = charged a s" by (rule frame_ok [OF s1(2,3) assms(3,4)])
  moreover have "same_fate (ss_turns s1 ! i) ?t" by (simp add: same_fate_def s1(3))
  ultimately show ?thesis
    using set_turn_ok [of i s1 ?t r a] assms(2) live old by (simp add: s1 charges_def open_turn_def)
qed

section \<open>The invariant of the system\<close>

definition proc_turns :: "string \<Rightarrow> proc \<Rightarrow> nat" where
  "proc_turns a p = charged a (pc_session p)
     + (case pc_reader p of Charged r b \<Rightarrow> (if b = a then 1 else 0) | _ \<Rightarrow> 0)"

definition turns_in_use :: "string \<Rightarrow> ws_system \<Rightarrow> nat" where
  "turns_in_use a y = sum_list (map (proc_turns a) (wy_procs y)) + count_list (wy_held y) a"

definition system_ok :: "ws_system \<Rightarrow> bool" where
  "system_ok y \<longleftrightarrow>
     (\<forall>a. counter (hb_account_turns (wy_hub y)) a = int (turns_in_use a y) \<and> turns_in_use a y \<le> 16)
   \<and> (\<forall>p \<in> set (wy_procs y). session_ok (pc_session p) \<and> reader_ok (pc_reader p) (pc_session p))"

lemma count_list_remove1:
  "a \<in> set xs \<Longrightarrow> count_list (remove1 a xs) b + (if a = b then 1 else 0) = count_list xs b"
  by (induction xs) auto

lemma sum_list_map_update:
  "p < length xs \<Longrightarrow> sum_list (map f (xs[p := x])) + f (xs ! p) = sum_list (map f xs) + (f x :: nat)"
proof (induction xs arbitrary: p)
  case (Cons y ys)
  then show ?case by (cases p) auto
qed simp

lemma set_proc_turns:
  "p < length (wy_procs y) \<Longrightarrow>
   turns_in_use a (set_proc p s r (y\<lparr>wy_hub := h, wy_held := held\<rparr>)) + proc_turns a (wy_procs y ! p) + count_list (wy_held y) a
     = turns_in_use a y + proc_turns a \<lparr>pc_session = s, pc_reader = r\<rparr> + count_list held a"
  using sum_list_map_update [of p "wy_procs y" "proc_turns a" "\<lparr>pc_session = s, pc_reader = r\<rparr>"]
  by (simp add: turns_in_use_def set_proc_def)

text \<open>A step of one session: the hub and the held turns must follow what the session is charged.\<close>

lemma proc_step_ok:
  assumes "system_ok y" and "p < length (wy_procs y)" and "session_ok s" and "reader_ok r s"
    and "\<And>a. counter (hb_account_turns h) a + int (proc_turns a (wy_procs y ! p) + count_list (wy_held y) a)
        = counter (hb_account_turns (wy_hub y)) a
          + int (proc_turns a \<lparr>pc_session = s, pc_reader = r\<rparr> + count_list held a)"
    and "\<And>a. counter (hb_account_turns h) a \<le> 16"
  shows "system_ok (set_proc p s r (y\<lparr>wy_hub := h, wy_held := held\<rparr>))"
proof -
  have "int (turns_in_use a (set_proc p s r (y\<lparr>wy_hub := h, wy_held := held\<rparr>))) = counter (hb_account_turns h) a" for a
    using set_proc_turns [OF assms(2), where a = a and s = s and r = r and h = h and held = held] assms(1) assms(5) [of a]
    by (simp add: system_ok_def)
  moreover from this have "turns_in_use a (set_proc p s r (y\<lparr>wy_hub := h, wy_held := held\<rparr>)) \<le> 16" for a
    using assms(6) [of a] by (metis of_nat_le_iff of_nat_numeral)
  moreover have "\<forall>q \<in> set ((wy_procs y)[p := \<lparr>pc_session = s, pc_reader = r\<rparr>]). session_ok (pc_session q)
      \<and> reader_ok (pc_reader q) (pc_session q)"
    using assms(1-4) set_update_subset_insert [of "wy_procs y" p "\<lparr>pc_session = s, pc_reader = r\<rparr>"]
    by (auto simp: system_ok_def)
  ultimately show ?thesis by (simp add: system_ok_def set_proc_def)
qed

lemma session_change_ok:
  assumes "system_ok y" and "p < length (wy_procs y)" and "session_ok s" and "reader_ok r s"
    and "\<And>a. proc_turns a \<lparr>pc_session = s, pc_reader = r\<rparr> + count_list held a
        = proc_turns a (wy_procs y ! p) + count_list (wy_held y) a"
  shows "system_ok (set_proc p s r (y\<lparr>wy_held := held\<rparr>))"
proof -
  have "system_ok (set_proc p s r (y\<lparr>wy_hub := wy_hub y, wy_held := held\<rparr>))"
    by (rule proc_step_ok [OF assms(1-4)]) (use assms(1,5) in \<open>simp_all add: system_ok_def\<close>)
  then show ?thesis by simp
qed

lemmas session_change_ok' = session_change_ok [where held = "wy_held y" and y = y for y, simplified]

lemma hub_step_ok:
  assumes "system_ok y" and "\<And>a. counter (hb_account_turns h) a + int (count_list (wy_held y) a)
        = counter (hb_account_turns (wy_hub y)) a + int (count_list held a)"
    and "\<And>a. counter (hb_account_turns h) a \<le> 16"
  shows "system_ok (y\<lparr>wy_hub := h, wy_held := held\<rparr>)"
proof -
  have "int (turns_in_use a (y\<lparr>wy_hub := h, wy_held := held\<rparr>)) = counter (hb_account_turns h) a" for a
    using assms(1) assms(2) [of a] by (simp add: system_ok_def turns_in_use_def)
  moreover from this have "turns_in_use a (y\<lparr>wy_hub := h, wy_held := held\<rparr>) \<le> 16" for a
    using assms(3) [of a] by (metis of_nat_le_iff of_nat_numeral)
  ultimately show ?thesis using assms(1) by (simp add: system_ok_def)
qed

lemma system_counter: "system_ok y \<Longrightarrow> counter (hb_account_turns (wy_hub y)) a \<le> 16"
  by (simp add: system_ok_def)

lemma system_proc:
  "system_ok y \<Longrightarrow> p < length (wy_procs y) \<Longrightarrow> session_ok (session_at y p) \<and> reader_ok (reader_at y p) (session_at y p)"
  by (simp add: system_ok_def)

lemma reserve_counter:
  "system_ok y \<Longrightarrow> reserve_account_turn a (wy_hub y) = Some h \<Longrightarrow>
   counter (hb_account_turns h) b = counter (hb_account_turns (wy_hub y)) b + int (if a = b then 1 else 0)"
  using reserve_turn_used [of a "wy_hub y" h b] by (auto simp: max_turns_per_account_def)

lemma reserve_counter_le:
  "system_ok y \<Longrightarrow> reserve_account_turn a (wy_hub y) = Some h \<Longrightarrow> counter (hb_account_turns h) b \<le> 16"
  using reserve_turn_used [of a "wy_hub y" h b] system_counter [of y b] by (auto simp: max_turns_per_account_def)

lemma transferred_ok:
  assumes "system_ok y" and "p < length (wy_procs y)" and "i < length (ss_turns (session_at y p))"
    and "a_id acc \<in> set (wy_held y)"
    and "transfer_native i failed conn acc (session_at y p) = Some (s, old) \<or> transfer_bridge i acc (session_at y p) = Some (s, old)"
  shows "system_ok (set_proc p s (reader_at y p) (y\<lparr>wy_held := old # remove1 (a_id acc) (wy_held y)\<rparr>))"
proof -
  have t: "session_ok s \<and> reader_ok (reader_at y p) s
      \<and> charged a s + (if old = a then 1 else 0) = charged a (session_at y p) + (if a_id acc = a then 1 else 0)" for a
    using transfer_ok [OF assms(5,3)] system_proc [OF assms(1,2)] by blast
  show ?thesis
  proof (rule session_change_ok [OF assms(1,2)])
    show "session_ok s" "reader_ok (reader_at y p) s" using t by blast+
    show "proc_turns a \<lparr>pc_session = s, pc_reader = reader_at y p\<rparr> + count_list (old # remove1 (a_id acc) (wy_held y)) a
        = proc_turns a (wy_procs y ! p) + count_list (wy_held y) a" for a
      using t [of a] count_list_remove1 [OF assms(4), of a] by (auto simp: proc_turns_def)
  qed
qed

lemma step_ok: "ws_step y y' \<Longrightarrow> system_ok y \<Longrightarrow> system_ok y'"
proof (induction rule: ws_step.induct)
  case (Open y)
  have "session_ok new_session"
    by (simp add: session_ok_def new_session_def stream_of_def open_on_def responses_ok_def max_turns_per_connection_def)
  moreover have "charged a new_session = 0" for a by (simp add: charged_def new_session_def)
  ultimately show ?case using Open by (auto simp: system_ok_def turns_in_use_def proc_turns_def)
next
  case (Resolve p y)
  then show ?case by (simp add: system_ok_def turns_in_use_def)
next
  case (Resolved p y acc)
  let ?s = "refresh_pinned acc (session_at y p)"
  let ?y = "y\<lparr>wy_resolving := remove1 (p, a_id acc) (wy_resolving y)\<rparr>"
  have "frame (session_at y p) ?s" "ss_turns ?s = ss_turns (session_at y p)"
    by (simp_all add: frame_def refresh_pinned_def stream_of_def responses_ok_def)
  note f = frame_ok [OF this conjunct1 [OF system_proc [OF Resolved(3,1)]] conjunct2 [OF system_proc [OF Resolved(3,1)]]]
  have "system_ok ?y" using Resolved(3) by (simp add: system_ok_def turns_in_use_def)
  then show ?case
    by (rule session_change_ok')
       (use f Resolved(1) in \<open>simp_all add: proc_turns_def\<close>)
next
  case (Unresolved y r)
  then show ?case by (simp add: system_ok_def turns_in_use_def)
next
  case (Local p y op)
  note ok = session_step_ok [OF may_run_names [OF Local(2)] conjunct1 [OF system_proc [OF Local(3,1)]] conjunct2 [OF system_proc [OF Local(3,1)]]]
  show ?case by (rule session_change_ok' [OF Local(3,1)]) (use ok in \<open>simp_all add: proc_turns_def\<close>)
next
  case (Check p y r a)
  have "reader_ok (Checked r a) (session_at y p)"
    using Check(3) by (auto simp: reserve_check_def may_name_def split: if_splits)
  then show ?case
    by (intro session_change_ok' [OF Check(4,1)]) (use Check(2) system_proc [OF Check(4,1)] in \<open>simp_all add: proc_turns_def\<close>)
next
  case (Charge p y r a h)
  have "system_ok (set_proc p (session_at y p) (Charged r a) (y\<lparr>wy_hub := h, wy_held := wy_held y\<rparr>))"
  proof (rule proc_step_ok [OF Charge(4,1)])
    show "session_ok (session_at y p)" "reader_ok (Charged r a) (session_at y p)"
      using system_proc [OF Charge(4,1)] Charge(2) by simp_all
    show "counter (hb_account_turns h) b \<le> 16" for b by (rule reserve_counter_le [OF Charge(4,3)])
    show "counter (hb_account_turns h) b + int (proc_turns b (wy_procs y ! p) + count_list (wy_held y) b)
        = counter (hb_account_turns (wy_hub y)) b
          + int (proc_turns b \<lparr>pc_session = session_at y p, pc_reader = Charged r a\<rparr> + count_list (wy_held y) b)" for b
      using reserve_counter [OF Charge(4,3)] Charge(2) by (simp add: proc_turns_def)
  qed
  then show ?case by simp
next
  case (Full p y r a)
  show ?case
    by (rule session_change_ok' [OF Full(4,1)]) (use Full(2) system_proc [OF Full(4,1)] in \<open>simp_all add: proc_turns_def\<close>)
next
  case (Commit p y r a s)
  have c: "session_ok s \<and> charged b s = charged b (session_at y p) + (if a = b then 1 else 0)" for b
    using commit_turn_ok [OF Commit(3)] system_proc [OF Commit(4,1)] Commit(2) by simp
  show ?case
    by (rule session_change_ok' [OF Commit(4,1)]) (use Commit(2) c in \<open>simp_all add: proc_turns_def\<close>)
next
  case (Refuse p y r a e)
  show ?case
    by (rule session_change_ok [OF Refuse(4,1)]) (use Refuse(2) system_proc [OF Refuse(4,1)] in \<open>simp_all add: proc_turns_def\<close>)
next
  case (Hold a y h)
  then show ?case
    using hub_step_ok [OF Hold(2) _ reserve_counter_le [OF Hold(2,1)], where held = "a # wy_held y"]
      reserve_counter [OF Hold(2,1)] by simp
next
  case (Native p y i acc failed conn s old)
  show ?case by (rule transferred_ok [OF Native(6,1,2,3) disjI1 [OF Native(4)]])
next
  case (Bridge p y i acc s old)
  show ?case by (rule transferred_ok [OF Bridge(5,1,2,3) disjI2 [OF Bridge(4)]])
next
  case (Finish p y i pick s t)
  have f: "session_ok s \<and> reader_ok (reader_at y p) s
      \<and> charged a s + (if tn_account t = a then 1 else 0) = charged a (session_at y p)" for a
    using mark_finished_ok [OF Finish(3,2)] system_proc [OF Finish(4,1)] by blast
  show ?case
  proof (rule session_change_ok [OF Finish(4,1)])
    show "session_ok s" "reader_ok (reader_at y p) s" using f by blast+
    show "proc_turns a \<lparr>pc_session = s, pc_reader = reader_at y p\<rparr> + count_list (tn_account t # wy_held y) a
        = proc_turns a (wy_procs y ! p) + count_list (wy_held y) a" for a
      using f [of a] by (auto simp: proc_turns_def)
  qed
next
  case (Release a y)
  have "1 \<le> count_list (wy_held y) a" using Release(1) count_list_0_iff [of "wy_held y" a] by linarith
  then have pos: "1 \<le> counter (hb_account_turns (wy_hub y)) a"
    using Release(2) by (simp add: system_ok_def turns_in_use_def)
  show ?case
  proof (rule hub_step_ok [OF Release(2)])
    show "counter (hb_account_turns (release_account_turn a (wy_hub y))) b \<le> 16" for b
      using system_counter [OF Release(2), of b] system_counter [OF Release(2), of a] pos by (auto simp: release_turn_used)
    show "counter (hb_account_turns (release_account_turn a (wy_hub y))) b + int (count_list (wy_held y) b)
        = counter (hb_account_turns (wy_hub y)) b + int (count_list (remove1 a (wy_held y)) b)" for b
      using count_list_remove1 [OF Release(1), of b] pos by (auto simp: release_turn_used split: if_splits)
  qed
qed

lemma reach_ok: "ws_reach y \<Longrightarrow> system_ok y"
proof (induction rule: ws_reach.induct)
  case start
  then show ?case by (simp add: system_ok_def no_system_def turns_in_use_def new_hub_def)
next
  case (step y y')
  then show ?case using step_ok by blast
qed

end
