(* ===== verification/WS_Bounds.thy ===== *)
theory WS_Bounds
  imports WS_System
begin

text \<open>
  What the invariant of \<open>WS_System\<close> says of every reachable state of the WebSocket sessions: the limits on
  turns, streams and remembered responses hold, and the counters of the hub are exact; and a run of a
  session in which the account of a turn and the account of the connection that serves it differ.
\<close>

section \<open>A run\<close>

definition race_request :: ws_request where
  "race_request = \<lparr>wr_type = ''response.create'', wr_stream = None, wr_model = ''m'', wr_previous = [], wr_raw = []\<rparr>"

definition account_a :: account where "account_a = no_account\<lparr>a_id := ''a''\<rparr>"
definition account_b :: account where "account_b = no_account\<lparr>a_id := ''b''\<rparr>"

definition conn_a :: connection where "conn_a = \<lparr>cn_number = 0, cn_account = ''a''\<rparr>"
definition conn_b :: connection where "conn_b = \<lparr>cn_number = 1, cn_account = ''b''\<rparr>"

definition race_session :: "account \<Rightarrow> connection \<Rightarrow> bool \<Rightarrow> turn list \<Rightarrow> session" where
  "race_session a conn switching ts =
     new_session\<lparr>ss_account := a, ss_upstream := Some conn, ss_upstream_model := ''m'', ss_native := True, ss_pinned := True,
       ss_switching := switching, ss_turns := ts,
       ss_streams := (if ts = [] then [] else [([], [0..<length ts], False)]), ss_pending := int (length ts)\<rparr>"

definition race_system :: "hub \<Rightarrow> session \<Rightarrow> reader_point \<Rightarrow> string list \<Rightarrow> ws_system" where
  "race_system h s r held = \<lparr>wy_hub = h, wy_procs = [\<lparr>pc_session = s, pc_reader = r\<rparr>], wy_held = held, wy_resolving = []\<rparr>"

lemma race_step:
  "ws_reach y \<Longrightarrow> ws_step y y' \<Longrightarrow> y' = z \<Longrightarrow> ws_reach z"
  using ws_reach.step by blast

definition hub_after :: "string list \<Rightarrow> hub" where
  "hub_after as = fold (\<lambda>a h. h\<lparr>hb_account_turns := count_up a (hb_account_turns h)\<rparr>) as new_hub"

lemmas race_simps = race_system_def set_proc_def race_session_def new_session_def account_a_def account_b_def conn_a_def conn_b_def
  no_account_def

lemma race_pinned: "ws_reach (race_system new_hub (race_session account_a conn_a False []) Reading [])"
proof -
  have "ws_reach (race_system new_hub new_session Reading [])"
    by (rule race_step [OF ws_reach.start ws_step.Open]) (simp add: no_system_def race_system_def)
  then show ?thesis
    by (rule race_step [OF _ ws_step.Local [where p = 0 and op = "Pin account_a (Some conn_a) True ''m''"]])
       (simp_all add: race_simps pin_account_def)
qed

lemma race_committed:
  "ws_reach (race_system (hub_after [''a'']) (race_session account_a conn_a False [new_turn race_request ''a'']) Reading [])"
proof -
  have "ws_reach (race_system new_hub (race_session account_a conn_a False []) (Checked race_request ''a'') [])"
    by (rule race_step [OF race_pinned ws_step.Check [where p = 0 and r = race_request and a = "''a''"]])
       (simp_all add: race_simps reserve_check_def race_request_def max_turns_per_connection_def)
  then have "ws_reach (race_system (hub_after [''a'']) (race_session account_a conn_a False []) (Charged race_request ''a'') [])"
    by (rule race_step [OF _ ws_step.Charge [where p = 0 and r = race_request and a = "''a''"]])
       (simp_all add: race_simps reserve_account_turn_def hub_after_def new_hub_def counter_def max_turns_per_account_def)
  then show ?thesis
    by (rule race_step [OF _ ws_step.Commit [where p = 0 and r = race_request and a = "''a''"]])
       (simp_all add: race_simps commit_turn_def stream_of_def race_request_def stream_id_def)
qed

definition moved_turn :: turn where
  "moved_turn = (new_turn race_request ''a'')\<lparr>tn_account := ''b''\<rparr>"

lemma race_switched:
  "ws_reach (race_system (hub_after [''a'', ''b'']) (race_session account_b conn_b False [moved_turn])
     (Checked race_request ''a'') [''a''])"
proof -
  let ?t = "new_turn race_request ''a''" and ?r = "Checked race_request ''a''"
  note hub = reserve_account_turn_def hub_after_def new_hub_def counter_def count_up_def max_turns_per_account_def
  have "ws_reach (race_system (hub_after [''a'']) (race_session account_a conn_a False [?t]) ?r [])"
    by (rule race_step [OF race_committed ws_step.Check [where p = 0 and r = race_request and a = "''a''"]])
       (simp_all add: race_simps reserve_check_def race_request_def max_turns_per_connection_def)
  then have "ws_reach (race_system (hub_after [''a'']) (race_session account_a conn_a True [?t]) ?r [])"
    by (rule race_step [OF _ ws_step.Local [where p = 0 and op = "BeginSwitch (Some 0) conn_a"]])
       (simp_all add: race_simps begin_switch_def)
  then have "ws_reach (race_system (hub_after [''a'', ''b'']) (race_session account_a conn_a True [?t]) ?r [''b''])"
    by (rule race_step [OF _ ws_step.Hold [where a = "''b''"]]) (simp_all add: race_simps hub)
  then have "ws_reach (race_system (hub_after [''a'', ''b'']) (race_session account_b conn_b True [moved_turn]) ?r [''a''])"
    by (rule race_step [OF _ ws_step.Native [where p = 0 and i = 0 and acc = account_b and failed = conn_a and conn = conn_b]])
       (simp_all add: race_simps transfer_native_def moved_turn_def new_turn_def set_turn_def Let_def)
  then show ?thesis
    by (rule race_step [OF _ ws_step.Local [where p = 0 and op = FinishSwitch]])
       (simp_all add: race_simps finish_switch_def)
qed

lemma race_charged:
  "ws_reach (race_system (hub_after [''a'', ''b'', ''a'']) (race_session account_b conn_b False [moved_turn])
     (Charged race_request ''a'') [''a''])"
  by (rule race_step [OF race_switched ws_step.Charge [where p = 0 and r = race_request and a = "''a''"]])
     (simp_all add: race_simps reserve_account_turn_def hub_after_def new_hub_def counter_def count_up_def max_turns_per_account_def)

lemma race_commit:
  "commit_turn race_request ''a'' (race_session account_b conn_b False [moved_turn])
    = Inr (race_session account_b conn_b False [moved_turn, new_turn race_request ''a''])"
  by (simp add: race_simps commit_turn_def stream_of_def race_request_def stream_id_def)

lemma race_end:
  "ws_reach (race_system (hub_after [''a'', ''b'', ''a'']) (race_session account_b conn_b False [moved_turn, new_turn race_request ''a''])
     Reading [''a''])"
  by (rule race_step [OF race_charged ws_step.Commit [where p = 0 and r = race_request and a = "''a''"]])
     (simp_all add: race_system_def set_proc_def race_commit)

section \<open>Properties\<close>

lemma proc_turns_fun:
  "proc_turns a = (\<lambda>p. count_if (\<lambda>t. \<not> tn_finished t \<and> tn_account t = a) (ss_turns (pc_session p))
     + (case pc_reader p of Charged r b \<Rightarrow> (if b = a then 1 else 0) | _ \<Rightarrow> 0))"
proof -
  have "charges a = (\<lambda>t. \<not> tn_finished t \<and> tn_account t = a)" by (rule ext) (simp add: charges_def open_turn_def)
  then show ?thesis by (intro ext) (simp add: proc_turns_def charged_def)
qed

lemma count_if_nth: "count_if P xs = length (filter (\<lambda>i. P (xs ! i)) [0..<length xs])"
proof -
  have "filter P (map ((!) xs) [0..<length xs]) = map ((!) xs) (filter (\<lambda>i. P (xs ! i)) [0..<length xs])"
    by (simp add: filter_map comp_def)
  then show ?thesis by (simp add: count_if_def map_nth)
qed

text \<open>C25. In every interleaving the hub counts for every account exactly the open turns charged to it, those a
  reader has charged and not yet committed and those a goroutine is about to transfer or release;
  they are never more than sixteen.\<close>

theorem account_turns_exact:
  assumes "ws_reach y"
  shows "counter (hb_account_turns (wy_hub y)) a
      = int (\<Sum>p\<leftarrow>wy_procs y. count_if (\<lambda>t. \<not> tn_finished t \<and> tn_account t = a) (ss_turns (pc_session p))
               + (case pc_reader p of Charged r b \<Rightarrow> (if b = a then 1 else 0) | _ \<Rightarrow> 0))
        + int (count_list (wy_held y) a)
    \<and> counter (hb_account_turns (wy_hub y)) a \<le> 16"
  using reach_ok [OF assms] system_counter [OF reach_ok [OF assms], of a]
  by (simp add: system_ok_def turns_in_use_def proc_turns_fun)

lemma account_turns_exact_witness:
  "counter (hb_account_turns (hub_after [''a'', ''b'', ''a''])) ''a'' = 2"
  using account_turns_exact [OF race_end, of "''a''"]
  by (simp add: race_simps moved_turn_def new_turn_def race_request_def stream_id_def)

text \<open>C26. In every interleaving each session has as many pending turns as open ones and at most sixteen, at most 32
  named streams and 128 remembered responses without repetitions; the queue of each stream is its open
  turns, oldest first; and a turn holds the admission of its body exactly as long as it is open.\<close>

theorem session_bounds:
  assumes "ws_reach y" and "p < length (wy_procs y)"
  shows "let s = session_at y p; live = (\<lambda>i. \<not> tn_finished (ss_turns s ! i)) in
      ss_pending s = int (length (filter live [0..<length (ss_turns s)])) \<and> ss_pending s \<le> 16
    \<and> length (ss_named s) \<le> 32 \<and> distinct (ss_responses s) \<and> length (ss_responses s) \<le> 128
    \<and> (\<forall>sid. fst (stream_of sid s) = filter (\<lambda>i. live i \<and> tn_stream (ss_turns s ! i) = sid) [0..<length (ss_turns s)])
    \<and> (\<forall>i < length (ss_turns s). tn_body (ss_turns s ! i) = live i)"
proof -
  let ?s = "session_at y p"
  have "count_if open_turn (ss_turns ?s) = length (filter (\<lambda>i. open_turn (ss_turns ?s ! i)) [0..<length (ss_turns ?s)])"
    by (rule count_if_nth)
  then show ?thesis
    using system_proc [OF reach_ok [OF assms(1)] assms(2)]
    by (simp add: Let_def session_ok_def responses_ok_def open_on_def open_turn_def max_turns_per_connection_def
        max_named_streams_def max_remembered_ids_def)
qed

lemma session_bounds_witness:
  "let s = race_session account_b conn_b False [moved_turn, new_turn race_request ''a''] in
     ss_pending s = 2 \<and> (\<forall>i < 2. tn_body (ss_turns s ! i) = (\<not> tn_finished (ss_turns s ! i)))"
  using session_bounds [OF race_end, of 0] by (simp add: race_simps Let_def numeral_2_eq_2)

text \<open>C27. \<open>reserveTurn\<close> can commit a turn to a connection of another account. It looks at the account before it charges the
  hub and does not look again, and a failover may run from its start to its end in between: then the turn it commits is
  charged to the old account (and its payload was prepared for it), while the account of the session is, as it should be,
  the one its connection was dialed for. The session is open, native and not switching, so the turn is written to that
  connection next.\<close>

theorem turn_of_another_account:
  "\<exists>y p r a s c. ws_reach y \<and> p < length (wy_procs y) \<and> reader_at y p = Charged r a
    \<and> ss_upstream (session_at y p) = Some c \<and> cn_account c = a_id (ss_account (session_at y p)) \<and> cn_account c \<noteq> a
    \<and> ss_native (session_at y p) \<and> \<not> ss_switching (session_at y p) \<and> \<not> ss_closed (session_at y p)
    \<and> commit_turn r a (session_at y p) = Inr s \<and> ss_upstream s = Some c
    \<and> length (ss_turns s) = Suc (length (ss_turns (session_at y p)))
    \<and> \<not> tn_finished (last (ss_turns s)) \<and> tn_account (last (ss_turns s)) = a"
proof -
  let ?s = "race_session account_b conn_b False [moved_turn]"
  let ?y = "race_system (hub_after [''a'', ''b'', ''a'']) ?s (Charged race_request ''a'') [''a'']"
  have at: "session_at ?y 0 = ?s" "reader_at ?y 0 = Charged race_request ''a''" "length (wy_procs ?y) = 1"
    by (simp_all add: race_system_def)
  show ?thesis
    by (rule exI [of _ ?y], rule exI [of _ 0], rule exI [of _ race_request], rule exI [of _ "''a''"],
        rule exI [of _ "race_session account_b conn_b False [moved_turn, new_turn race_request ''a'']"], rule exI [of _ conn_b])
       (unfold at, simp add: race_charged race_commit, simp add: race_simps new_turn_def)
qed

text \<open>\<open>resolveRoute\<close> has the same gap: it writes back the account it has read from the store although a failover has run in
  between, and from then on the account of the session is not that of its connection.\<close>

definition resolving_system :: "session \<Rightarrow> hub \<Rightarrow> string list \<Rightarrow> ws_system" where
  "resolving_system s h held = \<lparr>wy_hub = h, wy_procs = [\<lparr>pc_session = s, pc_reader = Reading\<rparr>], wy_held = held, wy_resolving = [(0, ''a'')]\<rparr>"

theorem account_written_back:
  "\<exists>y p c. ws_reach y \<and> p < length (wy_procs y) \<and> ss_native (session_at y p) \<and> \<not> ss_switching (session_at y p)
    \<and> \<not> ss_closed (session_at y p) \<and> ss_upstream (session_at y p) = Some c
    \<and> cn_account c \<noteq> a_id (ss_account (session_at y p))"
proof -
  let ?t = "new_turn race_request ''a''"
  note hub = reserve_account_turn_def hub_after_def new_hub_def counter_def count_up_def max_turns_per_account_def
  note sys = resolving_system_def
  have "ws_reach (resolving_system (race_session account_a conn_a False [?t]) (hub_after [''a'']) [])"
    by (rule race_step [OF race_committed ws_step.Resolve [where p = 0]]) (simp_all add: race_simps sys)
  then have "ws_reach (resolving_system (race_session account_a conn_a True [?t]) (hub_after [''a'']) [])"
    by (rule race_step [OF _ ws_step.Local [where p = 0 and op = "BeginSwitch (Some 0) conn_a"]])
       (simp_all add: race_simps sys begin_switch_def)
  then have "ws_reach (resolving_system (race_session account_a conn_a True [?t]) (hub_after [''a'', ''b'']) [''b''])"
    by (rule race_step [OF _ ws_step.Hold [where a = "''b''"]]) (simp_all add: race_simps sys hub)
  then have "ws_reach (resolving_system (race_session account_b conn_b True [moved_turn]) (hub_after [''a'', ''b'']) [''a''])"
    by (rule race_step [OF _ ws_step.Native [where p = 0 and i = 0 and acc = account_b and failed = conn_a and conn = conn_b]])
       (simp_all add: race_simps sys transfer_native_def moved_turn_def new_turn_def set_turn_def Let_def)
  then have "ws_reach (resolving_system (race_session account_b conn_b False [moved_turn]) (hub_after [''a'', ''b'']) [''a''])"
    by (rule race_step [OF _ ws_step.Local [where p = 0 and op = FinishSwitch]])
       (simp_all add: race_simps sys finish_switch_def)
  then have "ws_reach (race_system (hub_after [''a'', ''b'']) (race_session account_a conn_b False [moved_turn]) Reading [''a''])"
    by (rule race_step [OF _ ws_step.Resolved [where p = 0 and acc = account_a]])
       (simp_all add: race_simps sys refresh_pinned_def)
  then show ?thesis
    by (intro exI [of _ "race_system (hub_after [''a'', ''b'']) (race_session account_a conn_b False [moved_turn]) Reading [''a'']"]
        exI [of _ 0] exI [of _ conn_b]) (simp add: race_simps)
qed

end
