(* ===== verification/Json_Values.thy ===== *)
theory Json_Values
  imports Json_Write
begin

text \<open>
  \<open>internal/jsonobject/values.go\<close>: \<open>Lookup\<close> finds the last member of a name in validated JSON and
  \<open>VisitArray\<close> walks over the values of an array, both by the scanners of \<open>jsonobject.go\<close> on the bytes,
  without decoding. They find what the parser finds. A callback of \<open>VisitArray\<close> that assigns to variables
  around it is a function on a state.
\<close>

section \<open>Lookup\<close>

text \<open>\<open>bytes.TrimSpace\<close> returns \<open>nil\<close> when nothing is left, and a \<open>nil\<close> value counts as missing.\<close>

function lookup_loop :: "string \<Rightarrow> string \<Rightarrow> nat \<Rightarrow> string option \<Rightarrow> string option" where
  "lookup_loop raw key index0 found =
     (let index = skip_space raw index0 in
      if index \<ge> length raw \<or> raw ! index = CHR ''}'' then found
      else
        (case scan_string raw index of
           None \<Rightarrow> None
         | Some key_end \<Rightarrow>
             let encoded = slice raw (index + 1) (key_end - 1) in
             (case (if backslash \<in> set encoded
                    then map_option (\<lambda>decoded. decoded = key) (unmarshal_string (slice raw index key_end))
                    else Some (encoded = key)) of
                None \<Rightarrow> None
              | Some matches \<Rightarrow>
                  let colon = skip_space raw key_end in
                  if colon \<ge> length raw \<or> raw ! colon \<noteq> CHR '':'' then None
                  else
                    let start = skip_space raw (colon + 1);
                        stop = scan_value_end raw start;
                        value = trim_space (slice raw start stop);
                        found' = (if matches then (if value = [] then None else Some value) else found);
                        next = skip_space raw stop
                    in if next \<ge> length raw \<or> raw ! next = CHR ''}'' then found'
                       else lookup_loop raw key (next + 1) found')))"
  by pat_completeness auto
termination
proof (relation "measure (\<lambda>(raw, k, i, v). length raw - i)", simp, goal_cases)
  case (1 raw key index0 found index key_end encoded matches colon start stop val found' nxt)
  note * = 1
  have i: "index0 \<le> index"
  proof (cases "index0 \<le> length raw")
    case True
    then show ?thesis using * skip_space_bounds by simp
  next
    case False
    then have "skip_space raw index0 = index0" by (simp add: skip_space.simps)
    then show ?thesis using * by simp
  qed
  have k: "index < key_end" "key_end \<le> length raw" using * scan_string_bounds by blast+
  have c: "key_end \<le> colon" "colon < length raw"
    using * skip_space_bounds [OF k(2)] by auto
  have v: "colon + 1 \<le> start" "start \<le> length raw"
    using * skip_space_bounds [of "colon + 1" raw] c(2) by auto
  have e: "start \<le> stop" "stop \<le> length raw" using * scan_value_end_bounds [OF v(2)] by auto
  have n: "stop \<le> nxt" "nxt < length raw" using * skip_space_bounds [OF e(2)] by auto
  have "index0 < Suc nxt" "index0 < length raw" using i k c v e n by linarith+
  then show ?case by (simp add: diff_less_mono2)
qed

declare lookup_loop.simps [simp del]

definition lookup :: "string \<Rightarrow> string \<Rightarrow> string option" where
  "lookup raw key =
     (let trimmed = trim_space raw in
      if length trimmed < 2 \<or> trimmed ! 0 \<noteq> CHR ''{'' then None else lookup_loop trimmed key 1 None)"

section \<open>Visiting an array\<close>

text \<open>\<open>None\<close> is a panic: an index beyond the end of the bytes.\<close>

function visit_loop ::
  "string \<Rightarrow> nat \<Rightarrow> (string \<Rightarrow> 's \<Rightarrow> 'e + 's) \<Rightarrow> 's \<Rightarrow> ('e + 's) option" where
  "visit_loop raw index0 visit st =
     (let index = skip_space raw index0 in
      if index \<ge> length raw then None
      else if raw ! index = CHR '']'' then Some (Inr st)
      else
        let stop = scan_value_end raw index in
        (case visit (trim_space (slice raw index stop)) st of
           Inl e \<Rightarrow> Some (Inl e)
         | Inr st' \<Rightarrow>
             let next = skip_space raw stop in
             if next \<ge> length raw then None
             else if raw ! next = CHR '']'' then Some (Inr st')
             else visit_loop raw (next + 1) visit st'))"
  by pat_completeness auto
termination
proof (relation "measure (\<lambda>(raw, i, f, s). length raw - i)", simp, goal_cases)
  case (1 raw index0 visit st index stop st' nxt)
  note * = 1
  have i: "index0 \<le> index"
  proof (cases "index0 \<le> length raw")
    case True
    then show ?thesis using * skip_space_bounds by simp
  next
    case False
    then have "skip_space raw index0 = index0" by (simp add: skip_space.simps)
    then show ?thesis using * by simp
  qed
  have e: "index \<le> stop" "stop \<le> length raw" using * scan_value_end_bounds [of index raw] by auto
  have n: "stop \<le> nxt" "nxt < length raw" using * skip_space_bounds [OF e(2)] by auto
  have "index0 < Suc nxt" "index0 < length raw" using i e n by linarith+
  then show ?case by (simp add: diff_less_mono2)
qed

declare visit_loop.simps [simp del]

definition visit_array ::
  "'e \<Rightarrow> string \<Rightarrow> (string \<Rightarrow> 's \<Rightarrow> 'e + 's) \<Rightarrow> 's \<Rightarrow> ('e + 's) option" where
  "visit_array not_array raw visit st =
     (let trimmed = trim_space raw in
      if length trimmed < 2 \<or> trimmed ! 0 \<noteq> CHR ''['' \<or> \<not> json_valid trimmed then Some (Inl not_array)
      else visit_loop trimmed 1 visit st)"

text \<open>Visiting with a state, as a fold that stops at the first error, and the texts of the values.\<close>

fun fold_result :: "('a \<Rightarrow> 's \<Rightarrow> 'e + 's) \<Rightarrow> 'a list \<Rightarrow> 's \<Rightarrow> 'e + 's" where
  "fold_result f [] st = Inr st"
| "fold_result f (x # xs) st = (case f x st of Inl e \<Rightarrow> Inl e | Inr st' \<Rightarrow> fold_result f xs st')"

definition collect :: "string \<Rightarrow> string list \<Rightarrow> unit + string list" where
  "collect t ts = Inr (ts @ [t])"

text \<open>\<open>json.Unmarshal\<close> into a slice of \<open>json.RawMessage\<close>: the texts of the elements; \<open>null\<close> is the empty slice.\<close>

definition raw_items :: "string \<Rightarrow> string list option" where
  "raw_items raw =
     (case json_parse raw of
        Some JNull \<Rightarrow> Some []
      | Some (JArr xs) \<Rightarrow> (case visit_array () raw collect [] of Some (Inr ts) \<Rightarrow> Some ts | _ \<Rightarrow> None)
      | _ \<Rightarrow> None)"

section \<open>What Lookup finds\<close>

definition ascii :: "string \<Rightarrow> bool" where
  "ascii s \<longleftrightarrow> list_all (\<lambda>c. byte c < 128) s"

text \<open>A key without escapes is its own text, as far as an ASCII key can tell.\<close>

lemma string_body_first:
  assumes "string_body (c # s) = Some (k, u)" and "c \<noteq> quote" and "c \<noteq> backslash"
  shows "(byte c < 128 \<and> (\<exists>k'. k = c # k' \<and> string_body s = Some (k', u)))
    \<or> (128 \<le> byte c \<and> (\<exists>d k'. k = d # k' \<and> 128 \<le> byte d))"
proof (cases "byte c < 128")
  case True
  then have "utf8_len (c # s) = 1" by (simp add: utf8_len_def)
  then show ?thesis using assms True by (auto simp: string_body.simps(2) push_Some split: if_splits)
next
  case False
  show ?thesis
  proof (cases "utf8_len (c # s) = 0")
    case True
    then have "\<exists>k'. k = replacement @ k'" using assms False by (auto simp: string_body.simps(2) push_Some split: if_splits)
    then show ?thesis using False by (auto simp: replacement_def)
  next
    case n: False
    then obtain m where "utf8_len (c # s) = Suc m" by (cases "utf8_len (c # s)") auto
    then show ?thesis using assms False by (auto simp: string_body.simps(2) push_Some split: if_splits)
  qed
qed

lemma plain_key:
  "string_body (b @ quote # u) = Some (k, u) \<Longrightarrow> backslash \<notin> set b \<Longrightarrow> quote \<notin> set b \<Longrightarrow> ascii key \<Longrightarrow> b = key \<longleftrightarrow> k = key"
proof (induction b arbitrary: k key)
  case Nil
  then have "k = []" by (simp add: string_body.simps(2))
  then show ?case by auto
next
  case (Cons c b)
  have "string_body (c # b @ quote # u) = Some (k, u)" "c \<noteq> quote" "c \<noteq> backslash" using Cons.prems by auto
  from string_body_first [OF this] show ?case
  proof (elim disjE conjE exE)
    fix k' assume k: "byte c < 128" "k = c # k'" "string_body (b @ quote # u) = Some (k', u)"
    show ?thesis
    proof (cases key)
      case (Cons x y)
      then have "b = y \<longleftrightarrow> k' = y" using Cons.IH [OF k(3)] Cons.prems by (auto simp: ascii_def)
      then show ?thesis using k Cons by auto
    qed (simp add: k)
  next
    fix d k' assume k: "128 \<le> byte c" "k = d # k'" "128 \<le> byte d"
    show ?thesis using k Cons.prems(4) by (cases key) (auto simp: ascii_def)
  qed
qed

text \<open>The matching of \<open>Lookup\<close> on the literal of a key.\<close>

lemma strlit_no_quote:
  assumes "str_end (b @ [quote]) False = Some (Suc (length b))" and "backslash \<notin> set b"
  shows "quote \<notin> set b"
  using assms
proof (induction b)
  case (Cons c b)
  then show ?case by (cases "c = quote") (auto simp: quote_def backslash_def shift_Some)
qed simp

lemma key_matches:
  assumes lit: "strlit lit" "lit \<noteq> []" "last lit = quote" "\<And>u'. string_body (lit @ u') = Some (k, u')"
    and key: "ascii key"
  shows "(if backslash \<in> set (butlast lit)
      then map_option (\<lambda>decoded. decoded = key) (unmarshal_string (quote # lit))
      else Some (butlast lit = key)) = Some (k = key)"
proof (cases "backslash \<in> set (butlast lit)")
  case True
  then show ?thesis using unmarshal_literal [OF lit(4)] by simp
next
  case False
  have l: "lit = butlast lit @ [quote]" using lit(2,3) by (metis append_butlast_last_id)
  have "str_end (lit @ []) False = Some (length lit)" using lit(1) unfolding strlit_def by blast
  then have "quote \<notin> set (butlast lit)"
    by (intro strlit_no_quote) (use l False in \<open>metis append_Nil2 length_append_singleton\<close>, simp add: False)
  moreover have "string_body (butlast lit @ quote # []) = Some (k, [])" using lit(4) [of "[]"] l by simp
  ultimately have "butlast lit = key \<longleftrightarrow> k = key" using plain_key [of "butlast lit" "[]" k key] False key by simp
  then show ?thesis using False by simp
qed

lemma lookup_member:
  assumes m: "member_text f d s k v w0 lit w1 w2 tx (w3 @ c # u)" and w3: "list_all json_space w3"
    and c: "c \<in> {CHR '','', CHR ''}''}" and key: "ascii key"
  shows "lookup_loop (pre @ s) key (length pre) found =
    (let found' = (if k = key then Some tx else found)
     in if c = CHR '','' then lookup_loop (pre @ s) key (length (pre @ s) - length u) found' else found')"
proof -
  have w: "list_all json_space w0" "list_all json_space w1" "list_all json_space w2"
    and lit: "strlit lit" "lit \<noteq> []" "last lit = quote" "\<And>u'. string_body (lit @ u') = Some (k, u')"
    and tx: "tx \<noteq> []" "edge (hd tx)" "edge (last tx)" "bal tx"
    and s: "s = w0 @ quote # lit @ w1 @ CHR '':'' # w2 @ tx @ w3 @ c # u"
    using m by (auto simp: member_text_def value_text_def)
  define a where "a = pre @ w0"
  define b where "b = a @ quote # lit"
  define e where "e = b @ w1 @ [CHR '':'']"
  define g where "g = e @ w2"
  let ?raw = "pre @ s"
  have r1: "?raw = pre @ w0 @ quote # lit @ w1 @ CHR '':'' # w2 @ tx @ w3 @ c # u"
    and r2: "?raw = a @ quote # lit @ w1 @ CHR '':'' # w2 @ tx @ w3 @ c # u"
    and r3: "?raw = b @ w1 @ CHR '':'' # w2 @ tx @ w3 @ c # u"
    and r5: "?raw = e @ w2 @ tx @ w3 @ c # u"
    and r6: "?raw = g @ tx @ w3 @ c # u"
    and r7: "?raw = (g @ tx @ w3) @ [] @ c # u"
    by (simp_all add: s a_def b_def e_def g_def)
  have i1: "skip_space ?raw (length pre) = length a"
    unfolding r1 by (subst skip_space_at) (simp_all add: w a_def)
  have i2: "scan_string ?raw (length a) = Some (length b)"
    unfolding r2 by (subst scan_string_at [OF lit(1)]) (simp add: b_def)
  have i3: "slice ?raw (length a) (length b) = quote # lit"
    using slice_at [of a "quote # lit"] unfolding r2 by (simp add: b_def)
  have i3': "slice ?raw (length a + 1) (length b - 1) = butlast lit"
  proof -
    have l: "lit = butlast lit @ [quote]" using lit(2,3) by (metis append_butlast_last_id)
    have "?raw = (a @ [quote]) @ butlast lit @ [quote] @ w1 @ CHR '':'' # w2 @ tx @ w3 @ c # u"
      unfolding r2 by (subst (1) l) simp
    moreover have "length b - 1 = length (a @ [quote]) + length (butlast lit)" using lit(2) by (simp add: b_def)
    ultimately show ?thesis using slice_at [of "a @ [quote]" "butlast lit"] by (metis length_append_singleton Suc_eq_plus1)
  qed
  have i4: "skip_space ?raw (length b) = length b + length w1"
    unfolding r3 by (rule skip_space_at) (simp_all add: w)
  have i5: "?raw ! (length b + length w1) = CHR '':''" "length b + length w1 < length ?raw"
    unfolding r3 by (simp_all add: nth_append)
  have hd_tx: "tx @ w3 @ c # u = hd tx # tl tx @ w3 @ c # u" using tx(1) by simp
  have i6: "skip_space ?raw (length b + length w1 + 1) = length g"
  proof -
    have "skip_space (e @ w2 @ hd tx # (tl tx @ w3 @ c # u)) (length e) = length e + length w2"
      by (rule skip_space_at) (simp_all add: w edge_not_space tx)
    then have "skip_space (e @ w2 @ tx @ w3 @ c # u) (length e) = length e + length w2"
      using hd_tx by metis
    then show ?thesis unfolding r5 by (simp add: e_def g_def)
  qed
  have i7: "scan_value_end ?raw (length g) = length g + length (tx @ w3)"
    unfolding r6 using scan_value_at [OF tx(4) w3 c] by simp
  have i8: "trim_space (slice ?raw (length g) (length g + length (tx @ w3))) = tx"
    using slice_at [of g "tx @ w3"] trim_value [OF tx(1,2,3) w3] unfolding r6 by simp
  have i9: "skip_space ?raw (length g + length (tx @ w3)) = length g + length (tx @ w3)"
    using skip_space_at [of "[]" c "g @ tx @ w3" u] c unfolding r7 by auto
  have i10: "?raw ! (length g + length (tx @ w3)) = c"
    "length g + length (tx @ w3) + 1 + length u = length ?raw"
    unfolding r6 by (simp_all add: nth_append)
  have i0: "?raw ! length a = quote" "length a < length ?raw"
    unfolding r2 by (simp_all add: nth_append)
  have nx: "length ?raw - length u = length g + length (tx @ w3) + 1" "length g + length (tx @ w3) < length ?raw"
    using i10(2) by simp_all
  note km = key_matches [OF lit key]
  show ?thesis
    unfolding nx(1)
    by (subst lookup_loop.simps)
       (unfold Let_def i1 i2 i3 i3' option.case km i4 i6 i7 i8 i9 i10(1), use i0 i5 nx(2) tx(1) c in auto)
qed

lemma lookup_members:
  assumes "parse_members f d s = Some (ms, [])" and "2 * length s < f" and "d \<le> max_nesting" and key: "ascii key"
  shows "\<exists>fs. reads fs ms \<and> lookup_loop (pre @ s) key (length pre) found
    = (case map_of (rev fs) key of None \<Rightarrow> found | Some t \<Rightarrow> Some t)"
  using assms(1-3)
proof (induction f arbitrary: s ms pre found)
  case 0
  then show ?case by simp
next
  case (Suc f)
  show ?case
  proof (rule parse_members_first [OF Suc.prems(1) parse_value_text])
    fix k v ms' w0 lit w1 w2 tx w3 u c
    assume m: "member_text f d s k v w0 lit w1 w2 tx (w3 @ c # u)"
      and w3: "list_all json_space w3" and ms: "ms = (k, v) # ms'"
      and c: "(c = CHR '','' \<and> parse_members f d u = Some (ms', []))
        \<or> (c = CHR ''}'' \<and> ms' = [] \<and> u = [])"
    have s: "s = w0 @ quote # lit @ w1 @ CHR '':'' # w2 @ tx @ w3 @ c # u"
      and vt: "value_text f d (w2 @ tx @ w3 @ c # u) v w2 tx (w3 @ c # u)"
      using m by (simp_all add: member_text_def)
    have tx: "json_parse tx = Some v"
      by (rule value_text_parse [OF vt]) (use Suc.prems s in auto)
    have cc: "c \<in> {CHR '','', CHR ''}''}" using c by auto
    define found' where "found' = (if k = key then Some tx else found)"
    note step = lookup_member [OF m w3 cc key, of pre found, folded found'_def, unfolded Let_def]
    from c show ?thesis
    proof
      assume c: "c = CHR '','' \<and> parse_members f d u = Some (ms', [])"
      define p where "p = pre @ w0 @ quote # lit @ w1 @ CHR '':'' # w2 @ tx @ w3 @ [c]"
      have p: "pre @ s = p @ u" "length (pre @ s) - length u = length p"
        by (simp_all add: p_def s)
      obtain fs where fs: "reads fs ms'"
        "lookup_loop (p @ u) key (length p) found' = (case map_of (rev fs) key of None \<Rightarrow> found' | Some t \<Rightarrow> Some t)"
        using Suc.IH [of u ms' p found'] c Suc.prems s by auto
      then show ?thesis
        using step c p ms tx
        by (intro exI [of _ "(k, tx) # fs"]) (auto simp: reads_def found'_def split: option.splits)
    next
      assume c: "c = CHR ''}'' \<and> ms' = [] \<and> u = []"
      then show ?thesis
        using step ms tx by (intro exI [of _ "[(k, tx)]"]) (simp add: reads_def found'_def)
    qed
  qed
qed

lemma lookup_object:
  assumes "json_parse (trim_space raw) = Some (JObj ms)" and key: "ascii key"
  shows "rel_option (\<lambda>t v. json_parse t = Some v) (lookup raw key) (jget key ms)"
  using assms(1)
proof (cases rule: trimmed_object)
  case (empty w)
  have "lookup raw key = lookup_loop (trim_space raw) key 1 None" by (simp add: lookup_def Let_def empty)
  also have "\<dots> = None"
    unfolding empty(1) using empty_object_scan [of "CHR ''}''" w "CHR ''{''"] empty(2)
    by (subst lookup_loop.simps) (simp add: Let_def nth_append)
  finally show ?thesis by (simp add: empty(3) jget_def)
next
  case (members f t)
  obtain fs where fs: "reads fs ms" "lookup_loop (''{'' @ t) key (length ''{'') None
      = (case map_of (rev fs) key of None \<Rightarrow> None | Some t \<Rightarrow> Some t)"
    using lookup_members [OF members(3,4) _ key] by fastforce
  have "lookup raw key = map_of (rev fs) key"
    using members(1,2) fs(2) by (cases t) (simp_all add: lookup_def Let_def split: option.splits)
  then show ?thesis using reads_map_of [OF reads_rev [OF fs(1)]] by (simp add: jget_def)
qed

text \<open>In a JSON object, \<open>Lookup\<close> returns the text of the last member with the name asked for, if there is one:
  what a full decoder keeps, without decoding (for names in ASCII, as all that are looked up are).\<close>

theorem lookup_correct:
  assumes "json_parse (trim_space raw) = Some (JObj ms)" and "list_all (\<lambda>c. byte c < 128) key"
  shows "rel_option (\<lambda>t v. json_parse t = Some v) (lookup raw key) (jget key ms)"
  using lookup_object [OF assms(1)] assms(2) by (simp add: ascii_def)

lemma lookup_correct_witness:
  "\<exists>t. lookup ''{\"a\":1,\"b\":[2],\"a\": null }'' ''a'' = Some t \<and> json_parse t = Some JNull"
proof -
  have j: "json_parse ''{\"a\":1,\"b\":[2],\"a\": null }''
      = Some (JObj [(''a'', JNum ''1''), (''b'', JArr [JNum ''2'']), (''a'', JNull)])" by code_simp
  have t: "trim_space ''{\"a\":1,\"b\":[2],\"a\": null }'' = ''{\"a\":1,\"b\":[2],\"a\": null }''"
    using trim_value [of "''{\"a\":1,\"b\":[2],\"a\": null }''" "[]"] by simp
  show ?thesis using lookup_correct [of "''{\"a\":1,\"b\":[2],\"a\": null }''", unfolded t, OF j, of "''a''"]
    by (auto simp: jget_def option_rel_Some2)
qed

section \<open>What VisitArray visits\<close>

lemma collect_extends: "visit_loop raw i collect acc = Some (Inr r) \<Longrightarrow> \<exists>rest. r = acc @ rest"
proof (induction raw i "collect :: string \<Rightarrow> string list \<Rightarrow> unit + string list" acc rule: visit_loop.induct)
  case (1 raw i acc)
  from "1.prems" show ?case
    by (subst (asm) visit_loop.simps)
       (auto simp: Let_def collect_def [of _ acc] split: if_splits dest!: "1.hyps" [OF refl _ _ refl _ refl])
qed

lemma visit_collect:
  assumes "visit_loop raw i collect acc = Some (Inr (acc @ items))"
  shows "visit_loop raw i visit st = Some (fold_result visit items st)"
  using assms
proof (induction raw i collect acc arbitrary: items st rule: visit_loop.induct)
  case (1 raw i acc)
  define index where "index = skip_space raw i"
  define stop where "stop = scan_value_end raw index"
  define t where "t = trim_space (slice raw index stop)"
  define nx where "nx = skip_space raw stop"
  note defs = index_def stop_def t_def nx_def
  note simp1 = visit_loop.simps [of raw i, folded index_def, unfolded Let_def, folded stop_def, folded t_def nx_def]
  show ?case
  proof (cases "length raw \<le> index \<or> raw ! index = CHR '']''")
    case True
    then show ?thesis using "1.prems" by (auto simp: simp1)
  next
    case False
    then have n: "nx < length raw" using "1.prems" by (auto simp: simp1 collect_def split: if_splits)
    show ?thesis
    proof (cases "raw ! nx = CHR '']''")
      case True
      then have "items = [t]" using "1.prems" False n by (auto simp: simp1 collect_def)
      then show ?thesis using True False n by (auto simp: simp1 split: sum.splits)
    next
      case more: False
      then have c: "visit_loop raw (nx + 1) collect (acc @ [t]) = Some (Inr (acc @ items))"
        using "1.prems" False n by (simp add: simp1 collect_def)
      have pre: "\<exists>rest. acc @ items = (acc @ [t]) @ rest"
        by (rule collect_extends [OF c])
      then obtain rest where "items = t # rest" by auto
      then show ?thesis using more False n c "1.hyps" [OF index_def _ _ stop_def _ nx_def, of "acc @ [t]" rest]
        by (auto simp: simp1 collect_def defs split: sum.splits)
    qed
  qed
qed

lemma scan_item_at:
  assumes "bal tx" and "list_all json_space w" and "c \<in> {CHR '','', CHR '']''}"
  shows "scan_value_end (pre @ tx @ w @ c # t) (length pre) = length pre + length tx + length w"
proof -
  have "val_end (tx @ w @ c # t) 0 False False = length tx + (length w + 0)"
    using assms(1) bal_space [OF assms(2)] assms(3) by (auto simp: bal_def quote_def)
  then show ?thesis by (simp add: scan_value_end_def scan_value_loop_append)
qed

lemma visit_item:
  assumes vt: "value_text f d s x w tx (w2 @ c # u)" and w2: "list_all json_space w2"
    and c: "c \<in> {CHR '','', CHR '']''}" and nc: "hd tx \<noteq> CHR '']''"
  shows "visit_loop (pre @ s) (length pre) visit st =
    (case visit tx st of
       Inl e \<Rightarrow> Some (Inl e)
     | Inr st' \<Rightarrow> (if c = CHR '']'' then Some (Inr st')
                  else visit_loop (pre @ s) (length (pre @ s) - length u) visit st'))"
proof -
  have w: "list_all json_space w" and tx: "tx \<noteq> []" "edge (hd tx)" "edge (last tx)" "bal tx"
    and s: "s = w @ tx @ w2 @ c # u"
    using vt by (auto simp: value_text_def)
  define g where "g = pre @ w"
  let ?raw = "pre @ s"
  have r1: "?raw = pre @ w @ hd tx # (tl tx @ w2 @ c # u)"
    and r2: "?raw = g @ tx @ w2 @ c # u"
    and r3: "?raw = (g @ tx @ w2) @ [] @ c # u"
    using tx(1) by (simp_all add: s g_def) 
  have i1: "skip_space ?raw (length pre) = length g"
    unfolding r1 by (subst skip_space_at) (simp_all add: w g_def edge_not_space tx)
  have i2: "scan_value_end ?raw (length g) = length g + length (tx @ w2)"
    unfolding r2 using scan_item_at [OF tx(4) w2 c] by simp
  have i3: "trim_space (slice ?raw (length g) (length g + length (tx @ w2))) = tx"
    using slice_at [of g "tx @ w2"] trim_value [OF tx(1,2,3) w2] unfolding r2 by simp
  have i4: "skip_space ?raw (length g + length (tx @ w2)) = length g + length (tx @ w2)"
    using skip_space_at [of "[]" c "g @ tx @ w2" u] c unfolding r3 by auto
  have i5: "?raw ! (length g + length (tx @ w2)) = c" "length g + length (tx @ w2) + 1 + length u = length ?raw"
    unfolding r2 by (simp_all add: nth_append)
  have i6: "?raw ! length g = hd tx" "length g < length ?raw"
    unfolding r2 using tx(1) by (simp_all add: nth_append hd_conv_nth)
  have nx: "length ?raw - length u = length g + length (tx @ w2) + 1" "length g + length (tx @ w2) < length ?raw"
    using i5(2) by simp_all
  show ?thesis
    unfolding nx(1)
    by (subst visit_loop.simps) (unfold Let_def i1 i2 i3 i4 i5(1) i6(1), use i6 nx(2) nc in \<open>auto split: sum.splits\<close>)
qed

lemma visit_elems:
  assumes "parse_elems f d s = Some (xs, rest)" and "2 * length s + 1 < f" and "d \<le> max_nesting"
  shows "\<exists>items. list_all2 (\<lambda>t v. json_parse t = Some v) items xs
    \<and> visit_loop (pre @ s) (length pre) collect acc = Some (Inr (acc @ items))"
  using assms
proof (induction f arbitrary: s xs pre acc)
  case 0
  then show ?case by simp
next
  case (Suc f)
  from Suc.prems(1) obtain x u0 where x: "parse_value f d s = Some (x, u0)" by (auto split: option.splits)
  obtain w tx where vt: "value_text f d s x w tx u0" using parse_value_text [OF x] by blast
  have tx: "json_parse tx = Some x" by (rule value_text_parse [OF vt]) (use Suc.prems in auto)
  have s: "s = w @ tx @ u0" and w: "list_all json_space w" and ne: "tx \<noteq> []" using vt by (auto simp: value_text_def)
  have nc: "hd tx \<noteq> CHR '']''"
  proof
    assume "hd tx = CHR '']''"
    then have "expect (CHR '']'') s = Some (tl tx @ u0)" using s w ne
      by (cases tx) (auto intro!: expect_append)
    then show False using parse_value_not_close x by fastforce
  qed
  show ?case
  proof (cases "expect (CHR '','') u0")
    case (Some y)
    obtain ys where ys: "parse_elems f d y = Some (ys, rest)" "xs = x # ys"
      using Suc.prems(1) x Some by (auto split: option.splits)
    obtain w2 where w2: "u0 = w2 @ CHR '','' # y" "list_all json_space w2" using expect_split [OF Some] by blast
    define p where "p = pre @ w @ tx @ w2 @ '',''"
    have p: "pre @ s = p @ y" "length (pre @ s) - length y = length p" by (simp_all add: p_def s w2)
    obtain items where items: "list_all2 (\<lambda>t v. json_parse t = Some v) items ys"
      "visit_loop (p @ y) (length p) collect (acc @ [tx]) = Some (Inr ((acc @ [tx]) @ items))"
      using Suc.IH [OF ys(1), of p "acc @ [tx]"] Suc.prems s w2 ne by auto
    then show ?thesis
      using visit_item [OF vt [unfolded w2(1)] w2(2) _ nc, of pre collect acc] p tx ys(2)
      by (intro exI [of _ "tx # items"]) (simp add: collect_def [of tx acc])
  next
    case None
    then obtain y where y: "expect (CHR '']'') u0 = Some y" "xs = [x]"
      using Suc.prems(1) x by (auto split: option.splits)
    obtain w2 where w2: "u0 = w2 @ CHR '']'' # y" "list_all json_space w2" using expect_split [OF y(1)] by blast
    show ?thesis
      using visit_item [OF vt [unfolded w2(1)] w2(2) _ nc, of pre collect acc] tx y(2)
      by (intro exI [of _ "[tx]"]) (simp add: collect_def [of tx acc])
  qed
qed

lemma json_parse_bracket:
  assumes "json_parse s = Some (JArr xs)"
  shows "\<exists>t. skip_ws s = CHR ''['' # t"
proof (cases s rule: value_shape)
  case 1
  then show ?thesis using assms by (simp add: json_parse_def parse_value_empty)
next
  case (2 t)
  then show ?thesis
    using assms by (auto simp: json_parse_def json_fuel_def parse_value_object
      split: option.splits if_splits prod.splits)
next
  case (4 c t)
  then show ?thesis
    using assms by (auto simp: json_parse_def json_fuel_def parse_value_scalar parse_scalar_def
      split: option.splits if_splits prod.splits)
qed blast

lemma trimmed_array [consumes 1]:
  assumes "json_parse (trim_space raw) = Some (JArr xs)"
  obtains (empty) w where "trim_space raw = CHR ''['' # w @ '']''" and "list_all json_space w" and "xs = []"
  | (elems) f t where "trim_space raw = CHR ''['' # t" and "t \<noteq> []"
      and "parse_elems f (max_nesting - 1) t = Some (xs, [])" and "2 * length t + 1 < f"
proof -
  obtain t where ws: "skip_ws (trim_space raw) = CHR ''['' # t"
    using json_parse_bracket [OF assms] by blast
  have raw: "trim_space raw = CHR ''['' # t"
  proof (cases "trim_space raw")
    case Nil
    then show ?thesis using ws by (simp add: skip_ws_def)
  next
    case (Cons c u)
    then show ?thesis using ws trimmed_start [OF Cons] by (simp add: skip_ws_def)
  qed
  obtain f where f: "json_fuel (trim_space raw) = Suc f" "2 * length t + 1 < f"
    by (simp add: json_fuel_def raw)
  have depth: "max_nesting \<noteq> 0" by (simp add: max_nesting_def)
  from assms obtain rest where p: "parse_value (Suc f) max_nesting (trim_space raw) = Some (JArr xs, rest)"
    and r: "skip_ws rest = []"
    by (auto simp: json_parse_def f split: option.splits if_splits prod.splits)
  have rest: "list_all json_space rest"
    using r by (simp add: skip_ws_def dropWhile_eq_Nil_conv list_all_iff)
  show thesis
  proof (cases "expect (CHR '']'') t")
    case (Some u)
    then have u: "u = rest" "xs = []" using p ws depth by (auto simp: parse_value_array)
    obtain w where w: "t = w @ CHR '']'' # u" "list_all json_space w" using expect_split [OF Some] by blast
    have "u = []" by (rule trimmed_end [of raw "CHR ''['' # w @ '']''"]) (use raw w u rest in simp_all)
    then show thesis using empty [of w] raw w u by simp
  next
    case None
    then have m: "parse_elems f (max_nesting - 1) t = Some (xs, rest)"
      using p ws depth by (auto simp: parse_value_array)
    then obtain b where b: "t = b @ CHR '']'' # rest"
      using parse_texts [of f, THEN conjunct2, THEN conjunct2, rule_format, OF m]
      by (auto simp: elems_text_def)
    then have "rest = []"
      by (intro trimmed_end [of raw "CHR ''['' # b @ '']''"]) (use raw rest in simp_all)
    then show thesis using elems [of t f] m f(2) raw b by simp
  qed
qed

lemma array_collect:
  assumes "json_parse (trim_space raw) = Some (JArr xs)"
  shows "\<exists>items. list_all2 (\<lambda>t v. json_parse t = Some v) items xs
    \<and> visit_loop (trim_space raw) 1 collect [] = Some (Inr items)"
  using assms
proof (cases rule: trimmed_array)
  case (empty w)
  show ?thesis
    unfolding empty(1,3) using empty_object_scan [of "CHR '']''" w "CHR ''[''"] empty(2)
    by (subst visit_loop.simps) (simp add: Let_def nth_append)
next
  case (elems f t)
  show ?thesis using visit_elems [OF elems(3,4), of "''[''" "[]"] elems(1) by simp
qed

lemma visit_array_items:
  assumes "json_parse (trim_space raw) = Some (JArr xs)"
  shows "\<exists>items. list_all2 (\<lambda>t v. json_parse t = Some v) items xs
    \<and> visit_array e raw visit st = Some (fold_result visit items st)
    \<and> visit_array () raw collect [] = Some (Inr items)"
proof -
  obtain items where items: "list_all2 (\<lambda>t v. json_parse t = Some v) items xs"
    "visit_loop (trim_space raw) 1 collect [] = Some (Inr items)"
    using array_collect [OF assms] by blast
  have "\<not> (length (trim_space raw) < 2 \<or> trim_space raw ! 0 \<noteq> CHR ''['' \<or> \<not> json_valid (trim_space raw))"
  proof -
    have "json_valid (trim_space raw)" by (simp add: json_valid_def assms)
    moreover have "\<exists>t. trim_space raw = CHR ''['' # t \<and> t \<noteq> []" by (rule trimmed_array [OF assms]) auto
    ultimately show ?thesis by (auto simp: Suc_le_eq)
  qed
  then show ?thesis using items visit_collect [of "trim_space raw" 1 "[]" items visit st]
    by (simp add: visit_array_def Let_def)
qed

text \<open>\<open>VisitArray\<close> never indexes beyond its input. On a JSON array it calls its function on the text of every
  element, in order, until one fails; on anything else it fails at once.\<close>

theorem visit_array_correct:
  "case json_parse (trim_space raw) of
     Some (JArr xs) \<Rightarrow> (\<exists>items. list_all2 (\<lambda>t v. json_parse t = Some v) items xs
        \<and> visit_array e raw visit st = Some (fold_result visit items st))
   | _ \<Rightarrow> visit_array e raw visit st = Some (Inl e)"
proof (cases "\<exists>xs. json_parse (trim_space raw) = Some (JArr xs)")
  case True
  then show ?thesis using visit_array_items by fastforce
next
  case False
  have "\<exists>ys. v = JArr ys" if "json_parse (CHR ''['' # t) = Some v" for t v
    using that by (auto simp: json_parse_def json_fuel_def parse_value_array split: option.splits if_splits prod.splits)
  then have "visit_array e raw visit st = Some (Inl e)"
    using False by (cases "trim_space raw") (fastforce simp: visit_array_def Let_def json_valid_def)+
  with False show ?thesis by (auto split: option.splits json.splits)
qed

lemma raw_items_spec:
  "case json_parse raw of
     Some JNull \<Rightarrow> raw_items raw = Some []
   | Some (JArr xs) \<Rightarrow> (\<exists>items. raw_items raw = Some items \<and> list_all2 (\<lambda>t v. json_parse t = Some v) items xs)
   | _ \<Rightarrow> raw_items raw = None"
proof (cases "\<exists>xs. json_parse raw = Some (JArr xs)")
  case True
  then obtain xs where xs: "json_parse raw = Some (JArr xs)" by blast
  obtain items where "list_all2 (\<lambda>t v. json_parse t = Some v) items xs" "visit_array () raw collect [] = Some (Inr items)"
    using visit_array_items [OF json_parse_trim [OF xs], of "()" collect "[]"] by blast
  then show ?thesis using xs by (simp add: raw_items_def)
qed (auto simp: raw_items_def split: option.splits json.splits)

end
