(* ===== verification/Json_Marshal.thy ===== *)
theory Json_Marshal
  imports Json_Values "HOL-Library.List_Lexorder" "HOL-Library.Char_ord"
begin

text \<open>
  What the code uses of \<open>json.Marshal\<close>: values of \<open>any\<close> decoded with \<open>UseNumber\<close>, maps with strings or raw
  messages (keys in bytewise order), slices of raw messages. A raw message is copied by \<open>compact\<close>, which drops
  the white space outside string literals and escapes \<open><\<close>, \<open>>\<close>, \<open>&\<close> and the line separators. Also the strings of
  items as the adapters read them (\<open>itemString\<close>).
\<close>

section \<open>Raw messages\<close>

text \<open>\<open>compact\<close> on a valid text: inside a string literal or not, and just after a backslash or not.\<close>

fun compact :: "bool \<Rightarrow> bool \<Rightarrow> string \<Rightarrow> string" where
  "compact in_string escaped [] = []"
| "compact in_string escaped (c # s) =
     (if \<not> in_string \<and> json_space c then compact False False s
      else
        (let in_string' = (if escaped then in_string else if c = quote then \<not> in_string else in_string);
             escaped' = (in_string \<and> \<not> escaped \<and> c = backslash)
         in if c = CHR ''<'' \<or> c = CHR ''>'' \<or> c = CHR ''&'' then u_escape (byte c) @ compact in_string' escaped' s
            else if line_separator (c # s)
            then u_escape (8192 + byte (s ! 1) - 128) @ compact in_string' escaped' (drop 2 s)
            else c # compact in_string' escaped' s))"

definition marshal_raw :: "string \<Rightarrow> string" where
  "marshal_raw t = (if t = [] then ''null'' else compact False False t)"

fun join_comma :: "string list \<Rightarrow> string" where
  "join_comma [] = []"
| "join_comma [t] = t"
| "join_comma (t # ts) = t @ CHR '','' # join_comma ts"

definition marshal_raw_list :: "string list \<Rightarrow> string" where
  "marshal_raw_list ts = CHR ''['' # join_comma (map marshal_raw ts) @ '']''"

definition object_text :: "(string \<times> string) list \<Rightarrow> string" where
  "object_text es = CHR ''{'' # members_string False es @ ''}''"

text \<open>A Go map as an association list with distinct keys, written in the order of its keys.\<close>

definition marshal_raw_map :: "(string \<times> string) list \<Rightarrow> string" where
  "marshal_raw_map m = object_text (map (\<lambda>(k, v). (k, marshal_raw v)) (sort_key fst m))"

definition marshal_string_map :: "(string \<times> string) list \<Rightarrow> string" where
  "marshal_string_map m = object_text (map (\<lambda>(k, v). (k, marshal_string v)) (sort_key fst m))"

text \<open>\<open>json.Unmarshal\<close> into \<open>map[string]json.RawMessage\<close>: the last member of a name stays; \<open>None\<close> is an error, and
  \<open>null\<close> leaves the map \<open>nil\<close>.\<close>

definition last_wins :: "(string \<times> 'a) list \<Rightarrow> (string \<times> 'a) list" where
  "last_wins ms = fold (\<lambda>(k, v). AList.update k v) ms []"

datatype raw_map = NoMap | NilMap | RawMap "(string \<times> string) list"

definition unmarshal_raw_map :: "string \<Rightarrow> raw_map" where
  "unmarshal_raw_map raw =
     (case json_parse raw of
        Some JNull \<Rightarrow> NilMap
      | Some (JObj _) \<Rightarrow>
          (case parse_object raw of Inr ob \<Rightarrow> RawMap (last_wins (o_fields ob)) | Inl _ \<Rightarrow> NoMap)
      | _ \<Rightarrow> NoMap)"

section \<open>Values\<close>

text \<open>\<open>json.Marshal\<close> of a value decoded into \<open>any\<close> with \<open>UseNumber\<close>: objects became maps, numbers kept
  their literals.\<close>

fun marshal_any :: "json \<Rightarrow> string" where
  "marshal_any JNull = ''null''"
| "marshal_any (JBool b) = (if b then ''true'' else ''false'')"
| "marshal_any (JNum l) = l"
| "marshal_any (JStr s) = marshal_string s"
| "marshal_any (JArr xs) = CHR ''['' # join_comma (map marshal_any xs) @ '']''"
| "marshal_any (JObj ms) =
     object_text (sort_key fst (last_wins (map (\<lambda>m. (fst m, marshal_any (snd m))) ms)))"

section \<open>Strings of items\<close>

text \<open>\<open>itemString\<close>: empty unless the member is a string.\<close>

definition item_string :: "string \<Rightarrow> string \<Rightarrow> string" where
  "item_string item key =
     (case lookup item key of
        None \<Rightarrow> []
      | Some raw \<Rightarrow> (case json_parse raw of Some (JStr s) \<Rightarrow> s | _ \<Rightarrow> []))"

lemma item_string_object:
  assumes "json_parse (trim_space item) = Some (JObj ms)" and "ascii key"
  shows "item_string item key = (case jget key ms of Some (JStr s) \<Rightarrow> s | _ \<Rightarrow> [])"
  using lookup_object [OF assms]
  by (cases "jget key ms"; cases "lookup item key") (auto simp: item_string_def)

lemma object_text_parse:
  assumes "nests es"
  shows "json_parse (object_text es) = Some (JObj (nest_values es))"
proof -
  let ?s = "members_string False es"
  have depth: "max_nesting \<noteq> 0" by (simp add: max_nesting_def)
  obtain f where f: "json_fuel (object_text es) = Suc f" "2 * length ?s \<le> f"
    by (simp add: json_fuel_def object_text_def)
  have "parse_value (Suc f) max_nesting (object_text es) = Some (JObj (nest_values es), [])"
  proof (cases es)
    case Nil
    have "skip_ws ''{}'' = ''{}''" "expect (CHR ''}'') ''}'' = Some []"
      by (simp_all add: skip_ws_def expect_here json_space_def)
    then show ?thesis using depth by (simp add: object_text_def Nil parse_value_object nest_values_def)
  next
    case (Cons e es')
    obtain k v where e: "e = (k, v)" by (cases e)
    have "parse_members f (max_nesting - 1) (?s @ CHR ''}'' # []) = Some (nest_values es, [])"
      using members_string_parse [of k v es' f "[]"] assms f(2) by (simp add: Cons e)
    moreover have "expect (CHR ''}'') (?s @ CHR ''}'' # []) = None"
      by (simp add: Cons e marshal_string_def expect_def skip_ws_def)
    moreover have "skip_ws (object_text es) = CHR ''{'' # ?s @ ''}''"
      by (simp add: object_text_def skip_ws_def json_space_def)
    ultimately show ?thesis using depth by (simp add: parse_value_object)
  qed
  then show ?thesis by (simp add: json_parse_def f skip_ws_def)
qed

lemma object_text_trim: "trim_space (object_text es) = object_text es"
proof -
  have "edge (CHR ''{'')" "edge (CHR ''}'')" by (simp_all add: edge_def ascii_space_def)
  then show ?thesis using trim_value [of "object_text es" "[]"] by (simp add: object_text_def)
qed

lemma nest_parse_string: "valid_utf8 s \<Longrightarrow> nest_parse (marshal_string s) = Some (JStr s)"
  using marshal_string_strlit(2) [of s "[]"]
  by (simp add: nest_parse_def json_fuel_def marshal_string_def parse_value_scalar parse_scalar_def skip_ws_def)

lemma item_string_text:
  assumes "nests es" and "ascii key"
  shows "item_string (object_text es) key = (case jget key (nest_values es) of Some (JStr s) \<Rightarrow> s | _ \<Rightarrow> [])"
  by (rule item_string_object) (simp_all add: object_text_trim object_text_parse assms)

end
