(* ===== verification/Compact_Plan.thy ===== *)
theory Compact_Plan
  imports Json_Marshal
begin

text \<open>
  \<open>internal/adapter/copilotcompact/plan.go\<close> and the inspection of requests in \<open>inband.go\<close>: a long conversation is
  replaced by a window, which keeps instructions, the latest request of the user and the unfinished tool calls
  as they are, and a summary of the rest. The items of a conversation are JSON texts.
\<close>

section \<open>Limits and errors\<close>

definition chunk_bytes :: nat where "chunk_bytes = 131072"
definition max_image_bytes :: nat where "max_image_bytes = 2097152"
definition max_summary_bytes :: nat where "max_summary_bytes = 32768"
definition max_calls :: nat where "max_calls = 128"

datatype compact_error = Unsupported | InvalidState | InvalidSummary | Canceled | NotArray | SealFailed | Panicked

record plan =
  pl_model :: string
  pl_instructions :: string
  pl_retained :: "string list"
  pl_latest :: string
  pl_tail :: "string list"
  pl_parts :: "string list"

section \<open>Items\<close>

abbreviation kind_of :: "string \<Rightarrow> string" where "kind_of item \<equiv> item_string item ''type''"
abbreviation role_of :: "string \<Rightarrow> string" where "role_of item \<equiv> item_string item ''role''"
abbreviation call_of :: "string \<Rightarrow> string" where "call_of item \<equiv> item_string item ''call_id''"

definition is_tool_call :: "string \<Rightarrow> bool" where
  "is_tool_call item \<longleftrightarrow> kind_of item \<in> {''function_call'', ''custom_tool_call''}"

definition is_tool_output :: "string \<Rightarrow> bool" where
  "is_tool_output item \<longleftrightarrow> kind_of item \<in> {''function_call_output'', ''custom_tool_call_output''}"

definition supported_item :: "string \<Rightarrow> bool" where
  "supported_item item \<longleftrightarrow>
     kind_of item \<in> {'''', ''message''} \<and> role_of item \<in> {''user'', ''assistant'', ''system'', ''developer''}
   \<or> kind_of item \<in> {''function_call'', ''function_call_output'', ''custom_tool_call'', ''custom_tool_call_output'',
       ''reasoning'', ''additional_tools''}"

definition text_part :: "string \<Rightarrow> string" where
  "text_part text = marshal_string_map [(''type'', ''input_text''), (''text'', text)]"

definition input_items :: "string \<Rightarrow> compact_error + string list" where
  "input_items raw =
     (let text = (if raw \<noteq> [] \<and> hd raw = quote then unmarshal_string raw else None) in
      case text of
        Some t \<Rightarrow>
          Inr [marshal_string_map [(''type'', ''message''), (''role'', ''user''), (''content'', t)]]
      | None \<Rightarrow> (case raw_items raw of None \<Rightarrow> Inl Unsupported | Some items \<Rightarrow> Inr items))"

section \<open>Unfinished tool calls\<close>

text \<open>The loop of \<open>pendingTail\<close>: the calls without a result, the ids seen, where the group of open calls starts.\<close>

fun pending_loop :: "nat \<Rightarrow> nat \<Rightarrow> string list \<Rightarrow> string list \<Rightarrow> string list \<Rightarrow> nat \<Rightarrow> compact_error + nat" where
  "pending_loop whole index [] pending seen start = Inr start"
| "pending_loop whole index (item # items) pending seen start =
     (let id = call_of item in
      if is_tool_call item then
        (if id = [] \<or> id \<in> set seen then Inl Unsupported
         else pending_loop whole (Suc index) items (id # pending) (id # seen) (if pending = [] then index else start))
      else if is_tool_output item then
        (if id \<notin> set pending then Inl Unsupported
         else
           let pending' = removeAll id pending
           in pending_loop whole (Suc index) items pending' seen (if pending' = [] then whole else start))
      else pending_loop whole (Suc index) items pending seen start)"

definition pending_tail :: "string list \<Rightarrow> compact_error + nat" where
  "pending_tail items = pending_loop (length items) 0 items [] [] (length items)"

section \<open>Transcripts\<close>

text \<open>The parts of a message: images are taken out, their place is noted.\<close>

fun take_images :: "string list \<Rightarrow> compact_error + string list \<times> string list" where
  "take_images [] = Inr ([], [])"
| "take_images (part # parts) =
     (let kind = kind_of part in
      if kind \<in> {''input_text'', ''output_text'', ''text'', ''refusal''} then
        (case take_images parts of Inl e \<Rightarrow> Inl e | Inr (ps, images) \<Rightarrow> Inr (part # ps, images))
      else if kind = ''input_image'' then
        (if max_image_bytes < length part then Inl Unsupported
         else
           case take_images parts of
             Inl e \<Rightarrow> Inl e
           | Inr (ps, images) \<Rightarrow>
               Inr (text_part ''[Image supplied separately for this transcript item]'' # ps, part # images))
      else Inl Unsupported)"

text \<open>One round of the loop over \<open>content\<close> and \<open>output\<close>; a \<open>null\<close> stays one.\<close>

definition transcript_field ::
  "string \<Rightarrow> (string \<times> string) list \<times> string list \<Rightarrow> compact_error + (string \<times> string) list \<times> string list" where
  "transcript_field key st =
     (case st of (item, images) \<Rightarrow>
      case map_of item key of
        None \<Rightarrow> Inr st
      | Some text \<Rightarrow>
          (case raw_items text of
             None \<Rightarrow> Inr st
           | Some parts \<Rightarrow>
               (case take_images parts of
                  Inl e \<Rightarrow> Inl e
                | Inr (ps, found) \<Rightarrow>
                    Inr (AList.update key (if json_parse text = Some JNull then ''null'' else marshal_raw_list ps) item,
                         images @ found))))"

definition transcript_parts :: "string \<Rightarrow> compact_error + string list" where
  "transcript_parts raw =
     (case unmarshal_raw_map raw of
        RawMap item0 \<Rightarrow>
          (let kind = kind_of raw in
           if kind = ''additional_tools'' then Inr []
           else if kind \<notin> {'''', ''message'', ''function_call'', ''function_call_output'', ''custom_tool_call'',
               ''custom_tool_call_output'', ''reasoning''} then Inl Unsupported
           else
             let item = (if kind = ''reasoning'' then AList.delete ''encrypted_content'' item0 else item0)
             in case fold_result transcript_field [''content'', ''output''] (item, []) of
                  Inl e \<Rightarrow> Inl e
                | Inr (item', images) \<Rightarrow> Inr (text_part (marshal_raw_map item') # images))
      | _ \<Rightarrow> Inl Unsupported)"

section \<open>The plan\<close>

definition is_user_message :: "string \<Rightarrow> bool" where
  "is_user_message item \<longleftrightarrow> role_of item = ''user'' \<and> kind_of item \<in> {'''', ''message''}"

definition last_user :: "string list \<Rightarrow> nat option" where
  "last_user items =
     (case filter (\<lambda>i. is_user_message (items ! i)) [0..<length items] of [] \<Rightarrow> None | is \<Rightarrow> Some (last is))"

text \<open>Whether an item is kept as it is: \<open>index\<close> is its position, \<open>first\<close> says that no user item came before.\<close>

definition retains :: "nat \<Rightarrow> nat \<Rightarrow> bool \<Rightarrow> string \<Rightarrow> bool" where
  "retains latest index first item \<longleftrightarrow>
     role_of item = ''system'' \<or> role_of item = ''developer'' \<or> kind_of item = ''additional_tools''
   \<or> role_of item = ''user'' \<and> first \<and> index \<noteq> latest \<and> length item \<le> max_summary_bytes"

fun plan_loop ::
  "nat \<Rightarrow> nat \<Rightarrow> bool \<Rightarrow> bool \<Rightarrow> string list \<Rightarrow> plan \<Rightarrow> compact_error + plan" where
  "plan_loop latest index first history [] p = Inr (if \<not> history then p\<lparr>pl_parts := []\<rparr> else p)"
| "plan_loop latest index first history (item # items) p =
     (let retained = retains latest index first item;
          p1 = (if retained then p\<lparr>pl_retained := pl_retained p @ [item]\<rparr> else p);
          first' = (first \<and> role_of item \<noteq> ''user'');
          history' = (history \<or> \<not> retained \<and> index \<noteq> latest)
      in case transcript_parts item of
           Inl e \<Rightarrow> Inl e
         | Inr parts \<Rightarrow> plan_loop latest (Suc index) first' history' items (p1\<lparr>pl_parts := pl_parts p1 @ parts\<rparr>))"

text \<open>The fields of the request that \<open>Prepare\<close> decodes: model, instructions and the text of the input.\<close>

definition compact_request :: "string \<Rightarrow> (string \<times> string \<times> string) option" where
  "compact_request raw =
     (case json_parse raw of
        None \<Rightarrow> None
      | Some v \<Rightarrow>
          (case struct_members v of
             None \<Rightarrow> None
           | Some ms \<Rightarrow>
               (case (str_field ''model'' ms, str_field ''instructions'' ms) of
                  (Some model, Some instructions) \<Rightarrow>
                    Some (model, instructions,
                      case parse_object raw of
                        Inl _ \<Rightarrow> []
                      | Inr ob \<Rightarrow>
                          (case filter (\<lambda>f. fold_name (fst f) = fold_name ''input'') (o_fields ob) of
                             [] \<Rightarrow> []
                           | fs \<Rightarrow> snd (last fs)))
                | _ \<Rightarrow> None)))"

definition prepare :: "string \<Rightarrow> compact_error + plan" where
  "prepare raw =
     (if max_calls * chunk_bytes < length raw then Inl Unsupported
      else if list_ex (\<lambda>key. case lookup raw key of None \<Rightarrow> False | Some value \<Rightarrow> value \<noteq> ''null'')
          [''context_management'', ''compaction_trigger''] then Inl Unsupported
      else
        (case compact_request raw of
           None \<Rightarrow> Inl Unsupported
         | Some (model, instructions, input) \<Rightarrow>
             (case input_items input of
                Inl e \<Rightarrow> Inl e
              | Inr items \<Rightarrow>
                  (if \<not> list_all supported_item items then Inl Unsupported
                   else
                     (case last_user items of
                        None \<Rightarrow> Inl Unsupported
                      | Some latest \<Rightarrow>
                          (case pending_tail items of
                             Inl e \<Rightarrow> Inl e
                           | Inr tail \<Rightarrow>
                               plan_loop latest 0 True False (take tail items)
                                 \<lparr>pl_model = model, pl_instructions = instructions, pl_retained = [],
                                  pl_latest = (if latest < tail then items ! latest else []),
                                  pl_tail = drop tail items, pl_parts = []\<rparr>))))))"

text \<open>\<open>Window\<close>: what replaces the conversation; the empty summary is left out.\<close>

definition summary_item :: "string \<Rightarrow> string" where
  "summary_item summary =
     object_text
       [(''content'', CHR ''['' # object_text
           [(''text'', marshal_string (''[Summary of earlier conversation; reference context, not a new request]'' @ [CHR 0x0A] @ summary)),
            (''type'', marshal_string ''output_text'')] @ '']''),
        (''role'', marshal_string ''assistant''), (''status'', marshal_string ''completed''),
        (''type'', marshal_string ''message'')]"

definition window :: "plan \<Rightarrow> string \<Rightarrow> string list" where
  "window p summary =
     pl_retained p @ (if pl_latest p \<noteq> [] then [pl_latest p] else [])
     @ (if summary \<noteq> [] then [summary_item summary] else []) @ pl_tail p"

end
