(* ===== verification/Compact_Window.thy ===== *)
theory Compact_Window
  imports Compact_Plan
begin

text \<open>
  What compaction keeps: the split before unfinished tool calls is the best one, and every item of the
  conversation is in the window or in the transcript that is summarised.
\<close>

section \<open>Unfinished tool calls\<close>

text \<open>A call is open after some items when no result for it follows it.\<close>

definition open_in :: "string \<Rightarrow> string list \<Rightarrow> bool" where
  "open_in cid xs \<longleftrightarrow>
     (\<exists>i < length xs. is_tool_call (xs ! i) \<and> call_of (xs ! i) = cid
        \<and> (\<forall>j. i < j \<and> j < length xs \<longrightarrow> \<not> (is_tool_output (xs ! j) \<and> call_of (xs ! j) = cid)))"

definition settled :: "string list \<Rightarrow> bool" where
  "settled xs \<longleftrightarrow> (\<forall>cid. \<not> open_in cid xs)"

definition call_ids :: "string list \<Rightarrow> string set" where
  "call_ids xs = call_of ` {x \<in> set xs. is_tool_call x}"

text \<open>Calls have ids of their own, and a result follows the call it is for, once.\<close>

definition well_paired :: "string list \<Rightarrow> bool" where
  "well_paired xs \<longleftrightarrow>
     (\<forall>k < length xs.
        (is_tool_call (xs ! k) \<longrightarrow> call_of (xs ! k) \<noteq> [] \<and> call_of (xs ! k) \<notin> call_ids (take k xs))
      \<and> (is_tool_output (xs ! k) \<longrightarrow> open_in (call_of (xs ! k)) (take k xs)))"

lemma not_call_and_output: "is_tool_call x \<Longrightarrow> \<not> is_tool_output x"
  by (auto simp: is_tool_call_def is_tool_output_def)

lemma open_in_snoc:
  "open_in cid (xs @ [x]) \<longleftrightarrow>
     is_tool_call x \<and> call_of x = cid \<or> open_in cid xs \<and> \<not> (is_tool_output x \<and> call_of x = cid)"
  (is "?L \<longleftrightarrow> ?R")
proof
  assume ?L
  then obtain i where i: "i < Suc (length xs)" "is_tool_call ((xs @ [x]) ! i)" "call_of ((xs @ [x]) ! i) = cid"
    "\<And>j. i < j \<Longrightarrow> j < Suc (length xs) \<Longrightarrow> \<not> (is_tool_output ((xs @ [x]) ! j) \<and> call_of ((xs @ [x]) ! j) = cid)"
    by (auto simp: open_in_def)
  show ?R
  proof (cases "i = length xs")
    case True
    then show ?thesis using i by simp
  next
    case False
    then have l: "i < length xs" using i(1) by simp
    have "\<not> (is_tool_output (xs ! j) \<and> call_of (xs ! j) = cid)" if "i < j" "j < length xs" for j
      using i(4) [of j] that by (simp add: nth_append)
    then have "open_in cid xs" using i(2,3) l unfolding open_in_def by (auto simp: nth_append)
    then show ?thesis using i(4) [of "length xs"] l by simp
  qed
next
  assume ?R
  then show ?L
  proof
    assume "is_tool_call x \<and> call_of x = cid"
    then show ?L unfolding open_in_def by (intro exI [of _ "length xs"]) auto
  next
    assume "open_in cid xs \<and> \<not> (is_tool_output x \<and> call_of x = cid)"
    then obtain i where "i < length xs" "is_tool_call (xs ! i)" "call_of (xs ! i) = cid"
      "\<And>j. i < j \<Longrightarrow> j < length xs \<Longrightarrow> \<not> (is_tool_output (xs ! j) \<and> call_of (xs ! j) = cid)"
      and x: "\<not> (is_tool_output x \<and> call_of x = cid)"
      by (auto simp: open_in_def)
    then show ?L unfolding open_in_def by (intro exI [of _ i]) (auto simp: nth_append less_Suc_eq)
  qed
qed

lemma open_in_Nil [simp]: "\<not> open_in cid []"
  by (simp add: open_in_def)

lemma call_ids_snoc: "call_ids (xs @ [x]) = call_ids xs \<union> (if is_tool_call x then {call_of x} else {})"
  by (auto simp: call_ids_def)

lemma well_paired_snoc:
  "well_paired (xs @ [x]) \<longleftrightarrow> well_paired xs
     \<and> (is_tool_call x \<longrightarrow> call_of x \<noteq> [] \<and> call_of x \<notin> call_ids xs) \<and> (is_tool_output x \<longrightarrow> open_in (call_of x) xs)"
  unfolding well_paired_def by (auto simp: less_Suc_eq nth_append)

lemma well_paired_prefix: "well_paired (xs @ ys) \<Longrightarrow> well_paired xs"
proof (induction ys rule: rev_induct)
  case (snoc y ys)
  then show ?case using well_paired_snoc [of "xs @ ys" y] by simp
qed simp

text \<open>The state of the loop after the items \<open>xs\<close>.\<close>

definition pending_ok :: "nat \<Rightarrow> string list \<Rightarrow> string list \<Rightarrow> string list \<Rightarrow> nat \<Rightarrow> bool" where
  "pending_ok whole xs pending seen start \<longleftrightarrow>
     well_paired xs \<and> set pending = {cid. open_in cid xs} \<and> set seen = call_ids xs
   \<and> (pending = [] \<longrightarrow> start = whole)
   \<and> (pending \<noteq> [] \<longrightarrow> start \<le> length xs \<and> settled (take start xs)
        \<and> (\<forall>m. start < m \<longrightarrow> m \<le> length xs \<longrightarrow> \<not> settled (take m xs)))"

definition best_split :: "string list \<Rightarrow> nat" where
  "best_split items = Max {m. m \<le> length items \<and> settled (take m items)}"

lemma pending_ok_end:
  assumes "pending_ok (length xs) xs pending seen start"
  shows "start = best_split xs"
proof -
  have "Max {m. m \<le> length xs \<and> settled (take m xs)} = start"
  proof (rule Max_eqI)
    show "y \<le> start" if "y \<in> {m. m \<le> length xs \<and> settled (take m xs)}" for y
      using assms that by (cases "pending = []") (auto simp: pending_ok_def not_le [symmetric])
    show "start \<in> {m. m \<le> length xs \<and> settled (take m xs)}"
      using assms by (cases "pending = []") (auto simp: pending_ok_def settled_def)
  qed simp
  then show ?thesis by (simp add: best_split_def)
qed

lemma settled_empty: "set pending = {cid. open_in cid xs} \<Longrightarrow> settled xs \<longleftrightarrow> pending = []"
  by (auto simp: settled_def)

lemma pending_step:
  assumes ok: "pending_ok whole xs pending seen start" and paired: "well_paired (xs @ [x])"
  shows "is_tool_call x \<Longrightarrow> pending_ok whole (xs @ [x]) (call_of x # pending) (call_of x # seen)
      (if pending = [] then length xs else start)"
    and "is_tool_output x \<Longrightarrow> pending_ok whole (xs @ [x]) (removeAll (call_of x) pending) seen
      (if removeAll (call_of x) pending = [] then whole else start)"
    and "\<not> is_tool_call x \<Longrightarrow> \<not> is_tool_output x \<Longrightarrow> pending_ok whole (xs @ [x]) pending seen start"
proof -
  have p: "set pending = {cid. open_in cid xs}" and s: "set seen = call_ids xs"
    using ok by (auto simp: pending_ok_def)
  have sx: "settled xs \<longleftrightarrow> pending = []" by (rule settled_empty [OF p])
  have keep: "start' \<le> length (xs @ [x]) \<and> settled (take start' (xs @ [x]))
      \<and> (\<forall>m. start' < m \<longrightarrow> m \<le> length (xs @ [x]) \<longrightarrow> \<not> settled (take m (xs @ [x])))"
    if "start' = (if pending = [] then length xs else start)" "\<not> settled (xs @ [x])" for start'
  proof (cases "pending = []")
    case True
    then show ?thesis using that sx by (auto simp: le_Suc_eq)
  next
    case False
    then have "start \<le> length xs" "settled (take start xs)"
      "\<And>m. start < m \<Longrightarrow> m \<le> length xs \<Longrightarrow> \<not> settled (take m xs)"
      using ok by (auto simp: pending_ok_def)
    then show ?thesis using that False by (auto simp: le_Suc_eq)
  qed
  show "pending_ok whole (xs @ [x]) (call_of x # pending) (call_of x # seen) (if pending = [] then length xs else start)"
    if c: "is_tool_call x"
  proof -
    have "set (call_of x # pending) = {cid. open_in cid (xs @ [x])}"
      using p c not_call_and_output [OF c] by (auto simp: open_in_snoc)
    moreover from settled_empty [OF this] have "\<not> settled (xs @ [x])" by simp
    moreover have "set (call_of x # seen) = call_ids (xs @ [x])" using s c by (simp add: call_ids_snoc)
    ultimately show ?thesis using paired keep [OF refl] unfolding pending_ok_def by blast
  qed
  show "pending_ok whole (xs @ [x]) (removeAll (call_of x) pending) seen
      (if removeAll (call_of x) pending = [] then whole else start)"
    if o: "is_tool_output x"
  proof -
    have nc: "\<not> is_tool_call x" using not_call_and_output o by blast
    have e: "set (removeAll (call_of x) pending) = {cid. open_in cid (xs @ [x])}"
      using p o nc by (auto simp: open_in_snoc)
    have "set seen = call_ids (xs @ [x])" using s nc by (simp add: call_ids_snoc)
    moreover have "start \<le> length (xs @ [x]) \<and> settled (take start (xs @ [x]))
        \<and> (\<forall>m. start < m \<longrightarrow> m \<le> length (xs @ [x]) \<longrightarrow> \<not> settled (take m (xs @ [x])))"
      if "removeAll (call_of x) pending \<noteq> []"
      by (rule keep) (use that settled_empty [OF e] in auto)
    ultimately show ?thesis using paired e unfolding pending_ok_def by auto
  qed
  show "pending_ok whole (xs @ [x]) pending seen start" if n: "\<not> is_tool_call x" "\<not> is_tool_output x"
  proof -
    have e: "set pending = {cid. open_in cid (xs @ [x])}" using p n by (auto simp: open_in_snoc)
    have "set seen = call_ids (xs @ [x])" using s n by (simp add: call_ids_snoc)
    moreover have "start \<le> length (xs @ [x]) \<and> settled (take start (xs @ [x]))
        \<and> (\<forall>m. start < m \<longrightarrow> m \<le> length (xs @ [x]) \<longrightarrow> \<not> settled (take m (xs @ [x])))"
      if "pending \<noteq> []"
      by (rule keep) (use that settled_empty [OF e] in auto)
    moreover have "pending = [] \<longrightarrow> start = whole" using ok by (simp add: pending_ok_def)
    ultimately show ?thesis using paired e unfolding pending_ok_def by blast
  qed
qed

lemma pending_loop_spec:
  assumes "pending_ok (length (xs @ items)) xs pending seen start"
  shows "pending_loop (length (xs @ items)) (length xs) items pending seen start
    = (if well_paired (xs @ items) then Inr (best_split (xs @ items)) else Inl Unsupported)"
  using assms
proof (induction items arbitrary: xs pending seen start)
  case Nil
  then show ?case using pending_ok_end [of xs pending seen start] by (simp add: pending_ok_def)
next
  case (Cons x items)
  have p: "set pending = {cid. open_in cid xs}" and s: "set seen = call_ids xs" and w: "well_paired xs"
    using Cons.prems by (auto simp: pending_ok_def)
  show ?case
  proof (cases "well_paired (xs @ [x])")
    case False
    then have "\<not> well_paired (xs @ x # items)" using well_paired_prefix [of "xs @ [x]" items] by auto
    then show ?thesis using False w p s not_call_and_output [of x] by (auto simp: well_paired_snoc Let_def)
  next
    case True
    have cid: "is_tool_call x \<Longrightarrow> call_of x \<noteq> [] \<and> call_of x \<notin> set seen"
      "is_tool_output x \<Longrightarrow> call_of x \<in> set pending"
      using True p s by (auto simp: well_paired_snoc)
    note step = pending_step [OF Cons.prems True, simplified]
    note ih = Cons.IH [of "xs @ [x]", simplified]
    show ?thesis
    proof (cases "is_tool_call x")
      case True
      then show ?thesis using ih [OF step(1) [OF True]] cid(1) by (simp add: Let_def)
    next
      case nc: False
      show ?thesis
      proof (cases "is_tool_output x")
        case True
        then show ?thesis using ih [OF step(2) [OF True]] cid(2) nc
          by (cases "removeAll (call_of x) pending = []") (simp_all add: Let_def)
      next
        case False
        then show ?thesis using ih [OF step(3) [OF nc False]] nc False by (simp add: Let_def)
      qed
    qed
  qed
qed

lemma pending_tail_spec:
  "pending_tail items = (if well_paired items then Inr (best_split items) else Inl Unsupported)"
proof -
  have "pending_ok (length items) [] [] [] (length items)"
    by (simp add: pending_ok_def well_paired_def call_ids_def)
  then show ?thesis using pending_loop_spec [of "[]" items "[]" "[]" "length items"] by (simp add: pending_tail_def)
qed

text \<open>C30. \<open>pendingTail\<close> accepts exactly the conversations in which every tool call has an id of its own and every
  result follows the call it is for, and splits them at the last place before which every call has its result:
  no call is separated from its result, and no more than needed is kept out of the summary.\<close>

theorem pending_tail_correct:
  "pending_tail items
     = (if well_paired items then Inr (Max {m. m \<le> length items \<and> settled (take m items)}) else Inl Unsupported)"
  by (simp add: pending_tail_spec best_split_def)

section \<open>What the plan keeps\<close>

definition is_instruction :: "string \<Rightarrow> bool" where
  "is_instruction item \<longleftrightarrow> role_of item = ''system'' \<or> role_of item = ''developer'' \<or> kind_of item = ''additional_tools''"

text \<open>\<open>same_frame p q\<close>: all but the retained items and the parts are equal.\<close>

definition same_frame :: "plan \<Rightarrow> plan \<Rightarrow> bool" where
  "same_frame p q \<longleftrightarrow> pl_model q = pl_model p \<and> pl_instructions q = pl_instructions p
     \<and> pl_latest q = pl_latest p \<and> pl_tail q = pl_tail p"

lemma plan_loop_spec:
  assumes "plan_loop latest index first history items p = Inr q"
  shows "same_frame p q \<and> (\<exists>kept tss. pl_retained q = pl_retained p @ kept \<and> set kept \<subseteq> set items
    \<and> (\<forall>x \<in> set items. is_instruction x \<longrightarrow> x \<in> set kept)
    \<and> list_all2 (\<lambda>x ts. transcript_parts x = Inr ts) items tss
    \<and> (pl_parts q = pl_parts p @ concat tss
       \<or> pl_parts q = [] \<and> \<not> history \<and> (\<forall>i < length items. items ! i \<in> set kept \<or> index + i = latest)))"
  using assms
proof (induction items arbitrary: index first history p)
  case Nil
  then show ?case by (auto simp: same_frame_def split: if_splits)
next
  case (Cons x items)
  define r where "r = retains latest index first x"
  define p1 where "p1 = (if r then p\<lparr>pl_retained := pl_retained p @ [x]\<rparr> else p)"
  obtain parts where parts: "transcript_parts x = Inr parts"
    and rest: "plan_loop latest (Suc index) (first \<and> role_of x \<noteq> ''user'') (history \<or> \<not> r \<and> index \<noteq> latest) items
      (p1\<lparr>pl_parts := pl_parts p1 @ parts\<rparr>) = Inr q"
    using Cons.prems by (auto simp: Let_def r_def [symmetric] p1_def split: sum.splits)
  obtain kept tss where ih: "same_frame (p1\<lparr>pl_parts := pl_parts p1 @ parts\<rparr>) q"
    "pl_retained q = pl_retained p1 @ kept" "set kept \<subseteq> set items" "\<forall>x \<in> set items. is_instruction x \<longrightarrow> x \<in> set kept"
    "list_all2 (\<lambda>x ts. transcript_parts x = Inr ts) items tss"
    "pl_parts q = pl_parts p1 @ parts @ concat tss
       \<or> pl_parts q = [] \<and> \<not> (history \<or> \<not> r \<and> index \<noteq> latest)
         \<and> (\<forall>i < length items. items ! i \<in> set kept \<or> Suc index + i = latest)"
    using Cons.IH [OF rest] by auto
  have i: "r" if "is_instruction x" using that by (auto simp: r_def retains_def is_instruction_def)
  let ?kept = "(if r then [x] else []) @ kept"
  have all: "\<forall>i < length (x # items). (x # items) ! i \<in> set ?kept \<or> index + i = latest"
    if "\<not> (\<not> r \<and> index \<noteq> latest)" "\<forall>i < length items. items ! i \<in> set kept \<or> Suc index + i = latest"
    using that by (auto simp: less_Suc_eq_0_disj)
  have "same_frame p q" using ih(1) by (simp add: same_frame_def p1_def split: if_splits)
  moreover have "pl_retained q = pl_retained p @ ?kept" using ih(2) by (simp add: p1_def)
  moreover have "set ?kept \<subseteq> set (x # items)" using ih(3) by auto
  moreover have "\<forall>y \<in> set (x # items). is_instruction y \<longrightarrow> y \<in> set ?kept" using ih(4) i by auto
  moreover have "list_all2 (\<lambda>x ts. transcript_parts x = Inr ts) (x # items) (parts # tss)" using ih(5) parts by simp
  moreover have "pl_parts q = pl_parts p @ concat (parts # tss)
      \<or> pl_parts q = [] \<and> \<not> history \<and> (\<forall>i < length (x # items). (x # items) ! i \<in> set ?kept \<or> index + i = latest)"
    using ih(6) all by (auto simp: p1_def split: if_splits)
  ultimately show ?case by blast
qed

lemma last_user_Some:
  assumes "last_user items = Some i"
  shows "i < length items \<and> is_user_message (items ! i) \<and> (\<forall>j. i < j \<longrightarrow> j < length items \<longrightarrow> \<not> is_user_message (items ! j))"
proof -
  let ?is = "filter (\<lambda>i. is_user_message (items ! i)) [0..<length items]"
  have ne: "?is \<noteq> []" and i: "i = last ?is" using assms by (auto simp: last_user_def split: list.splits)
  have "i \<in> set ?is" unfolding i by (rule last_in_set [OF ne])
  moreover have "j \<le> i" if j: "j \<in> set ?is" for j
  proof -
    obtain k where k: "k < length ?is" "?is ! k = j" using j [unfolded in_set_conv_nth] by blast
    have "sorted ?is" by (rule sorted_wrt_filter) simp
    then have "?is ! k \<le> ?is ! (length ?is - 1)" using k(1) by (intro sorted_nth_mono) auto
    then show ?thesis using k i ne by (simp add: last_conv_nth)
  qed
  ultimately show ?thesis by (fastforce simp: not_less)
qed

lemma item_string_nonempty: "item_string item key \<noteq> [] \<Longrightarrow> item \<noteq> []"
  by (auto simp: item_string_def lookup_def Let_def trim_space_def trim_left.simps trim_left_rev.simps)

lemma best_split_le: "best_split items \<le> length items"
proof -
  have "0 \<in> {m. m \<le> length items \<and> settled (take m items)}" by (simp add: settled_def)
  then have "best_split items \<in> {m. m \<le> length items \<and> settled (take m items)}"
    unfolding best_split_def by (intro Max_in) auto
  then show ?thesis by simp
qed

text \<open>C29. Compaction loses nothing and makes nothing up. The window has only items of the conversation, besides the
  summary; all instructions, the latest request of the user and the unfinished tool calls with all that
  follows are in it; every other item is in the window too, or the transcript of everything before the
  unfinished calls is given to the summary.\<close>

theorem prepare_keeps:
  assumes "prepare raw = Inr p"
  shows "\<exists>input items latest n. compact_request raw = Some (pl_model p, pl_instructions p, input)
    \<and> input_items input = Inr items \<and> last_user items = Some latest \<and> pending_tail items = Inr n
    \<and> set (window p summary) \<subseteq> insert (summary_item summary) (set items)
    \<and> pl_tail p = drop n items \<and> items ! latest \<in> set (window p summary)
    \<and> (\<forall>x \<in> set items. is_instruction x \<longrightarrow> x \<in> set (window p summary))
    \<and> (set items \<subseteq> set (window p summary)
       \<or> (\<exists>tss. list_all2 (\<lambda>x ts. transcript_parts x = Inr ts) (take n items) tss \<and> pl_parts p = concat tss))"
proof -
  obtain input items latest n where d: "compact_request raw = Some (pl_model p, pl_instructions p, input)"
    "input_items input = Inr items" "last_user items = Some latest" "pending_tail items = Inr n"
    and loop: "plan_loop latest 0 True False (take n items)
      \<lparr>pl_model = pl_model p, pl_instructions = pl_instructions p, pl_retained = [],
       pl_latest = (if latest < n then items ! latest else []), pl_tail = drop n items, pl_parts = []\<rparr> = Inr p"
  proof -
    obtain model instructions input items latest n where c: "compact_request raw = Some (model, instructions, input)"
      "input_items input = Inr items" "last_user items = Some latest" "pending_tail items = Inr n"
      "plan_loop latest 0 True False (take n items)
        \<lparr>pl_model = model, pl_instructions = instructions, pl_retained = [],
         pl_latest = (if latest < n then items ! latest else []), pl_tail = drop n items, pl_parts = []\<rparr> = Inr p"
      using assms by (auto simp: prepare_def split: if_splits option.splits sum.splits)
    moreover have "pl_model p = model \<and> pl_instructions p = instructions"
      using plan_loop_spec [OF c(5)] by (simp add: same_frame_def)
    ultimately show thesis using that by blast
  qed
  obtain kept tss where k: "pl_latest p = (if latest < n then items ! latest else [])" "pl_tail p = drop n items"
    "pl_retained p = kept" "set kept \<subseteq> set (take n items)" "\<forall>x \<in> set (take n items). is_instruction x \<longrightarrow> x \<in> set kept"
    "list_all2 (\<lambda>x ts. transcript_parts x = Inr ts) (take n items) tss"
    "pl_parts p = concat tss \<or> (\<forall>i < length (take n items). take n items ! i \<in> set kept \<or> i = latest)"
    using plan_loop_spec [OF loop] unfolding same_frame_def plan.simps append_Nil add_0 by blast
  have u: "latest < length items" "is_user_message (items ! latest)" using last_user_Some [OF d(3)] by blast+
  then have ne: "items ! latest \<noteq> []"
    using item_string_nonempty [of "items ! latest" "''role''"] by (simp add: is_user_message_def)
  have sets: "set items = set (take n items) \<union> set (drop n items)"
    by (metis append_take_drop_id set_append)
  have latest: "items ! latest \<in> set (window p summary)"
  proof (cases "latest < n")
    case True
    then show ?thesis using k(1) ne by (simp add: window_def)
  next
    case False
    then have "items ! latest = drop n items ! (latest - n)" "latest - n < length (drop n items)" using u by auto
    then have "items ! latest \<in> set (drop n items)" using nth_mem by metis
    then show ?thesis using k(2) by (simp add: window_def)
  qed
  have within: "set (window p summary) \<subseteq> insert (summary_item summary) (set items)"
  proof -
    have "set (window p summary) \<subseteq> set kept \<union> (if latest < n then {items ! latest} else {}) \<union> {summary_item summary} \<union> set (drop n items)"
      by (auto simp: window_def k(1-3))
    moreover have "set kept \<subseteq> set items" "set (drop n items) \<subseteq> set items" "items ! latest \<in> set items"
      using k(4) u(1) sets by auto
    ultimately show ?thesis by (auto split: if_splits)
  qed
  have all: "set items \<subseteq> set (window p summary)" if "\<forall>i < length (take n items). take n items ! i \<in> set kept \<or> i = latest"
  proof
    fix x assume "x \<in> set items"
    then consider "x \<in> set (drop n items)" | i where "i < length (take n items)" "take n items ! i = x"
      unfolding sets by (auto simp: in_set_conv_nth)
    then show "x \<in> set (window p summary)"
    proof cases
      case 1
      then show ?thesis using k(2) by (simp add: window_def)
    next
      case 2
      then show ?thesis using that latest k(3) by (auto simp: window_def)
    qed
  qed
  have "\<forall>x \<in> set items. is_instruction x \<longrightarrow> x \<in> set (window p summary)"
    using k(2,3,5) unfolding sets window_def by auto
  then show ?thesis using d k(2,6,7) latest within all by blast
qed

definition window_sample :: string where
  "window_sample = ''{\"model\":\"m\",\"input\":[{\"type\":\"function_call\",\"call_id\":\"c\"},{\"role\":\"user\",\"content\":\"go\"}]}''"

lemma window_sample_parse:
  "json_parse window_sample = Some (JObj [(''model'', JStr ''m''),
     (''input'', JArr [JObj [(''type'', JStr ''function_call''), (''call_id'', JStr ''c'')],
        JObj [(''role'', JStr ''user''), (''content'', JStr ''go'')]])])"
  unfolding window_sample_def by code_simp

lemma window_sample_items:
  assumes "json_parse a = Some (JObj [(''type'', JStr ''function_call''), (''call_id'', JStr ''c'')])"
    and "json_parse b = Some (JObj [(''role'', JStr ''user''), (''content'', JStr ''go'')])"
  shows "last_user [a, b] = Some 1" and "pending_tail [a, b] = Inr 0" and "list_all supported_item [a, b]"
proof -
  have s: "item_string a key = (case jget key [(''type'', JStr ''function_call''), (''call_id'', JStr ''c'')] of Some (JStr s) \<Rightarrow> s | _ \<Rightarrow> [])"
    "item_string b key = (case jget key [(''role'', JStr ''user''), (''content'', JStr ''go'')] of Some (JStr s) \<Rightarrow> s | _ \<Rightarrow> [])"
    if "ascii key" for key
    by (rule item_string_object [OF json_parse_trim [OF assms(1)] that], rule item_string_object [OF json_parse_trim [OF assms(2)] that])
  have "kind_of a = ''function_call''" "call_of a = ''c''" "role_of a = []" "kind_of b = []" "role_of b = ''user''"
    using s by (simp_all add: ascii_def jget_def)
  then show "last_user [a, b] = Some 1" "pending_tail [a, b] = Inr 0" "list_all supported_item [a, b]"
    by (simp_all add: last_user_def is_user_message_def pending_tail_def is_tool_call_def is_tool_output_def
        supported_item_def upt_rec)
qed

lemma window_sample_request:
  "\<exists>t. compact_request window_sample = Some (''m'', [], t)
    \<and> json_parse t = Some (JArr [JObj [(''type'', JStr ''function_call''), (''call_id'', JStr ''c'')],
        JObj [(''role'', JStr ''user''), (''content'', JStr ''go'')]])"
proof -
  have names: "fold_name ''model'' = ''model''" "fold_name ''input'' = ''input''" "fold_name ''instructions'' = ''instructions''"
    by (simp_all add: fold_name_ascii lower_char_def char_of_def bit_0 del: fold_name.simps)
  obtain ob where ob: "parse_object window_sample = Inr ob"
    "reads (o_fields ob) [(''model'', JStr ''m''),
     (''input'', JArr [JObj [(''type'', JStr ''function_call''), (''call_id'', JStr ''c'')],
        JObj [(''role'', JStr ''user''), (''content'', JStr ''go'')]])]"
    using parse_object_spec [of window_sample] json_parse_trim [OF window_sample_parse] by auto
  then obtain t1 t2 where f: "o_fields ob = [(''model'', t1), (''input'', t2)]" "json_parse t2 = Some (JArr
      [JObj [(''type'', JStr ''function_call''), (''call_id'', JStr ''c'')], JObj [(''role'', JStr ''user''), (''content'', JStr ''go'')]])"
    by (auto simp: reads_def list_all2_Cons2)
  then show ?thesis using ob(1)
    by (simp add: compact_request_def window_sample_parse struct_members_def str_field_def field_vals_def
        names decode_field_def store_string_def decode_ptr_def del: fold_name.simps)
qed

lemma prepare_keeps_witness:
  "\<exists>p. prepare window_sample = Inr p \<and> length (pl_tail p) = 2 \<and> set (window p ''s'') \<subseteq> insert (summary_item ''s'') (set (pl_tail p))"
proof -
  obtain t where t: "compact_request window_sample = Some (''m'', [], t)"
    "json_parse t = Some (JArr [JObj [(''type'', JStr ''function_call''), (''call_id'', JStr ''c'')],
        JObj [(''role'', JStr ''user''), (''content'', JStr ''go'')]])"
    using window_sample_request by blast
  obtain a b where items: "raw_items t = Some [a, b]"
    "json_parse a = Some (JObj [(''type'', JStr ''function_call''), (''call_id'', JStr ''c'')])"
    "json_parse b = Some (JObj [(''role'', JStr ''user''), (''content'', JStr ''go'')])"
    using raw_items_spec [of t] t(2) by (auto simp: list_all2_Cons2)
  have i: "input_items t = Inr [a, b]" using t(2) items(1) by (simp add: input_items_def unmarshal_string_def)
  have l: "lookup window_sample key = None" if "ascii key" "key \<noteq> ''model''" "key \<noteq> ''input''" for key
    using lookup_object [OF json_parse_trim [OF window_sample_parse] that(1)] that(2,3) by (simp add: jget_def)
  have "\<not> max_calls * chunk_bytes < length window_sample"
    by (simp add: max_calls_def chunk_bytes_def window_sample_def)
  moreover have "lookup window_sample ''context_management'' = None" "lookup window_sample ''compaction_trigger'' = None"
    by (rule l; simp add: ascii_def)+
  ultimately have "prepare window_sample = plan_loop 1 0 True False (take 0 [a, b])
      \<lparr>pl_model = ''m'', pl_instructions = [], pl_retained = [], pl_latest = [], pl_tail = drop 0 [a, b], pl_parts = []\<rparr>"
    unfolding prepare_def t(1) option.case prod.case i sum.case window_sample_items(1,2) [OF items(2,3)]
    using window_sample_items(3) [OF items(2,3)] by simp
  then obtain p where p: "prepare window_sample = Inr p" "pl_tail p = [a, b]" by simp
  obtain input' items' where "compact_request window_sample = Some (pl_model p, pl_instructions p, input')"
    "input_items input' = Inr items'" "set (window p ''s'') \<subseteq> insert (summary_item ''s'') (set items')"
    using prepare_keeps [OF p(1), of "''s''"] by blast
  moreover from this(1,2) have "items' = [a, b]" using t(1) i by simp
  ultimately show ?thesis using p by (intro exI [of _ p]) simp
qed

end
