(* ===== verification/Base64.thy ===== *)
theory Base64
  imports Json_Values
begin

text \<open>
  \<open>hex.EncodeToString\<close> and \<open>base64.RawURLEncoding\<close> of the Go library, as the code uses it for sealed states, API keys, administrator
  sessions and cursors: the encoder, the lenient and the strict decoder, and that they invert the encoder.
\<close>

section \<open>Encoding and decoding\<close>

definition b64_char :: "nat \<Rightarrow> char" where
  "b64_char n =
     (if n < 26 then char_of (65 + n) else if n < 52 then char_of (71 + n)
      else if n < 62 then char_of (n - 4) else if n = 62 then CHR ''-'' else CHR ''_'')"

definition b64_val :: "char \<Rightarrow> nat option" where
  "b64_val c =
     (let n = byte c in
      if 65 \<le> n \<and> n \<le> 90 then Some (n - 65) else if 97 \<le> n \<and> n \<le> 122 then Some (n - 71)
      else if 48 \<le> n \<and> n \<le> 57 then Some (n + 4) else if c = CHR ''-'' then Some 62
      else if c = CHR ''_'' then Some 63 else None)"

fun b64_encode :: "string \<Rightarrow> string" where
  "b64_encode [] = []"
| "b64_encode [a] = [b64_char (byte a div 4), b64_char (byte a mod 4 * 16)]"
| "b64_encode [a, b] =
     [b64_char (byte a div 4), b64_char (byte a mod 4 * 16 + byte b div 16), b64_char (byte b mod 16 * 4)]"
| "b64_encode (a # b # c # s) =
     b64_char (byte a div 4) # b64_char (byte a mod 4 * 16 + byte b div 16)
     # b64_char (byte b mod 16 * 4 + byte c div 64) # b64_char (byte c mod 64) # b64_encode s"

text \<open>The decoder skips line ends and does not look at the bits that are left over.\<close>

fun b64_quanta :: "nat list \<Rightarrow> string option" where
  "b64_quanta [] = Some []"
| "b64_quanta [x] = None"
| "b64_quanta [x, y] = Some [char_of (x * 4 + y div 16)]"
| "b64_quanta [x, y, z] = Some [char_of (x * 4 + y div 16), char_of (y mod 16 * 16 + z div 4)]"
| "b64_quanta (x # y # z # w # s) =
     map_option (\<lambda>t. char_of (x * 4 + y div 16) # char_of (y mod 16 * 16 + z div 4) # char_of (z mod 4 * 64 + w) # t)
       (b64_quanta s)"

definition b64_decode :: "string \<Rightarrow> string option" where
  "b64_decode s =
     (let vals = map b64_val (filter (\<lambda>c. c \<noteq> CHR 0x0A \<and> c \<noteq> CHR 0x0D) s) in
      if None \<in> set vals then None else b64_quanta (map the vals))"

text \<open>\<open>Strict\<close>: the bits that are left over must be zero; line ends are skipped all the same.\<close>

definition b64_strict :: "string \<Rightarrow> string option" where
  "b64_strict s =
     (case b64_decode s of
        None \<Rightarrow> None
      | Some t \<Rightarrow>
          (if filter (\<lambda>c. c \<noteq> CHR 0x0A \<and> c \<noteq> CHR 0x0D) s = b64_encode t then Some t else None))"

section \<open>Round trips\<close>

lemma byte_char_of: "n < 256 \<Longrightarrow> byte (char_of (n::nat)) = n"
  by simp

lemma b64_char_val:
  assumes "n < 64"
  shows "b64_val (b64_char n) = Some n" and "b64_char n \<noteq> CHR 0x0A" and "b64_char n \<noteq> CHR 0x0D"
proof -
  have dash: "b64_val (CHR ''-'') = Some 62" "b64_val (CHR ''_'') = Some 63" by code_simp+
  have ends: "b64_val (CHR 0x0A) = None" "b64_val (CHR 0x0D) = None" by code_simp+
  consider "n < 62" | "n = 62" | "n = 63" using assms by linarith
  then show v: "b64_val (b64_char n) = Some n"
    by cases (auto simp: b64_char_def dash, auto simp: b64_val_def Let_def)
  show "b64_char n \<noteq> CHR 0x0A" "b64_char n \<noteq> CHR 0x0D" using v ends by auto
qed

lemma byte_less: "byte c < 256"
  by (metis of_char_mod_256 mod_less_divisor zero_less_numeral)

lemma nat_bits: "(n::nat) < 256 \<Longrightarrow> n div 16 div 16 = 0 \<and> n div 16 mod 16 = n div 16 \<and> n div 64 div 4 = 0 \<and> n div 64 mod 4 = n div 64"
  by (auto simp: div_mult2_eq [symmetric])

lemma byte_bits: "byte c div 16 div 16 = 0" "byte c div 16 mod 16 = byte c div 16" "byte c div 64 div 4 = 0" "byte c div 64 mod 4 = byte c div 64"
  using nat_bits [OF byte_less [of c]] by blast+

lemma b64_encode_chars: "c \<in> set (b64_encode s) \<Longrightarrow> \<exists>n < 64. c = b64_char n"
proof (induction s rule: b64_encode.induct)
  case (2 a)
  have "byte a div 4 < 64" "byte a mod 4 * 16 < 64" using byte_less [of a] by linarith+
  then show ?case using 2 unfolding b64_encode.simps list.set by blast
next
  case (3 a b)
  have "byte a div 4 < 64" "byte a mod 4 * 16 + byte b div 16 < 64" "byte b mod 16 * 4 < 64"
    using byte_less [of a] byte_less [of b] by linarith+
  then show ?case using 3 unfolding b64_encode.simps list.set by blast
next
  case (4 a b c s)
  have "byte a div 4 < 64" "byte a mod 4 * 16 + byte b div 16 < 64" "byte b mod 16 * 4 + byte c div 64 < 64" "byte c mod 64 < 64"
    using byte_less [of a] byte_less [of b] byte_less [of c] by linarith+
  then show ?case using 4 unfolding b64_encode.simps list.set by blast
qed simp

lemma b64_quanta_encode: "b64_quanta (map (\<lambda>c. the (b64_val c)) (b64_encode s)) = Some s"
proof (induction s rule: b64_encode.induct)
  case (2 a)
  have "byte a div 4 < 64" "byte a mod 4 * 16 < 64" using byte_less [of a] by linarith+
  then show ?case by (simp add: b64_char_val)
next
  case (3 a b)
  have "byte a div 4 < 64" "byte a mod 4 * 16 + byte b div 16 < 64" "byte b mod 16 * 4 < 64"
    using byte_less [of a] byte_less [of b] by linarith+
  moreover have "(byte a mod 4 * 16 + byte b div 16) div 16 = byte a mod 4"
      "(byte a mod 4 * 16 + byte b div 16) mod 16 = byte b div 16"
    by (simp_all add: byte_bits)
  ultimately show ?case by (simp add: b64_char_val)
next
  case (4 a b c s)
  have "byte a div 4 < 64" "byte a mod 4 * 16 + byte b div 16 < 64" "byte b mod 16 * 4 + byte c div 64 < 64" "byte c mod 64 < 64"
    using byte_less [of a] byte_less [of b] byte_less [of c] by linarith+
  moreover have "(byte a mod 4 * 16 + byte b div 16) div 16 = byte a mod 4"
      "(byte a mod 4 * 16 + byte b div 16) mod 16 = byte b div 16"
      "(byte b mod 16 * 4 + byte c div 64) div 4 = byte b mod 16"
      "(byte b mod 16 * 4 + byte c div 64) mod 4 = byte c div 64"
    by (simp_all add: byte_bits)
  ultimately show ?case using 4 by (simp add: b64_char_val)
qed simp

lemma b64_roundtrip: "b64_decode (b64_encode s) = Some s"
proof -
  have "filter (\<lambda>c. c \<noteq> CHR 0x0A \<and> c \<noteq> CHR 0x0D) (b64_encode s) = b64_encode s"
    using b64_encode_chars [of _ s] b64_char_val by (fastforce simp: filter_id_conv)
  moreover have "None \<notin> set (map b64_val (b64_encode s))"
    using b64_encode_chars [of _ s] b64_char_val(1) by fastforce
  ultimately show ?thesis
    unfolding b64_decode_def Let_def using b64_quanta_encode [of s] by (simp add: comp_def)
qed

lemma b64_encode_lines: "filter (\<lambda>c. c \<noteq> CHR 0x0A \<and> c \<noteq> CHR 0x0D) (b64_encode s) = b64_encode s"
  using b64_encode_chars [of _ s] b64_char_val by (fastforce simp: filter_id_conv)

lemma b64_strict_roundtrip: "b64_strict (b64_encode s) = Some s"
  by (simp add: b64_strict_def b64_roundtrip b64_encode_lines)

lemma b64_encode_length: "length (b64_encode s) = (length s * 8 + 5) div 6"
  by (induction s rule: b64_encode.induct) auto

lemma b64_encode_bytes: "\<forall>c \<in> set (b64_encode s). byte c < 128"
proof -
  have "byte (b64_char n) < 128" if "n < 64" for n using that by (auto simp: b64_char_def)
  then show ?thesis using b64_encode_chars [of _ s] by fastforce
qed

section \<open>Hexadecimal digits\<close>

definition hex_text :: "string \<Rightarrow> string" where
  "hex_text s = concat (map (\<lambda>c. [hex_digit (byte c div 16), hex_digit (byte c mod 16)]) s)"

lemma hex_text_length: "length (hex_text s) = 2 * length s"
  by (induction s) (auto simp: hex_text_def)

lemma hex_text_bytes: "\<forall>c \<in> set (hex_text s). byte c < 128 \<and> hex_val c \<noteq> None"
proof -
  have "byte (hex_digit n) < 128 \<and> hex_val (hex_digit n) \<noteq> None" if "n < 16" for n
    using that hex_val_digit [OF that] by (simp add: hex_digit_def)
  moreover have "byte c div 16 < 16" for c using byte_less [of c] by (simp add: less_mult_imp_div_less)
  ultimately show ?thesis by (auto simp: hex_text_def)
qed

text \<open>ASCII is valid UTF-8.\<close>

lemma ascii_valid: "ascii s \<Longrightarrow> valid_utf8 s"
proof (induction s)
  case (Cons c s)
  then have "utf8_len (c # s) = Suc 0" by (simp add: utf8_len_def ascii_def)
  then show ?case using Cons by (simp add: valid_utf8.simps(2) ascii_def)
qed simp

end
