(* ===== verification/Compact_Run.thy ===== *)
theory Compact_Run
  imports Compact_Plan Base64
begin

text \<open>
  \<open>internal/adapter/copilotcompact/run.go\<close>: the transcript is cut into chunks, each chunk is summarised together
  with the summary so far, and a chunk that the provider has no room for is cut in two. The provider is a
  function of the number of the call; the context of the call is cancelled when two functions say so.
\<close>

section \<open>Valid UTF-8\<close>

lemma utf8_len_append: "utf8_len (c # s) = Suc n \<Longrightarrow> utf8_len (c # s @ r) = Suc n"
  using utf8_len_take [of c s n "drop n s @ r"] append_take_drop_id [of n s]
  by (metis append.assoc append_Cons)

lemma valid_utf8_append: "valid_utf8 a \<Longrightarrow> valid_utf8 b \<Longrightarrow> valid_utf8 (a @ b)"
proof (induction a rule: valid_utf8.induct)
  case (2 c s)
  from "2.prems" obtain n where n: "utf8_len (c # s) = Suc n" and v: "valid_utf8 (drop n s)"
    by (cases "utf8_len (c # s)") (auto simp: valid_utf8.simps(2))
  have "n \<le> length s" using utf8_len_rest [OF n] by simp
  then show ?case using "2.IH" "2.prems"(2) v n utf8_len_append [OF n, of b] by (simp add: valid_utf8.simps(2))
qed simp

lemma valid_utf8_rune: "utf8_len s = length s \<Longrightarrow> s \<noteq> [] \<Longrightarrow> valid_utf8 s"
  by (cases s) (simp_all add: valid_utf8.simps(2))

lemma utf8_encode_valid:
  assumes "r < 55296 \<or> 57344 \<le> r" and "r < 1114112"
  shows "valid_utf8 (utf8_encode r)"
proof -
  have "utf8_len (utf8_encode r) = length (utf8_encode r)"
  proof -
    consider "r < 128" | "128 \<le> r" "r < 2048" | "2048 \<le> r" "r < 65536" | "65536 \<le> r" by linarith
    then show ?thesis
    proof cases
      case 1
      then show ?thesis by (simp add: utf8_encode_def utf8_len_def)
    next
      case 2
      then have "2 \<le> r div 64" "r div 64 < 32" "r mod 64 < 64" by auto
      then show ?thesis using 2 by (simp add: utf8_encode_def utf8_len_def cont_def)
    next
      case 3
      have b: "r div 4096 < 16" "r div 64 mod 64 < 64" "r mod 64 < 64" using 3 by auto
      have "32 \<le> r div 64 mod 64" if "r div 4096 = 0"
        using that 3 by (simp add: div_mult2_eq [of r 64 64, symmetric])
      moreover have "r div 64 mod 64 < 32" if "r div 4096 = 13"
      proof -
        have "r div 64 div 64 = 13" using that by (simp add: div_mult2_eq [symmetric])
        then have "r div 64 = 832 + r div 64 mod 64" using div_mult_mod_eq [of "r div 64" 64] by simp
        moreover have "r < 55296"
        proof (rule ccontr)
          assume "\<not> r < 55296"
          then have "57344 \<le> r" using assms by simp
          then have "14 \<le> r div 4096" by simp
          then show False using that by simp
        qed
        then have "r div 64 < 864" by simp
        ultimately show ?thesis by simp
      qed
      ultimately show ?thesis using 3 b by (auto simp add: utf8_encode_def utf8_len_def cont_def)
    next
      case 4
      have b: "r div 262144 < 5" "r div 4096 mod 64 < 64" "r div 64 mod 64 < 64" "r mod 64 < 64" using assms(2) by auto
      have e: "r div 4096 = 64 * (r div 262144) + r div 4096 mod 64"
        using div_mult_mod_eq [of "r div 4096" 64] by (simp add: div_mult2_eq [symmetric])
      have "16 \<le> r div 4096" "r div 4096 < 272" using 4 assms(2) by auto
      then have "16 \<le> r div 4096 mod 64" if "r div 262144 = 0" using e that by simp
      moreover have "r div 4096 mod 64 < 16" if "r div 262144 = 4" using e that \<open>r div 4096 < 272\<close> by simp
      ultimately show ?thesis using 4 b by (auto simp add: utf8_encode_def utf8_len_def cont_def)
    qed
  qed
  then show ?thesis by (intro valid_utf8_rune) (auto simp: utf8_encode_def split: if_splits)
qed

lemma replacement_valid: "valid_utf8 replacement"
  by (rule valid_utf8_rune) (simp_all add: replacement_def utf8_len_def cont_def)

lemma hex_val_less: "hex_val c = Some n \<Longrightarrow> n < 16"
  by (auto simp: hex_val_def is_digit_def split: if_splits)

lemma hex4_less: "hex4 s = Some (r, t) \<Longrightarrow> r < 65536"
  by (induction s rule: hex4.induct) (auto split: option.splits dest!: hex_val_less)

lemma unicode_escape_valid:
  assumes "unicode_escape s = Some (x, t)"
  shows "valid_utf8 x"
proof -
  obtain r u where r: "hex4 s = Some (r, u)" using assms by (auto simp: unicode_escape_def split: option.splits)
  have r16: "r < 65536" by (rule hex4_less [OF r])
  have s16: "56320 \<le> q \<and> q < 57344" if "second_half u = Some (q, w)" for q w
    using that by (auto simp: second_half_def split: list.splits option.splits if_splits)
  show ?thesis using assms r r16
    by (auto simp: unicode_escape_def replacement_valid split: if_splits option.splits
        intro!: utf8_encode_valid dest!: s16)
qed

lemma escape_char_valid: "escape_char e = Some d \<Longrightarrow> valid_utf8 [d]"
  by (rule valid_utf8_rune) (auto simp: escape_char_def utf8_len_def quote_def backslash_def split: if_splits)

lemma rune_valid:
  assumes "utf8_len (c # s) \<noteq> 0"
  shows "valid_utf8 (take (utf8_len (c # s)) (c # s))"
proof -
  obtain n where n: "utf8_len (c # s) = Suc n" using assms by (cases "utf8_len (c # s)") auto
  then have "utf8_len (c # take n s) = Suc n" using utf8_len_take [OF n, of "[]"] by simp
  moreover have "n \<le> length s" using utf8_len_rest [OF n] by simp
  ultimately show ?thesis using n by (intro valid_utf8_rune) simp_all
qed

lemma string_body_valid: "string_body s = Some (k, u) \<Longrightarrow> valid_utf8 k"
proof (induction s arbitrary: k u rule: length_induct)
  case (1 s)
  show ?case
  proof (cases s)
    case Nil
    then show ?thesis using 1 by simp
  next
    case (Cons c t)
    have ih: "valid_utf8 (x @ k')" if "valid_utf8 x" "string_body r = Some (k', u')" "length r \<le> length t" for x r k' u'
      by (rule valid_utf8_append [OF that(1)]) (use that(2,3) 1(1) Cons in \<open>auto simp: less_Suc_eq_le\<close>)
    have one: "valid_utf8 (d # k')" if "escape_char e = Some d" "string_body r = Some (k', u')" "length r \<le> length t" for d e r k' u'
      using ih [OF escape_char_valid [OF that(1)] that(2,3)] by simp
    note prem = 1(2) [unfolded Cons string_body.simps]
    show ?thesis
    proof (cases "c = backslash \<and> c \<noteq> quote")
      case True
      then obtain e t' where t: "t = e # t'" using prem by (auto split: list.splits)
      show ?thesis
      proof (cases "e = CHR ''u''")
        case u: True
        obtain x r k' where "unicode_escape t' = Some (x, r)" "string_body r = Some (k', u)" "k = x @ k'"
          using prem True t u by (auto simp: push_Some split: option.splits prod.splits)
        then show ?thesis using ih [OF unicode_escape_valid] unicode_escape_length t by fastforce
      next
        case False
        then show ?thesis using prem True t one by (auto simp: push_Some split: option.splits)
      qed
    next
      case False
      then show ?thesis using prem ih [OF replacement_valid, of t] ih [OF rune_valid, of c t "drop (utf8_len (c # t) - 1) t"]
        by (auto simp: push_Some split: if_splits)
    qed
  qed
qed

lemma item_string_valid: "valid_utf8 (item_string item key)"
proof -
  have "valid_utf8 s" if j: "json_parse t = Some (JStr s)" for t s
  proof -
    obtain rest where "parse_value (json_fuel t) max_nesting t = Some (JStr s, rest)"
      using j by (auto simp: json_parse_def split: option.splits if_splits prod.splits)
    then show ?thesis
      by (cases t rule: value_shape)
         (auto simp: json_fuel_def parse_value_empty parse_value_object parse_value_array parse_value_scalar
           parse_scalar_def string_body_valid split: if_splits option.splits prod.splits)
  qed
  then show ?thesis by (auto simp: item_string_def split: option.splits json.splits)
qed

lemma text_part_eq:
  "text_part t = object_text [(''text'', marshal_string t), (''type'', marshal_string ''input_text'')]"
  by (simp add: text_part_def marshal_string_map_def)

lemma text_part_strings:
  assumes "valid_utf8 t"
  shows "item_string (text_part t) ''text'' = t" and "kind_of (text_part t) = ''input_text''"
proof -
  have v: "valid_utf8 ''text''" "valid_utf8 ''type''" "valid_utf8 ''input_text''"
    by (rule ascii_valid; simp add: ascii_def)+
  let ?es = "[(''text'', marshal_string t), (''type'', marshal_string ''input_text'')]"
  have n: "nests ?es" using v assms by (simp add: nests_def nest_parse_string)
  have vals: "nest_values ?es = [(''text'', JStr t), (''type'', JStr ''input_text'')]"
    using v assms by (simp add: nest_values_def nest_parse_string)
  show "item_string (text_part t) ''text'' = t" "kind_of (text_part t) = ''input_text''"
    unfolding text_part_eq by (subst item_string_text [OF n]; simp add: ascii_def vals jget_def)+
qed

section \<open>Cutting parts\<close>

text \<open>The last start of a rune at or before an index. A string that was decoded begins with one, so that the
  loop of the code stops there at the latest.\<close>

fun rune_floor :: "string \<Rightarrow> nat \<Rightarrow> nat" where
  "rune_floor text 0 = 0"
| "rune_floor text (Suc m) = (if cont (text ! Suc m) then rune_floor text m else Suc m)"

definition split_parts :: "string list \<Rightarrow> (string list \<times> string list) option" where
  "split_parts parts =
     (if 1 < length parts then Some (take (length parts div 2) parts, drop (length parts div 2) parts)
      else
        (case parts of
           [part] \<Rightarrow>
             (if kind_of part \<noteq> ''input_text'' then None
              else
                let text = item_string part ''text''; middle = rune_floor text (length text div 2)
                in if length text < 2048 then None
                   else Some ([text_part (take middle text)], [text_part (drop middle text)]))
         | _ \<Rightarrow> None))"

lemma rune_floor_le: "rune_floor text m \<le> m"
  by (induction m) auto

lemma valid_utf8_cont:
  assumes "utf8_len (c # s) = Suc n" and "i < n"
  shows "cont (s ! i)"
proof (cases s)
  case Nil
  then show ?thesis using assms by (auto simp: utf8_len_def split: if_splits)
next
  case (Cons b s2)
  show ?thesis
  proof (cases s2)
    case Nil
    then show ?thesis using assms Cons by (auto simp: utf8_len_def split: if_splits)
  next
    case c2: (Cons d s3)
    then show ?thesis using assms Cons
      by (auto simp: utf8_len_def nth_Cons numeral_3_eq_3 numeral_2_eq_2 less_Suc_eq
          split: if_splits list.splits nat.splits)
  qed
qed

text \<open>A valid text can be cut before a start of a rune.\<close>

lemma valid_utf8_cut:
  "valid_utf8 t \<Longrightarrow> m \<le> length t \<Longrightarrow> m = length t \<or> \<not> cont (t ! m) \<Longrightarrow> valid_utf8 (take m t) \<and> valid_utf8 (drop m t)"
proof (induction t arbitrary: m rule: valid_utf8.induct)
  case (2 c s)
  from "2.prems" obtain n where n: "utf8_len (c # s) = Suc n" and v: "valid_utf8 (drop n s)"
    by (cases "utf8_len (c # s)") (auto simp: valid_utf8.simps(2))
  have nl: "n \<le> length s" using utf8_len_rest [OF n] by simp
  show ?case
  proof (cases m)
    case 0
    then show ?thesis using "2.prems" by simp
  next
    case (Suc k)
    have "n \<le> k"
    proof (rule ccontr)
      assume "\<not> n \<le> k"
      then have "cont (s ! k)" "k < length s" using valid_utf8_cont [OF n, of k] nl by auto
      then show False using "2.prems"(3) Suc by simp
    qed
    then have ih: "valid_utf8 (take (k - n) (drop n s)) \<and> valid_utf8 (drop (k - n) (drop n s))"
      using "2.IH" [of "k - n"] n v "2.prems"(2,3) Suc by (auto simp: nl)
    have "take k s = take n s @ take (k - n) (drop n s)" using \<open>n \<le> k\<close> by (metis take_add le_add_diff_inverse)
    then have "take m (c # s) = (c # take n s) @ take (k - n) (drop n s)" by (simp add: Suc)
    moreover have "valid_utf8 (c # take n s)" using rune_valid [of c s] n by simp
    ultimately have "valid_utf8 (take m (c # s))" using ih valid_utf8_append by metis
    then show ?thesis using ih \<open>n \<le> k\<close> by (simp add: Suc)
  qed
qed simp

lemma rune_floor_start:
  assumes "valid_utf8 tx" and "m < length tx"
  shows "\<not> cont (tx ! rune_floor tx m)"
  using assms(2)
proof (induction m)
  case 0
  then obtain c s where t: "tx = c # s" by (cases tx) auto
  then have "utf8_len (c # s) \<noteq> 0" using assms(1) by (simp add: valid_utf8.simps(2))
  then have "byte c < 128 \<or> 194 \<le> byte c" by (auto simp: utf8_len_def split: if_splits list.splits)
  then show ?case by (auto simp: t cont_def)
qed simp

lemma rune_floor_near:
  assumes "valid_utf8 tx" and "m < length tx"
  shows "m \<le> rune_floor tx m + 3"
proof -
  let ?k = "rune_floor tx m"
  have all: "\<forall>i. ?k < i \<and> i \<le> m \<longrightarrow> cont (tx ! i)"
    using assms(2) by (induction m) (auto simp: le_Suc_eq)
  have v: "valid_utf8 (drop ?k tx)"
    using valid_utf8_cut [OF assms(1), of ?k] rune_floor_start [OF assms] rune_floor_le [of tx m] assms(2) by simp
  have k: "?k < length tx" using rune_floor_le [of tx m] assms(2) by simp
  then obtain c s where d: "drop ?k tx = c # s" by (cases "drop ?k tx") auto
  obtain n where n: "utf8_len (c # s) = Suc n" using v by (cases "utf8_len (c # s)") (auto simp: d valid_utf8.simps(2))
  have n3: "n \<le> 3" using utf8_len_le [of "c # s"] n by simp
  have nl: "n \<le> length s" using utf8_len_rest [OF n] by simp
  show ?thesis
  proof (rule ccontr)
    assume "\<not> ?thesis"
    then have far: "?k + Suc n \<le> m" using n3 by simp
    have vn: "valid_utf8 (drop n s)" using v n by (simp add: d valid_utf8.simps(2))
    have nth: "tx ! (?k + Suc n) = s ! n" using d k by (metis add_leD1 drop_eq_nths linorder_not_less nth_Cons_Suc nth_drop order_less_imp_le)
    have "n < length s"
    proof -
      have "length (c # s) = length tx - ?k" by (metis d length_drop)
      then show ?thesis using far assms(2) by simp
    qed
    then obtain c' s' where ds: "drop n s = c' # s'" "s ! n = c'" by (metis Cons_nth_drop_Suc)
    then have "utf8_len (c' # s') \<noteq> 0" using vn by (simp add: valid_utf8.simps(2))
    then have "byte c' < 128 \<or> 194 \<le> byte c'" by (auto simp: utf8_len_def split: if_splits list.splits)
    then have "\<not> cont (tx ! (?k + Suc n))" using nth ds(2) by (auto simp: cont_def)
    then show False using all far by simp
  qed
qed

text \<open>What parts say: the characters of their texts, and their images.\<close>

datatype piece = Letter char | Image string

definition content_part :: "string \<Rightarrow> piece list" where
  "content_part part = (if kind_of part = ''input_image'' then [Image part] else map Letter (item_string part ''text''))"

definition content :: "string list \<Rightarrow> piece list" where
  "content parts = concat (map content_part parts)"

lemma content_append [simp]: "content (xs @ ys) = content xs @ content ys"
  by (simp add: content_def)

lemma content_simps [simp]: "content [] = []" "content (p # ps) = content_part p @ content ps"
  by (simp_all add: content_def)

definition weight :: "string \<Rightarrow> nat" where
  "weight part = 2 * length (item_string part ''text'') - 1"

lemma split_one:
  assumes "split_parts [part] = Some (left, right)"
  shows "\<exists>a b. left = [text_part a] \<and> right = [text_part b] \<and> kind_of part = ''input_text''
    \<and> item_string part ''text'' = a @ b \<and> a \<noteq> [] \<and> b \<noteq> [] \<and> valid_utf8 a \<and> valid_utf8 b"
proof -
  define body where "body = item_string part ''text''"
  define m where "m = rune_floor body (length body div 2)"
  have s: "kind_of part = ''input_text''" "2048 \<le> length body" "left = [text_part (take m body)]" "right = [text_part (drop m body)]"
    using assms by (auto simp: split_parts_def Let_def body_def m_def split: if_splits)
  have v: "valid_utf8 body" by (simp add: body_def item_string_valid)
  have h: "length body div 2 < length body" using s(2) by simp
  have near: "length body div 2 \<le> m + 3" unfolding m_def by (rule rune_floor_near [OF v h])
  then have m: "0 < m" "m < length body"
    using s(2) rune_floor_le [of body "length body div 2"] h by (auto simp: m_def)
  have "valid_utf8 (take m body) \<and> valid_utf8 (drop m body)"
    by (rule valid_utf8_cut [OF v]) (use m rune_floor_start [OF v h] in \<open>simp_all add: m_def\<close>)
  then show ?thesis using s m unfolding body_def [symmetric]
    by (intro exI [of _ "take m body"] exI [of _ "drop m body"]) auto
qed

lemma split_one_weight:
  assumes "split_parts [part] = Some (left, right)"
  shows "sum_list (map weight (left @ right)) < weight part"
proof -
  obtain a b where s: "left = [text_part a]" "right = [text_part b]" "item_string part ''text'' = a @ b"
    "a \<noteq> []" "b \<noteq> []" "valid_utf8 a" "valid_utf8 b"
    using split_one [OF assms] by blast
  then have pos: "0 < length a" "0 < length b" by auto
  have "weight part = 2 * length a + 2 * length b - 1" "sum_list (map weight (left @ right)) = (2 * length a - 1) + (2 * length b - 1)"
    using s by (simp_all add: weight_def text_part_strings)
  then show ?thesis using pos by linarith
qed

lemma split_content:
  assumes "split_parts parts = Some (left, right)"
  shows "content (left @ right) = content parts"
proof (cases "1 < length parts")
  case True
  then show ?thesis using assms by (auto simp: split_parts_def simp flip: content_append)
next
  case False
  then obtain part where p: "parts = [part]"
    using assms by (cases parts) (auto simp: split_parts_def split: if_splits list.splits)
  obtain a b where "left = [text_part a]" "right = [text_part b]" "item_string part ''text'' = a @ b"
    "kind_of part = ''input_text''" "valid_utf8 a" "valid_utf8 b"
    using split_one assms p by blast
  then show ?thesis using p by (simp add: content_part_def text_part_strings)
qed

section \<open>Chunks\<close>

function (sequential) chunk_loop ::
  "string list \<Rightarrow> string list list \<Rightarrow> string list \<Rightarrow> nat \<Rightarrow> compact_error + string list list" where
  "chunk_loop [] done_chunks current used = Inr (if current \<noteq> [] then done_chunks @ [current] else done_chunks)"
| "chunk_loop (part # queue) done_chunks current used =
     (if kind_of part = ''input_image'' then
        (if max_image_bytes < length part then Inl Unsupported
         else
           let chunks = (if current \<noteq> [] then done_chunks @ [current] else done_chunks) @ [[part]]
           in if max_calls < length chunks then Inl Unsupported
              else chunk_loop queue chunks [] (if current \<noteq> [] then 0 else used))
      else if chunk_bytes < length part then
        (case split_parts [part] of
           None \<Rightarrow> Inl Unsupported
         | Some (left, right) \<Rightarrow> chunk_loop (left @ right @ queue) done_chunks current used)
      else
        (let full = (current \<noteq> [] \<and> chunk_bytes < used + length part);
             chunks = (if full then done_chunks @ [current] else done_chunks);
             current' = (if full then [] else current) @ [part];
             used' = (if full then 0 else used) + length part
         in if max_calls \<le> length chunks then Inl Unsupported
            else chunk_loop queue chunks current' used'))"
  by pat_completeness auto
termination
proof (relation "measures [\<lambda>(queue, c, cur, n). sum_list (map weight queue), \<lambda>(queue, c, cur, n). length queue]", goal_cases)
  case 3
  then show ?case using split_one_weight by fastforce
qed auto

declare chunk_loop.simps(2) [simp del]

definition chunks_of :: "string list \<Rightarrow> compact_error + string list list" where
  "chunks_of parts = chunk_loop parts [] [] 0"

text \<open>A chunk is one image, or texts of at most 128 KiB.\<close>

definition chunk_ok :: "string list \<Rightarrow> bool" where
  "chunk_ok chunk \<longleftrightarrow>
     (\<exists>image. chunk = [image] \<and> kind_of image = ''input_image'' \<and> length image \<le> max_image_bytes)
   \<or> chunk \<noteq> [] \<and> (\<forall>part \<in> set chunk. kind_of part \<noteq> ''input_image'') \<and> sum_list (map length chunk) \<le> chunk_bytes"

lemma chunk_loop_spec:
  assumes "chunk_loop queue done_chunks current used = Inr chunks"
    and "\<forall>chunk \<in> set done_chunks. chunk_ok chunk" and "current \<noteq> [] \<longrightarrow> chunk_ok current \<and> (\<forall>part \<in> set current. kind_of part \<noteq> ''input_image'')"
    and "current \<noteq> [] \<longrightarrow> used = sum_list (map length current)"
    and "length done_chunks \<le> max_calls" and "current \<noteq> [] \<longrightarrow> length done_chunks < max_calls" and "current = [] \<longrightarrow> used = 0"
  shows "concat (map content chunks) = concat (map content done_chunks) @ content current @ content queue
    \<and> (\<forall>chunk \<in> set chunks. chunk_ok chunk) \<and> length chunks \<le> max_calls"
  using assms
proof (induction queue done_chunks current used rule: chunk_loop.induct)
  case (1 done_chunks current used)
  then show ?case by (auto split: if_splits)
next
  case (2 part queue done_chunks current used)
  note unfold = chunk_loop.simps(2) [of part queue done_chunks current used]
  show ?case
  proof (cases "kind_of part = ''input_image''")
    case True
    then show ?thesis using "2.prems" "2.IH"(1) [OF True _ refl]
      by (auto simp: unfold Let_def chunk_ok_def split: if_splits)
  next
    case nt: False
    show ?thesis
    proof (cases "chunk_bytes < length part")
      case True
      then obtain left right where s: "split_parts [part] = Some (left, right)"
        and l: "chunk_loop (left @ right @ queue) done_chunks current used = Inr chunks"
        using "2.prems"(1) nt by (auto simp: unfold split: option.splits)
      have "content (left @ right) = content_part part" using split_content [OF s] by simp
      then show ?thesis using "2.IH"(2) [OF nt True s refl l "2.prems"(2-7)] by simp
    next
      case small: False
      show ?thesis
      proof (cases "current \<noteq> [] \<and> chunk_bytes < used + length part")
        case True
        then have step: "chunk_loop queue (done_chunks @ [current]) [part] (length part) = Inr chunks"
          and room: "\<not> max_calls \<le> Suc (length done_chunks)"
          using "2.prems"(1) nt small by (auto simp: unfold Let_def split: if_splits)
        note ih = "2.IH"(3) [OF nt small refl refl refl refl, unfolded if_P [OF True]]
        have ok: "chunk_ok [part]" using nt small by (simp add: chunk_ok_def)
        have oks: "\<forall>chunk \<in> set (done_chunks @ [current]). chunk_ok chunk" using "2.prems"(2,3) True by auto
        have "concat (map content chunks) = concat (map content (done_chunks @ [current])) @ content ([] @ [part]) @ content queue
            \<and> (\<forall>chunk \<in> set chunks. chunk_ok chunk) \<and> length chunks \<le> max_calls"
          by (rule ih) (use step room ok oks nt in \<open>simp_all add: not_le\<close>)
        then show ?thesis by simp
      next
        case False
        then have step: "chunk_loop queue done_chunks (current @ [part]) (used + length part) = Inr chunks"
          and room: "\<not> max_calls \<le> length done_chunks"
          using "2.prems"(1) nt small by (auto simp: unfold Let_def split: if_splits)
        note ih = "2.IH"(3) [OF nt small refl refl refl refl, unfolded if_not_P [OF False]]
        have sums: "used + length part = sum_list (map length (current @ [part]))"
          using "2.prems"(4,7) by (cases "current = []") simp_all
        have "used + length part \<le> chunk_bytes" using False small "2.prems"(7) by (cases "current = []") simp_all
        moreover have "\<forall>part \<in> set (current @ [part]). kind_of part \<noteq> ''input_image''"
          using "2.prems"(3) nt by (cases "current = []") simp_all
        ultimately have ok: "chunk_ok (current @ [part])" unfolding sums chunk_ok_def by simp
        have "concat (map content chunks) = concat (map content done_chunks) @ content (current @ [part]) @ content queue
            \<and> (\<forall>chunk \<in> set chunks. chunk_ok chunk) \<and> length chunks \<le> max_calls"
          by (rule ih) (use step room ok sums nt "2.prems"(2,3,5) in \<open>cases "current = []"; simp add: not_le\<close>)+
        then show ?thesis by simp
      qed
    qed
  qed
qed

end
