(* ===== verification/Compact_State.thy ===== *)
theory Compact_State
  imports Compact_Plan Base64
begin

text \<open>
  \<open>internal/adapter/copilotcompact/state.go\<close> and \<open>inband.go\<close>: the window that replaces a conversation is
  sealed into an opaque item, which a later request carries and which is opened again there. The cipher of the
  scope and SHA-256 are parameters; JSON, base64 and the fingerprints are the code's.
\<close>

section \<open>Fingerprints\<close>

text \<open>The identity of an item without its id and status, and with the type that a message may leave out.\<close>

definition fingerprint_text :: "string \<Rightarrow> string" where
  "fingerprint_text item =
     (case json_parse item of
        Some (JObj ms) \<Rightarrow>
          (let value = AList.delete ''status'' (AList.delete ''id'' (last_wins ms));
               nil = (\<lambda>key. map_of value key \<in> {None, Some JNull});
               value' = (if nil ''type'' \<and> \<not> nil ''role'' then AList.update ''type'' (JStr ''message'') value else value)
           in marshal_any (JObj value'))
      | _ \<Rightarrow> ''null'')"

definition fingerprint :: "(string \<Rightarrow> string) \<Rightarrow> string \<Rightarrow> string" where
  "fingerprint sha256 item = b64_encode (sha256 (fingerprint_text item))"

fun remove_loop :: "(string \<Rightarrow> string) \<Rightarrow> (string \<Rightarrow> nat) \<Rightarrow> string list \<Rightarrow> string list" where
  "remove_loop sha256 counts [] = []"
| "remove_loop sha256 counts (item # items) =
     (let hash = fingerprint sha256 item in
      if 0 < counts hash then remove_loop sha256 (counts(hash := counts hash - 1)) items
      else item # remove_loop sha256 counts items)"

definition remove_covered :: "(string \<Rightarrow> string) \<Rightarrow> string list \<Rightarrow> string list \<Rightarrow> string list" where
  "remove_covered sha256 before covered = remove_loop sha256 (\<lambda>hash. count_list covered hash) before"

section \<open>The sealed window\<close>

definition max_state_bytes :: nat where "max_state_bytes = 1048576"

definition state_prefix :: string where "state_prefix = ''subpool-copilot-v1.''"
definition id_prefix :: string where "id_prefix = ''cmp_subpool_''"

record saved_window =
  sw_window :: "string list"
  sw_covered :: "string list"

text \<open>A slice that nothing was appended to is \<open>nil\<close> and is written as \<open>null\<close>.\<close>

definition nil_or :: "(string list \<Rightarrow> string) \<Rightarrow> string list \<Rightarrow> string" where
  "nil_or f ts = (if ts = [] then ''null'' else f ts)"

definition string_list_text :: "string list \<Rightarrow> string" where
  "string_list_text ts = CHR ''['' # join_comma (map marshal_string ts) @ '']''"

definition saved_text :: "string list \<Rightarrow> string list \<Rightarrow> string" where
  "saved_text win covered =
     object_text [(''window'', nil_or marshal_raw_list win), (''covered'', nil_or string_list_text covered)]"

definition encode_window :: "string list \<Rightarrow> string list \<Rightarrow> compact_error + string" where
  "encode_window win covered =
     (if max_state_bytes < length (saved_text win covered) then Inl Unsupported else Inr (saved_text win covered))"

definition validate_state_size :: "plan \<Rightarrow> string list \<Rightarrow> compact_error + string" where
  "validate_state_size p covered =
     encode_window (window p (if pl_parts p \<noteq> [] then replicate max_summary_bytes (CHR 0x00) else [])) covered"

text \<open>A \<open>State\<close>: the two functions of its cipher, on the text and the associated data, and its scope. \<open>None\<close>
  stands for no state and for a state without a cipher.\<close>

record scoped_state =
  ss_seal :: "string \<Rightarrow> string \<Rightarrow> string option"
  ss_open :: "string \<Rightarrow> string \<Rightarrow> string option"
  ss_scope :: string

definition state_usable :: "scoped_state option \<Rightarrow> bool" where
  "state_usable state \<longleftrightarrow> (case state of None \<Rightarrow> False | Some st \<Rightarrow> ss_scope st \<noteq> [])"

definition aad :: "scoped_state \<Rightarrow> string \<Rightarrow> string" where
  "aad st item_id = string_list_text [''subpool/compaction/copilot/v1'', ss_scope st, item_id]"

text \<open>\<open>json.Unmarshal\<close> into \<open>map[string]string\<close>: \<open>null\<close> is the empty string.\<close>

definition string_or_null :: "json \<Rightarrow> string option" where
  "string_or_null v = (case v of JStr s \<Rightarrow> Some s | JNull \<Rightarrow> Some [] | _ \<Rightarrow> None)"

definition string_map :: "(string \<times> json) list \<Rightarrow> (string \<times> string) list option" where
  "string_map ms =
     (if list_ex (\<lambda>m. string_or_null (snd m) = None) ms then None
      else Some (last_wins (map (\<lambda>m. (fst m, the (string_or_null (snd m)))) ms)))"

definition seal_item :: "scoped_state option \<Rightarrow> string list \<Rightarrow> string list \<Rightarrow> string \<Rightarrow> compact_error + string" where
  "seal_item state win covered item =
     (case state of
        None \<Rightarrow> Inl InvalidState
      | Some st \<Rightarrow>
          (if ss_scope st = [] then Inl InvalidState
           else
             (case encode_window win covered of
                Inl e \<Rightarrow> Inl e
              | Inr raw \<Rightarrow>
                  (case ss_seal st raw (aad st (item_string item ''id'')) of
                     None \<Rightarrow> Inl SealFailed
                   | Some encrypted \<Rightarrow>
                       (case json_parse item of
                          Some JNull \<Rightarrow> Inl Panicked
                        | Some (JObj ms) \<Rightarrow>
                            (case string_map ms of
                               None \<Rightarrow> Inl InvalidState
                             | Some value \<Rightarrow>
                                 Inr (marshal_string_map
                                   (AList.update ''encrypted_content'' (state_prefix @ b64_encode encrypted) value)))
                        | _ \<Rightarrow> Inl InvalidState)))))"

text \<open>\<open>newItem\<close>, with the 16 random bytes.\<close>

definition new_item :: "string \<Rightarrow> string \<Rightarrow> string" where
  "new_item random trigger =
     marshal_string_map
       ([(''type'', ''compaction''), (''id'', id_prefix @ hex_text random), (''encrypted_content'', [])]
        @ (if trigger \<noteq> [] then [(''created_by'', trigger)] else []))"

definition seal :: "scoped_state option \<Rightarrow> string list \<Rightarrow> string list \<Rightarrow> string \<Rightarrow> string \<Rightarrow> compact_error + string" where
  "seal state win covered trigger random = seal_item state win covered (new_item random trigger)"


section \<open>Opening\<close>

text \<open>The texts of the members of a struct field, by the rule of \<open>encoding/json\<close> for names. When a member is
  repeated, which sealing never does, each must decode and the last one counts.\<close>

definition field_texts :: "string \<Rightarrow> string \<Rightarrow> string list" where
  "field_texts key raw =
     (case parse_object raw of
        Inl _ \<Rightarrow> []
      | Inr ob \<Rightarrow> map snd (filter (\<lambda>f. fold_name (fst f) = fold_name key) (o_fields ob)))"

definition last_decoded :: "(string \<Rightarrow> 'a list option) \<Rightarrow> string list \<Rightarrow> 'a list option" where
  "last_decoded f ts = (if list_ex (\<lambda>t. f t = None) ts then None else if ts = [] then Some [] else f (last ts))"

definition string_items :: "string \<Rightarrow> string list option" where
  "string_items t =
     (case json_parse t of
        Some JNull \<Rightarrow> Some []
      | Some (JArr xs) \<Rightarrow>
          (if list_ex (\<lambda>x. string_or_null x = None) xs then None else Some (map (\<lambda>x. the (string_or_null x)) xs))
      | _ \<Rightarrow> None)"

definition decode_saved :: "string \<Rightarrow> saved_window option" where
  "decode_saved raw =
     (case json_parse raw of
        Some JNull \<Rightarrow> Some \<lparr>sw_window = [], sw_covered = []\<rparr>
      | Some (JObj _) \<Rightarrow>
          (case (last_decoded raw_items (field_texts ''window'' raw), last_decoded string_items (field_texts ''covered'' raw)) of
             (Some win, Some covered) \<Rightarrow> Some \<lparr>sw_window = win, sw_covered = covered\<rparr>
           | _ \<Rightarrow> None)
      | _ \<Rightarrow> None)"

definition max_token :: nat where
  "max_token = ((max_state_bytes + 64) * 8 + 5) div 6 + length state_prefix"

definition open_item :: "scoped_state option \<Rightarrow> string \<Rightarrow> compact_error + saved_window" where
  "open_item state item =
     (let item_id = item_string item ''id''; token = item_string item ''encrypted_content'' in
      case state of
        None \<Rightarrow> Inl InvalidState
      | Some st \<Rightarrow>
          (if ss_scope st = [] \<or> 256 < length item_id \<or> \<not> has_prefix id_prefix item_id
             \<or> \<not> has_prefix state_prefix token \<or> max_token < length token then Inl InvalidState
           else
             (case b64_decode (drop (length state_prefix) token) of
                None \<Rightarrow> Inl InvalidState
              | Some encrypted \<Rightarrow>
                  (case ss_open st encrypted (aad st item_id) of
                     None \<Rightarrow> Inl InvalidState
                   | Some raw \<Rightarrow>
                       (if max_state_bytes < length raw then Inl InvalidState
                        else
                          (case decode_saved raw of
                             None \<Rightarrow> Inl InvalidState
                           | Some saved \<Rightarrow>
                               (if sw_window saved = [] \<or> \<not> list_all supported_item (sw_window saved)
                                then Inl InvalidState else Inr saved)))))))"

section \<open>Requests that carry a state\<close>

definition is_compaction :: "string \<Rightarrow> bool" where
  "is_compaction item \<longleftrightarrow> kind_of item = ''compaction''"

text \<open>\<open>Features\<close>: whether the input has a trigger, an opaque item, one of ours. \<open>None\<close> is a panic.\<close>

definition features :: "string \<Rightarrow> (bool \<times> bool \<times> bool) option" where
  "features raw =
     (case visit_array () (case lookup raw ''input'' of None \<Rightarrow> [] | Some input \<Rightarrow> input)
        (\<lambda>item (trigger, opaque, own).
           if kind_of item = ''compaction_trigger'' then Inr (True, opaque, own)
           else if is_compaction item then
             Inr (trigger, True, own \<or> has_prefix id_prefix (item_string item ''id'')
               \<or> has_prefix state_prefix (item_string item ''encrypted_content''))
           else Inr (trigger, opaque, own))
        (False, False, False) of
        None \<Rightarrow> None
      | Some (Inl _) \<Rightarrow> Some (False, False, False)
      | Some (Inr found) \<Rightarrow> Some found)"

text \<open>\<open>Coverage\<close>: the fingerprints of the items that are not triggers.\<close>

definition cover :: "(string \<Rightarrow> string) \<Rightarrow> string \<Rightarrow> string list \<Rightarrow> compact_error + string list" where
  "cover sha256 item hashes =
     (let hashes' = (if kind_of item \<noteq> ''compaction_trigger'' then hashes @ [fingerprint sha256 item] else hashes)
      in if max_state_bytes div 2 < length hashes' * 44 then Inl Unsupported else Inr hashes')"

definition coverage :: "(string \<Rightarrow> string) \<Rightarrow> string \<Rightarrow> (compact_error + string list) option" where
  "coverage sha256 raw =
     (if max_calls * chunk_bytes < length raw then Some (Inl Unsupported)
      else visit_array NotArray (case lookup raw ''input'' of None \<Rightarrow> [] | Some input \<Rightarrow> input) (cover sha256) [])"

text \<open>The loop of \<open>Restore\<close> over the items, with the output so far.\<close>

fun restore_loop ::
  "scoped_state option \<Rightarrow> (string \<Rightarrow> string) \<Rightarrow> string list \<Rightarrow> string list \<Rightarrow> bool \<Rightarrow> compact_error + string list" where
  "restore_loop state sha256 [] out restored = Inr out"
| "restore_loop state sha256 (item # items) out restored =
     (if \<not> is_compaction item then restore_loop state sha256 items (out @ [item]) restored
      else if restored then Inl InvalidState
      else
        (case open_item state item of
           Inl e \<Rightarrow> Inl e
         | Inr saved \<Rightarrow>
             restore_loop state sha256 items (sw_window saved @ remove_covered sha256 out (sw_covered saved)) True))"

definition with_input :: "jobject \<Rightarrow> string list \<Rightarrow> string" where
  "with_input ob items =
     object_bytes (case object_set ''input'' (nil_or marshal_raw_list items) ob of None \<Rightarrow> ob | Some ob' \<Rightarrow> ob')"

definition input_of :: "jobject \<Rightarrow> string list option" where
  "input_of ob = (case object_value ''input'' ob of None \<Rightarrow> None | Some input \<Rightarrow> raw_items input)"

definition restore :: "scoped_state option \<Rightarrow> (string \<Rightarrow> string) \<Rightarrow> string \<Rightarrow> compact_error + string" where
  "restore state sha256 raw =
     (if max_calls * chunk_bytes < length raw then Inl Unsupported
      else
        (case parse_object raw of
           Inl _ \<Rightarrow> Inl InvalidState
         | Inr ob \<Rightarrow>
             (if duplicate ''input'' ob then Inl InvalidState
              else
                (case input_of ob of
                   None \<Rightarrow> Inl InvalidState
                 | Some items \<Rightarrow>
                     (case restore_loop state sha256 items [] False of
                        Inl e \<Rightarrow> Inl e
                      | Inr out \<Rightarrow>
                          (if max_calls * chunk_bytes < length (with_input ob out) then Inl Unsupported
                           else Inr (with_input ob out)))))))"

text \<open>\<open>PrepareInband\<close>: one trigger, at the end, and nothing else than a type and an id in it.\<close>

definition trigger_ok :: "string \<Rightarrow> bool" where
  "trigger_ok item \<longleftrightarrow>
     (case parse_object item of
        Inl _ \<Rightarrow> False
      | Inr ob \<Rightarrow>
          kind_of item = ''compaction_trigger'' \<and> has_only_fields [''type'', ''id''] ob
          \<and> \<not> duplicate ''id'' ob \<and> \<not> duplicate ''type'' ob
          \<and> (case object_value ''id'' ob of
               None \<Rightarrow> True
             | Some value \<Rightarrow>
                 value = ''null'' \<or> length (item_string item ''id'') \<le> 256 \<and> has_prefix [quote] value))"

definition prepare_inband :: "string \<Rightarrow> compact_error + plan \<times> string" where
  "prepare_inband raw =
     (if max_calls * chunk_bytes < length raw then Inl Unsupported
      else
        (case parse_object raw of
           Inl _ \<Rightarrow> Inl Unsupported
         | Inr ob \<Rightarrow>
             (if duplicate ''input'' ob \<or> item_string raw ''previous_response_id'' \<noteq> [] then Inl Unsupported
              else
                (case input_of ob of
                   None \<Rightarrow> Inl Unsupported
                 | Some items \<Rightarrow>
                     (if length items < 2 \<or> \<not> trigger_ok (last items) then Inl Unsupported
                      else
                        (case prepare (with_input ob (butlast items)) of
                           Inl e \<Rightarrow> Inl e
                         | Inr p \<Rightarrow> Inr (p, item_string (last items) ''id'')))))))"

end
