(* ===== verification/Compact_Sealed.thy ===== *)
theory Compact_Sealed
  imports Compact_Run Compact_State "HOL-Library.Sublist" "HOL-Library.Multiset"
begin

text \<open>
  What the sealed windows of \<open>Compact_State\<close> promise: base64 decodes what it encoded, only covered items are
  dropped, a state opens in its scope and under its id only, and a state is refused before the provider is paid
  for summaries when it might not fit.
\<close>

section \<open>Covered items\<close>

lemma remove_loop_count:
  "count (mset (map (fingerprint sha256) (remove_loop sha256 counts items))) h
    = count (mset (map (fingerprint sha256) items)) h - counts h"
  by (induction items arbitrary: counts) (auto simp: Let_def)

lemma remove_loop_subseq: "subseq (remove_loop sha256 counts items) items"
  by (induction items arbitrary: counts) (auto simp: Let_def)

text \<open>C32. When a state is restored (\<open>removeCovered\<close>), the items before it lose exactly the covered ones: by
  fingerprint they are the multiset difference, an item that occurs more often than it was covered is kept as
  often as the difference, and what stays keeps its order.\<close>

theorem remove_covered_correct:
  "mset (map (fingerprint sha256) (remove_covered sha256 items covered))
    = mset (map (fingerprint sha256) items) - mset covered
   \<and> subseq (remove_covered sha256 items covered) items"
proof -
  have "count (mset (map (fingerprint sha256) (remove_covered sha256 items covered))) h
      = count (mset (map (fingerprint sha256) items) - mset covered) h" for h
    unfolding remove_covered_def remove_loop_count by (simp add: count_mset count_list_eq_length_filter eq_commute)
  then show ?thesis by (simp add: multiset_eq_iff remove_covered_def remove_loop_subseq)
qed

section \<open>Restoring\<close>

lemma restore_loop_rest:
  "restore_loop state sha256 items out True = Inr r \<Longrightarrow> \<not> list_ex is_compaction items \<and> r = out @ items"
  by (induction items arbitrary: out) (fastforce split: if_splits)+

lemma restore_loop_cases:
  assumes "restore_loop state sha256 items out False = Inr r"
  shows "\<not> list_ex is_compaction items \<and> r = out @ items
    \<or> (\<exists>before item after saved. items = before @ item # after \<and> is_compaction item
        \<and> \<not> list_ex is_compaction (before @ after) \<and> open_item state item = Inr saved
        \<and> r = sw_window saved @ remove_covered sha256 (out @ before) (sw_covered saved) @ after)"
  using assms
proof (induction items arbitrary: out)
  case (Cons item items)
  show ?case
  proof (cases "is_compaction item")
    case True
    then obtain saved where "open_item state item = Inr saved"
      "restore_loop state sha256 items (sw_window saved @ remove_covered sha256 out (sw_covered saved)) True = Inr r"
      using Cons.prems by (auto split: sum.splits)
    then show ?thesis using True restore_loop_rest
      by (intro disjI2 exI [of _ "[]"] exI [of _ item] exI [of _ items] exI [of _ saved]) fastforce
  next
    case False
    then have "restore_loop state sha256 items (out @ [item]) False = Inr r" using Cons.prems by simp
    from Cons.IH [OF this] show ?thesis
    proof (elim disjE exE conjE)
      fix before x after saved
      assume "items = before @ x # after" "is_compaction x" "\<not> list_ex is_compaction (before @ after)"
        "open_item state x = Inr saved" "r = sw_window saved @ remove_covered sha256 ((out @ [item]) @ before) (sw_covered saved) @ after"
      then show ?thesis using False
        by (intro disjI2 exI [of _ "item # before"] exI [of _ x] exI [of _ after] exI [of _ saved]) auto
    qed (use False in auto)
  qed
qed simp


text \<open>C33. A restored request (\<open>Restore\<close>) is the request with its input replaced. Either it carried no state and
  its input is what it was, or it carried exactly one, which opened: its place and the items before it are taken by
  the window of the state and the items before it that the state does not cover, and every item after it is kept
  untouched. A request with two states, or with one that does not open, is refused.\<close>

theorem restore_inserts_window:
  assumes "restore state sha256 raw = Inr body"
  shows "\<exists>ob items out. parse_object raw = Inr ob \<and> input_of ob = Some items \<and> body = with_input ob out
    \<and> length body \<le> max_calls * chunk_bytes
    \<and> (\<not> list_ex is_compaction items \<and> out = items
       \<or> (\<exists>before item after saved. items = before @ item # after \<and> is_compaction item
           \<and> \<not> list_ex is_compaction (before @ after) \<and> open_item state item = Inr saved
           \<and> out = sw_window saved @ remove_covered sha256 before (sw_covered saved) @ after))"
proof -
  obtain ob items out where r: "parse_object raw = Inr ob" "input_of ob = Some items"
    "restore_loop state sha256 items [] False = Inr out" "body = with_input ob out"
    "length (with_input ob out) \<le> max_calls * chunk_bytes"
    using assms by (auto simp: restore_def split: if_splits sum.splits option.splits)
  have "\<not> list_ex is_compaction items \<and> out = items
    \<or> (\<exists>before item after saved. items = before @ item # after \<and> is_compaction item
        \<and> \<not> list_ex is_compaction (before @ after) \<and> open_item state item = Inr saved
        \<and> out = sw_window saved @ remove_covered sha256 before (sw_covered saved) @ after)"
    using restore_loop_cases [OF r(3)] by simp
  then show ?thesis using r by blast
qed

definition restore_sample :: jobject where
  "restore_sample = \<lparr>o_raw = ''{\"input\":[{\"a\":1}]}'', o_fields = [(''input'', ''[{\"a\":1}]'')],
     o_last = [(''input'', 0)], o_counts = [(''input'', 1)], o_sets = [], o_set_order = [], o_deleted = []\<rparr>"

lemma restore_sample_facts:
  "parse_object ''{\"input\":[{\"a\":1}]}'' = Inr restore_sample"
  "input_of restore_sample = Some [''{\"a\":1}'']"
  "\<not> is_compaction ''{\"a\":1}''"
  "with_input restore_sample [''{\"a\":1}''] = ''{\"input\":[{\"a\":1}]}''"
  by code_simp+

lemma restore_inserts_window_witness:
  "restore None (\<lambda>_. []) ''{\"input\":[{\"a\":1}]}'' = Inr ''{\"input\":[{\"a\":1}]}''
    \<and> (\<exists>ob items. parse_object ''{\"input\":[{\"a\":1}]}'' = Inr ob \<and> input_of ob = Some items)"
proof -
  have "restore None (\<lambda>_. []) ''{\"input\":[{\"a\":1}]}'' = Inr ''{\"input\":[{\"a\":1}]}''"
    using restore_sample_facts by (simp add: restore_def max_calls_def chunk_bytes_def duplicate_def restore_sample_def)
  then show ?thesis using restore_inserts_window by blast
qed


section \<open>What a sealed item says\<close>

lemma hex_text_ascii: "ascii (hex_text s)"
  using hex_text_bytes [of s] by (auto simp: ascii_def list_all_iff)

lemma b64_encode_ascii: "ascii (b64_encode s)"
  using b64_encode_bytes [of s] by (simp add: ascii_def list_all_iff)

lemma ascii_append: "ascii s \<Longrightarrow> ascii t \<Longrightarrow> ascii (s @ t)"
  by (simp add: ascii_def)

lemma prefixes_ascii: "ascii id_prefix" "ascii state_prefix"
  by (simp_all add: ascii_def id_prefix_def state_prefix_def)

text \<open>The members of an item that \<open>newItem\<close> makes, in the order in which they are written.\<close>

definition item_members :: "string \<Rightarrow> string \<Rightarrow> string \<Rightarrow> (string \<times> string) list" where
  "item_members trigger item_id token =
     (if trigger \<noteq> [] then [(''created_by'', trigger)] else [])
     @ [(''encrypted_content'', token), (''id'', item_id), (''type'', ''compaction'')]"

definition item_text :: "string \<Rightarrow> string \<Rightarrow> string \<Rightarrow> string" where
  "item_text trigger item_id token = object_text (map (\<lambda>(k, v). (k, marshal_string v)) (item_members trigger item_id token))"

lemma new_item_text: "new_item random trigger = item_text trigger (id_prefix @ hex_text random) []"
  by (simp add: new_item_def item_text_def item_members_def marshal_string_map_def)

lemma item_text_parse:
  assumes "valid_utf8 trigger" and "valid_utf8 item_id" and "valid_utf8 token"
  shows "json_parse (item_text trigger item_id token)
    = Some (JObj (map (\<lambda>(k, v). (k, JStr v)) (item_members trigger item_id token)))"
    and "ascii key \<Longrightarrow> item_string (item_text trigger item_id token) key
      = (case jget key (map (\<lambda>(k, v). (k, JStr v)) (item_members trigger item_id token)) of Some (JStr s) \<Rightarrow> s | _ \<Rightarrow> [])"
proof -
  let ?es = "map (\<lambda>(k, v). (k, marshal_string v)) (item_members trigger item_id token)"
  have k: "valid_utf8 ''created_by''" "valid_utf8 ''encrypted_content''" "valid_utf8 ''id''" "valid_utf8 ''type''" "valid_utf8 ''compaction''"
    by (rule ascii_valid; simp add: ascii_def)+
  have n: "nests ?es" using assms k by (simp add: nests_def item_members_def nest_parse_string)
  have v: "nest_values ?es = map (\<lambda>(k, v). (k, JStr v)) (item_members trigger item_id token)"
    using assms k by (simp add: nest_values_def item_members_def nest_parse_string)
  show "json_parse (item_text trigger item_id token)
    = Some (JObj (map (\<lambda>(k, v). (k, JStr v)) (item_members trigger item_id token)))"
    using object_text_parse [OF n] by (simp add: item_text_def v)
  show "item_string (item_text trigger item_id token) key
      = (case jget key (map (\<lambda>(k, v). (k, JStr v)) (item_members trigger item_id token)) of Some (JStr s) \<Rightarrow> s | _ \<Rightarrow> [])"
    if "ascii key"
    using item_string_text [OF n that] by (simp add: item_text_def v)
qed

lemma item_text_strings:
  assumes "valid_utf8 trigger" and "valid_utf8 item_id" and "valid_utf8 token"
  shows "item_string (item_text trigger item_id token) ''id'' = item_id"
    and "item_string (item_text trigger item_id token) ''encrypted_content'' = token"
  by (subst item_text_parse(2) [OF assms]; simp add: ascii_def item_members_def jget_def)+

lemma seal_text:
  assumes "seal (Some st) win covered trigger random = Inr sealed" and "valid_utf8 trigger"
  shows "\<exists>encrypted. ss_seal st (saved_text win covered) (aad st (id_prefix @ hex_text random)) = Some encrypted
    \<and> sealed = item_text trigger (id_prefix @ hex_text random) (state_prefix @ b64_encode encrypted)
    \<and> ss_scope st \<noteq> [] \<and> length (saved_text win covered) \<le> max_state_bytes"
proof -
  let ?id = "id_prefix @ hex_text random"
  have v: "valid_utf8 ?id" by (intro ascii_valid ascii_append prefixes_ascii hex_text_ascii)
  note new = item_text_parse(1) [OF assms(2) v, of "[]"] item_text_strings(1) [OF assms(2) v, of "[]"]
  have m: "string_map (map (\<lambda>(k, v). (k, JStr v)) (item_members trigger ?id [])) =
      Some (if trigger \<noteq> [] then [(''created_by'', trigger), (''encrypted_content'', []), (''id'', ?id), (''type'', ''compaction'')]
            else [(''encrypted_content'', []), (''id'', ?id), (''type'', ''compaction'')])"
    by (simp add: string_map_def item_members_def string_or_null_def last_wins_def)
  obtain encrypted where e: "ss_seal st (saved_text win covered) (aad st ?id) = Some encrypted"
    and s: "sealed = marshal_string_map (AList.update ''encrypted_content'' (state_prefix @ b64_encode encrypted)
      (the (string_map (map (\<lambda>(k, v). (k, JStr v)) (item_members trigger ?id [])))))"
    and g: "ss_scope st \<noteq> []" "length (saved_text win covered) \<le> max_state_bytes"
    using assms(1) new by (auto simp: seal_def seal_item_def new_item_text encode_window_def split: if_splits option.splits)
  have "sealed = item_text trigger ?id (state_prefix @ b64_encode encrypted)"
    unfolding s m by (simp add: marshal_string_map_def item_text_def item_members_def)
  then show ?thesis using e g by blast
qed

lemma seal_strings:
  assumes "valid_utf8 trigger"
  shows "item_string (item_text trigger (id_prefix @ hex_text random) (state_prefix @ b64_encode c)) ''id'' = id_prefix @ hex_text random"
    and "item_string (item_text trigger (id_prefix @ hex_text random) (state_prefix @ b64_encode c)) ''encrypted_content''
      = state_prefix @ b64_encode c"
proof -
  have "valid_utf8 (id_prefix @ hex_text random)"
    by (intro ascii_valid ascii_append prefixes_ascii hex_text_ascii)
  moreover have "valid_utf8 (state_prefix @ b64_encode c)"
    by (intro ascii_valid ascii_append prefixes_ascii b64_encode_ascii)
  ultimately show "item_string (item_text trigger (id_prefix @ hex_text random) (state_prefix @ b64_encode c)) ''id'' = id_prefix @ hex_text random"
    "item_string (item_text trigger (id_prefix @ hex_text random) (state_prefix @ b64_encode c)) ''encrypted_content''
      = state_prefix @ b64_encode c"
    by (simp_all add: item_text_strings assms)
qed

section \<open>Associated data\<close>

lemma marshal_string_cancel:
  assumes "marshal_string a @ s = marshal_string b @ t" and "valid_utf8 a" and "valid_utf8 b"
  shows "a = b \<and> s = t"
proof -
  have "marshal_body a @ quote # s = marshal_body b @ quote # t" using assms(1) by (simp add: marshal_string_def)
  then have "string_body (marshal_body a @ quote # s) = string_body (marshal_body b @ quote # t)" by (rule arg_cong)
  then show ?thesis unfolding marshal_body_roundtrip [OF assms(2)] marshal_body_roundtrip [OF assms(3)] by simp
qed

lemma aad_separates:
  assumes "aad st i = aad st' j" and "valid_utf8 (ss_scope st)" "valid_utf8 (ss_scope st')" "valid_utf8 i" "valid_utf8 j"
  shows "ss_scope st = ss_scope st' \<and> i = j"
proof -
  define d where "d = ''subpool/compaction/copilot/v1''"
  have d: "valid_utf8 d" unfolding d_def by (rule ascii_valid) (simp add: ascii_def)
  have shape: "aad x k = CHR ''['' # marshal_string d @ CHR '','' # marshal_string (ss_scope x) @ CHR '','' # marshal_string k @ '']''" for x k
    unfolding aad_def d_def [symmetric] by (simp add: string_list_text_def)
  have "marshal_string d @ CHR '','' # marshal_string (ss_scope st) @ CHR '','' # marshal_string i @ '']''
      = marshal_string d @ CHR '','' # marshal_string (ss_scope st') @ CHR '','' # marshal_string j @ '']''"
    using assms(1) by (simp add: shape)
  from marshal_string_cancel [OF this d d]
  have "marshal_string (ss_scope st) @ CHR '','' # marshal_string i @ '']''
      = marshal_string (ss_scope st') @ CHR '','' # marshal_string j @ '']''" by simp
  from marshal_string_cancel [OF this assms(2,3)]
  have s: "ss_scope st = ss_scope st'" and "marshal_string i @ '']'' = marshal_string j @ '']''" by simp_all
  from marshal_string_cancel [OF this(2) assms(4,5)] s show ?thesis by simp
qed


section \<open>Scope and id\<close>

lemma open_item_parts:
  assumes "open_item (Some st) item = Inr saved"
  shows "\<exists>c raw. ss_scope st \<noteq> [] \<and> has_prefix state_prefix (item_string item ''encrypted_content'')
    \<and> b64_decode (drop (length state_prefix) (item_string item ''encrypted_content'')) = Some c
    \<and> ss_open st c (aad st (item_string item ''id'')) = Some raw \<and> decode_saved raw = Some saved
    \<and> sw_window saved \<noteq> [] \<and> list_all supported_item (sw_window saved)"
  using assms by (auto simp: open_item_def Let_def split: if_splits option.splits)

text \<open>A sealed state belongs to the scope and to the item it was sealed for. With a cipher that opens a text
  only with the associated data it was sealed with, the token of a sealed item opens in an item of the same id
  and a state of the same scope only, and what opens is the window that was sealed: the associated data frame
  scope and id in JSON, so that no two pairs collide.\<close>

theorem sealed_state_bound:
  assumes "seal (Some st) win covered trigger random = Inr sealed"
    and "open_item (Some st') item = Inr saved"
    and "item_string item ''encrypted_content'' = item_string sealed ''encrypted_content''"
    and "valid_utf8 trigger" and "valid_utf8 (ss_scope st)" and "valid_utf8 (ss_scope st')"
    and "\<And>raw a c b raw'. ss_seal st raw a = Some c \<Longrightarrow> ss_open st' c b = Some raw' \<Longrightarrow> a = b \<and> raw' = raw"
  shows "ss_scope st' = ss_scope st \<and> item_string item ''id'' = item_string sealed ''id''
    \<and> decode_saved (saved_text win covered) = Some saved"
proof -
  let ?id = "id_prefix @ hex_text random"
  obtain c where c: "ss_seal st (saved_text win covered) (aad st ?id) = Some c"
    and s: "sealed = item_text trigger ?id (state_prefix @ b64_encode c)"
    using seal_text [OF assms(1,4)] by blast
  note strings = seal_strings [OF assms(4), of random c, folded s]
  obtain raw where o: "ss_open st' c (aad st' (item_string item ''id'')) = Some raw" "decode_saved raw = Some saved"
    using open_item_parts [OF assms(2)] unfolding assms(3) strings by (auto simp: b64_roundtrip)
  have a: "aad st ?id = aad st' (item_string item ''id'')" and raw: "raw = saved_text win covered"
    using assms(7) [OF c o(1)] by auto
  have "valid_utf8 ?id" by (intro ascii_valid ascii_append prefixes_ascii hex_text_ascii)
  from aad_separates [OF a assms(5,6) this item_string_valid] show ?thesis
    using strings o(2) raw by simp
qed

lemma open_sealed_text:
  assumes "ss_open st c (aad st (id_prefix @ hex_text random)) = Some raw" and "length c \<le> max_state_bytes + 64"
    and "length raw \<le> max_state_bytes" and "ss_scope st \<noteq> []" and "valid_utf8 trigger" and "length random = 16"
  shows "open_item (Some st) (item_text trigger (id_prefix @ hex_text random) (state_prefix @ b64_encode c)) =
    (case decode_saved raw of
       None \<Rightarrow> Inl InvalidState
     | Some saved \<Rightarrow>
         (if sw_window saved \<noteq> [] \<and> list_all supported_item (sw_window saved) then Inr saved else Inl InvalidState))"
proof -
  have "length (b64_encode c) \<le> ((max_state_bytes + 64) * 8 + 5) div 6"
    using assms(2) by (simp add: b64_encode_length div_le_mono)
  then have l: "length (state_prefix @ b64_encode c) \<le> max_token" by (simp add: max_token_def)
  have i: "length (id_prefix @ hex_text random) \<le> 256" using assms(6) by (simp add: hex_text_length id_prefix_def)
  show ?thesis
    using assms(3,4) l i
    by (auto simp: open_item_def seal_strings [OF assms(5)] b64_roundtrip assms(1) has_prefix_iff split: option.splits)
qed

text \<open>What was sealed opens again: the item that \<open>Seal\<close> returns passes every check of \<open>open\<close> before the
  window, its id, its prefixes and its length, and the text that is decoded is the text that was encoded. So it
  opens exactly when that text decodes to a window of supported items.\<close>

theorem sealed_state_opens:
  assumes "seal (Some st) win covered trigger random = Inr sealed"
    and "valid_utf8 trigger" and "length random = 16"
    and "\<And>raw a c. ss_seal st raw a = Some c \<Longrightarrow> ss_open st c a = Some raw"
    and "\<And>raw a c. ss_seal st raw a = Some c \<Longrightarrow> length c \<le> length raw + 64"
  shows "open_item (Some st) sealed =
    (case decode_saved (saved_text win covered) of
       None \<Rightarrow> Inl InvalidState
     | Some saved \<Rightarrow>
         (if sw_window saved \<noteq> [] \<and> list_all supported_item (sw_window saved) then Inr saved else Inl InvalidState))"
proof -
  let ?id = "id_prefix @ hex_text random"
  obtain c where c: "ss_seal st (saved_text win covered) (aad st ?id) = Some c"
    and s: "sealed = item_text trigger ?id (state_prefix @ b64_encode c)"
    and g: "ss_scope st \<noteq> []" "length (saved_text win covered) \<le> max_state_bytes"
    using seal_text [OF assms(1,2)] by blast
  have "length c \<le> max_state_bytes + 64" using assms(5) [OF c] g(2) by simp
  then show ?thesis unfolding s by (intro open_sealed_text assms(4) [OF c] g assms(2,3))
qed

section \<open>A sealed sample\<close>

definition sample_window :: "string list" where
  "sample_window = [''{\"role\":\"user\"}'']"

definition plain_state :: scoped_state where
  "plain_state = \<lparr>ss_seal = (\<lambda>raw a. Some raw), ss_open = (\<lambda>c a. Some c), ss_scope = ''s''\<rparr>"

lemma fold_name_saved: "fold_name ''window'' = ''window''" "fold_name ''covered'' = ''covered''"
  by (simp_all add: fold_name_ascii lower_char_def char_of_def bit_0 del: fold_name.simps)

lemma sample_saved_text: "saved_text sample_window [] = ''{\"window\":[{\"role\":\"user\"}],\"covered\":null}''"
  unfolding sample_window_def by code_simp

lemma sample_saved_parse:
  "json_parse (saved_text sample_window []) = Some (JObj [(''window'', JArr [JObj [(''role'', JStr ''user'')]]), (''covered'', JNull)])"
  unfolding sample_saved_text by code_simp

lemma sample_saved_fields:
  "parse_object (saved_text sample_window []) = Inr \<lparr>o_raw = ''{\"window\":[{\"role\":\"user\"}],\"covered\":null}'',
     o_fields = [(''window'', ''[{\"role\":\"user\"}]''), (''covered'', ''null'')], o_last = [(''window'', 0), (''covered'', 1)],
     o_counts = [(''window'', 1), (''covered'', 1)], o_sets = [], o_set_order = [], o_deleted = []\<rparr>"
  unfolding sample_saved_text by code_simp

lemma sample_items: "raw_items ''[{\"role\":\"user\"}]'' = Some sample_window" "string_items ''null'' = Some []"
    "list_all supported_item sample_window"
  unfolding sample_window_def by code_simp+

lemma sample_decoded: "decode_saved (saved_text sample_window []) = Some \<lparr>sw_window = sample_window, sw_covered = []\<rparr>"
  by (simp add: decode_saved_def sample_saved_parse field_texts_def sample_saved_fields fold_name_saved last_decoded_def
      sample_items del: fold_name.simps)

definition sample_sealed :: string where
  "sample_sealed = item_text [] (id_prefix @ hex_text (replicate 16 (CHR ''r''))) (state_prefix @ b64_encode (saved_text sample_window []))"

lemma sample_ids: "valid_utf8 (id_prefix @ hex_text (replicate 16 (CHR ''r'')))" "valid_utf8 []"
  by (intro ascii_valid ascii_append prefixes_ascii hex_text_ascii) simp

lemma sample_seals: "\<exists>sealed. seal (Some plain_state) sample_window [] [] (replicate 16 (CHR ''r'')) = Inr sealed"
proof -
  note p = item_text_parse(1) [OF sample_ids(2,1) sample_ids(2)]
  have "length (saved_text sample_window []) \<le> max_state_bytes"
    unfolding sample_saved_text by (simp add: max_state_bytes_def)
  then show ?thesis
    by (simp add: seal_def seal_item_def new_item_text encode_window_def plain_state_def p string_map_def item_members_def
        string_or_null_def)
qed

lemma sealed_state_opens_witness:
  "\<exists>sealed. seal (Some plain_state) sample_window [] [] (replicate 16 (CHR ''r'')) = Inr sealed
    \<and> open_item (Some plain_state) sealed = Inr \<lparr>sw_window = sample_window, sw_covered = []\<rparr>"
proof -
  obtain sealed where s: "seal (Some plain_state) sample_window [] [] (replicate 16 (CHR ''r'')) = Inr sealed"
    using sample_seals by blast
  have "open_item (Some plain_state) sealed = (case decode_saved (saved_text sample_window []) of
       None \<Rightarrow> Inl InvalidState
     | Some saved \<Rightarrow>
         (if sw_window saved \<noteq> [] \<and> list_all supported_item (sw_window saved) then Inr saved else Inl InvalidState))"
    by (rule sealed_state_opens [OF s]) (simp_all add: plain_state_def)
  then have "open_item (Some plain_state) sealed = Inr \<lparr>sw_window = sample_window, sw_covered = []\<rparr>"
    using sample_items(3) by (simp add: sample_decoded) (simp add: sample_window_def)
  then show ?thesis using s by blast
qed


text \<open>A cipher that writes the associated data, with their length in unary, before the text.\<close>

definition tag :: "string \<Rightarrow> string" where
  "tag a = replicate (length a) (CHR ''1'') @ CHR ''0'' # a"

definition tagged_state :: scoped_state where
  "tagged_state = \<lparr>ss_seal = (\<lambda>raw a. Some (tag a @ raw)),
     ss_open = (\<lambda>c a. if has_prefix (tag a) c then Some (drop (length (tag a)) c) else None), ss_scope = ''s''\<rparr>"

lemma unary_unique:
  "replicate n (CHR ''1'') @ CHR ''0'' # x = replicate m (CHR ''1'') @ CHR ''0'' # y \<Longrightarrow> n = m \<and> x = y"
proof (induction n arbitrary: m)
  case 0
  then show ?case by (cases m) simp_all
next
  case (Suc n)
  then show ?case by (cases m) simp_all
qed

lemma tag_unique: "tag a @ r = tag b @ s \<Longrightarrow> a = b \<and> r = s"
  using unary_unique [of "length a" "a @ r" "length b" "b @ s"] by (auto simp: tag_def append_eq_append_conv)

lemma sealed_state_bound_witness:
  "\<exists>sealed saved. seal (Some tagged_state) sample_window [] [] (replicate 16 (CHR ''r'')) = Inr sealed
    \<and> open_item (Some tagged_state) sealed = Inr saved \<and> decode_saved (saved_text sample_window []) = Some saved"
proof -
  let ?id = "id_prefix @ hex_text (replicate 16 (CHR ''r''))"
  let ?raw = "saved_text sample_window []"
  have raw: "length ?raw \<le> 100" unfolding sample_saved_text by simp
  have "aad tagged_state ?id = aad \<lparr>ss_seal = (\<lambda>_ _. None), ss_open = (\<lambda>_ _. None), ss_scope = ''s''\<rparr> ?id"
    by (simp add: aad_def tagged_state_def)
  also have "\<dots> = ''[\"subpool/compaction/copilot/v1\",\"s\",\"cmp_subpool_72727272727272727272727272727272\"]''"
    by code_simp
  finally have a: "length (tag (aad tagged_state ?id)) \<le> 200" by (simp add: tag_def)
  have o: "ss_open tagged_state (tag a @ r) a = Some r" for a r
    by (simp add: tagged_state_def has_prefix_iff)
  obtain sealed where s: "seal (Some tagged_state) sample_window [] [] (replicate 16 (CHR ''r'')) = Inr sealed"
    using raw item_text_parse(1) [OF sample_ids(2,1) sample_ids(2)]
    by (auto simp: seal_def seal_item_def new_item_text encode_window_def tagged_state_def string_map_def item_members_def
        string_or_null_def max_state_bytes_def)
  have sealed: "sealed = item_text [] ?id (state_prefix @ b64_encode (tag (aad tagged_state ?id) @ ?raw))"
    using seal_text [OF s sample_ids(2)] by (simp add: tagged_state_def)
  have "open_item (Some tagged_state) sealed = (case decode_saved ?raw of
       None \<Rightarrow> Inl InvalidState
     | Some saved \<Rightarrow>
         (if sw_window saved \<noteq> [] \<and> list_all supported_item (sw_window saved) then Inr saved else Inl InvalidState))"
    unfolding sealed by (rule open_sealed_text [OF o])
      (use raw a in \<open>simp_all add: max_state_bytes_def tagged_state_def\<close>)
  then obtain saved where saved: "open_item (Some tagged_state) sealed = Inr saved"
    using sample_items(3) by (auto simp: sample_decoded) (simp add: sample_window_def)
  have scope: "valid_utf8 (ss_scope tagged_state)" by (rule ascii_valid) (simp add: tagged_state_def ascii_def)
  have authentic: "a = b \<and> raw' = raw" if "ss_seal tagged_state raw a = Some c" "ss_open tagged_state c b = Some raw'" for raw a c b raw'
    using that tag_unique [of a raw b raw'] by (auto simp: tagged_state_def has_prefix_iff split: if_splits)
  have "decode_saved ?raw = Some saved"
    using sealed_state_bound [OF s saved refl sample_ids(2) scope scope] authentic by blast
  then show ?thesis using s saved by blast
qed

end
