(* ===== verification/Compact_Size.thy ===== *)
theory Compact_Size
  imports Compact_Sealed Compact_Summary
begin

text \<open>
  The bound of \<open>ValidateStateSize\<close>: what \<open>json.Marshal\<close> wrote is not changed when it is copied as a raw message, a
  character takes at most six bytes, and so the window with the longest summary of zero bytes is the longest.
\<close>

section \<open>Copying what was marshalled\<close>

declare compact.simps(2) [simp del]

lemma compact_plain:
  assumes "c \<noteq> quote" "c \<noteq> backslash" "c \<noteq> CHR ''<''" "c \<noteq> CHR ''>''" "c \<noteq> CHR ''&''" "\<not> line_separator (c # t)"
  shows "compact True False (c # t) = c # compact True False t"
  using assms by (simp add: compact.simps(2))

lemma separator_byte: "byte c \<noteq> 226 \<Longrightarrow> \<not> line_separator (c # t)"
  by (simp add: line_separator_def split: list.splits)

lemma compact_escape:
  assumes "byte e < 128" "e \<noteq> CHR ''<''" "e \<noteq> CHR ''>''" "e \<noteq> CHR ''&''"
  shows "compact True False (backslash # e # t) = backslash # e # compact True False t"
  using assms separator_byte [of e t] separator_byte [of backslash "e # t"]
  by (auto simp: backslash_def quote_def compact.simps(2))

lemma hex_digit_plain:
  assumes "n < 16"
  shows "hex_digit n \<noteq> quote" "hex_digit n \<noteq> backslash" "hex_digit n \<noteq> CHR ''<''" "hex_digit n \<noteq> CHR ''>''"
    "hex_digit n \<noteq> CHR ''&''" "\<not> line_separator (hex_digit n # t)"
proof -
  have b: "byte (hex_digit n) = (if n < 10 then 48 + n else 87 + n)" using assms by (simp add: hex_digit_def)
  then have r: "48 \<le> byte (hex_digit n) \<and> byte (hex_digit n) < 58 \<or> 97 \<le> byte (hex_digit n) \<and> byte (hex_digit n) < 103"
    using assms by (auto split: if_splits)
  show "\<not> line_separator (hex_digit n # t)" by (rule separator_byte) (use r in auto)
  show "hex_digit n \<noteq> quote" "hex_digit n \<noteq> backslash" "hex_digit n \<noteq> CHR ''<''" "hex_digit n \<noteq> CHR ''>''" "hex_digit n \<noteq> CHR ''&''"
    using r by (auto simp: quote_def backslash_def)
qed

lemma compact_u_escape: "n < 65536 \<Longrightarrow> compact True False (u_escape n @ t) = u_escape n @ compact True False t"
proof -
  assume "n < 65536"
  then have "n div 4096 < 16" by simp
  moreover have "n div 256 mod 16 < 16" "n div 16 mod 16 < 16" "n mod 16 < 16" by simp_all
  moreover have "compact True False (backslash # CHR ''u'' # s) = backslash # CHR ''u'' # compact True False s" for s
    by (rule compact_escape) simp_all
  ultimately show ?thesis
    unfolding u_escape_def append.simps by (simp only: compact_plain hex_digit_plain not_False_eq_True)
qed

lemma compact_ascii:
  assumes "byte c < 128"
  shows "compact True False (escape_ascii c @ t) = escape_ascii c @ compact True False t"
proof -
  have "\<not> line_separator (c # t)" by (rule separator_byte) (use assms in simp)
  moreover have "quote \<notin> {CHR ''<'', CHR ''>'', CHR ''&''}" "backslash \<notin> {CHR ''<'', CHR ''>'', CHR ''&''}"
    by (simp_all add: quote_def backslash_def)
  moreover have "compact True False (backslash # quote # t) = backslash # quote # compact True False t"
      "compact True False (backslash # backslash # t) = backslash # backslash # compact True False t"
    by (rule compact_escape; simp add: quote_def backslash_def)+
  ultimately show ?thesis using assms
    by (simp add: escape_ascii_def compact_escape compact_u_escape compact_plain)
qed

lemma utf8_len_separator:
  assumes "utf8_len (c # s) = Suc n" and "byte c = 226"
  shows "n = 2"
  using assms by (auto simp: utf8_len_def split: if_splits list.splits)

lemma compact_conts:
  "\<forall>c \<in> set u. cont c \<Longrightarrow> compact True False (u @ t) = u @ compact True False t"
proof (induction u)
  case (Cons c u)
  then have c: "128 \<le> byte c \<and> byte c < 192" by (simp add: cont_def)
  then have "byte c \<noteq> 226" by simp
  then have "\<not> line_separator (c # u @ t)" by (rule separator_byte)
  moreover have "c \<noteq> quote" "c \<noteq> backslash" "c \<noteq> CHR ''<''" "c \<noteq> CHR ''>''" "c \<noteq> CHR ''&''"
    using c by (auto simp: quote_def backslash_def)
  ultimately show ?case using Cons by (simp only: append.simps compact_plain not_False_eq_True) simp
qed simp

lemma compact_rune:
  assumes n: "utf8_len (c # s) = Suc n" and high: "\<not> byte c < 128" and plain: "\<not> line_separator (c # s)"
  shows "compact True False (c # take n s @ t) = c # take n s @ compact True False t"
proof -
  have le: "n \<le> length s" using utf8_len_rest [OF n] by simp
  have conts: "\<forall>d \<in> set (take n s). cont d"
    using valid_utf8_cont [OF n] le by (auto simp: in_set_conv_nth)
  have "\<not> line_separator (c # take n s @ t)"
  proof (cases "byte c = 226")
    case True
    then have "n = 2" using utf8_len_separator [OF n] by simp
    then obtain a b r where "s = a # b # r" using le by (auto simp: le_Suc_eq numeral_2_eq_2 Suc_le_length_iff)
    then show ?thesis using plain \<open>n = 2\<close> by (simp add: line_separator_def)
  qed (rule separator_byte)
  moreover have "c \<noteq> quote" "c \<noteq> backslash" "c \<noteq> CHR ''<''" "c \<noteq> CHR ''>''" "c \<noteq> CHR ''&''"
    using high by (auto simp: quote_def backslash_def)
  ultimately show ?thesis by (simp add: compact_plain compact_conts [OF conts])
qed

lemma compact_body: "compact True False (marshal_body s @ t) = marshal_body s @ compact True False t"
proof (induction s rule: marshal_body.induct)
  case (2 c s)
  have sep: "8192 + byte (s ! 1) - 128 < 65536" using byte_less [of "s ! 1"] by linarith
  show ?case
  proof (cases "byte c < 128 \<or> utf8_len (c # s) = 0 \<or> line_separator (c # s)")
    case True
    then show ?thesis using 2 sep by (auto simp: marshal_body.simps(2) compact_ascii compact_u_escape)
  next
    case False
    then obtain n where n: "utf8_len (c # s) = Suc n" by (cases "utf8_len (c # s)") auto
    have "marshal_body (c # s) = c # take n s @ marshal_body (drop n s)" using False n by (simp add: marshal_body.simps(2))
    then show ?thesis using compact_rune [OF n] False "2.IH"(4) n by simp
  qed
qed simp

lemma compact_string: "compact False False (marshal_string s @ t) = marshal_string s @ compact False False t"
proof -
  have q: "\<not> line_separator (quote # u)" for u by (rule separator_byte) (simp add: quote_def)
  have c: "\<not> json_space quote" "quote \<notin> {CHR ''<'', CHR ''>'', CHR ''&''}" "quote \<noteq> backslash"
    by (simp_all add: quote_def json_space_def backslash_def)
  then have "compact True False (quote # t) = quote # compact False False t" using q by (simp add: compact.simps(2))
  then show ?thesis using q [of "marshal_body s @ quote # t"] compact_body [of s "quote # t"] c
    by (simp add: marshal_string_def compact.simps(2) [of False])
qed


lemma compact_char:
  assumes "\<not> json_space c" "c \<noteq> quote" "c \<noteq> CHR ''<''" "c \<noteq> CHR ''>''" "c \<noteq> CHR ''&''" "byte c \<noteq> 226"
  shows "compact False False (c # t) = c # compact False False t"
  using assms separator_byte [of c t] by (simp add: compact.simps(2))

lemma compact_brackets:
  "compact False False (CHR ''{'' # t) = CHR ''{'' # compact False False t"
  "compact False False (CHR ''}'' # t) = CHR ''}'' # compact False False t"
  "compact False False (CHR ''['' # t) = CHR ''['' # compact False False t"
  "compact False False (CHR '']'' # t) = CHR '']'' # compact False False t"
  "compact False False (CHR '','' # t) = CHR '','' # compact False False t"
  "compact False False (CHR '':'' # t) = CHR '':'' # compact False False t"
  by (rule compact_char; simp add: json_space_def quote_def)+

section \<open>The length of a summary\<close>

lemma marshal_body_length: "length (marshal_body s) \<le> 6 * length s"
proof (induction s rule: marshal_body.induct)
  case (2 c s)
  have a: "length (escape_ascii c) \<le> 6" by (simp add: escape_ascii_def u_escape_def)
  have u: "length (u_escape n) = 6" for n by (simp add: u_escape_def)
  show ?case
  proof (cases "byte c < 128 \<or> utf8_len (c # s) = 0")
    case True
    then show ?thesis using 2 a by (auto simp: marshal_body.simps(2) u)
  next
    case False
    show ?thesis
    proof (cases "line_separator (c # s)")
      case True
      then show ?thesis using False "2.IH"(3) by (auto simp: marshal_body.simps(2) u)
    next
      case sep: False
      obtain n where n: "utf8_len (c # s) = Suc n" using False by (cases "utf8_len (c # s)") auto
      then show ?thesis using False sep "2.IH"(4) utf8_len_rest [OF n] by (auto simp: marshal_body.simps(2))
    qed
  qed
qed simp

lemma marshal_body_zeros: "length (marshal_body (replicate n (CHR 0x00))) = 6 * n"
proof -
  have "escape_ascii (CHR 0x00) = u_escape 0" by (simp add: escape_ascii_def quote_def backslash_def)
  then show ?thesis by (induction n) (simp_all add: marshal_body.simps(2) u_escape_def)
qed

lemma marshal_body_ascii: "ascii s \<Longrightarrow> marshal_body (s @ t) = marshal_body s @ marshal_body t"
  by (induction s) (simp_all add: ascii_def marshal_body.simps(2))

lemma compact_summary: "compact False False (summary_item s) = summary_item s"
  by (simp add: summary_item_def object_text_def compact_brackets compact_string append_assoc [symmetric] del: append_assoc)
     (simp add: compact_brackets compact_string)

lemma summary_length:
  "length (marshal_raw (summary_item s)) = length (marshal_raw (summary_item [])) + length (marshal_body s)"
proof -
  define p where "p = ''[Summary of earlier conversation; reference context, not a new request]'' @ [CHR 0x0A]"
  have "ascii p" unfolding p_def by (simp add: ascii_def)
  then have b: "length (marshal_string (p @ t)) = 2 + length (marshal_body p) + length (marshal_body t)" for t
    by (simp add: marshal_string_def marshal_body_ascii)
  have "length (summary_item t) = length (object_text
      [(''content'', CHR ''['' # object_text [(''text'', marshal_string (p @ t)), (''type'', marshal_string ''output_text'')] @ '']''),
       (''role'', marshal_string ''assistant''), (''status'', marshal_string ''completed''), (''type'', marshal_string ''message'')])" for t
    by (simp add: summary_item_def p_def)
  then have "length (summary_item s) = length (summary_item []) + length (marshal_body s)"
    using b [of s] b [of "[]"] by (simp add: object_text_def)
  moreover have "summary_item t \<noteq> []" for t by (simp add: summary_item_def object_text_def)
  ultimately show ?thesis by (simp add: marshal_raw_def compact_summary)
qed

lemma marshal_raw_list_length:
  "length (nil_or marshal_raw_list ts) = (if ts = [] then 4 else 1 + sum_list (map (\<lambda>t. length (marshal_raw t) + 1) ts))"
proof -
  have "length (join_comma (t # us)) + 1 = sum_list (map (\<lambda>t. length t + 1) (t # us))" for t and us :: "string list"
    by (induction us arbitrary: t) auto
  then show ?thesis by (cases ts) (auto simp: nil_or_def marshal_raw_list_def comp_def)
qed


lemma saved_text_length:
  "length (saved_text win covered) = 22 + length (nil_or marshal_raw_list win) + length (nil_or string_list_text covered)"
proof -
  have "length (marshal_string ''window'') = 8" "length (marshal_string ''covered'') = 9" by code_simp+
  then show ?thesis by (simp add: saved_text_def object_text_def)
qed

lemma window_length:
  assumes "length (marshal_body s) \<le> length (marshal_body z)" and "z = [] \<Longrightarrow> s = []"
  shows "length (saved_text (window p s) covered) \<le> length (saved_text (window p z) covered)"
proof -
  have s: "length (marshal_raw (summary_item s)) \<le> length (marshal_raw (summary_item z))"
    using assms(1) summary_length [of s] summary_length [of z] by simp
  have "sum_list (map (\<lambda>t. length (marshal_raw t) + 1) (window p s)) \<le> sum_list (map (\<lambda>t. length (marshal_raw t) + 1) (window p z))"
    using s assms(2) by (auto simp: window_def)
  moreover have "window p s = [] \<or> window p z \<noteq> []" using assms(2) by (auto simp: window_def)
  moreover have "4 \<le> 1 + sum_list (map (\<lambda>t. length (marshal_raw t) + 1) (window p z))" if "window p s = []" "window p z \<noteq> []"
  proof -
    have "window p z = [summary_item z]" using that by (auto simp: window_def split: if_splits)
    moreover have "4 \<le> length (marshal_raw (summary_item z))"
      by (simp add: marshal_raw_def compact_summary) (simp add: summary_item_def object_text_def marshal_string_def)
    ultimately show ?thesis by simp
  qed
  ultimately show ?thesis unfolding saved_text_length marshal_raw_list_length
    by (cases "window p s = []"; cases "window p z = []") auto
qed

text \<open>C34. The size check before a compaction is sufficient: when \<open>ValidateStateSize\<close> accepts a plan, then the window
  with whatever summary of at most 32 KiB comes back (none, when there was nothing to summarise) fits into a
  sealed state, so that no summary that was paid for is refused for its size. A character of the summary takes
  at most the six bytes that a zero byte takes.\<close>

theorem state_size_sufficient:
  assumes "validate_state_size p covered = Inr raw" and "length s \<le> max_summary_bytes" and "pl_parts p = [] \<longrightarrow> s = []"
  shows "encode_window (window p s) covered = Inr (saved_text (window p s) covered)"
proof -
  define z where "z = (if pl_parts p \<noteq> [] then replicate max_summary_bytes (CHR 0x00) else [])"
  have z: "length (saved_text (window p z) covered) \<le> max_state_bytes"
    using assms(1) by (auto simp: validate_state_size_def encode_window_def z_def split: if_splits)
  have "length (marshal_body s) \<le> length (marshal_body z)"
    using marshal_body_length [of s] assms(2,3) by (auto simp: z_def marshal_body_zeros intro: order_trans)
  moreover have "z = [] \<Longrightarrow> s = []" using assms(2,3) by (auto simp: z_def max_summary_bytes_def split: if_splits)
  ultimately show ?thesis using window_length [of s z p covered] z by (simp add: encode_window_def)
qed

lemma summary_frame: "length (marshal_raw (summary_item [])) \<le> 1000"
proof -
  have "length (summary_item []) < 1000" by code_simp
  then show ?thesis using compact_summary [of "[]"] by (simp add: marshal_raw_def)
qed

lemma hello_valid: "\<exists>raw. validate_state_size hello_plan [] = Inr raw"
proof -
  let ?z = "replicate max_summary_bytes (CHR 0x00)"
  have "window hello_plan ?z = [summary_item ?z]" "pl_parts hello_plan \<noteq> []"
    by (simp_all add: window_def hello_plan_def max_summary_bytes_def)
  moreover have "length (saved_text [summary_item ?z] []) \<le> max_state_bytes"
    using summary_frame summary_length [of ?z] unfolding saved_text_length marshal_raw_list_length marshal_body_zeros
    by (simp add: nil_or_def max_summary_bytes_def max_state_bytes_def)
  ultimately show ?thesis by (simp add: validate_state_size_def encode_window_def)
qed

lemma state_size_sufficient_witness:
  "\<exists>raw. validate_state_size hello_plan [] = Inr raw
    \<and> encode_window (window hello_plan ''done'') [] = Inr (saved_text (window hello_plan ''done'') [])"
proof -
  obtain raw where v: "validate_state_size hello_plan [] = Inr raw" using hello_valid by blast
  have "pl_parts hello_plan = [] \<longrightarrow> ''done'' = []" by (simp add: hello_plan_def)
  with v show ?thesis using state_size_sufficient [OF v, of "''done''"] by (simp add: max_summary_bytes_def)
qed

end
