(* ===== verification/Admin.thy ===== *)
theory Admin
  imports Gateway Store_Integrity Base64
begin

text \<open>
  \<open>internal/auth/admin.go\<close> and the generation of keys in \<open>apikey.go\<close>: administrators log in with a password and get a
  signed session, which the store can revoke. HMAC-SHA256 under the key of the server, SHA-256 and the random bytes
  are parameters; the store is reached as in \<open>Gateway\<close>.
\<close>

section \<open>Signed sessions\<close>

text \<open>\<open>ad_mac\<close> is the HMAC under the signing key, \<open>ad_sha\<close> the hash.\<close>

record admin =
  ad_username :: string
  ad_password :: string
  ad_ttl :: int
  ad_mac :: "string \<Rightarrow> string"
  ad_sha :: "string \<Rightarrow> string"

text \<open>\<open>binary.BigEndian\<close>, of 64 bits.\<close>

definition be64 :: "nat \<Rightarrow> string" where
  "be64 n = map (\<lambda>i. char_of (n div 256 ^ i mod 256)) (rev [0..<8])"

definition be64_value :: "string \<Rightarrow> nat" where
  "be64_value s = foldl (\<lambda>v c. v * 256 + byte c) 0 s"

definition session_payload :: "time \<Rightarrow> string \<Rightarrow> string" where
  "session_payload expires random = CHR 0x01 # be64 (nat (unix_seconds expires mod 2 ^ 64)) @ random"

definition session_payload_size :: nat where "session_payload_size = 41"

definition encode_session :: "admin \<Rightarrow> string \<Rightarrow> string" where
  "encode_session ad payload = b64_encode payload @ CHR ''.'' # b64_encode (ad_mac ad payload)"

text \<open>\<open>strings.Split\<close> at one character.\<close>

fun split_on :: "char \<Rightarrow> string \<Rightarrow> string list" where
  "split_on d [] = [[]]"
| "split_on d (c # s) = (if c = d then [] # split_on d s else (c # hd (split_on d s)) # tl (split_on d s))"

definition verify_session :: "admin \<Rightarrow> string \<Rightarrow> time option" where
  "verify_session ad sid =
     (case split_on (CHR ''.'') sid of
        [a, b] \<Rightarrow>
          (case (b64_decode a, b64_decode b) of
             (Some payload, Some signature) \<Rightarrow>
               (if length payload \<noteq> session_payload_size \<or> payload ! 0 \<noteq> CHR 0x01 \<or> length signature \<noteq> 32
                   \<or> signature \<noteq> ad_mac ad payload then None
                else Some (wrap64 (int (be64_value (take 8 (drop 1 payload)))) * 1000000000))
           | _ \<Rightarrow> None)
      | _ \<Rightarrow> None)"

section \<open>Login, check, logout\<close>

text \<open>\<open>Authenticate\<close>: \<open>None\<close> is a refusal. The two comparisons in constant time compare hashes.\<close>

definition login_scopes :: "string \<Rightarrow> string \<Rightarrow> string list" where
  "login_scopes username source =
     [''ip:'' @ source, ''credential:'' @ to_lower (trim_space username) @ CHR ''|'' # source]"

definition admin_login ::
  "world \<Rightarrow> admin \<Rightarrow> string \<Rightarrow> string \<Rightarrow> string \<Rightarrow> string \<Rightarrow> gateway \<Rightarrow> (store_error + string option) \<times> gateway" where
  "admin_login w ad random username password source g =
     (let now = clock w g;
          valid_user = (ad_sha ad username = ad_sha ad (ad_username ad));
          valid_pass = (ad_sha ad password = ad_sha ad (ad_password ad))
      in case store_do w (\<lambda>_ _ d. Inr (record_admin_login (login_scopes username source) (valid_user \<and> valid_pass) now d)) g of
           (Inl e, g1) \<Rightarrow> (Inl e, g1)
         | (Inr accepted, g1) \<Rightarrow>
             (if \<not> accepted then (Inr None, g1)
              else
                let expires = now + ad_ttl ad;
                    sid = encode_session ad (session_payload expires random)
                in case store_do w (\<lambda>_ _ d. no_result (create_admin_session (ad_sha ad sid) expires d)) g1 of
                     (Inl e, g2) \<Rightarrow> (Inl e, g2)
                   | (Inr _, g2) \<Rightarrow> (Inr (Some sid), g2)))"

definition session_valid :: "world \<Rightarrow> admin \<Rightarrow> string \<Rightarrow> gateway \<Rightarrow> (store_error + bool) \<times> gateway" where
  "session_valid w ad sid g =
     (case verify_session ad sid of
        None \<Rightarrow> (Inr False, g)
      | Some expires \<Rightarrow>
          (if \<not> clock w g < expires then (Inr False, g)
           else store_do w (\<lambda>_ _ d. Inr (d, admin_session_active (ad_sha ad sid) (clock w g) d)) g))"

definition session_revoke :: "world \<Rightarrow> admin \<Rightarrow> string \<Rightarrow> gateway \<Rightarrow> (store_error + unit) \<times> gateway" where
  "session_revoke w ad sid g =
     (case verify_session ad sid of
        None \<Rightarrow> (Inr (), g)
      | Some _ \<Rightarrow> store_do w (\<lambda>_ _ d. no_result (revoke_admin_session (ad_sha ad sid) (clock w g) d)) g)"

section \<open>API keys\<close>

text \<open>\<open>Generate\<close>: the key, its digest and its hint, from 32 random bytes; \<open>digest\<close> is the HMAC of keys.\<close>

definition generate_key :: "(string \<Rightarrow> string) \<Rightarrow> string \<Rightarrow> string \<times> string \<times> string" where
  "generate_key digest random =
     (let plain = key_prefix @ b64_encode random in (plain, digest plain, drop (length plain - 4) plain))"

section \<open>A session verifies as it was encoded\<close>

lemma be64_bytes: "length (be64 n) = 8"
  by (simp add: be64_def)

lemma big_endian:
  "foldl (\<lambda>v c. v * 256 + byte c) v (map (\<lambda>i. char_of (n div 256 ^ i mod 256)) (rev [0..<k])) = v * 256 ^ k + n mod 256 ^ k"
proof (induction k arbitrary: v)
  case (Suc k)
  have "n mod 256 ^ Suc k = 256 ^ k * (n div 256 ^ k mod 256) + n mod 256 ^ k"
    using mod_mult2_eq [of n "256 ^ k" 256] by (simp add: mult.commute)
  then show ?case using Suc by (simp add: algebra_simps)
qed simp

lemma be64_value_be64: "n < 2 ^ 64 \<Longrightarrow> be64_value (be64 n) = n"
  using big_endian [of 0 n 8] by (simp add: be64_value_def be64_def)

lemma split_on_none: "d \<notin> set s \<Longrightarrow> split_on d s = [s]"
  by (induction s) auto

lemma split_on_first: "d \<notin> set s \<Longrightarrow> split_on d (s @ d # t) = s # split_on d t"
  by (induction s) auto

lemma split_on_two: "split_on d s = [a, b] \<Longrightarrow> s = a @ d # b \<and> d \<notin> set b"
proof (induction s arbitrary: a)
  case (Cons c s)
  show ?case
  proof (cases "c = d")
    case True
    then have "split_on d s = [b]" "a = []" using Cons.prems by auto
    moreover have "split_on d u = [b] \<Longrightarrow> u = b \<and> d \<notin> set b" for u
    proof (induction u arbitrary: b)
      case (Cons x u)
      have "split_on d u \<noteq> []" by (cases u) auto
      then show ?case using Cons by (cases "split_on d u") (auto split: if_splits)
    qed simp
    ultimately show ?thesis using True by simp
  next
    case False
    have "split_on d s \<noteq> []" by (cases s) auto
    then obtain a' where "split_on d s = [a', b]" "a = c # a'"
      using False Cons.prems by (cases "split_on d s") auto
    then show ?thesis using Cons.IH by simp
  qed
qed simp

lemma b64_no_dot: "CHR ''.'' \<notin> set (b64_encode s)"
proof
  assume "CHR ''.'' \<in> set (b64_encode s)"
  then obtain n where "n < 64" "CHR ''.'' = b64_char n" using b64_encode_chars by blast
  then have "b64_val (CHR ''.'') = Some n" using b64_char_val(1) by metis
  moreover have "b64_val (CHR ''.'') = None" by code_simp
  ultimately show False by simp
qed

lemma verify_encoded:
  assumes "length random = 32" and "length (ad_mac ad (session_payload expires random)) = 32"
    and "in_int64 (unix_seconds expires)"
  shows "verify_session ad (encode_session ad (session_payload expires random)) = Some (unix_seconds expires * 1000000000)"
proof -
  let ?n = "nat (unix_seconds expires mod 2 ^ 64)"
  have "?n < 2 ^ 64" by (simp add: nat_less_iff)
  then have v: "be64_value (be64 ?n) = ?n" by (rule be64_value_be64)
  have "wrap64 (int ?n) = wrap64 (unix_seconds expires)" by (simp add: wrap64_def mod_simps)
  then have w: "wrap64 (int ?n) = unix_seconds expires" using wrap64_id [OF assms(3)] by simp
  show ?thesis using assms(1,2) v w
    by (simp add: verify_session_def encode_session_def split_on_first [OF b64_no_dot] split_on_none [OF b64_no_dot]
        b64_roundtrip session_payload_def session_payload_size_def be64_bytes)
qed


section \<open>The life of a session\<close>

abbreviation session_rows :: "admin \<Rightarrow> string \<Rightarrow> db \<Rightarrow> admin_session_row list" where
  "session_rows ad sid d \<equiv> filter (\<lambda>s. as_hash s = ad_sha ad sid) (t_admin_sessions d)"

text \<open>The store answers, and nothing else is committed just before.\<close>

definition undisturbed :: "world \<Rightarrow> gateway \<Rightarrow> bool" where
  "undisturbed w g \<longleftrightarrow> w_fault w (g_step g) = None \<and> w_others w (g_step g) (g_db g) = g_db g"

lemma active_rows:
  "q_admin_session_active h now d \<longleftrightarrow>
    list_ex (\<lambda>s. as_revoked s = None \<and> now < as_expires s) (filter (\<lambda>s. as_hash s = h) (t_admin_sessions d))"
  by (auto simp: q_admin_session_active_def list_ex_iff)

lemma created_rows:
  "\<exists>n. filter (\<lambda>s. as_hash s = h) (t_admin_sessions (q_create_admin_session h expires d))
    = replicate (Suc n) \<lparr>as_hash = h, as_expires = expires, as_revoked = None\<rparr>"
proof -
  let ?row = "\<lparr>as_hash = h, as_expires = expires, as_revoked = None\<rparr>"
  have "filter (\<lambda>s. as_hash s = h) (update_rows (\<lambda>s. as_hash s = h) (\<lambda>s. s\<lparr>as_expires := expires, as_revoked := None\<rparr>) xs)
      = replicate (length (filter (\<lambda>s. as_hash s = h) xs)) ?row" for xs
    by (induction xs) (auto simp: update_rows_def)
  moreover have "filter (\<lambda>s. as_hash s = h) (t_admin_sessions d) = [] \<or> list_ex (\<lambda>s. as_hash s = h) (t_admin_sessions d)"
    by (auto simp: filter_empty_conv list_ex_iff)
  moreover have "list_ex (\<lambda>s. as_hash s = h) xs \<Longrightarrow> \<exists>n. length (filter (\<lambda>s. as_hash s = h) xs) = Suc n" for xs
    by (induction xs) auto
  ultimately show ?thesis
    by (cases "list_ex (\<lambda>s. as_hash s = h) (t_admin_sessions d)")
       (fastforce simp: q_create_admin_session_def intro: exI [of _ 0])+
qed

lemma revoked_rows:
  "\<forall>s \<in> set (filter (\<lambda>s. as_hash s = h) (t_admin_sessions (q_revoke_admin_session ts h d))). as_revoked s \<noteq> None"
proof -
  have "\<forall>s \<in> set (filter (\<lambda>s. as_hash s = h)
      (update_rows (\<lambda>s. as_hash s = h \<and> as_revoked s = None) (\<lambda>s. s\<lparr>as_revoked := Some ts\<rparr>) rows)). as_revoked s \<noteq> None" for rows
    by (induction rows) (simp_all del: not_None_eq)
  then show ?thesis by (simp add: q_revoke_admin_session_def del: not_None_eq)
qed

lemma store_do_Inr:
  "store_do w f g = (Inr x, g') \<Longrightarrow>
    \<exists>d. f (g_step g) (w_tx w (g_step g)) (w_others w (g_step g) (g_db g)) = Inr (d, x) \<and> g_db g' = d"
  by (auto simp: store_do_def Let_def split: option.splits sum.splits prod.splits)

lemma record_admin_login_accepts: "snd (record_admin_login scopes ok now d) \<Longrightarrow> ok"
  by (auto simp: record_admin_login_def Let_def split: if_splits)

lemma login_accepted:
  "store_do w (\<lambda>_ _ d. Inr (record_admin_login scopes ok now d)) g = (Inr True, g') \<Longrightarrow> ok"
  by (drule store_do_Inr) (metis Inr_inject record_admin_login_accepts snd_conv)

lemma no_result_Inr: "no_result r = Inr (d, x) \<longleftrightarrow> r = Inr d"
  by (cases r) (auto simp: no_result_def)

lemma admin_login_created:
  assumes "admin_login w ad random username password source g = (Inr (Some sid), g1)"
  shows "sid = encode_session ad (session_payload (clock w g + ad_ttl ad) random)
    \<and> (\<exists>d. g_db g1 = q_create_admin_session (ad_sha ad sid) (clock w g + ad_ttl ad) d)
    \<and> ad_sha ad username = ad_sha ad (ad_username ad) \<and> ad_sha ad password = ad_sha ad (ad_password ad)"
proof -
  let ?ok = "ad_sha ad username = ad_sha ad (ad_username ad) \<and> ad_sha ad password = ad_sha ad (ad_password ad)"
  let ?sid = "encode_session ad (session_payload (clock w g + ad_ttl ad) random)"
  obtain r0 g0 where first: "store_do w (\<lambda>_ _ d. Inr (record_admin_login (login_scopes username source) ?ok (clock w g) d)) g = (r0, g0)"
    by (rule prod.exhaust)
  obtain r1 g' where second: "store_do w (\<lambda>_ _ d. no_result (create_admin_session (ad_sha ad ?sid) (clock w g + ad_ttl ad) d)) g0 = (r1, g')"
    by (rule prod.exhaust)
  have r0: "r0 = Inr True"
    using assms unfolding admin_login_def Let_def first by (cases r0) (simp_all split: if_splits)
  have "r1 = Inr ()" "g' = g1" and sid: "sid = ?sid"
    using assms unfolding admin_login_def Let_def first r0 prod.case sum.case second
    by (cases r1; simp)+
  have ok: ?ok by (rule login_accepted [OF first [unfolded r0]])
  obtain d where "create_admin_session (ad_sha ad ?sid) (clock w g + ad_ttl ad) d = Inr (g_db g1)"
    using store_do_Inr [OF second [unfolded \<open>r1 = Inr ()\<close> \<open>g' = g1\<close>]] by (auto simp: no_result_Inr)
  then show ?thesis using sid ok unfolding create_admin_session_def sum.inject by metis
qed

lemma unix_seconds_floor: "unix_seconds t * 1000000000 \<le> t"
  using div_mult_mod_eq [of t 1000000000] pos_mod_sign [of 1000000000 t] unfolding unix_seconds_def second_def by linarith

text \<open>C37. An administrator who logged in is let in until the session ends and not after it: with a signature of 32 bytes
  and an end that fits into 64 bits of seconds, \<open>Valid\<close> accepts the session at any later moment at which its row of the
  store is still the one that the login wrote, exactly if the clock is before the end of the session (to the second);
  and once the session has been revoked (\<open>Revoke\<close>, the logout) and its rows stay as they are, it is refused for ever.\<close>

theorem admin_session_lifecycle:
  assumes "admin_login w ad random username password source g = (Inr (Some sid), g1)"
    and "length random = 32" and "\<And>payload. length (ad_mac ad payload) = 32"
    and "in_int64 (unix_seconds (clock w g + ad_ttl ad))"
    and "session_rows ad sid (g_db g2) = session_rows ad sid (g_db g1)" and "undisturbed w2 g2"
    and "session_revoke w2 ad sid g2 = (Inr (), g3)"
    and "session_rows ad sid (g_db g4) = session_rows ad sid (g_db g3)" and "undisturbed w4 g4"
  shows "fst (session_valid w2 ad sid g2) = Inr (clock w2 g2 < unix_seconds (clock w g + ad_ttl ad) * 1000000000)
    \<and> fst (session_valid w4 ad sid g4) = Inr False"
proof -
  let ?e = "clock w g + ad_ttl ad"
  let ?h = "ad_sha ad sid"
  obtain d where sid: "sid = encode_session ad (session_payload ?e random)"
    and d: "g_db g1 = q_create_admin_session ?h ?e d"
    using admin_login_created [OF assms(1)] by blast
  have v: "verify_session ad sid = Some (unix_seconds ?e * 1000000000)"
    unfolding sid by (rule verify_encoded) (use assms(2-4) in auto)
  have e: "unix_seconds ?e * 1000000000 \<le> ?e" by (rule unix_seconds_floor)
  obtain n where "session_rows ad sid (g_db g2) = replicate (Suc n) \<lparr>as_hash = ?h, as_expires = ?e, as_revoked = None\<rparr>"
    using created_rows [of ?h ?e d] assms(5) by (auto simp: d)
  then have active: "admin_session_active ?h now (g_db g2) \<longleftrightarrow> now < ?e" for now
    by (auto simp: admin_session_active_def active_rows list_ex_iff)
  have first: "fst (session_valid w2 ad sid g2) = Inr (clock w2 g2 < unix_seconds ?e * 1000000000)"
    using assms(6) e active by (auto simp: session_valid_def v store_do_def undisturbed_def)
  have "g_db g3 = q_revoke_admin_session (clock w2 g2) ?h (g_db g2)"
    using assms(6,7) by (auto simp: session_revoke_def v store_do_def undisturbed_def no_result_def revoke_admin_session_def)
  then have "\<not> q_admin_session_active ?h now (g_db g4)" for now
    using revoked_rows [of ?h "clock w2 g2" "g_db g2"] assms(8) by (auto simp: active_rows list_ex_iff)
  then have "fst (session_valid w4 ad sid g4) = Inr False"
    using assms(9) by (auto simp: session_valid_def v store_do_def undisturbed_def admin_session_active_def)
  with first show ?thesis by blast
qed

text \<open>Nobody is let in without a session of the server: what \<open>Valid\<close> accepts is two base64 texts around one dot, the
  second the HMAC of the first under the key of the server, and the store knows the hash of exactly this text as
  that of a session that has neither ended nor been revoked.\<close>

theorem session_needs_signature:
  assumes "fst (session_valid w ad sid g) = Inr True"
  shows "\<exists>a b payload. sid = a @ CHR ''.'' # b \<and> b64_decode a = Some payload \<and> b64_decode b = Some (ad_mac ad payload)
    \<and> length payload = session_payload_size
    \<and> list_ex (\<lambda>s. as_hash s = ad_sha ad sid \<and> as_revoked s = None \<and> clock w g < as_expires s)
        (t_admin_sessions (w_others w (g_step g) (g_db g)))"
proof -
  obtain e where e: "verify_session ad sid = Some e"
    and active: "admin_session_active (ad_sha ad sid) (clock w g) (w_others w (g_step g) (g_db g))"
    using assms by (auto simp: session_valid_def store_do_def Let_def split: option.splits if_splits)
  obtain a b payload where s: "split_on (CHR ''.'') sid = [a, b]" and d: "b64_decode a = Some payload"
      "b64_decode b = Some (ad_mac ad payload)" "length payload = session_payload_size"
    using e by (auto simp: verify_session_def split: list.splits option.splits if_splits)
  then show ?thesis using split_on_two [OF s] active by (auto simp: admin_session_active_def q_admin_session_active_def)
qed


section \<open>A sample\<close>

definition still_world :: "time \<Rightarrow> world" where
  "still_world t = \<lparr>w_now = (\<lambda>_. t), w_tx = (\<lambda>_. t), w_rnd = (\<lambda>_ _. 0), w_others = (\<lambda>_ d. d), w_fault = (\<lambda>_. None),
     w_canceled = (\<lambda>_. False), w_decrypt = Some, w_decode = (\<lambda>_ _. None),
     w_refresh = (\<lambda>_ _ _ d. (d, Inl RefreshOther)), w_round_trip = (\<lambda>_ _. Inl OtherFailure), w_digest = (\<lambda>s. s),
     w_session_hash = (\<lambda>s. s), w_parse_time = (\<lambda>_. None), w_quota_routing = False\<rparr>"

definition still_gateway :: "db \<Rightarrow> gateway" where
  "still_gateway d = \<lparr>g_db = d, g_activity = [], g_stats = \<lparr>rc_unbound = 0, rc_continuation = 0, rc_connection = 0\<rparr>,
     g_step = 0, g_sent = []\<rparr>"

definition sample_admin :: admin where
  "sample_admin = \<lparr>ad_username = ''root'', ad_password = ''pw'', ad_ttl = 3600000000000,
     ad_mac = (\<lambda>_. replicate 32 (CHR ''m'')), ad_sha = (\<lambda>s. s)\<rparr>"

definition admin_settings :: settings where
  "admin_settings = \<lparr>max_keys_per_account = 5, max_request_body = 0, max_inflight_body = 0\<rparr>"

lemma admin_settings_ok: "db_ok (fresh_db admin_settings)"
  by (rule fresh_db_ok) (simp add: admin_settings_def settings_check_def)

lemma still_world_simps [simp]:
  "clock (still_world t) g = t" "undisturbed (still_world t) g"
  "store_do (still_world t) f g = (case f (g_step g) t (g_db g) of
     Inl e \<Rightarrow> (Inl e, g\<lparr>g_step := Suc (g_step g), g_db := g_db g\<rparr>)
   | Inr (d', x) \<Rightarrow> (Inr x, g\<lparr>g_step := Suc (g_step g), g_db := d'\<rparr>))"
  by (simp_all add: clock_def still_world_def undisturbed_def store_do_def Let_def)

lemma sample_login:
  "\<exists>sid g1. admin_login (still_world 5) sample_admin (replicate 32 (CHR ''r'')) ''root'' ''pw'' ''ip''
     (still_gateway (fresh_db admin_settings)) = (Inr (Some sid), g1)"
proof -
  have "snd (record_admin_login scopes True 5 (fresh_db admin_settings))" for scopes
    by (auto simp: record_admin_login_def Let_def list_ex_iff scope_blocked_def q_get_login_failures_def find_row_def fresh_db_def)
  then obtain d where "record_admin_login (login_scopes ''root'' ''ip'') True 5 (fresh_db admin_settings) = (d, True)"
    by (metis prod.collapse)
  then show ?thesis
    by (simp add: admin_login_def Let_def sample_admin_def still_gateway_def no_result_def create_admin_session_def)
qed

lemma sample_revoke:
  "\<exists>g3. session_revoke (still_world t) ad sid g = (Inr (), g3)"
  by (auto simp: session_revoke_def no_result_def revoke_admin_session_def split: option.splits)

lemma admin_session_lifecycle_witness:
  "\<exists>sid g1. admin_login (still_world 5) sample_admin (replicate 32 (CHR ''r'')) ''root'' ''pw'' ''ip''
     (still_gateway (fresh_db admin_settings)) = (Inr (Some sid), g1)
    \<and> fst (session_valid (still_world 3599999999999) sample_admin sid g1) = Inr True"
proof -
  let ?g = "still_gateway (fresh_db admin_settings)"
  obtain sid g1 where l: "admin_login (still_world 5) sample_admin (replicate 32 (CHR ''r'')) ''root'' ''pw'' ''ip'' ?g = (Inr (Some sid), g1)"
    using sample_login by blast
  obtain g3 where r: "session_revoke (still_world 3599999999999) sample_admin sid g1 = (Inr (), g3)"
    using sample_revoke by blast
  have u: "unix_seconds (clock (still_world 5) ?g + ad_ttl sample_admin) = 3600"
    by (simp add: sample_admin_def unix_seconds_def second_def)
  have "fst (session_valid (still_world 3599999999999) sample_admin sid g1)
      = Inr (clock (still_world 3599999999999) g1 < unix_seconds (clock (still_world 5) ?g + ad_ttl sample_admin) * 1000000000)"
    by (rule admin_session_lifecycle [OF l _ _ _ refl still_world_simps(2) r refl still_world_simps(2), THEN conjunct1])
       (simp_all only: u, simp_all add: sample_admin_def in_int64_def max_int64_def)
  moreover have "unix_seconds (5 + ad_ttl sample_admin) = 3600" using u by simp
  ultimately show ?thesis using l by simp
qed

lemma session_needs_signature_witness:
  "\<exists>sid g1 a b. fst (session_valid (still_world 7) sample_admin sid g1) = Inr True \<and> sid = a @ CHR ''.'' # b"
proof -
  obtain sid g1 where l: "admin_login (still_world 5) sample_admin (replicate 32 (CHR ''r'')) ''root'' ''pw'' ''ip''
      (still_gateway (fresh_db admin_settings)) = (Inr (Some sid), g1)"
    using sample_login by blast
  let ?e = "5 + ad_ttl sample_admin"
  obtain d where s: "sid = encode_session sample_admin (session_payload ?e (replicate 32 (CHR ''r'')))"
    and d: "g_db g1 = q_create_admin_session (ad_sha sample_admin sid) ?e d"
    using admin_login_created [OF l] by auto
  have v: "verify_session sample_admin sid = Some (unix_seconds ?e * 1000000000)"
    unfolding s by (rule verify_encoded) (simp_all add: sample_admin_def unix_seconds_def second_def in_int64_def max_int64_def)
  have "admin_session_active (ad_sha sample_admin sid) 7 (g_db g1)"
    using created_rows [of "ad_sha sample_admin sid" ?e d]
    by (auto simp: admin_session_active_def active_rows d sample_admin_def)
  moreover have "unix_seconds ?e = 3600" by (simp add: sample_admin_def unix_seconds_def second_def)
  ultimately have "fst (session_valid (still_world 7) sample_admin sid g1) = Inr True"
    by (simp add: session_valid_def v)
  from session_needs_signature [OF this] this show ?thesis by blast
qed

end
