(* ===== verification/Ids.thy ===== *)
theory Ids
  imports Base64
begin

text \<open>
  \<open>internal/id/id.go\<close>: random identifiers in the form of UUIDs, and the check of such a form.
\<close>

definition set_version :: "string \<Rightarrow> string" where
  "set_version raw = raw[6 := char_of (byte (raw ! 6) mod 16 + 64), 8 := char_of (byte (raw ! 8) mod 64 + 128)]"

text \<open>\<open>New\<close>, with the 16 random bytes.\<close>

definition new_id :: "string \<Rightarrow> string" where
  "new_id raw0 =
     (let raw = set_version raw0
      in hex_text (take 4 raw) @ CHR ''-'' # hex_text (take 2 (drop 4 raw)) @ CHR ''-'' # hex_text (take 2 (drop 6 raw))
         @ CHR ''-'' # hex_text (take 2 (drop 8 raw)) @ CHR ''-'' # hex_text (take 6 (drop 10 raw)))"

definition valid_id :: "string \<Rightarrow> bool" where
  "valid_id s \<longleftrightarrow>
     length s = 36 \<and> s ! 8 = CHR ''-'' \<and> s ! 13 = CHR ''-'' \<and> s ! 18 = CHR ''-'' \<and> s ! 23 = CHR ''-''
   \<and> (let raw = filter (\<lambda>c. c \<noteq> CHR ''-'') s in even (length raw) \<and> list_all (\<lambda>c. hex_val c \<noteq> None) raw)"

lemma hex_text_no_dash: "filter (\<lambda>c. c \<noteq> CHR ''-'') (hex_text s) = hex_text s"
proof -
  have "hex_val (CHR ''-'') = None" by (simp add: hex_val_def is_digit_def)
  then show ?thesis using hex_text_bytes [of s] by (auto simp: filter_id_conv)
qed

lemma nth_after: "length xs = n \<Longrightarrow> (xs @ c # ys) ! n = c"
  by (metis nth_append_length)

lemma new_id_valid:
  assumes "length raw = 16"
  shows "valid_id (new_id raw)"
proof -
  let ?r = "set_version raw"
  let ?a = "hex_text (take 4 ?r)" and ?b = "hex_text (take 2 (drop 4 ?r))" and ?c = "hex_text (take 2 (drop 6 ?r))"
    and ?d = "hex_text (take 2 (drop 8 ?r))" and ?e = "hex_text (take 6 (drop 10 ?r))"
  have r: "length ?r = 16" using assms by (simp add: set_version_def)
  then have l: "length ?a = 8" "length ?b = 4" "length ?c = 4" "length ?d = 4" "length ?e = 12"
    by (simp_all add: hex_text_length)
  have t: "new_id raw = ?a @ CHR ''-'' # ?b @ CHR ''-'' # ?c @ CHR ''-'' # ?d @ CHR ''-'' # ?e"
    by (simp add: new_id_def Let_def)
  have "new_id raw ! 8 = CHR ''-''" unfolding t by (rule nth_after) (rule l)
  moreover have "new_id raw ! 13 = CHR ''-''"
    unfolding t using nth_after [of "?a @ CHR ''-'' # ?b" 13] l by simp
  moreover have "new_id raw ! 18 = CHR ''-''"
    unfolding t using nth_after [of "?a @ CHR ''-'' # ?b @ CHR ''-'' # ?c" 18] l by simp
  moreover have "new_id raw ! 23 = CHR ''-''"
    unfolding t using nth_after [of "?a @ CHR ''-'' # ?b @ CHR ''-'' # ?c @ CHR ''-'' # ?d" 23] l by simp
  moreover have "length (new_id raw) = 36" unfolding t by (simp add: l)
  moreover have "filter (\<lambda>c. c \<noteq> CHR ''-'') (new_id raw) = ?a @ ?b @ ?c @ ?d @ ?e"
    unfolding t by (simp add: hex_text_no_dash)
  moreover have "list_all (\<lambda>c. hex_val c \<noteq> None) (?a @ ?b @ ?c @ ?d @ ?e)"
    using hex_text_bytes by (fastforce simp: list_all_iff)
  ultimately show ?thesis by (simp add: valid_id_def l)
qed

text \<open>The check of identifiers (\<open>Valid\<close>) accepts a text without a single digit: dashes are taken out wherever
  they stand, so that 36 dashes pass for a UUID.\<close>

theorem dashes_pass_for_id: "valid_id (replicate 36 (CHR ''-''))"
  by (simp add: valid_id_def)

end
