(* ===== verification/Health_Billing.thy ===== *)
theory Health_Billing
  imports Gateway
begin

text \<open>
  \<open>internal/health/openai_refresh.go\<close>: when the balance of an OpenAI organization may be read. A poll is claimed before
  the request and finished after it; in between nobody else reads with the same credentials, and rate limits push the
  next poll back, each time twice as far. The credentials are those of \<open>internal/provider/openaibilling\<close>.
\<close>

section \<open>Credentials and snapshots\<close>

record billing =
  bl_session_key :: string
  bl_organization :: string
  bl_admin_key :: string
  bl_amount :: rat
  bl_start :: int
  bl_expires :: int

definition no_billing :: billing where
  "no_billing = \<lparr>bl_session_key = [], bl_organization = [], bl_admin_key = [], bl_amount = 0, bl_start = 0, bl_expires = 0\<rparr>"

text \<open>\<open>Unmarshal\<close> of the credentials over those already read.\<close>

definition store_billing :: "json \<Rightarrow> billing \<Rightarrow> billing option" where
  "store_billing v x =
     (case v of
        JObj ms \<Rightarrow>
          (case (decode_field store_string (field_vals ''session_key'' ms) (bl_session_key x),
                 decode_field store_string (field_vals ''organization_id'' ms) (bl_organization x),
                 decode_field store_string (field_vals ''admin_key'' ms) (bl_admin_key x),
                 decode_field store_float (field_vals ''grant_amount_usd'' ms) (bl_amount x),
                 decode_field store_int64 (field_vals ''grant_start_at'' ms) (bl_start x),
                 decode_field store_int64 (field_vals ''grant_expires_at'' ms) (bl_expires x)) of
             (Some sk, Some org, Some ak, Some amount, Some start, Some expires) \<Rightarrow>
               Some \<lparr>bl_session_key = sk, bl_organization = org, bl_admin_key = ak, bl_amount = amount,
                     bl_start = start, bl_expires = expires\<rparr>
           | _ \<Rightarrow> None)
      | _ \<Rightarrow> None)"

definition billing_supports_url :: "string \<Rightarrow> bool" where
  "billing_supports_url base \<longleftrightarrow>
     rev (dropWhile (\<lambda>c. c = CHR ''/'') (rev (trim_space base))) = ''https://api.openai.com/v1''"

definition billing_plan :: string where "billing_plan = ''openai_api_credits''"

text \<open>Of a saved snapshot: its plan, whether it is estimated, and when the grant expires.\<close>

definition decode_balance :: "string \<Rightarrow> (string \<times> bool \<times> int) option" where
  "decode_balance raw =
     (case json_parse raw of
        None \<Rightarrow> None
      | Some v \<Rightarrow>
          (case struct_members v of
             None \<Rightarrow> None
           | Some ms \<Rightarrow>
               (case response_members (field_vals ''balance'' ms) of
                  None \<Rightarrow> None
                | Some bs \<Rightarrow>
                    (if \<not> list_all (\<lambda>name. decode_field store_float (field_vals name bs) 0 \<noteq> None)
                          [''granted_usd'', ''used_usd'', ''remaining_usd'', ''paid_available_usd'']
                        \<or> \<not> list_all (\<lambda>name. decode_field store_int64 (field_vals name bs) 0 \<noteq> None)
                          [''usage_through'', ''grant_start_at''] then None
                     else
                       (case (str_field ''plan_type'' ms, decode_field store_bool (field_vals ''estimated'' bs) False,
                              decode_field store_int64 (field_vals ''expires_at'' bs) 0) of
                          (Some plan, Some estimated, Some expires) \<Rightarrow> Some (plan, estimated, expires)
                        | _ \<Rightarrow> None)))))"

section \<open>Polls\<close>

text \<open>\<open>identity\<close> is the SHA-256 of the encoded credentials.\<close>

record billing_poll =
  bp_identity :: string
  bp_retry_at :: time
  bp_failures :: int
  bp_in_flight :: bool

type_synonym polls = "string \<Rightarrow> billing_poll option"

definition fresh_poll :: "string \<Rightarrow> billing_poll" where
  "fresh_poll identity = \<lparr>bp_identity = identity, bp_retry_at = zero_time, bp_failures = 0, bp_in_flight = False\<rparr>"

definition poll_of :: "polls \<Rightarrow> string \<Rightarrow> billing_poll" where
  "poll_of polls aid = (case polls aid of None \<Rightarrow> fresh_poll (replicate 32 (CHR 0x00)) | Some p \<Rightarrow> p)"

definition refresh_interval :: duration where "refresh_interval = 30 * minute"

text \<open>A saved estimate that is still good.\<close>

definition balance_fresh :: "time \<Rightarrow> account \<Rightarrow> bool" where
  "balance_fresh now a \<longleftrightarrow>
     a_quota_error a = []
   \<and> (case a_quota_checked a of None \<Rightarrow> False | Some t \<Rightarrow> t \<le> now \<and> now - t < refresh_interval)
   \<and> (case decode_balance (a_quota a) of
        None \<Rightarrow> False
      | Some (plan, estimated, expires) \<Rightarrow>
          plan = billing_plan \<and> estimated \<and> (expires = 0 \<or> unix_seconds now < expires))"

definition claim_billing_poll ::
  "(billing \<Rightarrow> string) \<Rightarrow> time \<Rightarrow> account \<Rightarrow> billing \<Rightarrow> bool \<Rightarrow> polls \<Rightarrow> bool \<times> polls" where
  "claim_billing_poll identity now a credentials force polls =
     (let current = poll_of polls (a_id a);
          poll = (if bp_identity current \<noteq> identity credentials then fresh_poll (identity credentials) else current)
      in if bp_in_flight poll \<or> now < bp_retry_at poll then (False, polls)
         else if \<not> force \<and> balance_fresh now a then (False, polls)
         else (True, polls(a_id a \<mapsto> poll\<lparr>bp_in_flight := True\<rparr>)))"

text \<open>What a read ended in: \<open>BalanceLimited code asked\<close> is a \<open>RateLimitError\<close>.\<close>

datatype balance_error = BalanceLimited string duration | BalanceExpired | BalanceInvalid | BalanceUnavailable

text \<open>The loop that doubles the delay, \<open>n\<close> times at most.\<close>

fun backoff :: "nat \<Rightarrow> duration \<Rightarrow> duration" where
  "backoff 0 delay = delay"
| "backoff (Suc n) delay = (if delay < refresh_interval then backoff n (delay * 2) else delay)"

definition poll_delay :: "int \<Rightarrow> duration \<Rightarrow> duration" where
  "poll_delay failures asked =
     (let doubled = backoff (nat (failures - 1)) minute;
          delay = (if refresh_interval < doubled then refresh_interval else doubled)
      in if delay < asked then asked else delay)"

definition finish_billing_poll ::
  "(billing \<Rightarrow> string) \<Rightarrow> time \<Rightarrow> string \<Rightarrow> billing \<Rightarrow> balance_error option \<Rightarrow> polls \<Rightarrow> polls" where
  "finish_billing_poll identity now aid credentials e polls =
     (let poll = poll_of polls aid in
      if bp_identity poll \<noteq> identity credentials then polls
      else
        (case e of
           Some (BalanceLimited code asked) \<Rightarrow>
             (let failures = bp_failures poll + 1 in
              polls(aid \<mapsto> poll\<lparr>bp_in_flight := False, bp_failures := failures,
                                bp_retry_at := now + poll_delay failures asked\<rparr>))
         | _ \<Rightarrow> polls(aid \<mapsto> poll\<lparr>bp_in_flight := False, bp_failures := 0, bp_retry_at := zero_time\<rparr>)))"

section \<open>The delay\<close>

lemma backoff_min: "0 < delay \<Longrightarrow> min refresh_interval (backoff n delay) = min refresh_interval (delay * 2 ^ n)"
proof (induction n arbitrary: delay)
  case (Suc n)
  show ?case
  proof (cases "delay < refresh_interval")
    case True
    then show ?thesis using Suc.IH [of "delay * 2"] Suc.prems by (simp add: mult.assoc)
  next
    case False
    moreover have "delay * 1 \<le> delay * 2 ^ Suc n"
      using Suc.prems one_le_power [of "2 :: int" "Suc n"] by (intro mult_left_mono) simp_all
    ultimately show ?thesis by (simp add: min_def)
  qed
qed simp

lemma poll_delay_value: "poll_delay (int k + 1) asked = max asked (min refresh_interval (minute * 2 ^ k))"
proof -
  have "min refresh_interval (backoff k minute) = min refresh_interval (minute * 2 ^ k)"
    by (rule backoff_min) (simp add: minute_def second_def)
  moreover have "poll_delay (int k + 1) asked = max asked (min refresh_interval (backoff k minute))"
    by (simp add: poll_delay_def Let_def min_def max_def)
  ultimately show ?thesis by simp
qed

text \<open>C39. Rate limits push the reading of a balance back: after a read that was limited, and \<open>k\<close> more just before it, no
  poll with these credentials is granted, forced or not, for the time the provider asked for and for at least
  \<open>2\<^sup>k\<close> minutes, capped at half an hour; from then on a forced poll is granted again; and new credentials
  are not held back.\<close>

theorem billing_backoff:
  assumes "bp_identity (poll_of polls (a_id a)) = identity c" and "bp_failures (poll_of polls (a_id a)) = int k"
    and "zero_time \<le> now"
  shows "let after = finish_billing_poll identity now (a_id a) c (Some (BalanceLimited code asked)) polls;
             until = now + max asked (min refresh_interval (minute * 2 ^ k))
    in bp_failures (poll_of after (a_id a)) = int (Suc k)
    \<and> (t < until \<longrightarrow> claim_billing_poll identity t a c force after = (False, after))
    \<and> (until \<le> t \<longrightarrow> fst (claim_billing_poll identity t a c True after))
    \<and> (identity c' \<noteq> identity c \<and> zero_time \<le> t \<longrightarrow> fst (claim_billing_poll identity t a c' True after))"
proof -
  let ?p = "poll_of polls (a_id a)"
  define until where "until = now + max asked (min refresh_interval (minute * 2 ^ k))"
  define after where "after = finish_billing_poll identity now (a_id a) c (Some (BalanceLimited code asked)) polls"
  have after: "after = polls(a_id a \<mapsto> ?p\<lparr>bp_in_flight := False, bp_failures := int k + 1, bp_retry_at := until\<rparr>)"
    unfolding after_def finish_billing_poll_def Let_def until_def using assms(1,2) by (simp add: poll_delay_value)
  then have "poll_of after (a_id a) = ?p\<lparr>bp_in_flight := False, bp_failures := int k + 1, bp_retry_at := until\<rparr>"
    by (simp add: poll_of_def)
  then show ?thesis using assms(1) unfolding Let_def after_def [symmetric] until_def [symmetric]
    by (simp add: claim_billing_poll_def fresh_poll_def Let_def)
qed

theorem billing_backoff_witness:
  "let a = no_account\<lparr>a_id := ''a''\<rparr>; c = no_billing\<lparr>bl_admin_key := ''k''\<rparr>;
       polls = snd (claim_billing_poll bl_admin_key 0 a c False Map.empty)
   in bp_failures (poll_of (finish_billing_poll bl_admin_key 0 ''a'' c (Some (BalanceLimited ''slow_down'' 0)) polls) ''a'') = 1"
proof -
  let ?a = "no_account\<lparr>a_id := ''a''\<rparr>" and ?c = "no_billing\<lparr>bl_admin_key := ''k''\<rparr>"
  let ?polls = "snd (claim_billing_poll bl_admin_key 0 ?a ?c False Map.empty)"
  have "0 - zero_time = 62135596800 * second" by (simp add: zero_time_def)
  then have z: "zero_time \<le> 0" by (simp add: second_def)
  have id: "bp_identity (poll_of ?polls (a_id ?a)) = bl_admin_key ?c" and n: "bp_failures (poll_of ?polls (a_id ?a)) = int 0"
    using z by (simp_all add: claim_billing_poll_def poll_of_def fresh_poll_def no_account_def no_billing_def balance_fresh_def Let_def)
  from billing_backoff [where identity = bl_admin_key and c = ?c, OF id n z, of "''slow_down''" 0 0 False no_billing] show ?thesis by (simp add: Let_def)
qed

section \<open>One reader at a time\<close>

text \<open>The readers of the balances, each with the credentials of its account: who was granted a poll holds it until the
  read ends.\<close>

inductive polling :: "(billing \<Rightarrow> string) \<Rightarrow> (string \<Rightarrow> billing) \<Rightarrow> polls \<Rightarrow> (string \<Rightarrow> nat) \<Rightarrow> bool"
  for identity :: "billing \<Rightarrow> string" and credentials :: "string \<Rightarrow> billing" where
  idle: "polling identity credentials Map.empty (\<lambda>_. 0)"
| granted: "polling identity credentials polls holders \<Longrightarrow>
    claim_billing_poll identity now a (credentials (a_id a)) force polls = (True, polls') \<Longrightarrow>
    polling identity credentials polls' (holders(a_id a := holders (a_id a) + 1))"
| refused: "polling identity credentials polls holders \<Longrightarrow>
    claim_billing_poll identity now a (credentials (a_id a)) force polls = (False, polls') \<Longrightarrow>
    polling identity credentials polls' holders"
| finished: "polling identity credentials polls holders \<Longrightarrow> 0 < holders aid \<Longrightarrow>
    polling identity credentials (finish_billing_poll identity now aid (credentials aid) e polls)
      (holders(aid := holders aid - 1))"

inductive_cases claim_elims: "polling identity credentials polls holders"

lemma claim_granted:
  "claim_billing_poll identity now a c force polls = (True, polls') \<Longrightarrow>
    polls' = polls(a_id a \<mapsto> poll_of polls' (a_id a)) \<and> bp_identity (poll_of polls' (a_id a)) = identity c
    \<and> bp_in_flight (poll_of polls' (a_id a))
    \<and> (bp_identity (poll_of polls (a_id a)) = identity c \<longrightarrow> \<not> bp_in_flight (poll_of polls (a_id a)))"
  by (auto simp: claim_billing_poll_def Let_def poll_of_def fresh_poll_def split: if_splits)

lemma claim_refused: "claim_billing_poll identity now a c force polls = (False, polls') \<Longrightarrow> polls' = polls"
  by (auto simp: claim_billing_poll_def Let_def split: if_splits)

lemma finish_other: "i \<noteq> aid \<Longrightarrow> poll_of (finish_billing_poll identity now aid c e polls) i = poll_of polls i"
  by (auto simp: finish_billing_poll_def Let_def poll_of_def split: option.splits balance_error.splits)

definition holds :: "(billing \<Rightarrow> string) \<Rightarrow> (string \<Rightarrow> billing) \<Rightarrow> polls \<Rightarrow> (string \<Rightarrow> nat) \<Rightarrow> string \<Rightarrow> bool" where
  "holds identity credentials polls holders i \<longleftrightarrow>
     (holders i = 0
      \<or> holders i = 1 \<and> bp_in_flight (poll_of polls i) \<and> bp_identity (poll_of polls i) = identity (credentials i))"

lemma polling_holds: "polling identity credentials polls holders \<Longrightarrow> holds identity credentials polls holders i"
proof (induction arbitrary: i rule: polling.induct)
  case (granted polls holders now a force polls' i)
  note c = claim_granted [OF granted.hyps(2)]
  show ?case
  proof (cases "i = a_id a")
    case True
    have "holders (a_id a) = 0" using granted.IH [of "a_id a"] c unfolding holds_def by blast
    then show ?thesis using True c by (simp add: holds_def)
  next
    case False
    then have "poll_of polls' i = poll_of polls i" using c by (metis fun_upd_other poll_of_def)
    then show ?thesis using False granted.IH [of i] by (simp add: holds_def)
  qed
next
  case (refused polls holders now a force polls' i)
  then show ?case by (auto dest: claim_refused)
next
  case (finished polls holders aid now e i)
  show ?case
  proof (cases "i = aid")
    case True
    have "holders aid = 1" using finished.IH [of aid] finished.hyps(2) by (auto simp: holds_def)
    then show ?thesis using True by (simp add: holds_def)
  next
    case False
    then show ?thesis using finished.IH [of i] by (simp add: holds_def finish_other)
  qed
qed (simp add: holds_def)

text \<open>Concurrent checks share one request: however the checks of all accounts claim and finish polls, never more than one
  of them is reading the balance of an account.\<close>

theorem one_balance_reader: "polling identity credentials polls holders \<Longrightarrow> holders aid \<le> 1"
  using polling_holds [of identity credentials polls holders aid] by (auto simp: holds_def)

theorem one_balance_reader_witness: "((\<lambda>_. 0)(''a'' := 0 + 1)) ''a'' \<le> (1 :: nat)"
proof -
  let ?a = "no_account\<lparr>a_id := ''a''\<rparr>"
  have i: "a_id ?a = ''a''" by (simp add: no_account_def)
  obtain polls where "claim_billing_poll bl_admin_key zero_time ?a no_billing False Map.empty = (True, polls)"
    by (simp add: claim_billing_poll_def poll_of_def fresh_poll_def no_account_def no_billing_def balance_fresh_def Let_def)
  from polling.granted [OF polling.idle [of bl_admin_key "\<lambda>_. no_billing"] this]
  have "polling bl_admin_key (\<lambda>_. no_billing) polls ((\<lambda>_. 0)(''a'' := 0 + 1))" unfolding i .
  then show ?thesis by (rule one_balance_reader)
qed

end
