(* ===== verification/Health.thy ===== *)
theory Health
  imports Gateway_Call Store_Integrity Health_Billing "HOL-Library.Word"
begin

unbundle bit_operations_syntax

text \<open>
  \<open>internal/health\<close> (\<open>checker.go\<close>, \<open>bailian.go\<close>, \<open>antigravity.go\<close>, \<open>openai_balance.go\<close>): what a check asks the provider of an
  account, how it reads the answer, and what it writes to the store. The requests themselves are parameters, functions of
  the number of steps made so far; the store, the clocks and the refresh of credentials come from the world of \<open>Gateway\<close>.
\<close>

section \<open>What a check asks and what it finds\<close>

text \<open>An error of a client: its text, and what \<open>errors.Is\<close>, \<open>errors.As\<close> and the two \<open>IsDefinitiveAuthError\<close> say of it.\<close>

record probe_error =
  xe_message :: string
  xe_deadline :: bool
  xe_copilot_auth :: bool
  xe_antigravity_auth :: bool
  xe_incomplete :: bool

record bailian =
  bk_id :: string
  bk_secret :: string
  bk_token :: string
  bk_agent :: int

record compatible =
  cc_base_url :: string
  cc_api_key :: string
  cc_billing :: "billing option"
  cc_bailian :: "bailian option"

datatype bailian_error = BailianExpired | BailianDenied | BailianInvalid | BailianOther

text \<open>The clients a checker is built with; \<open>None\<close> is a client that is missing. A snapshot is its JSON text (\<open>None\<close> when it
  does not encode) and, where it has one, its verdict on further use. \<open>hp_email\<close> is the address in the credentials of a
  provider, \<open>hp_bailian_url\<close> what \<open>bailian.SupportsURL\<close> says (it goes through \<open>net/url\<close>), \<open>hp_identity\<close> the hash of billing
  credentials.\<close>

record probes =
  hp_email :: "string \<Rightarrow> string \<Rightarrow> string"
  hp_codex :: "nat \<Rightarrow> string \<Rightarrow> probe_error + (string option \<times> bool option)"
  hp_copilot :: "(nat \<Rightarrow> string \<Rightarrow> probe_error + (string option \<times> bool option)) option"
  hp_antigravity :: "(nat \<Rightarrow> string \<Rightarrow> probe_error + string option) option"
  hp_refresher :: bool
  hp_models :: "nat \<Rightarrow> compatible \<Rightarrow> probe_error + int"
  hp_bailian :: "nat \<Rightarrow> bailian \<Rightarrow> bailian_error + string"
  hp_bailian_url :: "string \<Rightarrow> bool"
  hp_balance :: "nat \<Rightarrow> billing \<Rightarrow> balance_error + string"
  hp_identity :: "billing \<Rightarrow> string"

text \<open>\<open>Result\<close>; a snapshot that is missing is empty.\<close>

record result =
  hr_health :: string
  hr_error :: string
  hr_quota_error :: string
  hr_email :: string
  hr_quota :: string
  hr_allowed :: "bool option"
  hr_auth_failed :: bool
  hr_failure :: bool
  hr_probe_failed :: bool
  hr_skipped :: bool

definition found :: "string \<Rightarrow> string \<Rightarrow> result" where
  "found health code =
     \<lparr>hr_health = health, hr_error = code, hr_quota_error = [], hr_email = [], hr_quota = [], hr_allowed = None,
      hr_auth_failed = False, hr_failure = False, hr_probe_failed = False, hr_skipped = False\<rparr>"

definition unavailable_credentials :: result where
  "unavailable_credentials = (found health_unhealthy ''credential_unavailable'')\<lparr>hr_failure := True\<rparr>"

definition invalid_usage :: result where
  "invalid_usage =
     (found health_unknown ''invalid_usage_response'')\<lparr>hr_quota_error := ''invalid_usage_response'', hr_failure := True\<rparr>"

text \<open>The state of a checker: what it shares with the gateway, and its polls of balances.\<close>

type_synonym checker = "gateway \<times> polls"

text \<open>A request to a provider is a step.\<close>

definition ask :: "(nat \<Rightarrow> 'a) \<Rightarrow> gateway \<Rightarrow> 'a \<times> gateway" where
  "ask f g = (f (g_step g), g\<lparr>g_step := Suc (g_step g)\<rparr>)"

section \<open>Classification of errors\<close>

definition classify_error :: "probe_error \<Rightarrow> result" where
  "classify_error e =
     (let message = to_lower (xe_message e);
          rejected = (found health_unhealthy ''authentication_failed'')\<lparr>hr_auth_failed := True\<rparr>
      in if xe_copilot_auth e then rejected
         else if xe_deadline e \<or> str_contains ''timeout'' message
         then (found health_unknown ''timeout'')\<lparr>hr_failure := True\<rparr>
         else if str_contains ''status 401'' message \<or> str_contains ''status 403'' message then rejected
         else if str_contains ''status 429'' message then found health_unknown ''quota_probe_rate_limited''
         else (found health_unknown ''connection_failed'')\<lparr>hr_failure := True\<rparr>)"

text \<open>A read of the quota that failed says nothing of the health, unless the credentials were refused.\<close>

definition classify_codex_quota_error :: "probe_error \<Rightarrow> result" where
  "classify_codex_quota_error e =
     (let r = classify_error e; r1 = r\<lparr>hr_quota_error := hr_error r\<rparr> in
      if hr_auth_failed r1 then r1 else r1\<lparr>hr_error := [], hr_failure := False, hr_probe_failed := True\<rparr>)"

definition classify_copilot_quota_error :: "probe_error \<Rightarrow> result" where
  "classify_copilot_quota_error e =
     (if xe_incomplete e then unavailable_credentials
      else
        let r = classify_error e; r1 = r\<lparr>hr_quota_error := hr_error r\<rparr> in
        if hr_auth_failed r1 then r1 else r1\<lparr>hr_error := [], hr_failure := False, hr_probe_failed := True\<rparr>)"

definition antigravity_quota_failure :: "bool \<Rightarrow> result" where
  "antigravity_quota_failure definitive =
     (if definitive
      then (found health_unhealthy ''authentication_failed'')\<lparr>hr_quota_error := ''authentication_failed'', hr_auth_failed := True\<rparr>
      else (found health_unknown [])\<lparr>hr_quota_error := ''quota_probe_failed'', hr_probe_failed := True\<rparr>)"

text \<open>\<open>antigravity.IsDefinitiveAuthError\<close> of a failed refresh.\<close>

definition antigravity_definitive :: "refresh_failure \<Rightarrow> bool" where
  "antigravity_definitive e =
     (case e of AntigravityHttp status code \<Rightarrow> status = 401 \<or> code = ''invalid_grant'' | _ \<Rightarrow> False)"

section \<open>Compatible endpoints\<close>

definition store_bailian :: "json \<Rightarrow> bailian \<Rightarrow> bailian option" where
  "store_bailian v x =
     (case v of
        JObj ms \<Rightarrow>
          (case (decode_field store_string (field_vals ''access_key_id'' ms) (bk_id x),
                 decode_field store_string (field_vals ''access_key_secret'' ms) (bk_secret x),
                 decode_field store_string (field_vals ''access_token'' ms) (bk_token x),
                 decode_field store_int64 (field_vals ''console_switch_agent'' ms) (bk_agent x)) of
             (Some i, Some s, Some t, Some n) \<Rightarrow> Some \<lparr>bk_id = i, bk_secret = s, bk_token = t, bk_agent = n\<rparr>
           | _ \<Rightarrow> None)
      | _ \<Rightarrow> None)"

definition decode_compatible :: "string \<Rightarrow> compatible option" where
  "decode_compatible plaintext =
     (case json_parse plaintext of
        None \<Rightarrow> None
      | Some v \<Rightarrow>
          (case struct_members v of
             None \<Rightarrow> None
           | Some ms \<Rightarrow>
               (case (str_field ''base_url'' ms, str_field ''api_key'' ms,
                      decode_ptr store_billing no_billing (field_vals ''openai_billing'' ms),
                      decode_ptr store_bailian \<lparr>bk_id = [], bk_secret = [], bk_token = [], bk_agent = 0\<rparr>
                        (field_vals ''bailian_quota'' ms)) of
                  (Some url, Some key, Some b, Some q) \<Rightarrow>
                    Some \<lparr>cc_base_url = url, cc_api_key = key, cc_billing = b, cc_bailian = q\<rparr>
                | _ \<Rightarrow> None)))"

definition compatible_health :: "probe_error + int \<Rightarrow> result" where
  "compatible_health answer =
     (case answer of
        Inl e \<Rightarrow> classify_error e
      | Inr status \<Rightarrow>
          (if 200 \<le> status \<and> status < 300 then found health_healthy []
           else if status = 401 \<or> status = 403
           then (found health_unhealthy ''authentication_failed'')\<lparr>hr_auth_failed := True\<rparr>
           else if status = 429 then found health_healthy []
           else if status = 404 \<or> status = 405 then found health_unknown ''probe_unsupported''
           else if 500 \<le> status then (found health_unknown ''provider_5xx'')\<lparr>hr_failure := True\<rparr>
           else (found health_unknown ''provider_error'')\<lparr>hr_failure := True\<rparr>))"

definition openai_quota ::
  "world \<Rightarrow> probes \<Rightarrow> compatible \<Rightarrow> account \<Rightarrow> bool \<Rightarrow> checker \<Rightarrow> result \<times> checker" where
  "openai_quota w pr c a force m =
     (case (cc_billing c, m) of
        (None, _) \<Rightarrow> ((found health_healthy [])\<lparr>hr_quota_error := ''quota_authorization_required''\<rparr>, m)
      | (Some b, g, polls) \<Rightarrow>
          (case (if bl_admin_key b \<noteq> [] then claim_billing_poll (hp_identity pr) (clock w g) a b force polls
                 else (True, polls)) of
             (False, polls1) \<Rightarrow> ((found health_healthy [])\<lparr>hr_skipped := True\<rparr>, g, polls1)
           | (True, polls1) \<Rightarrow>
               (case ask (\<lambda>i. hp_balance pr i b) g of
                  (answer, g1) \<Rightarrow>
                    (let polls2 = (if bl_admin_key b \<noteq> []
                           then finish_billing_poll (hp_identity pr) (clock w g1) (a_id a) b
                                  (case answer of Inl e \<Rightarrow> Some e | Inr _ \<Rightarrow> None) polls1
                           else polls1)
                     in (case answer of
                           Inr raw \<Rightarrow> (found health_healthy [])\<lparr>hr_quota := raw\<rparr>
                         | Inl e \<Rightarrow> (found health_healthy [])\<lparr>hr_quota_error :=
                             (case e of
                                BalanceLimited code _ \<Rightarrow>
                                  (if code \<in> {''rate_limit_exceeded'', ''slow_down'', ''unknown''}
                                   then ''quota_probe_rate_limited'' else ''quota_unavailable'')
                              | BalanceExpired \<Rightarrow> ''quota_authorization_expired''
                              | BalanceInvalid \<Rightarrow> ''invalid_usage_response''
                              | BalanceUnavailable \<Rightarrow> ''quota_unavailable'')\<rparr>,
                         g1, polls2)))))"

definition compatible_quota ::
  "world \<Rightarrow> probes \<Rightarrow> compatible \<Rightarrow> account \<Rightarrow> bool \<Rightarrow> checker \<Rightarrow> result \<times> checker" where
  "compatible_quota w pr c a force m =
     (if billing_supports_url (cc_base_url c) then openai_quota w pr c a force m
      else if \<not> hp_bailian_url pr (cc_base_url c) then (found health_healthy [], m)
      else
        (case cc_bailian c of
           None \<Rightarrow> ((found health_healthy [])\<lparr>hr_quota_error := ''quota_authorization_required''\<rparr>, m)
         | Some b \<Rightarrow>
             (case ask (\<lambda>i. hp_bailian pr i b) (fst m) of
                (answer, g1) \<Rightarrow>
                  (case answer of
                     Inr raw \<Rightarrow> (found health_healthy [])\<lparr>hr_quota := raw\<rparr>
                   | Inl e \<Rightarrow> (found health_healthy [])\<lparr>hr_quota_error :=
                       (case e of
                          BailianExpired \<Rightarrow> ''quota_authorization_expired''
                        | BailianDenied \<Rightarrow> ''quota_permission_denied''
                        | BailianInvalid \<Rightarrow> ''invalid_usage_response''
                        | BailianOther \<Rightarrow> ''quota_unavailable'')\<rparr>,
                   g1, snd m))))"

definition check_compatible ::
  "world \<Rightarrow> probes \<Rightarrow> string \<Rightarrow> account \<Rightarrow> bool \<Rightarrow> checker \<Rightarrow> result \<times> checker" where
  "check_compatible w pr plaintext a force m =
     (case decode_compatible plaintext of
        None \<Rightarrow> (unavailable_credentials, m)
      | Some c \<Rightarrow>
          (case ask (\<lambda>i. hp_models pr i c) (fst m) of
             (answer, g1) \<Rightarrow>
               (case compatible_quota w pr c a force (g1, snd m) of
                  (quota, m2) \<Rightarrow>
                    ((compatible_health answer)\<lparr>hr_quota := hr_quota quota, hr_quota_error := hr_quota_error quota,
                        hr_skipped := hr_skipped quota\<rparr>, m2))))"

section \<open>Antigravity\<close>

text \<open>The credentials of an account, as their plaintext, when they decrypt and decode.\<close>

definition antigravity_credentials :: "world \<Rightarrow> account \<Rightarrow> string option" where
  "antigravity_credentials w a =
     (case w_decrypt w (a_ciphertext a) of
        None \<Rightarrow> None
      | Some plaintext \<Rightarrow> if w_decode w provider_antigravity plaintext = None then None else Some plaintext)"

definition antigravity_found :: "probes \<Rightarrow> string \<Rightarrow> string option \<Rightarrow> result" where
  "antigravity_found pr plaintext snapshot =
     (case snapshot of
        None \<Rightarrow> antigravity_quota_failure False
      | Some raw \<Rightarrow> (found health_healthy [])\<lparr>hr_email := hp_email pr provider_antigravity plaintext, hr_quota := raw\<rparr>)"

text \<open>The request for the models, repeated once with fresh credentials when the provider refuses the old ones.\<close>

definition ask_antigravity ::
  "world \<Rightarrow> probes \<Rightarrow> (nat \<Rightarrow> string \<Rightarrow> probe_error + string option) \<Rightarrow> account \<Rightarrow> string \<Rightarrow> bool \<Rightarrow> gateway \<Rightarrow> result \<times> gateway" where
  "ask_antigravity w pr models a plaintext refreshed g =
     (case ask (\<lambda>i. models i plaintext) g of
        (Inr snapshot, g1) \<Rightarrow> (antigravity_found pr plaintext snapshot, g1)
      | (Inl e, g1) \<Rightarrow>
          (if xe_antigravity_auth e \<and> \<not> refreshed \<and> hp_refresher pr
           then
             (case refresh w a g1 of
                (Inl f, g2) \<Rightarrow> (antigravity_quota_failure (antigravity_definitive f), g2)
              | (Inr b, g2) \<Rightarrow>
                  (case antigravity_credentials w b of
                     None \<Rightarrow> (antigravity_quota_failure False, g2)
                   | Some plaintext' \<Rightarrow>
                       (case ask (\<lambda>i. models i plaintext') g2 of
                          (Inl e', g3) \<Rightarrow> (antigravity_quota_failure (xe_antigravity_auth e'), g3)
                        | (Inr snapshot, g3) \<Rightarrow> (antigravity_found pr plaintext' snapshot, g3))))
           else (antigravity_quota_failure (xe_antigravity_auth e), g1)))"

definition check_antigravity :: "world \<Rightarrow> probes \<Rightarrow> account \<Rightarrow> string \<Rightarrow> gateway \<Rightarrow> result \<times> gateway" where
  "check_antigravity w pr a plaintext g =
     (case (hp_antigravity pr, w_decode w provider_antigravity plaintext) of
        (Some models, Some expires) \<Rightarrow>
          (if expires - clock w g \<le> minute
           then
             (if \<not> hp_refresher pr then (antigravity_quota_failure False, g)
              else
                (case refresh w a g of
                   (Inl f, g1) \<Rightarrow> (antigravity_quota_failure (antigravity_definitive f), g1)
                 | (Inr b, g1) \<Rightarrow>
                     (case antigravity_credentials w b of
                        None \<Rightarrow> (unavailable_credentials, g1)
                      | Some plaintext' \<Rightarrow> ask_antigravity w pr models b plaintext' True g1)))
           else ask_antigravity w pr models a plaintext False g)
      | _ \<Rightarrow> (unavailable_credentials, g))"

section \<open>A check\<close>

definition check_codex :: "world \<Rightarrow> probes \<Rightarrow> string \<Rightarrow> gateway \<Rightarrow> result \<times> gateway" where
  "check_codex w pr plaintext g =
     (case w_decode w provider_codex plaintext of
        None \<Rightarrow> (unavailable_credentials\<lparr>hr_quota_error := ''credential_unavailable''\<rparr>, g)
      | Some _ \<Rightarrow>
          (case ask (\<lambda>i. hp_codex pr i plaintext) g of
             (Inl e, g1) \<Rightarrow> (classify_codex_quota_error e, g1)
           | (Inr (None, _), g1) \<Rightarrow> (invalid_usage, g1)
           | (Inr (Some raw, allowed), g1) \<Rightarrow>
               ((found health_healthy [])\<lparr>hr_email := hp_email pr provider_codex plaintext, hr_quota := raw,
                  hr_allowed := allowed\<rparr>, g1)))"

definition check_copilot :: "world \<Rightarrow> probes \<Rightarrow> string \<Rightarrow> gateway \<Rightarrow> result \<times> gateway" where
  "check_copilot w pr plaintext g =
     (case (w_decode w provider_copilot plaintext, hp_copilot pr) of
        (Some _, Some credits) \<Rightarrow>
          (case ask (\<lambda>i. credits i plaintext) g of
             (Inl e, g1) \<Rightarrow> (classify_copilot_quota_error e, g1)
           | (Inr (None, _), g1) \<Rightarrow> (invalid_usage, g1)
           | (Inr (Some raw, allowed), g1) \<Rightarrow>
               ((found health_healthy [])\<lparr>hr_email := hp_email pr provider_copilot plaintext, hr_quota := raw,
                  hr_allowed := allowed\<rparr>, g1))
      | _ \<Rightarrow> (unavailable_credentials, g))"

definition check_provider :: "world \<Rightarrow> probes \<Rightarrow> account \<Rightarrow> bool \<Rightarrow> checker \<Rightarrow> result \<times> checker" where
  "check_provider w pr a force m =
     (case w_decrypt w (a_ciphertext a) of
        None \<Rightarrow>
          (unavailable_credentials\<lparr>hr_quota_error :=
             (if a_provider a = provider_codex then ''credential_unavailable'' else [])\<rparr>, m)
      | Some plaintext \<Rightarrow>
          (if a_provider a = provider_codex then apsnd (\<lambda>g. (g, snd m)) (check_codex w pr plaintext (fst m))
           else if a_provider a = provider_openai_compatible then check_compatible w pr plaintext a force m
           else if a_provider a = provider_antigravity
           then apsnd (\<lambda>g. (g, snd m)) (check_antigravity w pr a plaintext (fst m))
           else if a_provider a = provider_copilot
           then apsnd (\<lambda>g. (g, snd m)) (check_copilot w pr plaintext (fst m))
           else (found health_unknown ''probe_unsupported'', m)))"

section \<open>The next check\<close>

text \<open>\<open>crc32.ChecksumIEEE\<close>, bit by bit.\<close>

definition crc_shift :: "32 word \<Rightarrow> 32 word" where
  "crc_shift c = (if bit c 0 then drop_bit 1 c XOR 0xEDB88320 else drop_bit 1 c)"

definition crc_byte :: "32 word \<Rightarrow> char \<Rightarrow> 32 word" where
  "crc_byte crc c = (crc_shift ^^ 8) (crc XOR word_of_nat (byte c))"

definition crc32 :: "string \<Rightarrow> 32 word" where
  "crc32 s = NOT (foldl crc_byte (NOT 0) s)"

definition next_check :: "string \<Rightarrow> time \<Rightarrow> time" where
  "next_check aid now = now + (5 * minute + uint (crc32 aid mod 60) * second)"

section \<open>What a check writes\<close>

definition apply_new_account :: "time \<Rightarrow> result \<Rightarrow> account \<Rightarrow> account" where
  "apply_new_account now r a =
     (let nxt = next_check (a_id a) now in
      if hr_probe_failed r
      then a\<lparr>a_health := health_unknown, a_quota_error := hr_quota_error r, a_next_check := Some nxt\<rparr>
      else
        let a1 = a\<lparr>a_health := hr_health r, a_email := hr_email r, a_quota := hr_quota r\<rparr>;
            a2 = (if hr_quota r \<noteq> [] then a1\<lparr>a_quota_checked := Some now, a_quota_error := []\<rparr>
                  else if hr_quota_error r \<noteq> [] then a1\<lparr>a_quota_error := hr_quota_error r\<rparr> else a1);
            a3 = a2\<lparr>a_health_error := hr_error r, a_checked_at := Some now, a_next_check := Some nxt\<rparr>;
            a4 = (if hr_allowed r = Some False \<and> a_status a3 \<noteq> account_disabled \<and> a_status a3 \<noteq> account_auth_failed
                  then a3\<lparr>a_status := account_exhausted\<rparr> else a3)
        in (if hr_failure r then a4\<lparr>a_failures := 1\<rparr> else a4))"

text \<open>The part of \<open>persist\<close> that records the verdict on the account.\<close>

definition persist_verdict :: "world \<Rightarrow> string \<Rightarrow> result \<Rightarrow> time \<Rightarrow> gateway \<Rightarrow> (store_error + unit) \<times> gateway" where
  "persist_verdict w aid r now g =
     (let nxt = next_check aid now;
          health = (\<lambda>_ tx d. no_result (set_provider_health tx aid (hr_health r) (hr_error r) now nxt d))
      in if hr_auth_failed r
         then store_do w (\<lambda>_ tx d. no_result (update_provider_status tx aid account_auth_failed None d)) g
         else if hr_failure r
         then store_do w (\<lambda>_ tx d. no_result (record_health_failure tx aid (hr_error r) now nxt d)) g
         else
           (case hr_allowed r of
              None \<Rightarrow> store_do w health g
            | Some allowed \<Rightarrow>
                (case store_do w (\<lambda>_ tx d. no_result (set_usage_allowed tx aid allowed d)) g of
                   (Inl e, g1) \<Rightarrow> (Inl e, g1)
                 | (Inr _, g1) \<Rightarrow> store_do w health g1)))"

definition persist :: "world \<Rightarrow> string \<Rightarrow> result \<Rightarrow> gateway \<Rightarrow> (store_error + unit) \<times> gateway" where
  "persist w aid r g =
     (let now = clock w g;
          quota_error = (\<lambda>_ tx d. no_result (set_provider_quota_error tx aid (hr_quota_error r) (next_check aid now) d))
      in if hr_probe_failed r then store_do w quota_error g
         else
           (case persist_verdict w aid r now g of
              (Inl e, g1) \<Rightarrow> (Inl e, g1)
            | (Inr _, g1) \<Rightarrow>
                (if hr_skipped r then (Inr (), g1)
                 else if hr_email r \<noteq> [] \<or> hr_quota r \<noteq> []
                 then store_do w (\<lambda>_ tx d. no_result (update_provider_details tx aid (hr_email r) (hr_quota r) now d)) g1
                 else if hr_quota_error r \<noteq> [] then store_do w quota_error g1
                 else (Inr (), g1))))"

definition read_account :: "world \<Rightarrow> string \<Rightarrow> gateway \<Rightarrow> (store_error + account) \<times> gateway" where
  "read_account w aid g = store_do w (\<lambda>_ _ d. read_only d (get_provider_account aid d)) g"

definition reactivate :: "world \<Rightarrow> string \<Rightarrow> time \<Rightarrow> gateway \<Rightarrow> (store_error + bool) \<times> gateway" where
  "reactivate w aid t g = store_do w (\<lambda>_ tx d. Inr (reactivate_if_cooldown_expired tx aid t d)) g"

text \<open>\<open>CheckAccount\<close>, the check an administrator asks for.\<close>

definition check_account :: "world \<Rightarrow> probes \<Rightarrow> string \<Rightarrow> checker \<Rightarrow> (store_error + account) \<times> checker" where
  "check_account w pr aid m =
     (case m of
        (g, polls) \<Rightarrow>
          (case reactivate w aid (clock w g) g of
             (Inl e, g1) \<Rightarrow> (Inl e, g1, polls)
           | (Inr _, g1) \<Rightarrow>
               (case read_account w aid g1 of
                  (Inl e, g2) \<Rightarrow> (Inl e, g2, polls)
                | (Inr a, g2) \<Rightarrow>
                    (case check_provider w pr a True (g2, polls) of
                       (r, g3, polls3) \<Rightarrow>
                         (case persist w (a_id a) r g3 of
                            (Inl e, g4) \<Rightarrow> (Inl e, g4, polls3)
                          | (Inr _, g4) \<Rightarrow>
                              (case read_account w (a_id a) g4 of (b, g5) \<Rightarrow> (b, g5, polls3)))))))"

text \<open>One account of a batch; \<open>now\<close> is the time of the claim. Errors are logged. The other accounts of the batch are
  checked at the same time by other goroutines: what they commit is part of what others commit.\<close>

definition check_claimed :: "world \<Rightarrow> probes \<Rightarrow> time \<Rightarrow> account \<Rightarrow> checker \<Rightarrow> checker" where
  "check_claimed w pr now a m =
     (case (if a_status a = account_cooling_down
            then (case reactivate w (a_id a) now (fst m) of
                    (Inr True, g1) \<Rightarrow> (Some (a\<lparr>a_status := account_active, a_cooldown := None\<rparr>), g1)
                  | (_, g1) \<Rightarrow> (None, g1))
            else (Some a, fst m)) of
        (None, g1) \<Rightarrow> (g1, snd m)
      | (Some a1, g1) \<Rightarrow>
          (case (if a_provider a1 = provider_openai_compatible then read_account w (a_id a1) g1 else (Inr a1, g1)) of
             (Inl e, g2) \<Rightarrow> (g2, snd m)
           | (Inr a2, g2) \<Rightarrow>
               (case check_provider w pr a2 False (g2, snd m) of
                  (r, g3, polls3) \<Rightarrow> (snd (persist w (a_id a2) r g3), polls3))))"

definition run_batch :: "world \<Rightarrow> probes \<Rightarrow> checker \<Rightarrow> checker" where
  "run_batch w pr m =
     (let now = clock w (fst m) in
      case store_do w (\<lambda>_ tx d. Inr (claim_health_checks tx 50 now (now + 2 * minute) d)) (fst m) of
        (Inl e, g1) \<Rightarrow> (g1, snd m)
      | (Inr accounts, g1) \<Rightarrow> fold (check_claimed w pr now) accounts (g1, snd m))"

end
