(* ===== verification/Control.thy ===== *)
theory Control
  imports Admin Ids Health
begin

text \<open>
  The control server (\<open>internal/control/server.go\<close> and \<open>pools_keys_usage.go\<close>): the gate of administrators, the
  decoding of request bodies, and the handlers of sessions and keys as functions of the request and the state; the other
  handlers are in \<open>Control_Pools\<close>, \<open>Control_Accounts\<close> and \<open>Control_Resets\<close>. A reply is its status, what its body
  renders and the cookie it sets. The clocks, the faults of the store and the transactions of others come from the
  world of \<open>Gateway\<close>.
\<close>

section \<open>Requests and replies\<close>

text \<open>\<open>rq_query\<close> is \<open>URL.Query().Get\<close>.\<close>

record request =
  rq_cookie :: "string option"
  rq_body :: string
  rq_id :: string
  rq_source :: string
  rq_query :: "string \<Rightarrow> string"

text \<open>What consuming a reset credit answers: the outcome, the new quota with its verdict on further use, and the credits
  left (each as JSON text).\<close>

record consumed =
  cs_outcome :: string
  cs_quota :: "(string option \<times> bool option) option"
  cs_credits :: "string option"

text \<open>What lists add to an account.\<close>

record quota_info =
  qi_provider :: string
  qi_authorized :: bool
  qi_method :: string
  qi_hint :: string

datatype reply_body =
  Message string | Coded string string | Authenticated bool | NoContent
| AccountBody account | AccountList "(account \<times> quota_info) list" | PoolBody pool | PoolList "pool list"
| MemberBody pool_account | KeyBody string string string string string | KeyList "api_key list" | Revoked
| SettingsBody settings | StatusBody string | AuthorizedBody bool | CreditsBody string "time option"
| ConsumedBody consumed

datatype cookie = NoCookie | SetSession string | ClearSession

text \<open>\<open>rp_routing\<close> is the account for which \<open>onAccountRoutingChange\<close> is called (\<open>cmd/subpool\<close> closes its WebSockets then).\<close>

record reply =
  rp_status :: int
  rp_body :: reply_body
  rp_cookie :: cookie
  rp_routing :: "string option"

text \<open>What the server is built with. \<open>ce_random i n\<close> are the random bytes of the \<open>n\<close>-th draw in step \<open>i\<close>, \<open>ce_health\<close> the clients
  of the health checker (\<open>None\<close> when there is none), \<open>ce_time\<close> the reader of JSON times (of the text without escapes),
  \<open>ce_float\<close> the JSON text of a float, \<open>ce_base_url\<close> what \<open>net/url\<close> says of a base URL (HTTP, with a host, without user,
  query and fragment) and \<open>ce_bailian_url\<close> what \<open>bailian.SupportsURL\<close> says of it. The clients of quotas and resets answer in
  a step: \<open>ce_bailian\<close> and \<open>ce_balance\<close> with a snapshot, \<open>ce_verify\<close> with whether a key belongs to an organization. \<open>ce_resets\<close>
  are the two requests for reset credits and \<open>ce_snapshot\<close> says whether stored credits decode.\<close>

record control_env =
  ce_admin :: admin
  ce_random :: "nat \<Rightarrow> nat \<Rightarrow> string"
  ce_encrypt :: "string \<Rightarrow> string option"
  ce_health :: "probes option"
  ce_time :: "string \<Rightarrow> time option"
  ce_float :: "rat \<Rightarrow> string"
  ce_base_url :: "string \<Rightarrow> bool"
  ce_bailian_url :: "string \<Rightarrow> bool"
  ce_bailian :: "nat \<Rightarrow> bailian \<Rightarrow> string option"
  ce_balance :: "nat \<Rightarrow> billing \<Rightarrow> string option"
  ce_verify :: "nat \<Rightarrow> string \<Rightarrow> string \<Rightarrow> bool"
  ce_resets :: "((nat \<Rightarrow> string \<Rightarrow> string option) \<times> (nat \<Rightarrow> string \<Rightarrow> string \<Rightarrow> string \<Rightarrow> consumed option)) option"
  ce_snapshot :: "string \<Rightarrow> bool"
  ce_max_body :: int
  ce_max_inflight :: int

type_synonym handler = "world \<Rightarrow> control_env \<Rightarrow> request \<Rightarrow> gateway \<Rightarrow> reply \<times> gateway"

definition say :: "int \<Rightarrow> reply_body \<Rightarrow> gateway \<Rightarrow> reply \<times> gateway" where
  "say status body g = (\<lparr>rp_status = status, rp_body = body, rp_cookie = NoCookie, rp_routing = None\<rparr>, g)"

definition write_error :: "int \<Rightarrow> string \<Rightarrow> gateway \<Rightarrow> reply \<times> gateway" where
  "write_error status message g = say status (Message message) g"

definition write_store_error :: "store_error \<Rightarrow> gateway \<Rightarrow> reply \<times> gateway" where
  "write_store_error e g =
     (if e = NotFound then write_error 404 ''resource not found'' g
      else if e = Conflict then write_error 409 ''resource reference is invalid or already exists'' g
      else write_error 500 ''operation failed'' g)"

text \<open>\<open>audit\<close>: an error is only logged.\<close>

definition audit_note :: "world \<Rightarrow> string \<Rightarrow> string \<Rightarrow> string \<Rightarrow> string \<Rightarrow> gateway \<Rightarrow> gateway" where
  "audit_note w action target_type target result g =
     store_note w (\<lambda>now d. audit_event now ''admin'' action target_type target result d) g"

section \<open>Decoding of bodies\<close>

definition max_control_body :: nat where "max_control_body = 1048576"

text \<open>\<open>decode\<close>: one JSON value for a struct, with no unknown fields and nothing after it.\<close>

definition known_members :: "string list \<Rightarrow> (string \<times> json) list \<Rightarrow> bool" where
  "known_members names ms \<longleftrightarrow> list_all (\<lambda>m. fold_name (fst m) \<in> fold_name ` set names) ms"

definition strict_members :: "string list \<Rightarrow> string \<Rightarrow> (string \<times> json) list option" where
  "strict_members names body =
     (case json_parse body of
        None \<Rightarrow> None
      | Some v \<Rightarrow>
          (case struct_members v of
             None \<Rightarrow> None
           | Some ms \<Rightarrow> if known_members names ms then Some ms else None))"

definition decode_members :: "string list \<Rightarrow> string \<Rightarrow> (string \<times> json) list option" where
  "decode_members names body = (if max_control_body < length body then None else strict_members names body)"

text \<open>A slice: \<open>null\<close> makes it \<open>nil\<close>, and an element is decoded over what was at its place. (What a slice keeps beyond its
  length, which a third member of the same name could bring back, is not modelled.)\<close>

definition store_slice :: "(json \<Rightarrow> 'a \<Rightarrow> 'a option) \<Rightarrow> 'a \<Rightarrow> json \<Rightarrow> 'a list \<Rightarrow> 'a list option" where
  "store_slice dec zero v xs =
     (case v of
        JNull \<Rightarrow> Some []
      | JArr vs \<Rightarrow>
          (let ys = map (\<lambda>i. let x = (if i < length xs then xs ! i else zero)
                            in if vs ! i = JNull then Some x else dec (vs ! i) x) [0..<length vs]
           in if None \<in> set ys then None else Some (map the ys))
      | _ \<Rightarrow> None)"

definition slice_field :: "(json \<Rightarrow> 'a \<Rightarrow> 'a option) \<Rightarrow> 'a \<Rightarrow> string \<Rightarrow> (string \<times> json) list \<Rightarrow> 'a list option" where
  "slice_field dec zero name ms =
     fold (\<lambda>v r. case r of None \<Rightarrow> None | Some xs \<Rightarrow> store_slice dec zero v xs) (field_vals name ms) (Some [])"

definition int_field :: "string \<Rightarrow> (string \<times> json) list \<Rightarrow> int option" where
  "int_field name ms = decode_field store_int64 (field_vals name ms) 0"

definition store_time :: "(string \<Rightarrow> time option) \<Rightarrow> json \<Rightarrow> time \<Rightarrow> time option" where
  "store_time parse v x = (case v of JStr s \<Rightarrow> parse s | _ \<Rightarrow> None)"

section \<open>The gate\<close>

text \<open>Some handlers run checks, and share the polls of balances with the health checker; the others leave them alone.\<close>

type_synonym checked_handler = "world \<Rightarrow> control_env \<Rightarrow> request \<Rightarrow> checker \<Rightarrow> reply \<times> checker"

definition lift :: "reply \<times> gateway \<Rightarrow> polls \<Rightarrow> reply \<times> checker" where
  "lift r polls = (fst r, snd r, polls)"

definition plain :: "handler \<Rightarrow> checked_handler" where
  "plain h w env rq m = lift (h w env rq (fst m)) (snd m)"

definition admin_gate :: "checked_handler \<Rightarrow> checked_handler" where
  "admin_gate next w env rq m =
     (case rq_cookie rq of
        None \<Rightarrow> lift (write_error 401 ''authentication required'' (fst m)) (snd m)
      | Some sid \<Rightarrow>
          (case session_valid w (ce_admin env) sid (fst m) of
             (Inl e, g1) \<Rightarrow> lift (write_error 503 ''authentication is temporarily unavailable'' g1) (snd m)
           | (Inr valid, g1) \<Rightarrow>
               (if \<not> valid then lift (write_error 401 ''authentication required'' g1) (snd m)
                else next w env rq (g1, snd m))))"

definition h_login :: handler where
  "h_login w env rq g =
     (case decode_members [''username'', ''password''] (rq_body rq) of
        None \<Rightarrow> write_error 400 ''invalid request body'' g
      | Some ms \<Rightarrow>
          (case (str_field ''username'' ms, str_field ''password'' ms) of
             (Some username, Some password) \<Rightarrow>
               (case admin_login w (ce_admin env) (ce_random env (g_step g) 0) username password (rq_source rq) g of
                  (Inl e, g1) \<Rightarrow> write_error 503 ''authentication is temporarily unavailable'' g1
                | (Inr None, g1) \<Rightarrow> write_error 401 ''invalid username or password'' g1
                | (Inr (Some sid), g1) \<Rightarrow>
                    (\<lparr>rp_status = 200, rp_body = Authenticated True, rp_cookie = SetSession sid, rp_routing = None\<rparr>, g1))
           | _ \<Rightarrow> write_error 400 ''invalid request body'' g))"

definition h_session :: handler where
  "h_session w env rq g = say 200 (Authenticated True) g"

definition h_logout :: handler where
  "h_logout w env rq g =
     (let g1 = (case rq_cookie rq of None \<Rightarrow> g | Some sid \<Rightarrow> snd (session_revoke w (ce_admin env) sid g))
      in (\<lparr>rp_status = 200, rp_body = Authenticated False, rp_cookie = ClearSession, rp_routing = None\<rparr>, g1))"

section \<open>Keys\<close>

record key_request =
  kq_pool :: string
  kq_employee :: string
  kq_name :: string
  kq_scopes :: "string list"
  kq_rate_limit :: int
  kq_expires :: "time option"

definition decode_key_request :: "control_env \<Rightarrow> string \<Rightarrow> key_request option" where
  "decode_key_request env body =
     (case decode_members [''pool_id'', ''employee_id'', ''employee_name'', ''scopes'', ''rate_limit'', ''expires_at''] body of
        None \<Rightarrow> None
      | Some ms \<Rightarrow>
          (case (str_field ''pool_id'' ms, str_field ''employee_id'' ms, str_field ''employee_name'' ms,
                 slice_field store_string [] ''scopes'' ms, int_field ''rate_limit'' ms,
                 decode_ptr (store_time (ce_time env)) 0 (field_vals ''expires_at'' ms)) of
             (Some pid, Some employee, Some name, Some scopes, Some limit, Some expires) \<Rightarrow>
               Some \<lparr>kq_pool = pid, kq_employee = trim_space employee, kq_name = trim_space name, kq_scopes = scopes,
                     kq_rate_limit = limit, kq_expires = expires\<rparr>
           | _ \<Rightarrow> None))"

definition valid_scopes :: "string list \<Rightarrow> bool" where
  "valid_scopes scopes \<longleftrightarrow>
     list_all (\<lambda>scope. scope \<in> {''*'', ''responses'', ''chat_completions'', ''models''}) scopes"

definition h_create_key :: handler where
  "h_create_key w env rq g =
     (case decode_key_request env (rq_body rq) of
        None \<Rightarrow> write_error 400 ''invalid request body'' g
      | Some q \<Rightarrow>
          (if kq_pool q = [] \<or> (kq_employee q = []) = (kq_name q = [])
           then write_error 400 ''pool_id and exactly one of employee_id or employee_name are required'' g
           else if kq_employee q \<noteq> [] \<and> \<not> valid_id (kq_employee q) then write_error 400 ''employee_id must be a UUID'' g
           else if kq_rate_limit q < 0 then write_error 400 ''rate_limit cannot be negative'' g
           else if \<not> valid_scopes (kq_scopes q)
           then write_error 400 ''scopes may contain only *, responses, chat_completions, or models'' g
           else
             (case generate_key (w_digest w) (ce_random env (g_step g) 0) of
                (secret, digest, hint) \<Rightarrow>
                  (let kid = new_id (ce_random env (g_step g) 1);
                       employee = (if kq_employee q = [] then new_id (ce_random env (g_step g) 2) else kq_employee q);
                       key = \<lparr>k_id = kid, k_pool = kq_pool q, k_account = [], k_employee = employee,
                              k_employee_name = kq_name q, k_hmac = digest, k_hint = hint, k_scopes = kq_scopes q,
                              k_rate_limit = kq_rate_limit q, k_expires = kq_expires q, k_revoked = None,
                              k_last_used = None, k_created = 0\<rparr>
                   in case store_do w (\<lambda>i now d. create_api_key_and_bind [] (w_rnd w i) now key d) g of
                        (Inl e, g1) \<Rightarrow>
                          (if e = NoEligibleAccount
                           then say 409 (Coded ''subpool_no_eligible_account'' ''the pool has no eligible account'') g1
                           else write_store_error e g1)
                      | (Inr aid, g1) \<Rightarrow>
                          say 201 (KeyBody kid employee secret hint aid)
                            (audit_note w ''api_key.create'' ''api_key'' kid ''success'' g1)))))"

definition h_list_keys :: handler where
  "h_list_keys w env rq g =
     (case store_do w (\<lambda>_ now d. Inr (d, list_api_keys d)) g of
        (Inl e, g1) \<Rightarrow> write_error 500 ''failed to list API keys'' g1
      | (Inr keys, g1) \<Rightarrow> say 200 (KeyList keys) g1)"

definition h_revoke_key :: handler where
  "h_revoke_key w env rq g =
     (case store_do w (\<lambda>_ now d. no_result (revoke_api_key now (rq_id rq) d)) g of
        (Inl e, g1) \<Rightarrow> write_store_error e g1
      | (Inr _, g1) \<Rightarrow> say 200 Revoked (audit_note w ''api_key.revoke'' ''api_key'' (rq_id rq) ''success'' g1))"

end
