(* ===== verification/Control_Pools.thy ===== *)
theory Control_Pools
  imports Control
begin

text \<open>
  The handlers of pools (\<open>internal/control/pools_keys_usage.go\<close>).
\<close>

section \<open>New pools\<close>

text \<open>\<open>normalizeIDs\<close>; \<open>seen\<close> is the set of those already taken.\<close>

fun normalize_from :: "string list \<Rightarrow> string list \<Rightarrow> string list" where
  "normalize_from seen [] = []"
| "normalize_from seen (x # xs) =
     (let v = trim_space x in
      if v = [] \<or> v \<in> set seen then normalize_from seen xs else v # normalize_from (v # seen) xs)"

definition normalize_ids :: "string list \<Rightarrow> string list" where
  "normalize_ids ids = normalize_from [] ids"

definition merge_pool_provider :: "string \<Rightarrow> string \<Rightarrow> string" where
  "merge_pool_provider current nxt = (if current = [] \<or> current = nxt then nxt else provider_mixed)"

definition default_pool_priority :: "account \<Rightarrow> int" where
  "default_pool_priority a = (if a_credential_type a = credential_api_key then 100 else 0)"

text \<open>The loop that reads the accounts and merges their providers.\<close>

fun read_pool_accounts ::
  "world \<Rightarrow> string list \<Rightarrow> string \<Rightarrow> account list \<Rightarrow> gateway \<Rightarrow> (store_error + string \<times> account list) \<times> gateway" where
  "read_pool_accounts w [] provider accounts g = (Inr (provider, accounts), g)"
| "read_pool_accounts w (aid # aids) provider accounts g =
     (case read_account w aid g of
        (Inl e, g1) \<Rightarrow> (Inl e, g1)
      | (Inr a, g1) \<Rightarrow>
          read_pool_accounts w aids (merge_pool_provider provider (a_provider a)) (accounts @ [a]) g1)"

definition pool_of_accounts :: "string \<Rightarrow> string \<Rightarrow> string \<Rightarrow> account list \<Rightarrow> pool" where
  "pool_of_accounts pid name provider accounts =
     \<lparr>p_id = pid, p_name = name, p_provider = provider,
      p_accounts = map (\<lambda>a. \<lparr>pa_pool = pid, pa_account = a_id a, pa_weight = 1, pa_priority = default_pool_priority a,
                             pa_enabled = True\<rparr>) accounts,
      p_created = zero_time, p_updated = zero_time\<rparr>"

definition h_create_pool :: handler where
  "h_create_pool w env rq g =
     (case decode_members [''name'', ''provider_account_ids''] (rq_body rq) of
        None \<Rightarrow> write_error 400 ''invalid request body'' g
      | Some ms \<Rightarrow>
          (case (str_field ''name'' ms, slice_field store_string [] ''provider_account_ids'' ms) of
             (Some raw, Some ids) \<Rightarrow>
               (let name = trim_space raw; aids = normalize_ids ids in
                if name = [] then write_error 400 ''name is required'' g
                else if aids = [] then write_error 400 ''provider_account_ids must contain at least one account'' g
                else
                  let pid = new_id (ce_random env (g_step g) 0) in
                  (case read_pool_accounts w aids [] [] g of
                     (Inl e, g1) \<Rightarrow> write_store_error e g1
                   | (Inr (provider, accounts), g1) \<Rightarrow>
                       let p = pool_of_accounts pid name provider accounts in
                       (case store_do w (\<lambda>_ now d. no_result (create_pool now p d)) g1 of
                          (Inl e, g2) \<Rightarrow>
                            (if e = Conflict then write_error 409 ''a pool with this name already exists'' g2
                             else write_store_error e g2)
                        | (Inr _, g2) \<Rightarrow> say 201 (PoolBody p) (audit_note w ''pool.create'' ''pool'' pid ''success'' g2))))
           | _ \<Rightarrow> write_error 400 ''invalid request body'' g))"

section \<open>Changes of pools\<close>

definition decode_member :: "json \<Rightarrow> pool_account \<Rightarrow> pool_account option" where
  "decode_member v m =
     (case v of
        JObj ms \<Rightarrow>
          (if \<not> known_members [''pool_id'', ''provider_account_id'', ''weight'', ''priority'', ''enabled''] ms then None
           else
             (case (decode_field store_string (field_vals ''pool_id'' ms) (pa_pool m),
                    decode_field store_string (field_vals ''provider_account_id'' ms) (pa_account m),
                    decode_field store_int64 (field_vals ''weight'' ms) (pa_weight m),
                    decode_field store_int64 (field_vals ''priority'' ms) (pa_priority m),
                    decode_field store_bool (field_vals ''enabled'' ms) (pa_enabled m)) of
                (Some pid, Some aid, Some weight, Some priority, Some enabled) \<Rightarrow>
                  Some \<lparr>pa_pool = pid, pa_account = aid, pa_weight = weight, pa_priority = priority, pa_enabled = enabled\<rparr>
              | _ \<Rightarrow> None))
      | _ \<Rightarrow> None)"

definition no_member :: pool_account where
  "no_member = \<lparr>pa_pool = [], pa_account = [], pa_weight = 0, pa_priority = 0, pa_enabled = False\<rparr>"

definition decode_pool :: "control_env \<Rightarrow> string \<Rightarrow> pool option" where
  "decode_pool env body =
     (case decode_members [''id'', ''name'', ''provider'', ''accounts'', ''created_at'', ''updated_at''] body of
        None \<Rightarrow> None
      | Some ms \<Rightarrow>
          (case (str_field ''id'' ms, str_field ''name'' ms, str_field ''provider'' ms,
                 slice_field decode_member no_member ''accounts'' ms,
                 decode_field (store_time (ce_time env)) (field_vals ''created_at'' ms) zero_time,
                 decode_field (store_time (ce_time env)) (field_vals ''updated_at'' ms) zero_time) of
             (Some pid, Some name, Some provider, Some accounts, Some created, Some updated) \<Rightarrow>
               Some \<lparr>p_id = pid, p_name = name, p_provider = provider, p_accounts = accounts, p_created = created,
                     p_updated = updated\<rparr>
           | _ \<Rightarrow> None))"

definition h_update_pool :: handler where
  "h_update_pool w env rq g =
     (case decode_pool env (rq_body rq) of
        None \<Rightarrow> write_error 400 ''invalid request body'' g
      | Some decoded \<Rightarrow>
          (let p = decoded\<lparr>p_id := rq_id rq\<rparr> in
           if trim_space (p_name p) = [] then write_error 400 ''name is required'' g
           else
             (case store_do w (\<lambda>_ now d. no_result (update_pool now p d)) g of
                (Inl e, g1) \<Rightarrow> write_store_error e g1
              | (Inr _, g1) \<Rightarrow> say 200 (PoolBody p) (audit_note w ''pool.update'' ''pool'' (p_id p) ''success'' g1))))"

definition h_list_pools :: handler where
  "h_list_pools w env rq g =
     (case store_do w (\<lambda>_ now d. Inr (d, list_pools d)) g of
        (Inl e, g1) \<Rightarrow> write_error 500 ''failed to list pools'' g1
      | (Inr pools, g1) \<Rightarrow> say 200 (PoolList pools) g1)"

definition h_add_pool_account :: handler where
  "h_add_pool_account w env rq g =
     (case decode_members [''provider_account_id'', ''weight'', ''priority'', ''enabled''] (rq_body rq) of
        None \<Rightarrow> write_error 400 ''invalid request body'' g
      | Some ms \<Rightarrow>
          (case (str_field ''provider_account_id'' ms, int_field ''weight'' ms,
                 decode_ptr store_int64 0 (field_vals ''priority'' ms),
                 decode_ptr store_bool False (field_vals ''enabled'' ms)) of
             (Some raw, Some given, Some priority, Some enabled) \<Rightarrow>
               (let weight = (if given = 0 then 1 else given); aid = trim_space raw in
                if weight < 1 \<or> weight > 100 then write_error 400 ''weight must be between 1 and 100'' g
                else if aid = [] then write_error 400 ''provider_account_id is required'' g
                else
                  (case read_account w aid g of
                     (Inl e, g1) \<Rightarrow> write_store_error e g1
                   | (Inr a, g1) \<Rightarrow>
                       let m = \<lparr>pa_pool = rq_id rq, pa_account = aid, pa_weight = weight,
                                pa_priority = (case priority of Some n \<Rightarrow> n | None \<Rightarrow> default_pool_priority a),
                                pa_enabled = (case enabled of Some b \<Rightarrow> b | None \<Rightarrow> True)\<rparr>
                       in (case store_do w (\<lambda>_ now d. no_result (add_pool_account now m d)) g1 of
                             (Inl e, g2) \<Rightarrow> write_store_error e g2
                           | (Inr _, g2) \<Rightarrow>
                               say 200 (MemberBody m) (audit_note w ''pool.account.add'' ''pool'' (pa_pool m) ''success'' g2))))
           | _ \<Rightarrow> write_error 400 ''invalid request body'' g))"

section \<open>Facts\<close>

lemma normalize_from_spec:
  "distinct (normalize_from seen xs) \<and> set (normalize_from seen xs) = trim_space ` set xs - set seen - {[]}"
  by (induction seen xs rule: normalize_from.induct) (auto simp: Let_def)

lemma read_pool_accounts_ids:
  assumes "read_pool_accounts w aids provider accounts g = (Inr (provider', accounts'), g')"
  shows "\<exists>more. accounts' = accounts @ more \<and> length more = length aids
    \<and> provider' = foldl merge_pool_provider provider (map a_provider more)"
  using assms
proof (induction w aids provider accounts g rule: read_pool_accounts.induct)
  case (2 w aid aids provider accounts g)
  obtain r g1 where 1: "read_account w aid g = (r, g1)" by (rule prod.exhaust)
  obtain a where a: "r = Inr a" using "2.prems" unfolding read_pool_accounts.simps 1 by (cases r) simp_all
  have "\<exists>more. accounts' = (accounts @ [a]) @ more \<and> length more = length aids
      \<and> provider' = foldl merge_pool_provider (merge_pool_provider provider (a_provider a)) (map a_provider more)"
    using "2.IH" [of r g1 a] "2.prems" unfolding read_pool_accounts.simps 1 a by simp
  then obtain more where "accounts' = accounts @ (a # more)" "length more = length aids"
      "provider' = foldl merge_pool_provider (merge_pool_provider provider (a_provider a)) (map a_provider more)" by auto
  then show ?case by (intro exI [of _ "a # more"]) simp
qed simp

lemma merged_mixed: "foldl merge_pool_provider provider_mixed ps = provider_mixed"
  by (induction ps) (auto simp: merge_pool_provider_def provider_mixed_def)

lemma merged_from: "c \<noteq> [] \<Longrightarrow> foldl merge_pool_provider c ps = (if \<forall>p \<in> set ps. p = c then c else provider_mixed)"
  by (induction ps) (auto simp: merge_pool_provider_def merged_mixed)

lemma merged_provider:
  assumes "ps \<noteq> []" and "hd ps \<noteq> []"
  shows "foldl merge_pool_provider [] ps = (if \<forall>p \<in> set ps. p = hd ps then hd ps else provider_mixed)"
  using assms by (cases ps) (auto simp: merged_from merge_pool_provider_def)

end
