(* ===== verification/Control_Accounts.thy ===== *)
theory Control_Accounts
  imports Control_Pools Json_Marshal
begin

text \<open>
  The handlers of provider accounts and settings (\<open>internal/control/server.go\<close>), and of the credentials with which the
  quota of an account is read (\<open>bailian_quota.go\<close>, \<open>openai_balance.go\<close>).
\<close>

section \<open>New accounts\<close>

text \<open>\<open>validateNewAccount\<close>: \<open>None\<close> when the provider rejected the credentials.\<close>

definition validate_new_account :: "world \<Rightarrow> control_env \<Rightarrow> account \<Rightarrow> checker \<Rightarrow> account option \<times> checker" where
  "validate_new_account w env a m =
     (case ce_health env of
        None \<Rightarrow> (Some (a\<lparr>a_health := health_unknown\<rparr>), m)
      | Some pr \<Rightarrow>
          (case check_provider w pr a False m of
             (r, m1) \<Rightarrow>
               (if hr_auth_failed r then (None, m1)
                else (Some (apply_new_account (clock w (fst m1)) r a), m1))))"

definition rejected_credentials :: string where
  "rejected_credentials = ''provider rejected the credentials''"

definition subject_digest :: "world \<Rightarrow> string \<Rightarrow> string \<Rightarrow> string" where
  "subject_digest w provider subject = w_digest w (''provider-subject:'' @ provider @ CHR '':'' # subject)"

definition new_account :: "string \<Rightarrow> string \<Rightarrow> string \<Rightarrow> string \<Rightarrow> string \<Rightarrow> string \<Rightarrow> account" where
  "new_account aid provider kind display email ciphertext =
     no_account\<lparr>a_id := aid, a_provider := provider, a_credential_type := kind, a_display_name := display,
       a_email := email, a_ciphertext := ciphertext, a_version := 1, a_status := account_active\<rparr>"

definition trim_slashes :: "string \<Rightarrow> string" where
  "trim_slashes s = rev (dropWhile (\<lambda>c. c = CHR ''/'') (rev s))"

definition h_create_account :: checked_handler where
  "h_create_account w env rq m =
     (case m of
        (g, polls) \<Rightarrow>
          (case decode_members [''provider'', ''display_name'', ''base_url'', ''api_key''] (rq_body rq) of
             None \<Rightarrow> lift (write_error 400 ''invalid request body'' g) polls
           | Some ms \<Rightarrow>
               (case (str_field ''provider'' ms, str_field ''display_name'' ms, str_field ''base_url'' ms, str_field ''api_key'' ms) of
                  (Some provider, Some display', Some url', Some key') \<Rightarrow>
                    (let display = trim_space display'; url = trim_slashes (trim_space url'); key = trim_space key' in
                     if provider \<noteq> provider_openai_compatible
                     then lift (write_error 400 ''provider must be openai_compatible'' g) polls
                     else if display = [] \<or> key = [] \<or> \<not> ce_base_url env url
                     then lift (write_error 400 ''display_name, a valid base_url, and api_key are required'' g) polls
                     else
                       (case ce_encrypt env (marshal_string_map [(''base_url'', url), (''api_key'', key)]) of
                          None \<Rightarrow> lift (write_error 500 ''failed to encrypt credentials'' g) polls
                        | Some ciphertext \<Rightarrow>
                            let aid = new_id (ce_random env (g_step g) 0) in
                            (case validate_new_account w env
                                    (new_account aid provider credential_api_key display [] ciphertext) (g, polls) of
                               (None, g1, polls1) \<Rightarrow> lift (write_error 400 rejected_credentials g1) polls1
                             | (Some a, g1, polls1) \<Rightarrow>
                                 (case store_do w (\<lambda>_ now d. no_result (create_provider_account now a
                                          (subject_digest w provider (url @ CHR 0x00 # key)) d)) g1 of
                                    (Inl e, g2) \<Rightarrow>
                                      lift (if e = Conflict
                                            then write_error 409 ''this endpoint and API key are already connected'' g2
                                            else write_error 500 ''failed to save provider account'' g2) polls1
                                  | (Inr _, g2) \<Rightarrow>
                                      lift (say 201 (AccountBody a)
                                        (audit_note w ''provider_account.create'' ''provider_account'' aid ''success'' g2)) polls1))))
                | _ \<Rightarrow> lift (write_error 400 ''invalid request body'' g) polls)))"

text \<open>What \<open>saveCodexAccount\<close> and \<open>saveCopilotAccount\<close> share, with the encoded credentials; the subject is the account of the
  provider, and a display name that is missing falls back on the address or the login.\<close>

datatype save_error = Incomplete | EncryptFailed | Rejected | NotSaved store_error

definition save_account ::
  "world \<Rightarrow> control_env \<Rightarrow> string \<Rightarrow> string \<Rightarrow> string \<Rightarrow> string \<Rightarrow> string \<Rightarrow> checker \<Rightarrow> (save_error + string) \<times> checker" where
  "save_account w env provider display email subject encoded m =
     (case ce_encrypt env encoded of
        None \<Rightarrow> (Inl EncryptFailed, m)
      | Some ciphertext \<Rightarrow>
          let aid = new_id (ce_random env (g_step (fst m)) 0) in
          (case validate_new_account w env (new_account aid provider credential_subscription display email ciphertext) m of
             (None, m1) \<Rightarrow> (Inl Rejected, m1)
           | (Some a, g1, polls1) \<Rightarrow>
               (case store_do w (\<lambda>_ now d. no_result (create_provider_account now a (subject_digest w provider subject) d)) g1 of
                  (Inl e, g2) \<Rightarrow> (Inl (NotSaved e), g2, polls1)
                | (Inr _, g2) \<Rightarrow>
                    (Inr aid, audit_note w ''provider_account.create'' ''provider_account'' aid ''success'' g2, polls1))))"

definition save_codex_account ::
  "world \<Rightarrow> control_env \<Rightarrow> string \<Rightarrow> string \<Rightarrow> string \<Rightarrow> string \<Rightarrow> checker \<Rightarrow> (save_error + string) \<times> checker" where
  "save_codex_account w env subject email encoded display m =
     (if subject = [] then (Inl Incomplete, m)
      else save_account w env provider_codex
        (if display \<noteq> [] then display else if email \<noteq> [] then email else ''Codex account'') [] subject encoded m)"

fun nat_digits :: "nat \<Rightarrow> string" where
  "nat_digits n = (if n < 10 then [char_of (48 + n)] else nat_digits (n div 10) @ [char_of (48 + n mod 10)])"

declare nat_digits.simps [simp del]

definition int_text :: "int \<Rightarrow> string" where
  "int_text n = (if n < 0 then CHR ''-'' # nat_digits (nat (- n)) else nat_digits (nat n))"

definition save_copilot_account ::
  "world \<Rightarrow> control_env \<Rightarrow> int \<Rightarrow> string \<Rightarrow> string \<Rightarrow> string \<Rightarrow> string \<Rightarrow> checker \<Rightarrow> (save_error + string) \<times> checker" where
  "save_copilot_account w env user login email encoded display m =
     (if user \<le> 0 \<or> trim_space login = [] then (Inl Incomplete, m)
      else save_account w env provider_copilot
        (if display \<noteq> [] then display else if login \<noteq> [] then login else ''GitHub Copilot account'')
        email (int_text user) encoded m)"

text \<open>\<open>saveAntigravityAccount\<close>; \<open>whole\<close> says that none of the credentials is missing. The account is kept even if its check
  fails.\<close>

definition save_antigravity_account ::
  "world \<Rightarrow> control_env \<Rightarrow> bool \<Rightarrow> string \<Rightarrow> string \<Rightarrow> string \<Rightarrow> string \<Rightarrow> checker \<Rightarrow> (save_error + string) \<times> checker" where
  "save_antigravity_account w env whole subject email encoded display m =
     (if \<not> whole then (Inl Incomplete, m)
      else
        (case ce_encrypt env encoded of
           None \<Rightarrow> (Inl EncryptFailed, m)
         | Some ciphertext \<Rightarrow>
             let aid = new_id (ce_random env (g_step (fst m)) 0);
                 a = new_account aid provider_antigravity credential_subscription display email ciphertext in
             (case (case ce_health env of
                      None \<Rightarrow> (a, m)
                    | Some pr \<Rightarrow> (case check_provider w pr a False m of (r, m1) \<Rightarrow> (apply_new_account (clock w (fst m1)) r a, m1))) of
                (b, g1, polls1) \<Rightarrow>
                  (case store_do w (\<lambda>_ now d. no_result (create_provider_account now b
                           (subject_digest w provider_antigravity subject) d)) g1 of
                     (Inl e, g2) \<Rightarrow> (Inl (NotSaved e), g2, polls1)
                   | (Inr _, g2) \<Rightarrow> (Inr aid, g2, polls1)))))"

section \<open>Accounts\<close>

definition no_quota :: quota_info where
  "no_quota = \<lparr>qi_provider = [], qi_authorized = False, qi_method = [], qi_hint = []\<rparr>"

text \<open>\<open>bailianCredentials\<close> and \<open>openAICredentials\<close>: the credentials of an account whose endpoint is supported.\<close>

definition compatible_credentials :: "world \<Rightarrow> (string \<Rightarrow> bool) \<Rightarrow> account \<Rightarrow> compatible option" where
  "compatible_credentials w supports a =
     (if a_provider a \<noteq> provider_openai_compatible then None
      else
        (case w_decrypt w (a_ciphertext a) of
           None \<Rightarrow> None
         | Some plaintext \<Rightarrow>
             (case decode_compatible plaintext of
                None \<Rightarrow> None
              | Some c \<Rightarrow> if supports (cc_base_url c) then Some c else None)))"

text \<open>The runes of a valid UTF-8 string begin at the bytes that continue none: its last four, if there are more than eight.\<close>

definition last_runes :: "nat \<Rightarrow> string \<Rightarrow> string" where
  "last_runes n s =
     (let starts = filter (\<lambda>i. \<not> cont (s ! i)) [0..<length s] in drop (starts ! (length starts - n)) s)"

definition key_hint :: "string \<Rightarrow> string" where
  "key_hint key = ''****'' @ (if 8 < length (filter (\<lambda>c. \<not> cont c) key) then last_runes 4 key else [])"

definition describe_bailian :: "world \<Rightarrow> control_env \<Rightarrow> account \<Rightarrow> quota_info \<Rightarrow> gateway \<Rightarrow> quota_info \<times> gateway" where
  "describe_bailian w env a info g =
     (if a_provider a \<noteq> provider_openai_compatible then (info, g)
      else
        (case read_account w (a_id a) g of
           (Inl e, g1) \<Rightarrow> (info, g1)
         | (Inr stored, g1) \<Rightarrow>
             (case compatible_credentials w (ce_bailian_url env) stored of
                None \<Rightarrow> (info, g1)
              | Some c \<Rightarrow>
                  ((case cc_bailian c of
                      None \<Rightarrow> no_quota\<lparr>qi_provider := ''bailian_token_plan''\<rparr>
                    | Some q \<Rightarrow>
                        (if bk_token q \<noteq> []
                         then \<lparr>qi_provider = ''bailian_token_plan'', qi_authorized = True, qi_method = ''browser'', qi_hint = []\<rparr>
                         else if bk_id q \<noteq> [] \<and> bk_secret q \<noteq> []
                         then \<lparr>qi_provider = ''bailian_token_plan'', qi_authorized = True, qi_method = ''ram'', qi_hint = key_hint (bk_id q)\<rparr>
                         else \<lparr>qi_provider = ''bailian_token_plan'', qi_authorized = True, qi_method = [], qi_hint = []\<rparr>)),
                   g1))))"

definition describe_balance :: "world \<Rightarrow> account \<Rightarrow> quota_info \<Rightarrow> gateway \<Rightarrow> quota_info \<times> gateway" where
  "describe_balance w a info g =
     (if a_provider a \<noteq> provider_openai_compatible then (info, g)
      else
        (case read_account w (a_id a) g of
           (Inl e, g1) \<Rightarrow> (info, g1)
         | (Inr stored, g1) \<Rightarrow>
             (case compatible_credentials w billing_supports_url stored of
                None \<Rightarrow> (info, g1)
              | Some c \<Rightarrow>
                  ((case cc_billing c of
                      None \<Rightarrow> info\<lparr>qi_provider := billing_plan, qi_authorized := False\<rparr>
                    | Some b \<Rightarrow> info\<lparr>qi_provider := billing_plan, qi_authorized := True,
                        qi_method := (if bl_admin_key b \<noteq> [] then ''costs'' else ''browser'')\<rparr>),
                   g1))))"

fun describe_accounts ::
  "world \<Rightarrow> control_env \<Rightarrow> account list \<Rightarrow> gateway \<Rightarrow> (account \<times> quota_info) list \<times> gateway" where
  "describe_accounts w env [] g = ([], g)"
| "describe_accounts w env (a # as) g =
     (case describe_bailian w env a no_quota g of
        (info1, g1) \<Rightarrow>
          (case describe_balance w a info1 g1 of
             (info2, g2) \<Rightarrow>
               (case describe_accounts w env as g2 of (rest, g3) \<Rightarrow> ((a, info2) # rest, g3))))"

definition h_list_accounts :: handler where
  "h_list_accounts w env rq g =
     (case store_do w (\<lambda>_ now d. Inr (d, list_provider_accounts now d)) g of
        (Inl e, g1) \<Rightarrow> write_error 500 ''failed to list provider accounts'' g1
      | (Inr accounts, g1) \<Rightarrow>
          (case describe_accounts w env accounts g1 of (described, g2) \<Rightarrow> say 200 (AccountList described) g2))"

definition h_update_account :: handler where
  "h_update_account w env rq g =
     (case decode_members [''display_name'', ''status'', ''fast_mode_enabled''] (rq_body rq) of
        None \<Rightarrow> write_error 400 ''invalid request body'' g
      | Some ms \<Rightarrow>
          (case (decode_ptr store_string [] (field_vals ''display_name'' ms),
                 decode_ptr store_string [] (field_vals ''status'' ms),
                 decode_ptr store_bool False (field_vals ''fast_mode_enabled'' ms)) of
             (Some raw, Some status, Some fast) \<Rightarrow>
               (let name = map_option trim_space raw in
                if name = Some [] then write_error 400 ''display_name is required'' g
                else if status \<noteq> None \<and> status \<noteq> Some account_active \<and> status \<noteq> Some account_disabled
                then write_error 400 ''status must be active or disabled'' g
                else
                  (case read_account w (rq_id rq) g of
                     (Inl e, g1) \<Rightarrow> write_store_error e g1
                   | (Inr a, g1) \<Rightarrow>
                       (if fast = Some True \<and> (a_provider a \<noteq> provider_codex \<or> a_credential_type a \<noteq> credential_subscription)
                        then write_error 400 ''fast mode is only available for Codex subscription accounts'' g1
                        else
                          let b = a\<lparr>a_fast_mode := coalesce fast (a_fast_mode a),
                                    a_display_name := coalesce name (a_display_name a),
                                    a_status := coalesce status (a_status a)\<rparr>
                          in (case store_do w (\<lambda>_ now d. no_result (update_provider_account now (a_id a) name status fast d)) g1 of
                                (Inl e, g2) \<Rightarrow> write_store_error e g2
                              | (Inr _, g2) \<Rightarrow>
                                  (\<lparr>rp_status = 200, rp_body = AccountBody b, rp_cookie = NoCookie,
                                    rp_routing = (if fast \<noteq> None then Some (a_id a) else None)\<rparr>,
                                   audit_note w ''provider_account.update'' ''provider_account'' (a_id a) ''success'' g2)))))
           | _ \<Rightarrow> write_error 400 ''invalid request body'' g))"

definition h_delete_account :: handler where
  "h_delete_account w env rq g =
     (case store_do w (\<lambda>_ now d. no_result (delete_provider_account now (rq_id rq) d)) g of
        (Inl e, g1) \<Rightarrow>
          (if e = Conflict then write_error 409 ''remove assigned API keys before removing this account'' g1
           else write_store_error e g1)
      | (Inr _, g1) \<Rightarrow>
          say 204 NoContent (audit_note w ''provider_account.delete'' ''provider_account'' (rq_id rq) ''success'' g1))"

definition h_refresh_account :: handler where
  "h_refresh_account w env rq g =
     (case read_account w (rq_id rq) g of
        (Inl e, g1) \<Rightarrow> write_store_error e g1
      | (Inr a, g1) \<Rightarrow>
          (if a_provider a \<noteq> provider_codex \<and> a_provider a \<noteq> provider_antigravity
              \<or> a_credential_type a \<noteq> [] \<and> a_credential_type a \<noteq> credential_subscription
           then write_error 400 ''this provider account does not support explicit credential refresh'' g1
           else
             (case refresh w a g1 of
                (Inl e, g2) \<Rightarrow>
                  write_error 502 ''provider credential refresh failed''
                    (audit_note w ''provider_account.refresh'' ''provider_account'' (a_id a) ''failure''
                      (snd (record_refresh_failure w (a_id a) e g2)))
              | (Inr refreshed, g2) \<Rightarrow>
                  say 200 (StatusBody (a_status refreshed))
                    (audit_note w ''provider_account.refresh'' ''provider_account'' (a_id a) ''success'' g2))))"

definition h_check_account :: checked_handler where
  "h_check_account w env rq m =
     (case m of
        (g, polls) \<Rightarrow>
          (case ce_health env of
             None \<Rightarrow> lift (write_error 503 ''provider health checker is unavailable'' g) polls
           | Some pr \<Rightarrow>
               (case check_account w pr (rq_id rq) (g, polls) of
                  (Inl e, g1, polls1) \<Rightarrow> lift (write_store_error e g1) polls1
                | (Inr a, g1, polls1) \<Rightarrow>
                    lift (say 200 (AccountBody a)
                      (audit_note w ''provider_account.check'' ''provider_account'' (a_id a) ''success'' g1)) polls1)))"

section \<open>Credentials of quotas\<close>

definition omit_empty :: "string \<Rightarrow> bool \<Rightarrow> string \<Rightarrow> (string \<times> string) list" where
  "omit_empty name missing value = (if missing then [] else [(name, value)])"

definition encode_billing :: "control_env \<Rightarrow> billing \<Rightarrow> string" where
  "encode_billing env b =
     object_text (omit_empty ''session_key'' (bl_session_key b = []) (marshal_string (bl_session_key b))
       @ [(''organization_id'', marshal_string (bl_organization b))]
       @ omit_empty ''admin_key'' (bl_admin_key b = []) (marshal_string (bl_admin_key b))
       @ omit_empty ''grant_amount_usd'' (bl_amount b = 0) (ce_float env (bl_amount b))
       @ omit_empty ''grant_start_at'' (bl_start b = 0) (int_text (bl_start b))
       @ omit_empty ''grant_expires_at'' (bl_expires b = 0) (int_text (bl_expires b)))"

definition encode_bailian :: "bailian \<Rightarrow> string" where
  "encode_bailian q =
     object_text (omit_empty ''access_key_id'' (bk_id q = []) (marshal_string (bk_id q))
       @ omit_empty ''access_key_secret'' (bk_secret q = []) (marshal_string (bk_secret q))
       @ omit_empty ''access_token'' (bk_token q = []) (marshal_string (bk_token q))
       @ omit_empty ''console_switch_agent'' (bk_agent q = 0) (int_text (bk_agent q)))"

definition encode_compatible :: "control_env \<Rightarrow> compatible \<Rightarrow> string" where
  "encode_compatible env c =
     object_text ([(''base_url'', marshal_string (cc_base_url c)), (''api_key'', marshal_string (cc_api_key c))]
       @ (case cc_billing c of None \<Rightarrow> [] | Some b \<Rightarrow> [(''openai_billing'', encode_billing env b)])
       @ (case cc_bailian c of None \<Rightarrow> [] | Some q \<Rightarrow> [(''bailian_quota'', encode_bailian q)]))"

text \<open>What both handlers do with new credentials: encrypt, compare and swap, record, and store the snapshot (or, when the
  credentials were removed, that they are missing).\<close>

definition save_quota_credentials ::
  "world \<Rightarrow> control_env \<Rightarrow> string \<Rightarrow> string \<Rightarrow> string \<Rightarrow> account \<Rightarrow> compatible \<Rightarrow> string option \<Rightarrow> gateway \<Rightarrow> reply \<times> gateway" where
  "save_quota_credentials w env action encrypt_message conflict_message a c snapshot g =
     (case ce_encrypt env (encode_compatible env c) of
        None \<Rightarrow> write_error 500 encrypt_message g
      | Some ciphertext \<Rightarrow>
          (case store_do w (\<lambda>_ now d. Inr (update_credential_cas now (a_id a) (a_version a) ciphertext (a_version a + 1) d)) g of
             (Inl e, g1) \<Rightarrow> write_store_error e g1
           | (Inr saved, g1) \<Rightarrow>
               (if \<not> saved then write_error 409 conflict_message g1
                else
                  let g2 = audit_note w action ''provider_account'' (a_id a) ''success'' g1; now = clock w g2 in
                  (case (case snapshot of
                           Some quota \<Rightarrow> store_do w (\<lambda>_ tx d. no_result (update_provider_details tx (a_id a) [] quota now d)) g2
                         | None \<Rightarrow> store_do w (\<lambda>_ tx d.
                             no_result (set_provider_quota_error tx (a_id a) ''quota_authorization_required'' now d)) g2) of
                     (Inl e, g3) \<Rightarrow> write_store_error e g3
                   | (Inr _, g3) \<Rightarrow> say 200 (AuthorizedBody (snapshot \<noteq> None)) g3))))"

definition valid_bailian :: "bailian \<Rightarrow> bool" where
  "valid_bailian q \<longleftrightarrow>
     (if bk_agent q < 0 then False
      else if bk_token q \<noteq> [] then bk_id q = [] \<and> bk_secret q = []
      else bk_id q \<noteq> [] \<and> bk_secret q \<noteq> [])"

definition decode_bailian_request :: "string \<Rightarrow> bailian option" where
  "decode_bailian_request body =
     (case decode_members [''access_key_id'', ''access_key_secret'', ''access_token'', ''console_switch_agent''] body of
        None \<Rightarrow> None
      | Some ms \<Rightarrow>
          (case store_bailian (JObj ms) \<lparr>bk_id = [], bk_secret = [], bk_token = [], bk_agent = 0\<rparr> of
             None \<Rightarrow> None
           | Some q \<Rightarrow> Some (q\<lparr>bk_id := trim_space (bk_id q), bk_secret := trim_space (bk_secret q),
                              bk_token := trim_space (bk_token q)\<rparr>)))"

text \<open>\<open>removing\<close> is the method \<open>DELETE\<close>.\<close>

definition h_configure_bailian :: "bool \<Rightarrow> handler" where
  "h_configure_bailian removing w env rq g =
     (case read_account w (rq_id rq) g of
        (Inl e, g1) \<Rightarrow> write_store_error e g1
      | (Inr a, g1) \<Rightarrow>
          (case compatible_credentials w (ce_bailian_url env) a of
             None \<Rightarrow> write_error 400 ''quota integration requires a Beijing Token Plan endpoint'' g1
           | Some c \<Rightarrow>
               (let save = save_quota_credentials w env ''provider_account.quota_credentials.update''
                      ''failed to encrypt quota credentials'' ''account changed; retry quota authorization'' a in
                if removing then save (c\<lparr>cc_bailian := None\<rparr>) None g1
                else
                  (case decode_bailian_request (rq_body rq) of
                     None \<Rightarrow> write_error 400 ''invalid request body'' g1
                   | Some q \<Rightarrow>
                       (if \<not> valid_bailian q
                        then write_error 400 ''provide an access_token or both access_key_id and access_key_secret'' g1
                        else
                          (case ask (\<lambda>i. ce_bailian env i q) g1 of
                             (None, g2) \<Rightarrow> write_error 502 ''quota authorization failed; sign in again with the subscription owner or grant the RAM user Token Plan access'' g2
                           | (Some snapshot, g2) \<Rightarrow> save (c\<lparr>cc_bailian := Some q\<rparr>) (Some snapshot) g2))))))"

text \<open>\<open>openaibilling.Credentials.Valid\<close>; a JSON number is never \<open>NaN\<close>.\<close>

definition no_line_break :: "string \<Rightarrow> bool" where
  "no_line_break s \<longleftrightarrow> CHR 0x0D \<notin> set s \<and> CHR 0x0A \<notin> set s"

definition valid_billing :: "billing \<Rightarrow> bool" where
  "valid_billing b \<longleftrightarrow>
     (if \<not> has_prefix ''org-'' (bl_organization b) \<or> \<not> no_line_break (bl_organization b) then False
      else if bl_admin_key b \<noteq> []
      then bl_session_key b = [] \<and> has_prefix ''sk-admin-'' (bl_admin_key b) \<and> length (bl_admin_key b) \<le> 8192
         \<and> no_line_break (bl_admin_key b) \<and> 0 < bl_amount b \<and> bl_amount b \<le> 1000000000000000
         \<and> 0 < bl_start b \<and> bl_start b < bl_expires b \<and> bl_expires b \<le> 253402300799
      else bl_session_key b \<noteq> [] \<and> length (bl_session_key b) \<le> 8192 \<and> no_line_break (bl_session_key b))"

definition decode_billing_request :: "string \<Rightarrow> billing option" where
  "decode_billing_request body =
     (case decode_members [''session_key'', ''organization_id'', ''admin_key'', ''grant_amount_usd'', ''grant_start_at'',
             ''grant_expires_at''] body of
        None \<Rightarrow> None
      | Some ms \<Rightarrow>
          (case store_billing (JObj ms) no_billing of
             None \<Rightarrow> None
           | Some b \<Rightarrow> Some (b\<lparr>bl_session_key := trim_space (trim_prefix ''Bearer '' (trim_space (bl_session_key b))),
                              bl_organization := trim_space (bl_organization b), bl_admin_key := trim_space (bl_admin_key b)\<rparr>)))"

definition h_configure_balance :: "bool \<Rightarrow> handler" where
  "h_configure_balance removing w env rq g =
     (case read_account w (rq_id rq) g of
        (Inl e, g1) \<Rightarrow> write_store_error e g1
      | (Inr a, g1) \<Rightarrow>
          (case compatible_credentials w billing_supports_url a of
             None \<Rightarrow> write_error 400 ''balance integration requires the official OpenAI API endpoint'' g1
           | Some c \<Rightarrow>
               (let save = save_quota_credentials w env ''provider_account.billing_credentials.update''
                      ''failed to encrypt billing credentials'' ''account changed; retry billing authorization'' a in
                if removing then save (c\<lparr>cc_billing := None\<rparr>) None g1
                else
                  (case decode_billing_request (rq_body rq) of
                     None \<Rightarrow> write_error 400 ''invalid request body'' g1
                   | Some b \<Rightarrow>
                       (if \<not> valid_billing b
                        then write_error 400 ''provide an organization ID and either browser authorization or an Admin key with grant amount, start and expiry'' g1
                        else
                          (case ask (\<lambda>i. ce_verify env i (cc_api_key c) (bl_organization b)) g1 of
                             (verified, g2) \<Rightarrow>
                               (if \<not> verified
                                then write_error 502 ''could not verify this API key belongs to the billing organization'' g2
                                else
                                  (case ask (\<lambda>i. ce_balance env i b) g2 of
                                     (None, g3) \<Rightarrow> write_error 502 ''billing query failed; check the credential, organization and Costs read access'' g3
                                   | (Some snapshot, g3) \<Rightarrow> save (c\<lparr>cc_billing := Some b\<rparr>) (Some snapshot) g3))))))))"

section \<open>Settings\<close>

definition limits_message :: "limits_error \<Rightarrow> string" where
  "limits_message e =
     ''invalid settings: '' @
     (case e of
        KeysOutOfRange \<Rightarrow> ''max_api_keys_per_account must be between 1 and 100''
      | BodyNotPositiveOrTooLarge \<Rightarrow> ''max_request_body_bytes must be positive and small enough for four buffered copies''
      | InflightTooSmall \<Rightarrow> ''max_inflight_request_body_bytes must be at least four times max_request_body_bytes'')"

definition shown_settings :: "control_env \<Rightarrow> settings \<Rightarrow> settings" where
  "shown_settings env s = with_body_defaults s (ce_max_body env) (ce_max_inflight env)"

definition h_get_settings :: handler where
  "h_get_settings w env rq g =
     (case store_do w (\<lambda>_ now d. Inr (d, get_settings d)) g of
        (Inl e, g1) \<Rightarrow> write_store_error e g1
      | (Inr s, g1) \<Rightarrow> say 200 (SettingsBody (shown_settings env s)) g1)"

definition decode_settings_update :: "string \<Rightarrow> settings_update option" where
  "decode_settings_update body =
     (case decode_members [''max_api_keys_per_account'', ''max_request_body_bytes'', ''max_inflight_request_body_bytes''] body of
        None \<Rightarrow> None
      | Some ms \<Rightarrow>
          (case (int_field ''max_api_keys_per_account'' ms,
                 decode_ptr store_int64 0 (field_vals ''max_request_body_bytes'' ms),
                 decode_ptr store_int64 0 (field_vals ''max_inflight_request_body_bytes'' ms)) of
             (Some keys, Some body_limit, Some inflight) \<Rightarrow>
               Some \<lparr>upd_max_keys = keys, upd_max_body = body_limit, upd_max_inflight = inflight\<rparr>
           | _ \<Rightarrow> None))"

definition h_update_settings :: handler where
  "h_update_settings w env rq g =
     (case decode_settings_update (rq_body rq) of
        None \<Rightarrow> write_error 400 ''invalid request body'' g
      | Some u \<Rightarrow>
          (if upd_max_keys u < 1 \<or> upd_max_keys u > 100
           then write_error 400 ''max_api_keys_per_account must be between 1 and 100'' g
           else
             (case store_do w (\<lambda>_ now d. patch_settings now u
                     \<lparr>max_keys_per_account = 0, max_request_body = ce_max_body env, max_inflight_body = ce_max_inflight env\<rparr> d) g of
                (Inl e, g1) \<Rightarrow>
                  (case e of InvalidSettings l \<Rightarrow> write_error 400 (limits_message l) g1 | _ \<Rightarrow> write_store_error e g1)
              | (Inr s, g1) \<Rightarrow>
                  say 200 (SettingsBody (shown_settings env s))
                    (audit_note w ''settings.update'' ''settings'' ''global'' ''success'' g1))))"

end
