(* ===== verification/Device_Login.thy ===== *)
theory Device_Login
  imports Control_Accounts
begin

text \<open>
  The logins by device code (\<open>internal/control/device_login.go\<close>): an administrator starts a login, a goroutine waits for the
  provider, saves the account and settles the login; meanwhile the code can expire and the login can be cancelled. The
  attempts live in a heap, as the code compares their pointers, and each critical section of the mutex is a step.
\<close>

section \<open>The state\<close>

text \<open>The statuses \<open>"pending"\<close>, \<open>"completed"\<close> and \<open>"failed"\<close>.\<close>

datatype login_status = Pending | Completed | Failed

record login_attempt =
  la_status :: login_status
  la_message :: string
  la_expires :: time
  la_finalizing :: bool
  la_canceled :: bool

text \<open>Where the goroutine of an attempt stands: it waits for the provider, it holds the finalization, it has an outcome to
  report, or it has returned.\<close>

datatype login_flow = Waiting | Finalizing | Settling login_status string | Ended

record login_desk =
  ld_logins :: "string \<Rightarrow> nat option"
  ld_attempts :: "nat \<Rightarrow> login_attempt"
  ld_ids :: "nat \<Rightarrow> string"
  ld_flows :: "nat \<Rightarrow> login_flow"
  ld_next :: nat
  ld_saved :: "nat set"

definition device_login_retention :: duration where "device_login_retention = 5 * minute"

definition expired_message :: string where
  "expired_message = ''The authorization code expired. Start again.''"

text \<open>The attempt of a login that is still the current one for its identifier.\<close>

definition is_current :: "string \<Rightarrow> nat \<Rightarrow> login_desk \<Rightarrow> bool" where
  "is_current lid n d \<longleftrightarrow> ld_logins d lid = Some n"

definition update_attempt :: "nat \<Rightarrow> (login_attempt \<Rightarrow> login_attempt) \<Rightarrow> login_desk \<Rightarrow> login_desk" where
  "update_attempt n f d = d\<lparr>ld_attempts := (ld_attempts d)(n := f (ld_attempts d n))\<rparr>"

section \<open>The critical sections\<close>

definition start_login :: "string \<Rightarrow> time \<Rightarrow> login_desk \<Rightarrow> login_desk" where
  "start_login lid expires d =
     (let n = ld_next d;
          a = \<lparr>la_status = Pending, la_message = [], la_expires = expires, la_finalizing = False, la_canceled = False\<rparr>
      in d\<lparr>ld_logins := (ld_logins d)(lid \<mapsto> n), ld_attempts := (ld_attempts d)(n := a), ld_ids := (ld_ids d)(n := lid),
           ld_flows := (ld_flows d)(n := Waiting), ld_next := Suc n\<rparr>)"

definition begin_finalization :: "string \<Rightarrow> nat \<Rightarrow> login_desk \<Rightarrow> bool \<times> login_desk" where
  "begin_finalization lid n d =
     (if \<not> is_current lid n d \<or> la_status (ld_attempts d n) \<noteq> Pending then (False, d)
      else (True, update_attempt n (\<lambda>a. a\<lparr>la_finalizing := True\<rparr>) d))"

definition complete_login :: "string \<Rightarrow> nat \<Rightarrow> login_status \<Rightarrow> string \<Rightarrow> time \<Rightarrow> login_desk \<Rightarrow> login_desk" where
  "complete_login lid n status message now d =
     (if \<not> is_current lid n d then d
      else update_attempt n (\<lambda>a. a\<lparr>la_status := status, la_message := message, la_finalizing := False,
             la_expires := now + device_login_retention, la_canceled := True\<rparr>) d)"

definition expire_login :: "string \<Rightarrow> nat \<Rightarrow> time \<Rightarrow> login_desk \<Rightarrow> login_desk" where
  "expire_login lid n now d =
     (if \<not> is_current lid n d \<or> la_status (ld_attempts d n) \<noteq> Pending \<or> la_finalizing (ld_attempts d n) then d
      else update_attempt n (\<lambda>a. a\<lparr>la_status := Failed, la_message := expired_message,
             la_expires := now + device_login_retention, la_canceled := True\<rparr>) d)"

definition cancel_login :: "string \<Rightarrow> login_desk \<Rightarrow> login_desk" where
  "cancel_login lid d =
     (case ld_logins d lid of
        None \<Rightarrow> d
      | Some n \<Rightarrow> (update_attempt n (\<lambda>a. a\<lparr>la_canceled := True\<rparr>) d)\<lparr>ld_logins := (ld_logins d)(lid := None)\<rparr>)"

text \<open>The timer that removes a settled login.\<close>

definition remove_login :: "string \<Rightarrow> nat \<Rightarrow> time \<Rightarrow> login_desk \<Rightarrow> login_desk" where
  "remove_login lid n now d =
     (if is_current lid n d \<and> la_expires (ld_attempts d n) \<le> now
      then d\<lparr>ld_logins := (ld_logins d)(lid := None)\<rparr> else d)"

text \<open>\<open>getDeviceLogin\<close>: a login past its time is expired first.\<close>

definition get_login :: "string \<Rightarrow> time \<Rightarrow> login_desk \<Rightarrow> (login_status \<times> string) option \<times> login_desk" where
  "get_login lid now d =
     (let d1 = (case ld_logins d lid of
                  None \<Rightarrow> d
                | Some n \<Rightarrow>
                    (let a = ld_attempts d n in
                     if la_status a = Pending \<and> \<not> la_finalizing a \<and> la_expires a < now then expire_login lid n now d else d))
      in (map_option (\<lambda>n. (la_status (ld_attempts d1 n), la_message (ld_attempts d1 n))) (ld_logins d1 lid), d1))"

section \<open>Outcomes\<close>

definition connected_message :: "string \<Rightarrow> string" where
  "connected_message provider =
     (if provider = provider_copilot then ''GitHub Copilot account connected.'' else ''Codex account connected.'')"

text \<open>The message after a save that failed.\<close>

definition save_failure_message :: "string \<Rightarrow> save_error \<Rightarrow> string" where
  "save_failure_message provider e =
     (if e = NotSaved Conflict
      then (if provider = provider_copilot then ''This GitHub Copilot account is already connected.''
            else ''This Codex account is already connected.'')
      else if e = Rejected
      then (if provider = provider_copilot then ''GitHub Copilot rejected the authorized credentials.''
            else ''Codex rejected the authorized credentials.'')
      else ''The account was authorized but could not be saved. Start again.'')"

section \<open>Steps\<close>

definition set_flow :: "nat \<Rightarrow> login_flow \<Rightarrow> login_desk \<Rightarrow> login_desk" where
  "set_flow n f d = d\<lparr>ld_flows := (ld_flows d)(n := f)\<rparr>"

text \<open>A desk at work. \<open>denied\<close>: the provider did not authorise the login. \<open>saved\<close>: the account was stored. \<open>unsaved\<close>: it was not.
  \<open>dropped\<close>: the save was cancelled together with the login, and the goroutine returns. A login expires by its timer or
  when somebody asks for it, in both cases not before its time.\<close>

inductive desk_step :: "login_desk \<Rightarrow> login_desk \<Rightarrow> bool" where
  started: "desk_step d (start_login lid expires d)"
| begun: "ld_flows d n = Waiting \<Longrightarrow> n < ld_next d \<Longrightarrow> begin_finalization (ld_ids d n) n d = (True, d') \<Longrightarrow>
    desk_step d (set_flow n Finalizing d')"
| too_late: "ld_flows d n = Waiting \<Longrightarrow> n < ld_next d \<Longrightarrow> begin_finalization (ld_ids d n) n d = (False, d') \<Longrightarrow>
    desk_step d (set_flow n Ended d')"
| denied: "ld_flows d n = Finalizing \<Longrightarrow> desk_step d (set_flow n (Settling Failed message) d)"
| saved: "ld_flows d n = Finalizing \<Longrightarrow>
    desk_step d (set_flow n (Settling Completed (connected_message provider)) (d\<lparr>ld_saved := insert n (ld_saved d)\<rparr>))"
| unsaved: "ld_flows d n = Finalizing \<Longrightarrow> desk_step d (set_flow n (Settling Failed (save_failure_message provider e)) d)"
| dropped: "ld_flows d n = Finalizing \<Longrightarrow> la_canceled (ld_attempts d n) \<Longrightarrow> desk_step d (set_flow n Ended d)"
| settled: "ld_flows d n = Settling status message \<Longrightarrow>
    desk_step d (set_flow n Ended (complete_login (ld_ids d n) n status message now d))"
| expired: "la_expires (ld_attempts d n) \<le> now \<Longrightarrow> desk_step d (expire_login (ld_ids d n) n now d)"
| canceled: "desk_step d (cancel_login lid d)"
| removed: "la_status (ld_attempts d n) \<noteq> Pending \<Longrightarrow> desk_step d (remove_login (ld_ids d n) n now d)"
| asked: "get_login lid now d = (answer, d') \<Longrightarrow> desk_step d d'"

definition empty_desk :: login_desk where
  "empty_desk = \<lparr>ld_logins = Map.empty, ld_attempts = (\<lambda>_. \<lparr>la_status = Failed, la_message = [], la_expires = 0,
     la_finalizing = False, la_canceled = False\<rparr>), ld_ids = (\<lambda>_. []), ld_flows = (\<lambda>_. Ended), ld_next = 0, ld_saved = {}\<rparr>"

inductive desk_reaches :: "login_desk \<Rightarrow> login_desk \<Rightarrow> bool" for d0 :: login_desk where
  here: "desk_reaches d0 d0"
| further: "desk_reaches d0 d \<Longrightarrow> desk_step d d' \<Longrightarrow> desk_reaches d0 d'"

section \<open>The invariant\<close>

text \<open>A current attempt stands under its own identifier, was started, and its status goes with where its goroutine stands.\<close>

definition attempt_ok :: "login_desk \<Rightarrow> nat \<Rightarrow> bool" where
  "attempt_ok d n \<longleftrightarrow>
     (let a = ld_attempts d n in
      (la_status a = Pending \<and> la_canceled a \<longrightarrow> \<not> is_current (ld_ids d n) n d) \<and>
      (case ld_flows d n of
         Waiting \<Rightarrow> \<not> la_finalizing a \<and> n \<notin> ld_saved d
           \<and> (la_status a = Pending
              \<or> la_status a = Failed \<and> la_message a = expired_message)
       | Finalizing \<Rightarrow> la_finalizing a \<and> la_status a = Pending \<and> n \<notin> ld_saved d
       | Settling status message \<Rightarrow>
           la_finalizing a \<and> la_status a = Pending \<and> (status = Completed \<longleftrightarrow> n \<in> ld_saved d)
           \<and> (status = Completed \<or> status = Failed)
       | Ended \<Rightarrow>
           (la_status a = Completed \<longrightarrow> n \<in> ld_saved d) \<and> (la_status a = Failed \<longrightarrow> n \<notin> ld_saved d)
           \<and> (la_status a = Pending \<longrightarrow> \<not> is_current (ld_ids d n) n d)))"

definition desk_ok :: "login_desk \<Rightarrow> bool" where
  "desk_ok d \<longleftrightarrow>
     (\<forall>n < ld_next d. attempt_ok d n) \<and> (\<forall>n \<ge> ld_next d. ld_flows d n = Ended \<and> n \<notin> ld_saved d)
   \<and> (\<forall>lid n. ld_logins d lid = Some n \<longrightarrow> n < ld_next d \<and> ld_ids d n = lid)"

lemma attempt_ok_same:
  assumes "attempt_ok d n" and "ld_attempts d' n = ld_attempts d n" and "ld_flows d' n = ld_flows d n"
    and "n \<in> ld_saved d' \<longleftrightarrow> n \<in> ld_saved d" and "is_current (ld_ids d' n) n d' \<Longrightarrow> is_current (ld_ids d n) n d"
  shows "attempt_ok d' n"
  using assms(1,5) unfolding attempt_ok_def Let_def assms(2,3,4)
  by (cases "ld_flows d n"; cases "is_current (ld_ids d' n) n d'") simp_all

lemma desk_okD:
  assumes "desk_ok d"
  shows "n < ld_next d \<Longrightarrow> attempt_ok d n" and "ld_next d \<le> n \<Longrightarrow> ld_flows d n = Ended"
    and "ld_next d \<le> n \<Longrightarrow> n \<notin> ld_saved d" and "ld_logins d lid = Some n \<Longrightarrow> n < ld_next d \<and> ld_ids d n = lid"
  using assms unfolding desk_ok_def by blast+

lemma desk_okI:
  assumes "\<And>n. n < ld_next d \<Longrightarrow> attempt_ok d n" and "\<And>n. ld_next d \<le> n \<Longrightarrow> ld_flows d n = Ended \<and> n \<notin> ld_saved d"
    and "\<And>lid n. ld_logins d lid = Some n \<Longrightarrow> n < ld_next d \<and> ld_ids d n = lid"
  shows "desk_ok d"
  using assms unfolding desk_ok_def by blast

lemma desk_ok_one:
  assumes "desk_ok d" and "ld_next d' = ld_next d" and "ld_ids d' = ld_ids d" and "ld_logins d' = ld_logins d"
    and "\<And>m. m \<noteq> n \<Longrightarrow> ld_attempts d' m = ld_attempts d m \<and> ld_flows d' m = ld_flows d m \<and> (m \<in> ld_saved d' \<longleftrightarrow> m \<in> ld_saved d)"
    and "n < ld_next d" and "attempt_ok d n \<Longrightarrow> attempt_ok d' n"
  shows "desk_ok d'"
proof -
  note ok = desk_okD [OF assms(1)]
  show ?thesis
  proof (rule desk_okI)
    fix m assume m: "m < ld_next d'"
    show "attempt_ok d' m"
    proof (cases "m = n")
      case True
      then show ?thesis using assms(6,7) ok(1) by blast
    next
      case False
      have "attempt_ok d m" using m assms(2) ok(1) by simp
      then show ?thesis by (rule attempt_ok_same) (use assms(5) [OF False] in \<open>simp_all add: is_current_def assms(3,4)\<close>)
    qed
  next
    fix m assume "ld_next d' \<le> m"
    then have "ld_next d \<le> m" "m \<noteq> n" using assms(2,6) by auto
    then show "ld_flows d' m = Ended \<and> m \<notin> ld_saved d'" using ok(2,3) assms(5) by simp
  next
    fix lid m assume "ld_logins d' lid = Some m"
    then show "m < ld_next d' \<and> ld_ids d' m = lid" using ok(4) assms(2,3,4) by simp
  qed
qed

lemma flow_started: "desk_ok d \<Longrightarrow> ld_flows d n \<noteq> Ended \<Longrightarrow> n < ld_next d"
  by (meson desk_okD(2) not_le)

lemma current_started: "desk_ok d \<Longrightarrow> is_current lid n d \<Longrightarrow> n < ld_next d \<and> ld_ids d n = lid"
  unfolding is_current_def by (rule desk_okD(4))

lemma expire_ok:
  assumes "desk_ok d"
  shows "desk_ok (expire_login lid n now d)"
proof (cases "is_current lid n d \<and> la_status (ld_attempts d n) = Pending \<and> \<not> la_finalizing (ld_attempts d n)")
  case True
  then have n: "n < ld_next d" "ld_ids d n = lid" using current_started [OF assms] by blast+
  have e: "expire_login lid n now d = update_attempt n (\<lambda>a. a\<lparr>la_status := Failed,
      la_message := expired_message, la_expires := now + device_login_retention, la_canceled := True\<rparr>) d"
    using True by (simp add: expire_login_def)
  show ?thesis unfolding e
    by (rule desk_ok_one [OF assms, where n = n])
       (use n True in \<open>auto simp: update_attempt_def attempt_ok_def Let_def is_current_def split: login_flow.splits\<close>)
qed (use assms in \<open>auto simp: expire_login_def\<close>)

lemma forget_ok:
  assumes "desk_ok d"
  shows "desk_ok (d\<lparr>ld_logins := (ld_logins d)(lid := None)\<rparr>)"
proof -
  note ok = desk_okD [OF assms]
  show ?thesis
  proof (rule desk_okI)
    fix m assume "m < ld_next (d\<lparr>ld_logins := (ld_logins d)(lid := None)\<rparr>)"
    then have "attempt_ok d m" using ok(1) by simp
    then show "attempt_ok (d\<lparr>ld_logins := (ld_logins d)(lid := None)\<rparr>) m"
      by (rule attempt_ok_same) (auto simp: is_current_def split: if_splits)
  next
    fix l m assume "ld_logins (d\<lparr>ld_logins := (ld_logins d)(lid := None)\<rparr>) l = Some m"
    then have "ld_logins d l = Some m" by (simp split: if_splits)
    then show "m < ld_next (d\<lparr>ld_logins := (ld_logins d)(lid := None)\<rparr>) \<and> ld_ids (d\<lparr>ld_logins := (ld_logins d)(lid := None)\<rparr>) m = l"
      using ok(4) by simp
  qed (use ok(2,3) in simp)
qed

lemma cancel_ok:
  assumes "desk_ok d"
  shows "desk_ok (cancel_login lid d)"
proof (cases "ld_logins d lid")
  case (Some n)
  let ?d = "d\<lparr>ld_logins := (ld_logins d)(lid := None)\<rparr>"
  have n: "n < ld_next d" "ld_ids d n = lid" using current_started [OF assms] Some by (simp_all add: is_current_def)
  have e: "cancel_login lid d = update_attempt n (\<lambda>a. a\<lparr>la_canceled := True\<rparr>) ?d"
    using Some by (simp add: cancel_login_def update_attempt_def)
  show ?thesis unfolding e
    by (rule desk_ok_one [OF forget_ok [OF assms], where n = n])
       (use n in \<open>auto simp: update_attempt_def attempt_ok_def Let_def is_current_def split: login_flow.splits\<close>)
qed (use assms in \<open>simp add: cancel_login_def\<close>)

lemma start_ok:
  assumes "desk_ok d"
  shows "desk_ok (start_login lid expires d)"
proof -
  let ?d = "start_login lid expires d" and ?n = "ld_next d"
  note ok = desk_okD [OF assms]
  have nxt: "ld_next ?d = Suc ?n" by (simp add: start_login_def Let_def)
  show ?thesis
  proof (rule desk_okI)
    fix m assume "m < ld_next ?d"
    then consider "m < ?n" | "m = ?n" unfolding nxt by linarith
    then show "attempt_ok ?d m"
    proof cases
      case 1
      then show ?thesis using ok(1) [OF 1]
        by (intro attempt_ok_same [OF ok(1) [OF 1]]) (auto simp: is_current_def start_login_def Let_def split: if_splits)
    next
      case 2
      then show ?thesis using ok(3) [of ?n] by (simp add: start_login_def attempt_ok_def Let_def)
    qed
  next
    fix m assume "ld_next ?d \<le> m"
    then have "ld_next d \<le> m" "m \<noteq> ?n" unfolding nxt by auto
    then show "ld_flows ?d m = Ended \<and> m \<notin> ld_saved ?d" using ok(2,3) by (simp add: start_login_def Let_def)
  next
    fix l m assume "ld_logins ?d l = Some m"
    then have "l = lid \<and> m = ?n \<or> ld_logins d l = Some m" by (auto simp: start_login_def Let_def split: if_splits)
    then show "m < ld_next ?d \<and> ld_ids ?d m = l" using ok(4) [of l m] by (auto simp: start_login_def Let_def)
  qed
qed

lemma flow_ok:
  assumes "desk_ok d" and "ld_flows d n = f" and "f \<noteq> Ended" and "ld_saved d' = ld_saved d \<or> ld_saved d' = insert n (ld_saved d)"
    and "ld_next d' = ld_next d" and "ld_ids d' = ld_ids d" and "ld_logins d' = ld_logins d"
    and "\<And>m. m \<noteq> n \<Longrightarrow> ld_attempts d' m = ld_attempts d m \<and> ld_flows d' m = ld_flows d m"
    and "attempt_ok d n \<Longrightarrow> attempt_ok d' n"
  shows "desk_ok d'"
proof (rule desk_ok_one [OF assms(1,5,6,7)])
  show "n < ld_next d" using flow_started [OF assms(1)] assms(2,3) by blast
qed (use assms(4,8,9) in auto)

lemmas attempt_facts = attempt_ok_def Let_def is_current_def set_flow_def update_attempt_def

lemma desk_step_ok:
  assumes "desk_step d d'" and "desk_ok d"
  shows "desk_ok d'"
  using assms
proof (cases rule: desk_step.cases)
  case (begun n d1)
  have "d1 = update_attempt n (\<lambda>a. a\<lparr>la_finalizing := True\<rparr>) d" and st: "la_status (ld_attempts d n) = Pending"
    "is_current (ld_ids d n) n d"
    using begun(4) by (auto simp: begin_finalization_def split: if_splits)
  then show ?thesis unfolding begun(1)
    by (intro flow_ok [OF assms(2) begun(2)]) (auto simp: attempt_facts begun(2))
next
  case (too_late n d1)
  then have "d1 = d" "\<not> is_current (ld_ids d n) n d \<or> la_status (ld_attempts d n) \<noteq> Pending"
    by (auto simp: begin_finalization_def split: if_splits)
  then show ?thesis unfolding too_late(1)
    by (intro flow_ok [OF assms(2) too_late(2)]) (auto simp: attempt_facts too_late(2))
next
  case (denied n message)
  then show ?thesis unfolding denied(1) by (intro flow_ok [OF assms(2) denied(2)]) (auto simp: attempt_facts)
next
  case (saved n provider)
  then show ?thesis unfolding saved(1) by (intro flow_ok [OF assms(2) saved(2)]) (auto simp: attempt_facts)
next
  case (unsaved n provider e)
  then show ?thesis unfolding unsaved(1) by (intro flow_ok [OF assms(2) unsaved(2)]) (auto simp: attempt_facts)
next
  case (dropped n)
  then show ?thesis unfolding dropped(1) by (intro flow_ok [OF assms(2) dropped(2)]) (auto simp: attempt_facts)
next
  case (settled n status message now)
  then show ?thesis unfolding settled(1)
    by (intro flow_ok [OF assms(2) settled(2)]) (auto simp: attempt_facts complete_login_def)
next
  case (removed n now)
  then show ?thesis using forget_ok [OF assms(2)] assms(2) by (simp add: remove_login_def)
next
  case (asked lid now answer)
  then show ?thesis using expire_ok [OF assms(2)] assms(2)
    by (auto simp: get_login_def Let_def split: option.splits if_splits)
qed (simp_all add: start_ok expire_ok cancel_ok)

lemma empty_desk_ok: "desk_ok empty_desk"
  by (rule desk_okI) (simp_all add: empty_desk_def)

lemma reaches_ok: "desk_reaches empty_desk d \<Longrightarrow> desk_ok d"
  by (induction rule: desk_reaches.induct) (simp_all add: empty_desk_ok desk_step_ok)

text \<open>What is settled stays as it is.\<close>

lemma status_attempt: "desk_ok d \<Longrightarrow> n < ld_next d \<Longrightarrow> la_status (ld_attempts d n) \<noteq> Pending \<Longrightarrow>
    ld_flows d n = Waiting \<or> ld_flows d n = Ended"
  using desk_okD(1) [of d n] by (auto simp: attempt_ok_def Let_def split: login_flow.splits)

lemma step_settled:
  assumes "desk_step d d'" and "desk_ok d" and "n < ld_next d" and "la_status (ld_attempts d n) \<noteq> Pending"
  shows "n < ld_next d' \<and> la_status (ld_attempts d' n) = la_status (ld_attempts d n) \<and> (n \<in> ld_saved d' \<longleftrightarrow> n \<in> ld_saved d)"
proof -
  note flow = status_attempt [OF assms(2-4)]
  have expire: "n < ld_next (expire_login lid m now d) \<and> la_status (ld_attempts (expire_login lid m now d) n) = la_status (ld_attempts d n)
      \<and> (n \<in> ld_saved (expire_login lid m now d) \<longleftrightarrow> n \<in> ld_saved d)" for lid m now
    using assms(3,4) by (auto simp: expire_login_def update_attempt_def)
  from assms(1) show ?thesis
  proof (cases rule: desk_step.cases)
    case (begun m d1)
    then show ?thesis using assms(3,4) by (auto simp: begin_finalization_def set_flow_def update_attempt_def split: if_splits)
  next
    case (settled m status message now)
    then have "m \<noteq> n" using flow by auto
    then show ?thesis using assms(3) by (simp add: settled(1) set_flow_def complete_login_def update_attempt_def)
  next
    case (saved m provider)
    then have "m \<noteq> n" using flow by auto
    then show ?thesis using assms(3) by (simp add: saved(1) set_flow_def)
  next
    case (asked lid now answer)
    have "d' = d \<or> (\<exists>m. d' = expire_login lid m now d)"
      using asked by (auto simp: get_login_def Let_def split: option.splits if_splits)
    then show ?thesis using expire assms(3) by auto
  next
    case (too_late m d1)
    then show ?thesis using assms(3) by (auto simp: begin_finalization_def set_flow_def split: if_splits)
  qed (use assms(3) expire in \<open>auto simp: start_login_def Let_def set_flow_def cancel_login_def update_attempt_def remove_login_def
      split: option.splits\<close>)
qed

lemma reaches_settled:
  assumes "desk_reaches d d'" and "desk_ok d" and "n < ld_next d" and "la_status (ld_attempts d n) \<noteq> Pending"
  shows "desk_ok d' \<and> n < ld_next d' \<and> la_status (ld_attempts d' n) = la_status (ld_attempts d n)
    \<and> (n \<in> ld_saved d' \<longleftrightarrow> n \<in> ld_saved d)"
  using assms(1)
proof (induction rule: desk_reaches.induct)
  case (further d1 d2)
  then show ?case using step_settled [OF further(2), of n] desk_step_ok [OF further(2)] assms(4) by auto
qed (use assms in simp)

text \<open>C38. A login tells the truth, and for ever: however the requests, the timers and the goroutines of all logins
  interleave, a login that is shown as settled is shown as completed exactly if its account was saved, and no account is
  saved for it afterwards; a login that failed or expired never connects an account behind the administrator's back.\<close>

theorem device_login_truthful:
  assumes "desk_reaches empty_desk d" and "ld_logins d lid = Some n"
    and "get_login lid now d = (Some (status, message), d1)" and "status \<noteq> Pending" and "desk_reaches d1 d'"
  shows "n \<in> ld_saved d' \<longleftrightarrow> status = Completed"
proof -
  have ok: "desk_ok d" by (rule reaches_ok [OF assms(1)])
  have ok1: "desk_ok d1" by (rule desk_step_ok [OF asked [OF assms(3)] ok])
  have "d1 = d \<or> d1 = expire_login lid n now d" and "ld_logins d1 lid = Some n" and st: "la_status (ld_attempts d1 n) = status"
    using assms(2,3) by (auto simp: get_login_def Let_def expire_login_def update_attempt_def split: if_splits)
  then have n: "n < ld_next d1" using desk_okD(4) [OF ok1] by blast
  have "n \<in> ld_saved d1 \<longleftrightarrow> status = Completed"
    using desk_okD(1) [OF ok1 n] status_attempt [OF ok1 n] st assms(4)
    by (cases status) (auto simp: attempt_ok_def Let_def)
  then show ?thesis using reaches_settled [OF assms(5) ok1 n] st assms(4) by simp
qed

theorem device_login_truthful_witness:
  "0 \<notin> ld_saved (snd (get_login ''l'' 10 (start_login ''l'' 9 empty_desk)))"
proof -
  let ?d = "start_login ''l'' 9 empty_desk"
  let ?d1 = "snd (get_login ''l'' 10 ?d)"
  have r: "desk_reaches empty_desk ?d" by (rule further [OF here started])
  have l: "ld_logins ?d ''l'' = Some 0" by (simp add: start_login_def empty_desk_def)
  have g: "get_login ''l'' 10 ?d = (Some (Failed, expired_message), ?d1)"
    by (simp add: get_login_def start_login_def empty_desk_def expire_login_def is_current_def update_attempt_def)
  show ?thesis using device_login_truthful [OF r l g _ here] by simp
qed

end
