(* ===== verification/Control_Resets.thy ===== *)
theory Control_Resets
  imports Control_Accounts
begin

text \<open>
  The reset credits of Codex subscriptions (\<open>internal/control/reset_credits.go\<close>): they are read through a cache in the store
  that one request at a time refreshes, and consumed by hand.
\<close>

section \<open>Reading credits\<close>

definition reset_credits_fresh_for :: duration where "reset_credits_fresh_for = 10 * minute"
definition reset_refresh_lease :: duration where "reset_refresh_lease = minute"

datatype reset_error = ResetStore store_error | ResetUnsupported | ResetOther

definition write_reset_error :: "reset_error \<Rightarrow> gateway \<Rightarrow> reply \<times> gateway" where
  "write_reset_error e g =
     (if e = ResetStore NotFound then write_store_error NotFound g
      else if e = ResetUnsupported
      then write_error 400 ''reset credits are supported only for Codex subscription accounts'' g
      else write_error 502 ''failed to prepare Codex account credentials'' g)"

definition codex_subscription :: "account \<Rightarrow> bool" where
  "codex_subscription a \<longleftrightarrow>
     a_provider a = provider_codex \<and> (a_credential_type a = [] \<or> a_credential_type a = credential_subscription)"

text \<open>\<open>decryptCredentials\<close>: the plaintext and the expiry.\<close>

definition codex_credentials :: "world \<Rightarrow> account \<Rightarrow> (string \<times> time) option" where
  "codex_credentials w a =
     (case w_decrypt w (a_ciphertext a) of
        None \<Rightarrow> None
      | Some plaintext \<Rightarrow> map_option (Pair plaintext) (w_decode w provider_codex plaintext))"

definition subscription_credentials :: "world \<Rightarrow> string \<Rightarrow> gateway \<Rightarrow> (reset_error + account \<times> string) \<times> gateway" where
  "subscription_credentials w aid g =
     (case read_account w aid g of
        (Inl e, g1) \<Rightarrow> (Inl (ResetStore e), g1)
      | (Inr a, g1) \<Rightarrow>
          (if \<not> codex_subscription a then (Inl ResetUnsupported, g1)
           else
             (case codex_credentials w a of
                None \<Rightarrow> (Inl ResetOther, g1)
              | Some (plaintext, expires) \<Rightarrow>
                  (if expires \<noteq> zero_time \<and> expires - clock w g1 \<le> 30 * second
                   then
                     (case refresh w a g1 of
                        (Inl e, g2) \<Rightarrow> (Inl ResetOther, g2)
                      | (Inr b, g2) \<Rightarrow>
                          (case codex_credentials w b of
                             None \<Rightarrow> (Inl ResetOther, g2)
                           | Some (plaintext', _) \<Rightarrow> (Inr (b, plaintext'), g2)))
                   else (Inr (a, plaintext), g1)))))"

type_synonym read_credits = "nat \<Rightarrow> string \<Rightarrow> string option"

definition refresh_reset_credits ::
  "world \<Rightarrow> read_credits \<Rightarrow> string \<Rightarrow> gateway \<Rightarrow> (reset_error + string \<times> time) \<times> gateway" where
  "refresh_reset_credits w read aid g =
     (case subscription_credentials w aid g of
        (Inl e, g1) \<Rightarrow> (Inl e, g1)
      | (Inr (a, plaintext), g1) \<Rightarrow>
          (case ask (\<lambda>i. read i plaintext) g1 of
             (None, g2) \<Rightarrow> (Inl ResetOther, g2)
           | (Some credits, g2) \<Rightarrow>
               let checked = clock w g2 in
               (case store_do w (\<lambda>_ tx d. no_result (set_reset_credits tx aid credits checked d)) g2 of
                  (Inl e, g3) \<Rightarrow> (Inl (ResetStore e), g3)
                | (Inr _, g3) \<Rightarrow> (Inr (credits, checked), g3))))"

definition release_reset_claim :: "world \<Rightarrow> string \<Rightarrow> gateway \<Rightarrow> gateway" where
  "release_reset_claim w aid g = store_note w (\<lambda>_ d. release_reset_refresh aid d) g"

definition claim_reset ::
  "world \<Rightarrow> string \<Rightarrow> time \<Rightarrow> time \<Rightarrow> gateway \<Rightarrow> (store_error + bool) \<times> gateway" where
  "claim_reset w aid stale_before until g =
     store_do w (\<lambda>_ tx d. Inr (claim_reset_refresh tx aid stale_before until d)) g"

text \<open>The refresh in the background, in a goroutine of its own: it is run here at once, what happens meanwhile is part of what
  others commit.\<close>

definition refresh_in_background :: "world \<Rightarrow> read_credits \<Rightarrow> string \<Rightarrow> gateway \<Rightarrow> gateway" where
  "refresh_in_background w read aid g =
     (let now = clock w g in
      case claim_reset w aid (now - reset_credits_fresh_for) (now + reset_refresh_lease) g of
        (Inr True, g1) \<Rightarrow>
          (case refresh_reset_credits w read aid g1 of
             (Inl e, g2) \<Rightarrow> release_reset_claim w aid g2
           | (Inr _, g2) \<Rightarrow> g2)
      | (_, g1) \<Rightarrow> g1)"

definition cached_credits :: "world \<Rightarrow> string \<Rightarrow> gateway \<Rightarrow> (store_error + string option \<times> time option) \<times> gateway" where
  "cached_credits w aid g = store_do w (\<lambda>_ _ d. read_only d (get_reset_credits aid d)) g"

text \<open>\<open>waitForResetCredits\<close>, with the attempts left. A client that goes away ends it.\<close>

fun wait_for_credits ::
  "nat \<Rightarrow> world \<Rightarrow> string \<Rightarrow> gateway \<Rightarrow> (reset_error + string option \<times> time option) \<times> gateway" where
  "wait_for_credits 0 w aid g = (Inr (None, None), g)"
| "wait_for_credits (Suc n) w aid g =
     (if w_canceled w (g_step g) then (Inl ResetOther, g)
      else
        (case cached_credits w aid g of
           (Inl e, g1) \<Rightarrow> (Inl (ResetStore e), g1)
         | (Inr (snapshot, checked), g1) \<Rightarrow>
             (if checked \<noteq> None then (Inr (snapshot, checked), g1) else wait_for_credits n w aid g1)))"

text \<open>\<open>decodeResetCredits\<close>: the credits as text (\<open>null\<close> when nothing is stored); \<open>None\<close> when they do not decode.\<close>

definition decode_reset_credits :: "control_env \<Rightarrow> string option \<Rightarrow> string option" where
  "decode_reset_credits env snapshot =
     (let raw = coalesce snapshot [] in
      if raw = [] then Some ''null'' else if ce_snapshot env raw then Some raw else None)"

definition show_credits :: "control_env \<Rightarrow> string option \<Rightarrow> time option \<Rightarrow> gateway \<Rightarrow> reply \<times> gateway" where
  "show_credits env snapshot checked g =
     (case decode_reset_credits env snapshot of
        None \<Rightarrow> write_error 500 ''stored Codex reset credits are invalid'' g
      | Some credits \<Rightarrow> say 200 (CreditsBody credits checked) g)"

definition read_through :: "world \<Rightarrow> read_credits \<Rightarrow> bool \<Rightarrow> string \<Rightarrow> gateway \<Rightarrow> reply \<times> gateway" where
  "read_through w read claimed aid g =
     (case refresh_reset_credits w read aid g of
        (Inl e, g1) \<Rightarrow> write_reset_error e (if claimed then release_reset_claim w aid g1 else g1)
      | (Inr (credits, checked), g1) \<Rightarrow> say 200 (CreditsBody credits (Some checked)) g1)"

definition h_get_reset_credits :: handler where
  "h_get_reset_credits w env rq g =
     (case ce_resets env of
        None \<Rightarrow> write_error 503 ''Codex reset service is unavailable'' g
      | Some (read, _) \<Rightarrow>
          (case read_account w (rq_id rq) g of
             (Inl e, g1) \<Rightarrow> write_reset_error (ResetStore e) g1
           | (Inr a, g1) \<Rightarrow>
               (if \<not> codex_subscription a then write_reset_error ResetUnsupported g1
                else if rq_query rq ''refresh'' = ''true'' then read_through w read False (a_id a) g1
                else
                  (case cached_credits w (a_id a) g1 of
                     (Inl e, g2) \<Rightarrow> write_store_error e g2
                   | (Inr (snapshot, Some checked), g2) \<Rightarrow>
                       (if decode_reset_credits env snapshot = None then show_credits env snapshot (Some checked) g2
                        else if checked < clock w g2 - reset_credits_fresh_for
                        then show_credits env snapshot (Some checked) (refresh_in_background w read (a_id a) g2)
                        else show_credits env snapshot (Some checked) g2)
                   | (Inr (_, None), g2) \<Rightarrow>
                       (case claim_reset w (a_id a) (clock w g2) (clock w g2 + reset_refresh_lease) g2 of
                          (Inl e, g3) \<Rightarrow> write_store_error e g3
                        | (Inr True, g3) \<Rightarrow> read_through w read True (a_id a) g3
                        | (Inr False, g3) \<Rightarrow>
                            (case wait_for_credits 30 w (a_id a) g3 of
                               (Inl (ResetStore e), g4) \<Rightarrow> write_store_error e g4
                             | (Inl _, g4) \<Rightarrow> write_error 500 ''operation failed'' g4
                             | (Inr (_, None), g4) \<Rightarrow> write_error 503 ''Codex reset credits are being refreshed'' g4
                             | (Inr (snapshot, Some checked), g4) \<Rightarrow> show_credits env snapshot (Some checked) g4))))))"

section \<open>Consuming credits\<close>

text \<open>\<open>persistResetQuota\<close>, its last part: an account that waits for the quota is put back to work.\<close>

definition reactivate_waiting :: "world \<Rightarrow> account \<Rightarrow> gateway \<Rightarrow> gateway" where
  "reactivate_waiting w a g =
     (if a_status a = account_cooling_down \<or> a_status a = account_exhausted
      then set_status w (a_id a) account_active None g else g)"

definition persist_reset_quota ::
  "world \<Rightarrow> control_env \<Rightarrow> account \<Rightarrow> (string option \<times> bool option) option \<Rightarrow> checker \<Rightarrow> checker" where
  "persist_reset_quota w env a quota m =
     (case quota of
        None \<Rightarrow>
          (case ce_health env of
             None \<Rightarrow> (reactivate_waiting w a (fst m), snd m)
           | Some pr \<Rightarrow>
               (case check_account w pr (a_id a) m of
                  (Inl e, g1, polls1) \<Rightarrow> (reactivate_waiting w a g1, polls1)
                | (Inr b, g1, polls1) \<Rightarrow>
                    (if a_quota_error b = [] then (g1, polls1) else (reactivate_waiting w a g1, polls1))))
      | Some (None, _) \<Rightarrow> (reactivate_waiting w a (fst m), snd m)
      | Some (Some raw, allowed) \<Rightarrow>
          (let now = clock w (fst m) in
           (case store_do w (\<lambda>_ tx d. no_result (update_provider_details tx (a_id a) [] raw now d)) (fst m) of
              (Inl e, g1) \<Rightarrow> (reactivate_waiting w a g1, snd m)
            | (Inr _, g1) \<Rightarrow>
                (case allowed of
                   None \<Rightarrow> (reactivate_waiting w a g1, snd m)
                 | Some b \<Rightarrow>
                     (case store_do w (\<lambda>_ tx d. no_result (set_usage_allowed tx (a_id a) b d)) g1 of
                        (Inl e, g2) \<Rightarrow> (reactivate_waiting w a g2, snd m)
                      | (Inr _, g2) \<Rightarrow> (g2, snd m))))))"

definition decode_consume :: "string \<Rightarrow> (string \<times> string) option" where
  "decode_consume body =
     (case decode_members [''credit_id'', ''idempotency_key''] body of
        None \<Rightarrow> None
      | Some ms \<Rightarrow>
          (case (str_field ''credit_id'' ms, str_field ''idempotency_key'' ms) of
             (Some credit, Some idem) \<Rightarrow> Some (trim_space credit, trim_space idem)
           | _ \<Rightarrow> None))"

definition h_consume_reset_credit :: checked_handler where
  "h_consume_reset_credit w env rq m =
     (case ce_resets env of
        None \<Rightarrow> lift (write_error 503 ''Codex reset service is unavailable'' (fst m)) (snd m)
      | Some (_, consume) \<Rightarrow>
          (case decode_consume (rq_body rq) of
             None \<Rightarrow> lift (write_error 400 ''invalid request body'' (fst m)) (snd m)
           | Some (credit, idem) \<Rightarrow>
               (if idem = [] \<or> length idem > 200 \<or> length credit > 512
                then lift (write_error 400 ''a valid idempotency_key is required'' (fst m)) (snd m)
                else
                  (case subscription_credentials w (rq_id rq) (fst m) of
                     (Inl e, g1) \<Rightarrow> lift (write_reset_error e g1) (snd m)
                   | (Inr (a, plaintext), g1) \<Rightarrow>
                       (case ask (\<lambda>i. consume i plaintext credit idem) g1 of
                          (None, g2) \<Rightarrow>
                            lift (write_error 502 ''failed to consume Codex reset credit''
                              (audit_note w ''provider_account.reset_credit.consume'' ''provider_account'' (a_id a) ''failure'' g2)) (snd m)
                        | (Some c, g2) \<Rightarrow>
                            let done_now = (cs_outcome c = ''reset'' \<or> cs_outcome c = ''alreadyRedeemed'');
                                m3 = (if done_now then persist_reset_quota w env a (cs_quota c) (g2, snd m) else (g2, snd m));
                                g4 = (case cs_credits c of
                                        None \<Rightarrow> fst m3
                                      | Some credits \<Rightarrow>
                                          (let now = clock w (fst m3) in
                                           store_note w (\<lambda>tx d. set_reset_credits tx (a_id a) credits now d) (fst m3)))
                            in lift (say 200 (ConsumedBody c)
                                 (audit_note w ''provider_account.reset_credit.consume'' ''provider_account'' (a_id a)
                                   (if done_now then ''success'' else ''failure'') g4)) (snd m3))))))"

end
