(* ===== verification/Control_Reports.thy ===== *)
theory Control_Reports
  imports Control_Resets Control_Usage
begin

text \<open>
  The usage reports at the control API (\<open>internal/control/pools_keys_usage.go\<close>): the filter and the cursor as they stand in
  the query of a request, and the replies.
\<close>

section \<open>Dates\<close>

text \<open>\<open>time.Parse("2006-01-02", raw)\<close>: the start of a day.\<close>

definition leap_year :: "int \<Rightarrow> bool" where
  "leap_year y \<longleftrightarrow> y mod 4 = 0 \<and> (y mod 100 \<noteq> 0 \<or> y mod 400 = 0)"

definition days_in_month :: "int \<Rightarrow> int \<Rightarrow> int" where
  "days_in_month y m = (if m = 2 then (if leap_year y then 29 else 28) else if m \<in> {4, 6, 9, 11} then 30 else 31)"

text \<open>The days from the first of January 1970; a year is counted from its first of March.\<close>

definition days_from_civil :: "int \<Rightarrow> int \<Rightarrow> int \<Rightarrow> int" where
  "days_from_civil y m d =
     (let y' = (if m \<le> 2 then y - 1 else y); m' = (if m \<le> 2 then m + 9 else m - 3)
      in 365 * y' + y' div 4 - y' div 100 + y' div 400 + (153 * m' + 2) div 5 + d - 1 - 719468)"

definition day :: duration where "day = 24 * hour"

definition parse_date :: "string \<Rightarrow> time option" where
  "parse_date s =
     (if length s = 10 \<and> s ! 4 = CHR ''-'' \<and> s ! 7 = CHR ''-''
         \<and> list_all is_digit (take 4 s @ take 2 (drop 5 s) @ drop 8 s)
      then
        (let y = digits_val (take 4 s); m = digits_val (take 2 (drop 5 s)); d = digits_val (drop 8 s)
         in if 1 \<le> m \<and> m \<le> 12 \<and> 1 \<le> d \<and> d \<le> days_in_month y m then Some (days_from_civil y m d * day) else None)
      else None)"

section \<open>Filters\<close>

definition default_usage_limit :: nat where "default_usage_limit = 50"
definition maximum_usage_limit :: int where "maximum_usage_limit = 100"
definition max_cursor_len :: nat where "max_cursor_len = 1024"

text \<open>A parameter that is missing, or a date.\<close>

definition date_parameter :: "string \<Rightarrow> time option option" where
  "date_parameter raw = (if raw = [] then Some None else map_option Some (parse_date raw))"

definition parse_usage_filter :: "request \<Rightarrow> string + (usage_query \<times> nat)" where
  "parse_usage_filter rq =
     (let kid = trim_space (rq_query rq ''api_key_id''); raw = rq_query rq ''limit'';
          limit = (if raw = [] then Some (int default_usage_limit) else atoi raw)
      in if kid \<noteq> [] \<and> \<not> valid_id kid then Inl ''api_key_id must be a UUID''
         else
           (case limit of
              None \<Rightarrow> Inl ''limit must be between 1 and 100''
            | Some n \<Rightarrow>
                (if n < 1 \<or> maximum_usage_limit < n then Inl ''limit must be between 1 and 100''
                 else
                   (case (date_parameter (rq_query rq ''from''), date_parameter (rq_query rq ''to'')) of
                      (Some from, Some to) \<Rightarrow>
                        (if (case (from, to) of (Some a, Some b) \<Rightarrow> b < a | _ \<Rightarrow> False)
                         then Inl ''from must be on or before to''
                         else Inr (\<lparr>uq_key = kid, uq_from = from, uq_to = to\<rparr>, nat n))
                    | _ \<Rightarrow> Inl ''dates must use YYYY-MM-DD''))))"

section \<open>Cursors\<close>

definition encode_usage_cursor :: "usage_cursor \<Rightarrow> string" where
  "encode_usage_cursor c =
     b64_encode (object_text [(''t'', int_text (uc_total c)), (''e'', marshal_string (uc_employee c))])"

definition decode_usage_cursor :: "string \<Rightarrow> usage_cursor option" where
  "decode_usage_cursor value =
     (case b64_strict value of
        None \<Rightarrow> None
      | Some raw \<Rightarrow>
          (case strict_members [''t'', ''e''] raw of
             None \<Rightarrow> None
           | Some ms \<Rightarrow>
               (case (int_field ''t'' ms, str_field ''e'' ms) of
                  (Some t, Some e) \<Rightarrow>
                    (if t < 0 \<or> \<not> valid_id e then None else Some \<lparr>uc_total = t, uc_employee = e\<rparr>)
                | _ \<Rightarrow> None)))"

definition encode_details_cursor :: "usage_details_cursor \<Rightarrow> string" where
  "encode_details_cursor c =
     b64_encode (object_text [(''t'', int_text (dc_total c)), (''k'', marshal_string (dc_key c)),
       (''m'', marshal_string (dc_model c))])"

definition decode_details_cursor :: "string \<Rightarrow> usage_details_cursor option" where
  "decode_details_cursor value =
     (case b64_strict value of
        None \<Rightarrow> None
      | Some raw \<Rightarrow>
          (case strict_members [''t'', ''k'', ''m''] raw of
             None \<Rightarrow> None
           | Some ms \<Rightarrow>
               (case (int_field ''t'' ms, str_field ''k'' ms, str_field ''m'' ms) of
                  (Some t, Some k, Some m) \<Rightarrow>
                    (if t < 0 \<or> \<not> valid_id k \<or> trim_space m = [] then None
                     else Some \<lparr>dc_total = t, dc_key = k, dc_model = m\<rparr>)
                | _ \<Rightarrow> None)))"

text \<open>The cursor of a request: none, one, or one that is refused.\<close>

definition cursor_parameter :: "(string \<Rightarrow> 'c option) \<Rightarrow> request \<Rightarrow> 'c option option" where
  "cursor_parameter decode rq =
     (let raw = rq_query rq ''cursor'' in
      if raw = [] then Some None
      else if max_cursor_len < length raw then None
      else map_option Some (decode raw))"

section \<open>Replies\<close>

datatype 'a reported = Reported 'a | NotReported int string

definition h_list_usage :: "world \<Rightarrow> request \<Rightarrow> gateway \<Rightarrow> (usage_reply \<times> string) reported \<times> gateway" where
  "h_list_usage w rq g =
     (case parse_usage_filter rq of
        Inl message \<Rightarrow> (NotReported 400 message, g)
      | Inr (f, limit) \<Rightarrow>
          (case cursor_parameter decode_usage_cursor rq of
             None \<Rightarrow> (NotReported 400 ''invalid cursor'', g)
           | Some after \<Rightarrow>
               (case store_do w (\<lambda>_ _ d. Inr (d, usage_rows (d, f) after (limit + 1))) g of
                  (Inl e, g1) \<Rightarrow> (NotReported 500 ''failed to list usage'', g1)
                | (Inr rows, g1) \<Rightarrow>
                    (case store_do w (\<lambda>_ _ d. Inr (d, get_usage_totals (uq_key f) (uq_from f) (uq_to f) d)) g1 of
                       (Inl e, g2) \<Rightarrow> (NotReported 500 ''failed to summarize usage'', g2)
                     | (Inr sm, g2) \<Rightarrow>
                         (case store_do w (\<lambda>_ _ d. Inr (d, list_top_usage_keys (uq_key f) (uq_from f) (uq_to f) top_key_limit d)) g2 of
                            (Inl e, g3) \<Rightarrow> (NotReported 500 ''failed to summarize usage'', g3)
                          | (Inr tk, g3) \<Rightarrow>
                              (case page_of (\<lambda>_ _ _. rows) employee_cursor () limit after of
                                 (items, nxt) \<Rightarrow>
                                   (Reported (\<lparr>ur_items = items, ur_summary = sm, ur_top_keys = tk, ur_next = nxt\<rparr>,
                                              (case nxt of None \<Rightarrow> [] | Some c \<Rightarrow> encode_usage_cursor c)), g3)))))))"

definition h_list_usage_details ::
  "world \<Rightarrow> request \<Rightarrow> gateway \<Rightarrow> (usage_detail list \<times> string) reported \<times> gateway" where
  "h_list_usage_details w rq g =
     (if \<not> valid_id (rq_id rq) then (NotReported 400 ''employee id must be a UUID'', g)
      else
        (case parse_usage_filter rq of
           Inl message \<Rightarrow> (NotReported 400 message, g)
         | Inr (f, limit) \<Rightarrow>
             (case cursor_parameter decode_details_cursor rq of
                None \<Rightarrow> (NotReported 400 ''invalid cursor'', g)
              | Some after \<Rightarrow>
                  (case store_do w (\<lambda>_ _ d. Inr (d, detail_rows (d, rq_id rq, f) after (limit + 1))) g of
                     (Inl e, g1) \<Rightarrow> (NotReported 500 ''failed to list usage details'', g1)
                   | (Inr rows, g1) \<Rightarrow>
                       (case page_of (\<lambda>_ _ _. rows) detail_cursor () limit after of
                          (items, nxt) \<Rightarrow>
                            (Reported (items, (case nxt of None \<Rightarrow> [] | Some c \<Rightarrow> encode_details_cursor c)), g1))))))"

section \<open>Cursors round trip\<close>

lemma nat_digits_digit: "n < 10 \<Longrightarrow> is_digit (char_of (48 + n :: nat))"
  by (simp add: is_digit_def byte_char_of)

lemma nat_digits_all: "list_all is_digit (nat_digits n)"
  by (induction n rule: nat_digits.induct) (subst nat_digits.simps, simp add: nat_digits_digit)

lemma nat_digits_val: "digits_val (nat_digits n) = int n"
proof (induction n rule: nat_digits.induct)
  case (1 n)
  show ?case
  proof (cases "n < 10")
    case True
    then show ?thesis by (subst nat_digits.simps) (simp add: digits_val_def byte_char_of)
  next
    case False
    have "digits_val (xs @ [c]) = digits_val xs * 10 + (int (byte c) - 48)" for xs c by (simp add: digits_val_def)
    then show ?thesis using False 1 by (subst nat_digits.simps) (simp add: byte_char_of zdiv_int zmod_int)
  qed
qed

lemma nat_digits_zero: "nat_digits n = CHR ''0'' # t \<Longrightarrow> t = []"
proof (induction n arbitrary: t rule: nat_digits.induct)
  case (1 n)
  show ?case
  proof (cases "n < 10")
    case True
    then show ?thesis using "1.prems" by (subst (asm) nat_digits.simps) simp
  next
    case False
    then have p: "nat_digits (n div 10) @ [char_of (48 + n mod 10)] = CHR ''0'' # t"
      using "1.prems" by (subst (asm) nat_digits.simps) simp
    have "nat_digits (n div 10) \<noteq> []" by (subst nat_digits.simps) simp
    then obtain u where u: "nat_digits (n div 10) = CHR ''0'' # u" using p by (cases "nat_digits (n div 10)") auto
    then have "u = []" using "1.IH" False by blast
    then have "int (n div 10) = digits_val ''0''" using u nat_digits_val [of "n div 10"] by simp
    then have "n div 10 = 0" by (simp add: digits_val_def)
    then show ?thesis using False by simp
  qed
qed

lemma nat_digits_parse: "nest_parse (nat_digits n) = Some (JNum (nat_digits n))"
proof -
  obtain c t where s: "nat_digits n = c # t" by (cases "nat_digits n") (subst (asm) nat_digits.simps, auto split: if_splits)
  have c: "is_digit c" "list_all is_digit t" using nat_digits_all [of n] by (simp_all add: s)
  have drop: "dropWhile is_digit t = []" using c(2) by (simp add: dropWhile_eq_Nil_conv list_all_iff)
  have z: "c = CHR ''0'' \<longrightarrow> t = []" using nat_digits_zero s by blast
  have b: "48 \<le> byte c" "byte c \<le> 57" using c(1) by (auto simp: is_digit_def)
  have diff: "c \<noteq> d" if "byte d < 48 \<or> 57 < byte d" for d using that b by auto
  have n: "scan_number (c # t) = Some (c # t, [])"
    using c(1) z diff [of "CHR ''-''"]
    by (auto simp: scan_number_def scan_sign_def scan_int_def scan_frac_def scan_exp_def drop)
  have "\<not> json_space c" using b by (auto simp: json_space_def)
  moreover have "c \<noteq> CHR ''{''" "c \<noteq> CHR ''[''" "c \<noteq> quote" "c \<noteq> CHR ''t''" "c \<noteq> CHR ''f''" "c \<noteq> CHR ''n''"
    using diff by (auto simp: quote_def)
  ultimately show ?thesis
    by (simp add: s nest_parse_def json_fuel_def parse_value_scalar parse_scalar_def skip_ws_def n)
qed


lemma nat_digits_int64: "n < 2 ^ 63 \<Longrightarrow> num_int64 (nat_digits n) = Some (int n)"
proof -
  assume n: "n < 2 ^ 63"
  obtain c t where s: "nat_digits n = c # t" by (cases "nat_digits n") (subst (asm) nat_digits.simps, auto split: if_splits)
  have "is_digit c" using nat_digits_all [of n] by (simp add: s)
  then have "scan_sign (nat_digits n) = nat_digits n" by (auto simp: s scan_sign_def is_digit_def)
  moreover have "in_int64 (int n)" using n by (simp add: in_int64_def max_int64_def)
  ultimately show ?thesis using s nat_digits_all [of n] nat_digits_val [of n] by (simp add: num_int64_def)
qed

lemma int_text_field:
  assumes "0 \<le> n" and "in_int64 n"
  shows "nest_parse (int_text n) = Some (JNum (int_text n))" and "store_int64 (JNum (int_text n)) x = Some n"
proof -
  have "nat n < 2 ^ 63" using assms by (simp add: in_int64_def max_int64_def nat_less_iff)
  then show "nest_parse (int_text n) = Some (JNum (int_text n))" "store_int64 (JNum (int_text n)) x = Some n"
    using assms(1) by (simp_all add: int_text_def nat_digits_parse nat_digits_int64 store_int64_def)
qed

lemma valid_id_ascii:
  assumes "valid_id s"
  shows "ascii s"
proof -
  have "byte c < 128" if c: "c \<in> set s" for c
  proof (cases "c = CHR ''-''")
    case False
    then have "hex_val c \<noteq> None" using assms c by (auto simp: valid_id_def Let_def list_all_iff)
    then show ?thesis by (auto simp: hex_val_def is_digit_def split: if_splits)
  qed simp
  then show ?thesis by (simp add: ascii_def list_all_iff)
qed

lemma cursor_names: "fold_name ''t'' = ''t''" "fold_name ''e'' = ''e''" "fold_name ''k'' = ''k''" "fold_name ''m'' = ''m''"
  by (simp_all add: fold_name_ascii lower_char_def char_of_def bit_0 del: fold_name.simps)

lemma cursor_keys: "valid_utf8 ''t''" "valid_utf8 ''e''" "valid_utf8 ''k''" "valid_utf8 ''m''"
  by (rule ascii_valid; simp add: ascii_def)+

text \<open>C40. A client gets back to the row where its page ended: the cursor of a report decodes to what was encoded, for every
  row that the store can hold, a total that fits 64 bits, the identifier of an employee or a key, and a model name in
  valid UTF-8 that is not blank.\<close>

theorem usage_cursors_roundtrip:
  assumes "0 \<le> t" and "in_int64 t" and "valid_id i" and "valid_utf8 m" and "trim_space m \<noteq> []"
  shows "decode_usage_cursor (encode_usage_cursor \<lparr>uc_total = t, uc_employee = i\<rparr>) = Some \<lparr>uc_total = t, uc_employee = i\<rparr>
    \<and> decode_details_cursor (encode_details_cursor \<lparr>dc_total = t, dc_key = i, dc_model = m\<rparr>)
      = Some \<lparr>dc_total = t, dc_key = i, dc_model = m\<rparr>"
proof -
  have i: "valid_utf8 i" by (rule ascii_valid [OF valid_id_ascii [OF assms(3)]])
  let ?es = "[(''t'', int_text t), (''e'', marshal_string i)]"
  let ?ds = "[(''t'', int_text t), (''k'', marshal_string i), (''m'', marshal_string m)]"
  note p = int_text_field(1) [OF assms(1,2)] nest_parse_string [OF i] nest_parse_string [OF assms(4)]
  have "nests ?es" "nests ?ds" by (simp_all add: nests_def p cursor_keys)
  then have "json_parse (object_text ?es) = Some (JObj [(''t'', JNum (int_text t)), (''e'', JStr i)])"
    and "json_parse (object_text ?ds) = Some (JObj [(''t'', JNum (int_text t)), (''k'', JStr i), (''m'', JStr m)])"
    by (simp_all add: object_text_parse nest_values_def p)
  then show ?thesis using assms(1,3,5)
    by (simp add: decode_usage_cursor_def encode_usage_cursor_def decode_details_cursor_def encode_details_cursor_def
        b64_strict_roundtrip strict_members_def struct_members_def known_members_def int_field_def str_field_def field_vals_def
        decode_field_def cursor_names int_text_field(2) [OF assms(1,2)] store_string_def del: fold_name.simps)
qed

theorem usage_cursors_roundtrip_witness:
  "decode_details_cursor (encode_details_cursor \<lparr>dc_total = 7, dc_key = replicate 36 (CHR ''-''), dc_model = ''m''\<rparr>) \<noteq> None"
proof -
  have "0 \<le> (7 :: int)" "in_int64 7" "valid_id (replicate 36 (CHR ''-''))" "valid_utf8 ''m''" "trim_space ''m'' \<noteq> []"
    by (simp, simp add: in_int64_def max_int64_def, simp add: valid_id_def, rule cursor_keys(4), code_simp)
  from usage_cursors_roundtrip [OF this] show ?thesis by simp
qed

lemma marshal_body_longer: "length s \<le> length (marshal_body s)"
proof (induction s rule: marshal_body.induct)
  case (2 c s)
  have a: "1 \<le> length (escape_ascii c)" by (simp add: escape_ascii_def u_escape_def)
  have u: "length (u_escape n) = 6" for n by (simp add: u_escape_def)
  show ?case
  proof (cases "byte c < 128 \<or> utf8_len (c # s) = 0")
    case True
    then show ?thesis using 2 a by (auto simp: marshal_body.simps(2) u)
  next
    case False
    show ?thesis
    proof (cases "line_separator (c # s)")
      case True
      then show ?thesis using False "2.IH"(3) by (auto simp: marshal_body.simps(2) u)
    next
      case sep: False
      obtain n where n: "utf8_len (c # s) = Suc n" using False by (cases "utf8_len (c # s)") auto
      then show ?thesis using False sep "2.IH"(4) utf8_len_rest [OF n] by (auto simp: marshal_body.simps(2))
    qed
  qed
qed simp

text \<open>The report on a model with a long name cannot be read to its end: when the name has more than 750 bytes, the cursor
  that the reply itself contains is longer than what a request may send back, and is refused.\<close>

theorem long_model_cursor_refused:
  assumes "750 < length (dc_model c)" and "rq_query rq ''cursor'' = encode_details_cursor c"
  shows "cursor_parameter decode_details_cursor rq = None"
proof -
  have "length (dc_model c) + 20 \<le> length (object_text [(''t'', int_text (dc_total c)), (''k'', marshal_string (dc_key c)),
       (''m'', marshal_string (dc_model c))])"
    using marshal_body_longer [of "dc_model c"] marshal_body_longer [of "''t''"] marshal_body_longer [of "''k''"]
      marshal_body_longer [of "''m''"] by (simp add: object_text_def marshal_string_def)
  then have "1024 < length (encode_details_cursor c)"
    using assms(1) unfolding encode_details_cursor_def b64_encode_length by linarith
  moreover from this have "encode_details_cursor c \<noteq> []" by force
  ultimately show ?thesis using assms(2) by (simp add: cursor_parameter_def Let_def max_cursor_len_def)
qed

theorem long_model_cursor_refused_witness:
  "cursor_parameter decode_details_cursor
     \<lparr>rq_cookie = None, rq_body = [], rq_id = [], rq_source = [],
      rq_query = (\<lambda>_. encode_details_cursor \<lparr>dc_total = 1, dc_key = [], dc_model = replicate 751 (CHR ''m'')\<rparr>)\<rparr> = None"
  by (rule long_model_cursor_refused [of "\<lparr>dc_total = 1, dc_key = [], dc_model = replicate 751 (CHR ''m'')\<rparr>"]) simp_all

end
