(* ===== verification/Health_Checks.thy ===== *)
theory Health_Checks
  imports Health Admin
begin

text \<open>
  What checks promise: they keep the invariants of the database, write nothing but provider accounts, take their verdict
  on an OpenAI-compatible account from its models only, and leave a saved quota alone when a poll was not due.
\<close>

section \<open>Invariants of checks\<close>

lemma store_do_inv:
  assumes "I (g_db g)" and "\<And>i d. I d \<Longrightarrow> I (w_others w i d)"
    and "\<And>i t d d' x. I d \<Longrightarrow> f i t d = Inr (d', x) \<Longrightarrow> I d'"
  shows "I (g_db (snd (store_do w f g)))"
proof -
  let ?d = "w_others w (g_step g) (g_db g)"
  have d: "I ?d" by (rule assms(2) [OF assms(1)])
  have "f (g_step g) (w_tx w (g_step g)) ?d = Inr (d', x) \<Longrightarrow> I d'" for d' x by (rule assms(3) [OF d])
  then show ?thesis using d by (auto simp: store_do_def Let_def split: option.split sum.split)
qed

text \<open>What others commit, and a refresh of credentials, keep the invariant.\<close>

definition world_keeps :: "(db \<Rightarrow> bool) \<Rightarrow> world \<Rightarrow> bool" where
  "world_keeps I w \<longleftrightarrow>
     (\<forall>i d. I d \<longrightarrow> I (w_others w i d)) \<and> (\<forall>i aid v d. I d \<longrightarrow> I (fst (w_refresh w i aid v d)))"

lemma world_keepsD:
  "world_keeps I w \<Longrightarrow> I d \<Longrightarrow> I (w_others w i d)"
  "world_keeps I w \<Longrightarrow> I d \<Longrightarrow> I (fst (w_refresh w i aid v d))"
  by (auto simp: world_keeps_def)

lemma ask_db [simp]: "g_db (snd (ask f g)) = g_db g"
  by (simp add: ask_def)

lemma ask_eq: "ask f g = (x, g') \<Longrightarrow> g_db g' = g_db g"
  by (auto simp: ask_def)

lemma refresh_inv: "world_keeps I w \<Longrightarrow> I (g_db g) \<Longrightarrow> I (g_db (snd (refresh w a g)))"
  using world_keepsD(1) [of I w] world_keepsD(2) [of I w] by (simp add: refresh_def case_prod_beta)

lemma refresh_eq: "refresh w a g = (r, g') \<Longrightarrow> world_keeps I w \<Longrightarrow> I (g_db g) \<Longrightarrow> I (g_db g')"
  using refresh_inv [of I w g a] by simp

lemma ask_antigravity_inv:
  assumes "world_keeps I w" and "I (g_db g)"
  shows "I (g_db (snd (ask_antigravity w pr models a plaintext refreshed g)))"
proof -
  obtain r g1 where 1: "ask (\<lambda>i. models i plaintext) g = (r, g1)" by (rule prod.exhaust)
  obtain f g2 where 2: "refresh w a g1 = (f, g2)" by (rule prod.exhaust)
  have g1: "I (g_db g1)" using ask_eq [OF 1] assms(2) by simp
  have g2: "I (g_db g2)" by (rule refresh_eq [OF 2 assms(1) g1])
  have again: "I (g_db (snd (case ask (\<lambda>i. models i p) g2 of
      (Inl e', g3) \<Rightarrow> (antigravity_quota_failure (xe_antigravity_auth e'), g3)
    | (Inr snapshot, g3) \<Rightarrow> (antigravity_found pr p snapshot, g3))))" for p
    using g2 by (auto split: prod.split sum.split dest: ask_eq)
  show ?thesis unfolding ask_antigravity_def 1 prod.case 2
    using g1 g2 again by (simp split: sum.split option.split)
qed

lemma check_antigravity_inv:
  assumes "world_keeps I w" and "I (g_db g)"
  shows "I (g_db (snd (check_antigravity w pr a plaintext g)))"
proof -
  obtain f g1 where 1: "refresh w a g = (f, g1)" by (rule prod.exhaust)
  have "I (g_db g1)" by (rule refresh_eq [OF 1 assms])
  moreover have "I (g_db h) \<Longrightarrow> I (g_db (snd (ask_antigravity w pr models b p refreshed h)))" for models b p refreshed h
    by (rule ask_antigravity_inv [OF assms(1)])
  ultimately show ?thesis unfolding check_antigravity_def 1 using assms(2) by (simp split: sum.split option.split)
qed

lemma openai_quota_db: "g_db (fst (snd (openai_quota w pr c a force m))) = g_db (fst m)"
  by (auto simp: openai_quota_def case_prod_beta split: option.split prod.split bool.split dest: ask_eq)

lemma compatible_quota_db: "g_db (fst (snd (compatible_quota w pr c a force m))) = g_db (fst m)"
  by (simp add: compatible_quota_def case_prod_beta openai_quota_db split: option.split)

lemma check_compatible_db: "g_db (fst (snd (check_compatible w pr plaintext a force m))) = g_db (fst m)"
  by (simp add: check_compatible_def case_prod_beta compatible_quota_db split: option.split)

lemma check_codex_db: "g_db (snd (check_codex w pr plaintext g)) = g_db g"
  by (auto simp: check_codex_def split: option.split sum.split prod.split dest: ask_eq)

lemma check_copilot_db: "g_db (snd (check_copilot w pr plaintext g)) = g_db g"
  by (auto simp: check_copilot_def split: option.split sum.split prod.split dest: ask_eq)

lemma check_provider_inv:
  assumes "world_keeps I w" and "I (g_db (fst m))"
  shows "I (g_db (fst (snd (check_provider w pr a force m))))"
  using assms check_antigravity_inv [OF assms]
  by (auto simp: check_provider_def check_compatible_db check_codex_db check_copilot_db apsnd_def map_prod_def case_prod_beta
      split: option.split)

text \<open>An invariant that the writes of a verdict keep, and one that all writes of a check keep.\<close>

locale verdict_invariant =
  fixes I :: "db \<Rightarrow> bool"
  assumes status: "I d \<Longrightarrow> update_provider_status tx aid account_auth_failed None d = Inr d' \<Longrightarrow> I d'"
    and failure: "I d \<Longrightarrow> record_health_failure tx aid code now nxt d = Inr d' \<Longrightarrow> I d'"
    and health: "I d \<Longrightarrow> set_provider_health tx aid h code now nxt d = Inr d' \<Longrightarrow> I d'"
    and allowed: "I d \<Longrightarrow> set_usage_allowed tx aid b d = Inr d' \<Longrightarrow> I d'"
begin

lemma write_inv:
  assumes "world_keeps I w" and "I (g_db g)" and "\<And>tx d d'. I d \<Longrightarrow> f tx d = Inr d' \<Longrightarrow> I d'"
  shows "I (g_db (snd (store_do w (\<lambda>_ tx d. no_result (f tx d)) g)))"
proof (rule store_do_inv [where I = I, OF assms(2)])
  show "I d \<Longrightarrow> I (w_others w i d)" for i d by (rule world_keepsD(1) [OF assms(1)])
  show "I d \<Longrightarrow> no_result (f t d) = Inr (d', x) \<Longrightarrow> I d'" for t d d' and x :: unit
    using assms(3) by (auto simp: no_result_def split: sum.splits)
qed

lemma write_eq:
  assumes "store_do w (\<lambda>_ tx d. no_result (f tx d)) g = (r, g')"
    and "world_keeps I w" and "I (g_db g)" and "\<And>tx d d'. I d \<Longrightarrow> f tx d = Inr d' \<Longrightarrow> I d'"
  shows "I (g_db g')"
  using write_inv [where f = f and w = w and g = g] assms by simp

lemma persist_verdict_inv:
  assumes "world_keeps I w" and "I (g_db g)"
  shows "I (g_db (snd (persist_verdict w aid r now g)))"
proof -
  let ?nxt = "next_check aid now"
  have verdict: "I (g_db (snd (store_do w (\<lambda>_ tx d. no_result (update_provider_status tx aid account_auth_failed None d)) g)))"
      "I (g_db (snd (store_do w (\<lambda>_ tx d. no_result (record_health_failure tx aid (hr_error r) now ?nxt d)) g)))"
    by (rule write_inv [OF assms], erule (1) status failure)+
  have health': "I (g_db h) \<Longrightarrow> I (g_db (snd (store_do w (\<lambda>_ tx d. no_result (set_provider_health tx aid (hr_health r) (hr_error r) now ?nxt d)) h)))" for h
    by (rule write_inv [OF assms(1)], assumption, erule (1) health)
  show ?thesis
  proof (cases "hr_allowed r")
    case None
    then show ?thesis using verdict health' [OF assms(2)] unfolding persist_verdict_def Let_def by simp
  next
    case (Some b)
    obtain r1 g1 where 1: "store_do w (\<lambda>_ tx d. no_result (set_usage_allowed tx aid b d)) g = (r1, g1)" by (rule prod.exhaust)
    have "I (g_db g1)" by (rule write_eq [OF 1 assms allowed])
    then show ?thesis using verdict health' [of g1] unfolding persist_verdict_def Let_def Some option.case 1
      by (cases r1) simp_all
  qed
qed

end

locale check_invariant = verdict_invariant +
  assumes details: "I d \<Longrightarrow> update_provider_details tx aid email quota now d = Inr d' \<Longrightarrow> I d'"
    and quota_error: "I d \<Longrightarrow> set_provider_quota_error tx aid code nxt d = Inr d' \<Longrightarrow> I d'"
    and reactivated: "I d \<Longrightarrow> I (fst (reactivate_if_cooldown_expired tx aid now d))"
    and claimed: "I d \<Longrightarrow> I (fst (claim_health_checks tx n now nxt d))"
begin

lemma pair_inv:
  "reactivate_if_cooldown_expired tx aid now d = (d', b) \<Longrightarrow> I d \<Longrightarrow> I d'"
  "claim_health_checks tx n now nxt d = (d', accounts) \<Longrightarrow> I d \<Longrightarrow> I d'"
  by (metis fst_conv reactivated) (metis fst_conv claimed)

lemma persist_inv:
  assumes "world_keeps I w" and "I (g_db g)"
  shows "I (g_db (snd (persist w aid r g)))"
proof -
  obtain v g1 where 1: "persist_verdict w aid r (clock w g) g = (v, g1)" by (rule prod.exhaust)
  have g1: "I (g_db g1)" using persist_verdict_inv [OF assms, of aid r "clock w g"] 1 by simp
  have q: "I (g_db h) \<Longrightarrow> I (g_db (snd (store_do w
      (\<lambda>_ tx d. no_result (set_provider_quota_error tx aid (hr_quota_error r) (next_check aid (clock w g)) d)) h)))" for h
    by (rule write_inv [OF assms(1)], assumption, erule (1) quota_error)
  have d: "I (g_db (snd (store_do w
      (\<lambda>_ tx d. no_result (update_provider_details tx aid (hr_email r) (hr_quota r) (clock w g) d)) g1)))"
    by (rule write_inv [OF assms(1) g1], erule (1) details)
  show ?thesis using q [OF assms(2)] q [OF g1] d g1 unfolding persist_def Let_def 1 by (cases v) simp_all
qed

lemma reactivate_inv: "world_keeps I w \<Longrightarrow> I (g_db g) \<Longrightarrow> I (g_db (snd (reactivate w aid t g)))"
  unfolding reactivate_def
  by (rule store_do_inv [where I = I]) (auto simp: world_keepsD dest: pair_inv)

lemma read_account_inv: "world_keeps I w \<Longrightarrow> I (g_db g) \<Longrightarrow> I (g_db (snd (read_account w aid g)))"
  unfolding read_account_def
  by (rule store_do_inv [where I = I]) (auto simp: world_keepsD read_only_def split: sum.splits)

lemma check_account_inv:
  assumes w: "world_keeps I w" and "I (g_db g)"
  shows "I (g_db (fst (snd (check_account w pr aid (g, polls)))))"
proof -
  obtain r1 g1 where 1: "reactivate w aid (clock w g) g = (r1, g1)" by (rule prod.exhaust)
  obtain r2 g2 where 2: "read_account w aid g1 = (r2, g2)" by (rule prod.exhaust)
  have g1: "I (g_db g1)" using reactivate_inv [OF assms, of aid "clock w g"] 1 by simp
  have g2: "I (g_db g2)" using read_account_inv [OF w g1, of aid] 2 by simp
  show ?thesis
  proof (cases "\<exists>e. r1 = Inl e \<or> r2 = Inl e")
    case True
    then show ?thesis using g1 g2 unfolding check_account_def prod.case 1 2 by (auto split: sum.split)
  next
    case False
    then obtain b a where b: "r1 = Inr b" and a: "r2 = Inr a" by (cases r1; cases r2) auto
    obtain r g3 polls3 where 3: "check_provider w pr a True (g2, polls) = (r, g3, polls3)" by (rule prod_cases3)
    obtain r4 g4 where 4: "persist w (a_id a) r g3 = (r4, g4)" by (rule prod.exhaust)
    have g3: "I (g_db g3)" using check_provider_inv [OF w, of "(g2, polls)" pr a True] g2 3 by simp
    have g4: "I (g_db g4)" using persist_inv [OF w g3, of "a_id a" r] 4 by simp
    show ?thesis using g4 read_account_inv [OF w g4, of "a_id a"]
      unfolding check_account_def prod.case 1 2 b a sum.case 3 4 by (cases r4) (simp_all add: case_prod_beta)
  qed
qed

lemma check_claimed_inv:
  assumes w: "world_keeps I w" and "I (g_db (fst m))"
  shows "I (g_db (fst (check_claimed w pr now a m)))"
proof -
  obtain a1 g1 where 1: "(if a_status a = account_cooling_down
      then (case reactivate w (a_id a) now (fst m) of
              (Inr True, g1) \<Rightarrow> (Some (a\<lparr>a_status := account_active, a_cooldown := None\<rparr>), g1) | (_, g1) \<Rightarrow> (None, g1))
      else (Some a, fst m)) = (a1, g1)" by (rule prod.exhaust)
  have g1: "I (g_db g1)" using 1 assms reactivate_inv [OF assms, of "a_id a" now]
    by (auto split: if_splits prod.splits sum.splits bool.splits)
  show ?thesis
  proof (cases a1)
    case None
    then show ?thesis using g1 unfolding check_claimed_def 1 by simp
  next
    case (Some b)
    obtain r2 g2 where 2: "(if a_provider b = provider_openai_compatible then read_account w (a_id b) g1 else (Inr b, g1)) = (r2, g2)"
      by (rule prod.exhaust)
    have g2: "I (g_db g2)" using 2 g1 read_account_inv [OF w g1, of "a_id b"] by (auto split: if_splits)
    show ?thesis
    proof (cases r2)
      case (Inl e)
      then show ?thesis using g2 unfolding check_claimed_def 1 Some prod.case option.case 2 by simp
    next
      case (Inr c)
      obtain r g3 polls3 where 3: "check_provider w pr c False (g2, snd m) = (r, g3, polls3)" by (rule prod_cases3)
      have g3: "I (g_db g3)" using check_provider_inv [OF w, of "(g2, snd m)" pr c False] g2 3 by simp
      show ?thesis using persist_inv [OF w g3, of "a_id c" r]
        unfolding check_claimed_def 1 Some prod.case option.case 2 Inr sum.case 3 by simp
    qed
  qed
qed

lemma run_batch_inv:
  assumes w: "world_keeps I w" and "I (g_db (fst m))"
  shows "I (g_db (fst (run_batch w pr m)))"
proof -
  have batch: "I (g_db (fst m)) \<Longrightarrow> I (g_db (fst (fold (check_claimed w pr now) accounts m)))" for now accounts m
    by (induction accounts arbitrary: m) (simp_all add: check_claimed_inv [OF w])
  obtain r g1 where 1: "store_do w (\<lambda>_ tx d. Inr (claim_health_checks tx 50 (clock w (fst m)) (clock w (fst m) + 2 * minute) d)) (fst m) = (r, g1)"
    by (rule prod.exhaust)
  have "I (g_db (snd (store_do w (\<lambda>_ tx d. Inr (claim_health_checks tx 50 (clock w (fst m)) (clock w (fst m) + 2 * minute) d)) (fst m))))"
    using assms by (intro store_do_inv [where I = I]) (auto simp: world_keepsD dest: pair_inv)
  then have "I (g_db g1)" using 1 by simp
  then show ?thesis using batch [of "(g1, snd m)"] unfolding run_batch_def Let_def 1 by (simp split: sum.split)
qed

end

interpretation integrity_checks: check_invariant db_ok
  by unfold_locales (auto intro: account_updates_ok claims_ok)

text \<open>The tables other than the provider accounts.\<close>

definition other_tables :: "db \<Rightarrow> db" where
  "other_tables d = d\<lparr>t_accounts := []\<rparr>"

lemma other_tables_update: "other_tables (fst (update_accounts P f d)) = other_tables d"
  by (simp add: other_tables_def update_accounts_def)

lemmas account_operations = update_provider_status_def record_health_failure_def set_provider_health_def set_usage_allowed_def
  update_provider_details_def set_provider_quota_error_def reactivate_if_cooldown_expired_def

lemmas account_queries = q_update_status_def q_record_health_failure_def q_set_health_def q_set_usage_allowed_def q_update_email_def
  q_update_details_def q_set_quota_error_def q_reactivate_def

interpretation rest_checks: check_invariant "\<lambda>d. other_tables d = rest"
proof unfold_locales
  fix d tx n now nxt assume "other_tables d = rest"
  then show "other_tables (fst (claim_health_checks tx n now nxt d)) = rest"
    by (simp add: claim_health_checks_def q_claim_health_checks_def Let_def other_tables_def)
qed (auto simp: account_operations account_queries wrap_mutation_Inr other_tables_update case_prod_beta
    dest!: arg_cong [of _ _ fst] split: if_splits)


text \<open>Checks keep the database consistent and write nothing but provider accounts: if what others commit and the
  refresh of credentials keep the integrity of the database, so do a whole batch of checks and a check that an
  administrator asks for, whatever the providers answer and the store refuses; and if the others leave the tables other
  than the provider accounts as they are, the checks do so too.\<close>

theorem checks_keep_integrity:
  assumes "m = (g, polls)"
  shows "(world_keeps db_ok w \<and> db_ok (g_db g) \<longrightarrow>
      db_ok (g_db (fst (run_batch w pr m))) \<and> db_ok (g_db (fst (snd (check_account w pr aid m)))))
    \<and> (world_keeps (\<lambda>d. other_tables d = other_tables (g_db g)) w \<longrightarrow>
      other_tables (g_db (fst (run_batch w pr m))) = other_tables (g_db g)
      \<and> other_tables (g_db (fst (snd (check_account w pr aid m)))) = other_tables (g_db g))"
  using integrity_checks.run_batch_inv [of w m pr] integrity_checks.check_account_inv [of w g pr aid polls]
    rest_checks.run_batch_inv [of "other_tables (g_db g)" w m pr] rest_checks.check_account_inv [of "other_tables (g_db g)" w g pr aid polls]
    assms by simp

text \<open>Checks are spread over a minute.\<close>

lemma next_check_window: "now + 5 * minute \<le> next_check aid now \<and> next_check aid now < now + 6 * minute"
proof -
  have "uint (crc32 aid mod 60) = uint (crc32 aid) mod 60" by (simp add: uint_mod)
  then have "0 \<le> uint (crc32 aid mod 60)" "uint (crc32 aid mod 60) < 60" by simp_all
  then have "0 \<le> uint (crc32 aid mod 60) * second" "uint (crc32 aid mod 60) * second < 60 * second" by (simp_all add: second_def)
  then show ?thesis by (simp add: next_check_def minute_def)
qed
section \<open>Quotas\<close>

text \<open>What a result says of the account itself.\<close>

definition verdict :: "result \<Rightarrow> result" where
  "verdict r = r\<lparr>hr_quota := [], hr_quota_error := [], hr_skipped := False\<rparr>"

lemma check_compatible_verdict:
  "verdict (fst (check_compatible w pr plaintext a force m)) =
    verdict (case decode_compatible plaintext of
       None \<Rightarrow> unavailable_credentials
     | Some c \<Rightarrow> compatible_health (hp_models pr (g_step (fst m)) c))"
  by (simp add: check_compatible_def verdict_def ask_def case_prod_beta split: option.split)

text \<open>The quota of an OpenAI-compatible account is informational: the verdict of a check on its health depends on the
  answer of its models alone, whatever the balance or the quota of its plan say, whether a poll was due or forced, and
  whatever the gateway had saved for the account.\<close>

theorem quota_is_informational:
  assumes "a_provider a = provider_openai_compatible" and "hp_models pr = hp_models pr'"
    and "g_step (fst m) = g_step (fst m')" and "a_ciphertext a = a_ciphertext a'" and "a_provider a' = a_provider a"
  shows "verdict (fst (check_provider w pr a force m)) = verdict (fst (check_provider w pr' a' force' m'))"
  using assms
  by (simp add: check_provider_def check_compatible_verdict domain_consts split: option.split)

text \<open>The columns of the quota.\<close>

definition quota_columns :: "db \<Rightarrow> (string \<times> string \<times> time option \<times> string option) list" where
  "quota_columns d = map (\<lambda>a. (ar_id a, ar_quota a, ar_quota_checked a, ar_quota_error a)) (t_accounts d)"

lemma quota_columns_update:
  assumes "\<And>a. (ar_id (f a), ar_quota (f a), ar_quota_checked (f a), ar_quota_error (f a))
      = (ar_id a, ar_quota a, ar_quota_checked a, ar_quota_error a)"
  shows "quota_columns (fst (update_accounts P f d)) = quota_columns d"
proof -
  have "map (\<lambda>a. (ar_id a, ar_quota a, ar_quota_checked a, ar_quota_error a)) (update_rows P f rows)
      = map (\<lambda>a. (ar_id a, ar_quota a, ar_quota_checked a, ar_quota_error a)) rows" for rows
    using assms by (induction rows) auto
  then show ?thesis by (simp add: quota_columns_def update_accounts_def)
qed

interpretation quota_checks: verdict_invariant "\<lambda>d. quota_columns d = columns"
  by unfold_locales
    (auto simp: account_operations account_queries wrap_mutation_Inr quota_columns_update Let_def
      dest!: arg_cong [of _ _ fst] split: if_splits)

lemma skipped_poll:
  assumes "check_provider w pr a force m = (r, m')" and "hr_skipped r"
  shows "g_db (fst m') = g_db (fst m) \<and> \<not> hr_probe_failed r"
proof -
  have fields: "\<not> hr_skipped (found h c)" "\<not> hr_probe_failed (found h c)" for h c by (simp_all add: found_def)
  have no: "\<not> hr_skipped (antigravity_quota_failure b)" "\<not> hr_skipped unavailable_credentials"
      "\<not> hr_skipped (antigravity_found pr p s)" "\<not> hr_skipped (classify_error e)" "\<not> hr_skipped invalid_usage"
      "\<not> hr_skipped (classify_codex_quota_error e)" "\<not> hr_skipped (classify_copilot_quota_error e)" for b p s e
    by (simp_all add: antigravity_quota_failure_def unavailable_credentials_def antigravity_found_def classify_error_def
        invalid_usage_def classify_codex_quota_error_def classify_copilot_quota_error_def fields Let_def split: option.split)
  have "\<not> hr_skipped (fst (check_codex w pr p g))" "\<not> hr_skipped (fst (check_copilot w pr p g))" for p g
    by (auto simp: check_codex_def check_copilot_def no fields split: option.split sum.split prod.split)
  moreover have ask: "\<not> hr_skipped (fst (ask_antigravity w pr ms b p f g))" for ms b p f g
    by (auto simp: ask_antigravity_def no split: option.split sum.split prod.split)
  then have "\<not> hr_skipped (fst (check_antigravity w pr b p g))" for b p g
    by (auto simp: check_antigravity_def no split: option.split sum.split prod.split)
  moreover have probe: "\<not> hr_probe_failed (compatible_health x)" for x
    by (auto simp: compatible_health_def classify_error_def fields Let_def split: sum.split)
  ultimately have "\<exists>p. check_compatible w pr p a force m = check_provider w pr a force m"
    using assms no fields
    by (auto simp: check_provider_def apsnd_def map_prod_def case_prod_beta unavailable_credentials_def
        split: option.splits if_splits)
  then obtain p where "check_compatible w pr p a force m = check_provider w pr a force m" by blast
  then have c: "check_compatible w pr p a force m = (r, m')" using assms(1) by simp
  have "g_db (fst m') = g_db (fst m)" using check_compatible_db [of w pr p a force m] unfolding c by simp
  moreover have "\<not> hr_probe_failed r" using c probe
    by (auto simp: check_compatible_def case_prod_beta unavailable_credentials_def fields split: option.splits)
  ultimately show ?thesis by simp
qed

text \<open>A poll that was not due leaves the saved quota alone: when a check skipped the reading of a balance, what it
  writes changes neither the snapshot nor the time of its reading nor an outstanding quota error, of this account or
  another.\<close>

theorem skipped_poll_keeps_quota:
  assumes "check_provider w pr a force m = (r, g', polls')" and "hr_skipped r"
    and "world_keeps (\<lambda>d. quota_columns d = quota_columns (g_db (fst m))) w"
  shows "quota_columns (g_db (snd (persist w (a_id a) r g'))) = quota_columns (g_db (fst m))"
proof -
  have "g_db g' = g_db (fst m)" and probe: "\<not> hr_probe_failed r" using skipped_poll [OF assms(1,2)] by auto
  then have "quota_columns (g_db (snd (persist_verdict w (a_id a) r (clock w g') g'))) = quota_columns (g_db (fst m))"
    using quota_checks.persist_verdict_inv [OF assms(3)] by simp
  then show ?thesis using assms(2) probe unfolding persist_def Let_def by (auto split: prod.split sum.split)
qed

section \<open>Samples\<close>

definition sample_probes :: "int \<Rightarrow> string \<Rightarrow> probes" where
  "sample_probes status balance =
     \<lparr>hp_email = (\<lambda>_ _. []), hp_codex = (\<lambda>_ _. Inr (Some ''{}'', None)), hp_copilot = None, hp_antigravity = None,
      hp_refresher = False, hp_models = (\<lambda>_ _. Inr status), hp_bailian = (\<lambda>_ _. Inl BailianOther),
      hp_bailian_url = (\<lambda>_. False), hp_balance = (\<lambda>_ _. Inr balance), hp_identity = bl_admin_key\<rparr>"

definition billed_text :: string where
  "billed_text = ''{\"base_url\":\"https://api.openai.com/v1\",\"openai_billing\":{\"admin_key\":\"k\"}}''"

definition billed_account :: account where
  "billed_account = no_account\<lparr>a_id := ''a'', a_provider := provider_openai_compatible, a_ciphertext := billed_text\<rparr>"

lemma billed_members:
  "json_parse billed_text =
     Some (JObj [(''base_url'', JStr ''https://api.openai.com/v1''),
       (''openai_billing'', JObj [(''admin_key'', JStr ''k'')])])"
  unfolding billed_text_def by code_simp

lemma billed_names:
  "fold_name ''base_url'' = ''base_url''"
  "fold_name ''api_key'' = ''api_key''"
  "fold_name ''openai_billing'' = ''openai_billing''"
  "fold_name ''bailian_quota'' = ''bailian_quota''"
  "fold_name ''session_key'' = ''session_key''"
  "fold_name ''organization_id'' = ''organization_id''"
  "fold_name ''admin_key'' = ''admin_key''"
  "fold_name ''grant_amount_usd'' = ''grant_amount_usd''"
  "fold_name ''grant_start_at'' = ''grant_start_at''"
  "fold_name ''grant_expires_at'' = ''grant_expires_at''"
  by (simp_all add: fold_name_ascii lower_char_def char_of_def bit_0 del: fold_name.simps)

lemma billed_credentials:
  "decode_compatible billed_text =
     Some \<lparr>cc_base_url = ''https://api.openai.com/v1'', cc_api_key = [],
       cc_billing = Some (no_billing\<lparr>bl_admin_key := ''k''\<rparr>), cc_bailian = None\<rparr>"
  unfolding decode_compatible_def billed_members
  by (simp add: struct_members_def str_field_def field_vals_def billed_names decode_field_def store_string_def
      decode_ptr_def store_billing_def no_billing_def del: fold_name.simps)

lemma billed_url: "billing_supports_url ''https://api.openai.com/v1''"
  by code_simp

lemma still_decrypt: "w_decrypt (still_world t) c = Some c"
  by (simp add: still_world_def)

lemma still_keeps: "world_keeps I (still_world t)"
  by (simp add: world_keeps_def still_world_def)

lemma billed_provider: "a_provider billed_account = provider_openai_compatible" "a_id billed_account = ''a''" "a_ciphertext billed_account = billed_text"
  by (simp_all add: billed_account_def no_account_def)

text \<open>A second check while the balance is being read.\<close>

definition reading :: polls where
  "reading = [''a'' \<mapsto> (fresh_poll ''k'')\<lparr>bp_in_flight := True\<rparr>]"

lemma billed_check:
  "\<exists>g'. check_provider (still_world 5) (sample_probes 200 ''{}'') billed_account True (g, reading)
     = ((found health_healthy [])\<lparr>hr_skipped := True\<rparr>, g', reading)"
  by (simp add: check_provider_def still_decrypt billed_provider domain_consts check_compatible_def billed_credentials billed_url
      compatible_quota_def openai_quota_def sample_probes_def ask_def no_billing_def claim_billing_poll_def poll_of_def
      reading_def fresh_poll_def Let_def compatible_health_def found_def)

theorem checks_keep_integrity_witness:
  "db_ok (g_db (fst (run_batch (still_world 5) (sample_probes 200 []) (still_gateway (fresh_db admin_settings), Map.empty))))"
proof -
  let ?g = "still_gateway (fresh_db admin_settings)"
  have "db_ok (g_db ?g)" by (simp add: still_gateway_def admin_settings_ok)
  with checks_keep_integrity [OF refl, of "still_world 5" ?g "sample_probes 200 []" Map.empty "''a''"] still_keeps
  show ?thesis by simp
qed

theorem quota_is_informational_witness:
  "verdict (fst (check_provider (still_world 5) (sample_probes 503 ''{}'') billed_account True
      (still_gateway (fresh_db admin_settings), reading)))
   = verdict (fst (check_provider (still_world 5) (sample_probes 503 ''[]'') billed_account False
      (still_gateway (fresh_db admin_settings), Map.empty)))"
  by (rule quota_is_informational) (simp_all add: billed_provider sample_probes_def)

theorem skipped_poll_keeps_quota_witness:
  "\<exists>g'. quota_columns (g_db (snd (persist (still_world 5) ''a'' ((found health_healthy [])\<lparr>hr_skipped := True\<rparr>) g')))
     = quota_columns (fresh_db admin_settings)"
proof -
  let ?m = "(still_gateway (fresh_db admin_settings), reading)"
  obtain g' where c: "check_provider (still_world 5) (sample_probes 200 ''{}'') billed_account True ?m
      = ((found health_healthy [])\<lparr>hr_skipped := True\<rparr>, g', reading)"
    using billed_check by blast
  from skipped_poll_keeps_quota [OF c _ still_keeps]
  have "quota_columns (g_db (snd (persist (still_world 5) (a_id billed_account) ((found health_healthy [])\<lparr>hr_skipped := True\<rparr>) g')))
      = quota_columns (g_db (fst ?m))"
    by simp
  then show ?thesis unfolding billed_provider by (intro exI [of _ g']) (simp add: still_gateway_def)
qed

end
