(* ===== verification/Control_Routes.thy ===== *)
theory Control_Routes
  imports Control_Resets Health_Checks
begin

text \<open>
  The routes of the control server (\<open>Register\<close> in \<open>internal/control/server.go\<close>): all of them but the login stand behind the
  gate of administrators. Every route keeps the database consistent, whatever its request holds.
\<close>

section \<open>Routes\<close>

text \<open>The routes whose handlers are modelled on the state of the gateway and the checker. (The device logins have a state of
  their own, in \<open>Device_Login\<close>; the reports are in \<open>Control_Reports\<close>.)\<close>

datatype route =
  RLogin | RSession | RLogout | RListAccounts | RCreateAccount | RUpdateAccount | RDeleteAccount | RRefreshAccount
| RCheckAccount | RConfigureBalance bool | RConfigureBailian bool | RGetCredits | RConsumeCredit | RGetSettings
| RUpdateSettings | RListPools | RCreatePool | RUpdatePool | RAddMember | RListKeys | RCreateKey | RRevokeKey

fun handler_of :: "route \<Rightarrow> checked_handler" where
  "handler_of RLogin = plain h_login"
| "handler_of RSession = plain h_session"
| "handler_of RLogout = plain h_logout"
| "handler_of RListAccounts = plain h_list_accounts"
| "handler_of RCreateAccount = h_create_account"
| "handler_of RUpdateAccount = plain h_update_account"
| "handler_of RDeleteAccount = plain h_delete_account"
| "handler_of RRefreshAccount = plain h_refresh_account"
| "handler_of RCheckAccount = h_check_account"
| "handler_of (RConfigureBalance removing) = plain (h_configure_balance removing)"
| "handler_of (RConfigureBailian removing) = plain (h_configure_bailian removing)"
| "handler_of RGetCredits = plain h_get_reset_credits"
| "handler_of RConsumeCredit = h_consume_reset_credit"
| "handler_of RGetSettings = plain h_get_settings"
| "handler_of RUpdateSettings = plain h_update_settings"
| "handler_of RListPools = plain h_list_pools"
| "handler_of RCreatePool = plain h_create_pool"
| "handler_of RUpdatePool = plain h_update_pool"
| "handler_of RAddMember = plain h_add_pool_account"
| "handler_of RListKeys = plain h_list_keys"
| "handler_of RCreateKey = plain h_create_key"
| "handler_of RRevokeKey = plain h_revoke_key"

definition handle :: "route \<Rightarrow> checked_handler" where
  "handle r = (if r = RLogin then handler_of r else admin_gate (handler_of r))"

section \<open>The gate\<close>

text \<open>A session in the cookie: two base64 texts around one dot, the second the HMAC of the first under the key of the server,
  and a row of the store for the hash of exactly this text that has neither ended nor been revoked.\<close>

definition signed_in :: "world \<Rightarrow> control_env \<Rightarrow> request \<Rightarrow> gateway \<Rightarrow> bool" where
  "signed_in w env rq g \<longleftrightarrow> (\<exists>sid a b payload s. rq_cookie rq = Some sid \<and> sid = a @ CHR ''.'' # b
     \<and> b64_decode a = Some payload \<and> length payload = 41 \<and> b64_decode b = Some (ad_mac (ce_admin env) payload)
     \<and> s \<in> set (t_admin_sessions (w_others w (g_step g) (g_db g)))
     \<and> as_hash s = ad_sha (ce_admin env) sid \<and> as_revoked s = None \<and> clock w g < as_expires s)"

text \<open>C36. Nobody gets past the gate without a session: a request to any route but the login whose cookie is not a text that
  the server signed (or is missing), or whose session the store does not know, or knows as ended or revoked, is answered
  with 401, or with 503 when the store fails, sets no cookie and changes nothing: the database is what others have made of
  it, no poll of a balance is claimed and nothing is sent to a provider.\<close>

theorem control_needs_session:
  assumes "r \<noteq> RLogin" and "\<not> signed_in w env rq g" and "handle r w env rq (g, polls) = (reply, g', polls')"
  shows "(rp_status reply = 401 \<or> rp_status reply = 503 \<and> w_fault w (g_step g) \<noteq> None)
    \<and> rp_cookie reply = NoCookie \<and> rp_routing reply = None \<and> polls' = polls
    \<and> g_db g' \<in> {g_db g, w_others w (g_step g) (g_db g)} \<and> g_sent g' = g_sent g"
proof -
  have others: "g_db (snd (session_valid w ad sid g)) \<in> {g_db g, w_others w (g_step g) (g_db g)}
      \<and> g_sent (snd (session_valid w ad sid g)) = g_sent g
      \<and> (\<forall>e. fst (session_valid w ad sid g) = Inl e \<longrightarrow> w_fault w (g_step g) \<noteq> None)" for ad sid
    by (auto simp: session_valid_def store_do_def Let_def split: option.splits)
  show ?thesis
  proof (cases "rq_cookie rq")
    case None
    then show ?thesis using assms(1,3) by (auto simp: handle_def admin_gate_def lift_def write_error_def say_def)
  next
    case (Some sid)
    obtain v g1 where v: "session_valid w (ce_admin env) sid g = (v, g1)" by (rule prod.exhaust)
    have "v \<noteq> Inr True"
      using assms(2) session_needs_signature [of w "ce_admin env" sid g] Some v
      by (fastforce simp: signed_in_def list_ex_iff session_payload_size_def)
    then show ?thesis using assms(1,3) Some v others [of "ce_admin env" sid]
      by (cases v) (auto simp: handle_def admin_gate_def lift_def write_error_def say_def)
  qed
qed

section \<open>Integrity\<close>

named_theorems keeps

definition sound :: "'a \<times> gateway \<Rightarrow> bool" where "sound p \<longleftrightarrow> db_ok (g_db (snd p))"

definition checks :: "'a \<times> checker \<Rightarrow> bool" where "checks p \<longleftrightarrow> db_ok (g_db (fst (snd p)))"

lemma sound_pair [keeps]: "db_ok (g_db g) \<Longrightarrow> sound (x, g)"
  by (simp add: sound_def)

lemma sound_say [keeps]: "db_ok (g_db g) \<Longrightarrow> sound (say status b g)"
  by (simp add: sound_def say_def)

lemma sound_error [keeps]: "db_ok (g_db g) \<Longrightarrow> sound (write_error status message g)"
  by (simp add: write_error_def sound_say)

lemma sound_store_error [keeps]: "db_ok (g_db g) \<Longrightarrow> sound (write_store_error e g)"
  by (simp add: write_store_error_def sound_error)

lemma sound_reset_error [keeps]: "db_ok (g_db g) \<Longrightarrow> sound (write_reset_error e g)"
  by (simp add: write_reset_error_def sound_error sound_store_error)

lemma sound_if [keeps]: "(b \<Longrightarrow> sound x) \<Longrightarrow> (\<not> b \<Longrightarrow> sound y) \<Longrightarrow> sound (if b then x else y)"
  by simp

lemma sound_option [keeps]:
  "(x = None \<Longrightarrow> sound y) \<Longrightarrow> (\<And>z. x = Some z \<Longrightarrow> sound (f z)) \<Longrightarrow> sound (case x of None \<Rightarrow> y | Some z \<Rightarrow> f z)"
  by (cases x) simp_all

lemma sound_result [keeps]:
  "sound p \<Longrightarrow> (\<And>e g. db_ok (g_db g) \<Longrightarrow> sound (L e g)) \<Longrightarrow> (\<And>x g. db_ok (g_db g) \<Longrightarrow> sound (R x g)) \<Longrightarrow>
    sound (case p of (r, g) \<Rightarrow> (case r of Inl e \<Rightarrow> L e g | Inr x \<Rightarrow> R x g))"
  by (cases p; cases "fst p") (auto simp: sound_def)

lemma sound_prod [keeps]:
  "sound p \<Longrightarrow> (\<And>x g. db_ok (g_db g) \<Longrightarrow> sound (f x g)) \<Longrightarrow> sound (case p of (x, g) \<Rightarrow> f x g)"
  by (cases p) (simp add: sound_def)

lemma sound_split [keeps]:
  "(\<And>x ys. sound (f1 x ys)) \<Longrightarrow> sound (case p1 :: 'a \<times> 'b list of (x, ys) \<Rightarrow> f1 x ys)"
  "(\<And>x t. sound (f2 x t)) \<Longrightarrow> sound (case p2 :: 'a \<times> int of (x, t) \<Rightarrow> f2 x t)"
  "(\<And>x o'. sound (f3 x o')) \<Longrightarrow> sound (case p3 :: 'a \<times> 'b option of (x, o') \<Rightarrow> f3 x o')"
  "(\<And>x h. sound (f4 x h)) \<Longrightarrow> sound (case p4 :: 'a \<times> ('b \<Rightarrow> 'c) of (x, h) \<Rightarrow> f4 x h)"
  by (auto split: prod.split)

lemma checks_pair [keeps]: "db_ok (g_db g) \<Longrightarrow> checks (x, g, polls)"
  "db_ok (g_db (fst m)) \<Longrightarrow> checks (x, m)"
  by (simp_all add: checks_def)

lemma checks_if [keeps]: "(b \<Longrightarrow> checks x) \<Longrightarrow> (\<not> b \<Longrightarrow> checks y) \<Longrightarrow> checks (if b then x else y)"
  by simp

lemma checks_option [keeps]:
  "(x = None \<Longrightarrow> checks y) \<Longrightarrow> (\<And>z. x = Some z \<Longrightarrow> checks (f z)) \<Longrightarrow> checks (case x of None \<Rightarrow> y | Some z \<Rightarrow> f z)"
  by (cases x) simp_all

lemma checks_sum [keeps]:
  "(\<And>e. x = Inl e \<Longrightarrow> checks (L e)) \<Longrightarrow> (\<And>z. x = Inr z \<Longrightarrow> checks (R z)) \<Longrightarrow> checks (case x of Inl e \<Rightarrow> L e | Inr z \<Rightarrow> R z)"
  by (cases x) simp_all

lemma checks_prod [keeps]:
  "sound p \<Longrightarrow> (\<And>x g. db_ok (g_db g) \<Longrightarrow> checks (f x g)) \<Longrightarrow> checks (case p of (x, g) \<Rightarrow> f x g)"
  "checks q \<Longrightarrow> (\<And>x m. db_ok (g_db (fst m)) \<Longrightarrow> checks (f' x m)) \<Longrightarrow> checks (case q of (x, m) \<Rightarrow> f' x m)"
  "db_ok (g_db (fst m)) \<Longrightarrow> (\<And>g ps. db_ok (g_db g) \<Longrightarrow> checks (f'' g ps)) \<Longrightarrow> checks (case m of (g, ps) \<Rightarrow> f'' g ps)"
  by (cases p; cases q; cases m; simp add: sound_def checks_def)+

lemma checks_split [keeps]:
  "(\<And>x ys. checks (f1 x ys)) \<Longrightarrow> checks (case p1 :: 'a \<times> 'b list of (x, ys) \<Rightarrow> f1 x ys)"
  "(\<And>x h. checks (f4 x h)) \<Longrightarrow> checks (case p4 :: 'a \<times> ('b \<Rightarrow> 'c) of (x, h) \<Rightarrow> f4 x h)"
  by (auto split: prod.split)

lemma checks_lift [keeps]: "sound p \<Longrightarrow> checks (lift p polls)"
  by (simp add: sound_def checks_def lift_def)

lemma write_sound:
  assumes "world_keeps db_ok w" and "db_ok (g_db g)" and "\<And>i tx d d' x. db_ok d \<Longrightarrow> f i tx d = Inr (d', x) \<Longrightarrow> db_ok d'"
  shows "sound (store_do w f g)"
  unfolding sound_def by (rule store_do_inv [where I = db_ok, OF assms(2)]) (use assms(1,3) in \<open>auto dest: world_keepsD\<close>)

lemma no_result_sound:
  assumes "world_keeps db_ok w" and "db_ok (g_db g)" and "\<And>i tx d d'. db_ok d \<Longrightarrow> f i tx d = Inr d' \<Longrightarrow> db_ok d'"
  shows "sound (store_do w (\<lambda>i tx d. no_result (f i tx d)) g)"
  by (rule write_sound [OF assms(1,2)]) (use assms(3) in \<open>auto simp: no_result_Inr\<close>)

lemma read_sound:
  assumes "world_keeps db_ok w" and "db_ok (g_db g)"
  shows "sound (store_do w (\<lambda>i tx d. Inr (d, f i tx d)) g)" and "sound (store_do w (\<lambda>i tx d. read_only d (h i tx d)) g)"
  by (rule write_sound [OF assms]; auto simp: read_only_def split: sum.splits)+

lemma audit_sound [keeps]: "world_keeps db_ok w \<Longrightarrow> db_ok (g_db g) \<Longrightarrow> db_ok (g_db (audit_note w a t i r g))"
  using no_result_sound [of w g "\<lambda>_ now d. audit_event now ''admin'' a t i r d"] plain_updates_ok(5)
  unfolding audit_note_def store_note_def sound_def by blast

lemma account_sound [keeps]: "world_keeps db_ok w \<Longrightarrow> db_ok (g_db g) \<Longrightarrow> sound (read_account w aid g)"
  unfolding read_account_def by (rule read_sound)

lemma refresh_sound [keeps]: "world_keeps db_ok w \<Longrightarrow> db_ok (g_db g) \<Longrightarrow> sound (refresh w a g)"
  unfolding sound_def by (rule refresh_inv [where I = db_ok])

lemma ask_sound [keeps]: "db_ok (g_db g) \<Longrightarrow> sound (ask f g)"
  by (simp add: sound_def)

text \<open>The writes of the handlers.\<close>

lemma writes_sound [keeps]:
  assumes "world_keeps db_ok w" and "db_ok (g_db g)"
  shows "sound (store_do w (\<lambda>i now d. create_api_key_and_bind [] (w_rnd w i) now key d) g)"
    and "sound (store_do w (\<lambda>_ now d. no_result (revoke_api_key now kid d)) g)"
    and "sound (store_do w (\<lambda>_ now d. no_result (create_pool now p d)) g)"
    and "sound (store_do w (\<lambda>_ now d. no_result (update_pool now p d)) g)"
    and "sound (store_do w (\<lambda>_ now d. no_result (add_pool_account now m d)) g)"
    and "sound (store_do w (\<lambda>_ now d. no_result (create_provider_account now a h d)) g)"
    and "sound (store_do w (\<lambda>_ now d. no_result (update_provider_account now aid name status fast d)) g)"
    and "sound (store_do w (\<lambda>_ now d. no_result (delete_provider_account now aid d)) g)"
    and "sound (store_do w (\<lambda>_ tx d. no_result (update_provider_details tx aid email quota t d)) g)"
    and "sound (store_do w (\<lambda>_ tx d. no_result (set_provider_quota_error tx aid code t d)) g)"
    and "sound (store_do w (\<lambda>_ tx d. no_result (update_provider_status tx aid st cooldown d)) g)"
    and "sound (store_do w (\<lambda>_ tx d. no_result (set_usage_allowed tx aid b d)) g)"
    and "sound (store_do w (\<lambda>_ tx d. no_result (set_reset_credits tx aid credits t d)) g)"
    and "sound (store_do w (\<lambda>_ tx d. no_result (release_reset_refresh aid d)) g)"
    and "sound (store_do w (\<lambda>_ _ d. no_result (create_admin_session h t d)) g)"
    and "sound (store_do w (\<lambda>_ _ d. no_result (revoke_admin_session h t d)) g)"
    and "sound (store_do w (\<lambda>_ now d. patch_settings now u s d) g)"
  by (rule no_result_sound [OF assms] write_sound [OF assms];
      (erule (1) operation_ok | erule create_key_ok, assumption | erule patch_settings_ok, assumption))+

lemma claims_sound [keeps]:
  assumes "world_keeps db_ok w" and "db_ok (g_db g)"
  shows "sound (store_do w (\<lambda>_ now d. Inr (update_credential_cas now aid v ciphertext v' d)) g)"
    and "sound (store_do w (\<lambda>_ tx d. Inr (claim_reset_refresh tx aid t until d)) g)"
    and "sound (store_do w (\<lambda>_ _ d. Inr (record_admin_login scopes ok t d)) g)"
proof -
  have c: "sound (store_do w (\<lambda>i now d. Inr (f now d)) g)" if "\<And>now d. db_ok d \<Longrightarrow> db_ok (fst (f now d))" for f :: "time \<Rightarrow> db \<Rightarrow> db \<times> bool"
    by (rule write_sound [OF assms]) (metis fst_conv sum.inject(2) that)
  show "sound (store_do w (\<lambda>_ now d. Inr (update_credential_cas now aid v ciphertext v' d)) g)"
    and "sound (store_do w (\<lambda>_ tx d. Inr (claim_reset_refresh tx aid t until d)) g)"
    and "sound (store_do w (\<lambda>_ _ d. Inr (record_admin_login scopes ok t d)) g)"
    by (rule c, erule claims_ok admin_login_ok)+
qed

lemma notes_sound [keeps]:
  assumes "world_keeps db_ok w" and "db_ok (g_db g)"
  shows "db_ok (g_db (set_status w aid st cooldown g))" and "db_ok (g_db (release_reset_claim w aid g))"
    and "db_ok (g_db (store_note w (\<lambda>tx d. set_reset_credits tx aid credits t d) g))"
  using writes_sound(11,13,14) [OF assms] by (simp_all add: set_status_def release_reset_claim_def store_note_def sound_def)

text \<open>The handlers.\<close>

lemma sessions_sound [keeps]:
  assumes "world_keeps db_ok w" and "db_ok (g_db g)"
  shows "sound (session_valid w ad sid g)" and "sound (session_revoke w ad sid g)"
    and "sound (admin_login w ad random username password source g)"
  unfolding session_valid_def session_revoke_def admin_login_def Let_def
  by (insert assms, (intro keeps read_sound; assumption)+)

lemma key_handlers_sound [keeps]:
  assumes "world_keeps db_ok w" and "db_ok (g_db g)"
  shows "sound (h_create_key w env rq g)" and "sound (h_list_keys w env rq g)" and "sound (h_revoke_key w env rq g)"
  unfolding h_create_key_def h_list_keys_def h_revoke_key_def Let_def generate_key_def prod.case
  by (insert assms, (intro keeps read_sound; assumption)+)

lemma login_handlers_sound [keeps]:
  assumes "world_keeps db_ok w" and "db_ok (g_db g)"
  shows "sound (h_login w env rq g)" and "sound (h_session w env rq g)" and "sound (h_logout w env rq g)"
proof -
  have "db_ok (g_db (snd (session_revoke w ad sid g)))" for ad sid
    using sessions_sound(2) [OF assms] by (simp add: sound_def)
  then show "sound (h_logout w env rq g)" using assms unfolding h_logout_def by (simp add: sound_def split: option.split)
qed (unfold h_login_def h_session_def Let_def prod.case, insert assms, (intro keeps read_sound; assumption)+)

lemma pool_accounts_sound [keeps]:
  "world_keeps db_ok w \<Longrightarrow> db_ok (g_db g) \<Longrightarrow> sound (read_pool_accounts w aids provider accounts g)"
proof (induction w aids provider accounts g rule: read_pool_accounts.induct)
  case (2 w aid aids provider accounts g)
  obtain r g1 where 1: "read_account w aid g = (r, g1)" by (rule prod.exhaust)
  moreover have "db_ok (g_db g1)" using account_sound [OF "2.prems", of aid] 1 by (simp add: sound_def)
  ultimately show ?case using "2.IH" [of r g1] "2.prems"(1) by (cases r) (simp_all add: sound_def)
qed (simp add: sound_def)

lemma pool_handlers_sound [keeps]:
  assumes "world_keeps db_ok w" and "db_ok (g_db g)"
  shows "sound (h_create_pool w env rq g)" and "sound (h_update_pool w env rq g)" and "sound (h_list_pools w env rq g)"
    and "sound (h_add_pool_account w env rq g)"
  unfolding h_create_pool_def h_update_pool_def h_list_pools_def h_add_pool_account_def Let_def prod.case
  by (insert assms, (intro keeps read_sound; assumption)+)

lemma accounts_described [keeps]:
  assumes w: "world_keeps db_ok w"
  shows "db_ok (g_db g) \<Longrightarrow> sound (describe_accounts w env as g)"
proof (induction as arbitrary: g)
  case (Cons a as)
  have step: "db_ok (g_db h) \<Longrightarrow> sound (describe_bailian w env a info h)" "db_ok (g_db h) \<Longrightarrow> sound (describe_balance w a info h)"
    for info h
    unfolding describe_bailian_def describe_balance_def by (insert w, (intro keeps; assumption)+)
  show ?case unfolding describe_accounts.simps by (intro keeps step Cons)
qed (simp add: sound_def)

lemma failure_sound [keeps]: "world_keeps db_ok w \<Longrightarrow> db_ok (g_db g) \<Longrightarrow> db_ok (g_db (snd (record_refresh_failure w aid e g)))"
  using notes_sound(1) [of w g] by (cases e) (simp_all add: record_refresh_failure_def)

lemma account_handlers_sound [keeps]:
  assumes "world_keeps db_ok w" and "db_ok (g_db g)"
  shows "sound (h_list_accounts w env rq g)" and "sound (h_update_account w env rq g)"
    and "sound (h_delete_account w env rq g)" and "sound (h_refresh_account w env rq g)"
  unfolding h_list_accounts_def h_update_account_def h_delete_account_def h_refresh_account_def Let_def prod.case
  by (insert assms, (intro keeps read_sound; assumption)+)

lemma credentials_sound [keeps]:
  assumes "world_keeps db_ok w" and "db_ok (g_db g)"
  shows "sound (save_quota_credentials w env action m1 m2 a c snapshot g)"
  unfolding save_quota_credentials_def Let_def
  by (insert assms, intro keeps)

lemma quota_handlers_sound [keeps]:
  assumes "world_keeps db_ok w" and "db_ok (g_db g)"
  shows "sound (h_configure_bailian removing w env rq g)" and "sound (h_configure_balance removing w env rq g)"
  unfolding h_configure_bailian_def h_configure_balance_def Let_def by (insert assms, (intro keeps; assumption)+)

lemma settings_handlers_sound [keeps]:
  assumes "world_keeps db_ok w" and "db_ok (g_db g)"
  shows "sound (h_get_settings w env rq g)" and "sound (h_update_settings w env rq g)"
proof -
  have "sound (case e of InvalidSettings l \<Rightarrow> write_error 400 (limits_message l) g | _ \<Rightarrow> write_store_error e g)"
    if "db_ok (g_db g)" for e g
    using that by (cases e) (simp_all add: keeps)
  note this [keeps]
  then show "sound (h_update_settings w env rq g)"
    unfolding h_update_settings_def  by (insert assms, intro keeps)
qed (unfold h_get_settings_def, insert assms, (intro keeps read_sound; assumption)+)

lemma subscription_sound [keeps]:
  assumes "world_keeps db_ok w" and "db_ok (g_db g)"
  shows "sound (subscription_credentials w aid g)" and "sound (cached_credits w aid g)"
    and "sound (claim_reset w aid stale t g)"
  unfolding subscription_credentials_def cached_credits_def claim_reset_def
  by (insert assms, (intro keeps read_sound; assumption)+)

lemma credits_sound [keeps]:
  assumes "world_keeps db_ok w" and "db_ok (g_db g)"
  shows "sound (refresh_reset_credits w read aid g)" and "sound (read_through w read claimed aid g)"
    and "sound (show_credits env snapshot checked g)"
proof -
  have 1: "sound (refresh_reset_credits w read aid g)" if "db_ok (g_db g)" for g
    unfolding refresh_reset_credits_def Let_def by (insert assms(1) that, intro keeps)
  have "db_ok (g_db (if claimed then release_reset_claim w aid g else g))" if "db_ok (g_db g)" for g
    using notes_sound(2) [OF assms(1) that] that by simp
  note 1 [keeps] this [keeps]
  show "sound (refresh_reset_credits w read aid g)" by (rule 1 [OF assms(2)])
  show "sound (read_through w read claimed aid g)"
    unfolding read_through_def by (insert assms, intro keeps)
  show "sound (show_credits env snapshot checked g)"
    unfolding show_credits_def by (insert assms, intro keeps)
qed

lemma background_sound [keeps]:
  assumes "world_keeps db_ok w" and "db_ok (g_db g)"
  shows "db_ok (g_db (refresh_in_background w read aid g))"
proof -
  let ?now = "clock w g"
  obtain r g1 where 1: "claim_reset w aid (?now - reset_credits_fresh_for) (?now + reset_refresh_lease) g = (r, g1)"
    by (rule prod.exhaust)
  obtain r' g2 where 2: "refresh_reset_credits w read aid g1 = (r', g2)" by (rule prod.exhaust)
  have g1: "db_ok (g_db g1)"
    using subscription_sound(3) [OF assms, of aid "?now - reset_credits_fresh_for" "?now + reset_refresh_lease"] 1
    by (simp add: sound_def)
  have g2: "db_ok (g_db g2)" using credits_sound(1) [OF assms(1) g1, of read aid] 2 by (simp add: sound_def)
  show ?thesis using g1 g2 notes_sound(2) [OF assms(1) g2]
    unfolding refresh_in_background_def Let_def 1 prod.case 2 by (auto split: sum.split bool.split)
qed

lemma wait_sound [keeps]: "world_keeps db_ok w \<Longrightarrow> db_ok (g_db g) \<Longrightarrow> sound (wait_for_credits n w aid g)"
proof (induction n arbitrary: g)
  case (Suc n)
  then show ?case unfolding wait_for_credits.simps by (intro keeps Suc.IH)
qed (simp add: sound_def)

lemma sound_cases [keeps]:
  "sound x \<Longrightarrow> sound y \<Longrightarrow> sound (case b of True \<Rightarrow> x | False \<Rightarrow> y)"
  "(\<And>e. sound (f e)) \<Longrightarrow> sound y \<Longrightarrow> sound z \<Longrightarrow>
    sound (case r of ResetStore e \<Rightarrow> f e | ResetUnsupported \<Rightarrow> y | ResetOther \<Rightarrow> z)"
  by (simp split: bool.split) (simp split: reset_error.split)

lemma get_credits_sound [keeps]:
  assumes "world_keeps db_ok w" and "db_ok (g_db g)"
  shows "sound (h_get_reset_credits w env rq g)"
  unfolding h_get_reset_credits_def by (insert assms, intro keeps)

text \<open>The handlers that run checks.\<close>

lemma checked_sound [keeps]:
  assumes "world_keeps db_ok w" and "db_ok (g_db (fst m))"
  shows "checks (check_provider w pr a force m)" and "checks (check_account w pr aid m)"
    and "checks (validate_new_account w env a m)"
proof -
  show 1: "checks (check_provider w pr a force m)" for pr a force
    using check_provider_inv [where I = db_ok, OF assms] by (simp add: checks_def)
  show "checks (check_account w pr aid m)"
    using integrity_checks.check_account_inv [of w "fst m" pr aid "snd m"] assms by (simp add: checks_def)
  show "checks (validate_new_account w env a m)"
    unfolding validate_new_account_def by (insert assms, intro keeps 1)
qed

lemma reset_quota_sound:
  assumes w: "world_keeps db_ok w" and "db_ok (g_db (fst m))"
  shows "db_ok (g_db (fst (persist_reset_quota w env a quota m)))"
proof -
  have r: "db_ok (g_db (reactivate_waiting w a g))" if "db_ok (g_db g)" for g
    using notes_sound(1) [OF w that] that by (simp add: reactivate_waiting_def)
  consider "quota = None" | allowed where "quota = Some (None, allowed)" | raw allowed where "quota = Some (Some raw, allowed)"
    by (metis option.exhaust prod.exhaust)
  then show ?thesis
  proof cases
    case 1
    show ?thesis
    proof (cases "ce_health env")
      case None
      then show ?thesis using r [OF assms(2)] by (simp add: persist_reset_quota_def 1)
    next
      case (Some pr)
      obtain r1 g1 polls1 where c: "check_account w pr (a_id a) m = (r1, g1, polls1)" by (rule prod_cases3)
      have "db_ok (g_db g1)" using checked_sound(2) [OF assms, of pr "a_id a"] c by (simp add: checks_def)
      then show ?thesis using r [of g1] by (cases r1) (simp_all add: persist_reset_quota_def 1 Some c)
    qed
  next
    case 2
    then show ?thesis using r [OF assms(2)] by (simp add: persist_reset_quota_def)
  next
    case 3
    let ?f = "\<lambda>_ tx d. no_result (update_provider_details tx (a_id a) [] raw (clock w (fst m)) d)"
    obtain r1 g1 where s: "store_do w ?f (fst m) = (r1, g1)" by (rule prod.exhaust)
    have g1: "db_ok (g_db g1)"
      using writes_sound(9) [OF assms, of "a_id a" "[]" raw "clock w (fst m)"] s by (simp add: sound_def)
    show ?thesis
    proof (cases allowed)
      case None
      then show ?thesis using r [OF g1] unfolding persist_reset_quota_def 3 option.case prod.case Let_def s
        by (cases r1) simp_all
    next
      case (Some b)
      obtain r2 g2 where t: "store_do w (\<lambda>_ tx d. no_result (set_usage_allowed tx (a_id a) b d)) g1 = (r2, g2)"
        by (rule prod.exhaust)
      have "db_ok (g_db g2)" using writes_sound(12) [OF w g1, of "a_id a" b] t by (simp add: sound_def)
      then show ?thesis using r [OF g1] r [of g2]
        unfolding persist_reset_quota_def 3 option.case prod.case Let_def s Some
        by (cases r1; cases r2) (simp_all add: t)
    qed
  qed
qed

lemma consume_sound [keeps]:
  assumes "world_keeps db_ok w" and "db_ok (g_db (fst m))"
  shows "checks (h_consume_reset_credit w env rq m)"
proof -
  have credits: "db_ok (g_db g) \<Longrightarrow> db_ok (g_db (case credits of None \<Rightarrow> g | Some c \<Rightarrow> store_note w (\<lambda>tx d. set_reset_credits tx aid c (clock w g) d) g))"
    for credits g aid
    using notes_sound(3) [OF assms(1)] by (cases credits) simp_all
  have quota: "db_ok (g_db g) \<Longrightarrow> db_ok (g_db (fst (if b then persist_reset_quota w env a quota (g, polls) else (g, polls))))"
    for b a quota g polls
    using reset_quota_sound [OF assms(1), of "(g, polls)"] by simp
  show ?thesis unfolding h_consume_reset_credit_def Let_def by (insert assms, intro keeps credits quota)
qed

lemma checking_handlers_sound [keeps]:
  assumes "world_keeps db_ok w" and "db_ok (g_db (fst m))"
  shows "checks (h_create_account w env rq m)" and "checks (h_check_account w env rq m)"
proof -
  obtain g polls where m: "m = (g, polls)" by (rule prod.exhaust)
  have g: "db_ok (g_db (fst (g, polls)))" using assms(2) m by simp
  note checked = checked_sound [OF assms(1) g]
  have g: "db_ok (g_db g)" using g by simp
  show "checks (h_check_account w env rq m)"
    unfolding h_check_account_def m prod.case by (insert assms(1) g, intro keeps checked)
  have conflict: "db_ok (g_db g) \<Longrightarrow> sound (if e = Conflict then write_error n x g else write_error n' x' g)" for e n x n' x' g
    by (intro keeps)
  show "checks (h_create_account w env rq m)"
    unfolding h_create_account_def m prod.case Let_def by (insert assms(1) g, intro keeps checked conflict)
qed



section \<open>A sample\<close>

definition sample_env :: control_env where
  "sample_env = \<lparr>ce_admin = sample_admin, ce_random = (\<lambda>_ _. replicate 32 (CHR ''r'')), ce_encrypt = Some, ce_health = None,
     ce_time = (\<lambda>_. None), ce_float = (\<lambda>_. ''0''), ce_base_url = (\<lambda>_. True), ce_bailian_url = (\<lambda>_. False),
     ce_bailian = (\<lambda>_ _. None), ce_balance = (\<lambda>_ _. None), ce_verify = (\<lambda>_ _ _. False), ce_resets = None,
     ce_snapshot = (\<lambda>_. False), ce_max_body = 16, ce_max_inflight = 64\<rparr>"

definition sample_request :: "string option \<Rightarrow> string \<Rightarrow> request" where
  "sample_request sid b = \<lparr>rq_cookie = sid, rq_body = b, rq_id = ''a'', rq_source = ''ip'', rq_query = (\<lambda>_. [])\<rparr>"

theorem control_needs_session_witness:
  "fst (handle RDeleteAccount (still_world 5) sample_env (sample_request (Some ''forged'') [])
      (still_gateway (fresh_db admin_settings), Map.empty)) =
     \<lparr>rp_status = 401, rp_body = Message ''authentication required'', rp_cookie = NoCookie, rp_routing = None\<rparr>"
proof -
  let ?rq = "sample_request (Some ''forged'') []" and ?g = "still_gateway (fresh_db admin_settings)"
  have "split_on (CHR ''.'') ''forged'' = [''forged'']" by code_simp
  then have no: "verify_session sample_admin ''forged'' = None" by (simp add: verify_session_def)
  have a: "\<not> signed_in (still_world 5) sample_env ?rq ?g"
    by (auto simp: signed_in_def sample_request_def dest: arg_cong [of _ _ "\<lambda>s. CHR ''.'' \<in> set s"])
  obtain reply g' polls' where h: "handle RDeleteAccount (still_world 5) sample_env ?rq (?g, Map.empty) = (reply, g', polls')"
    by (rule prod_cases3)
  have "rp_cookie reply = NoCookie \<and> rp_routing reply = None"
    using control_needs_session [OF _ a h] by simp
  moreover have "rp_body reply = Message ''authentication required''" "rp_status reply = 401"
    using h no by (auto simp: handle_def admin_gate_def session_valid_def sample_env_def sample_request_def lift_def
        write_error_def say_def)
  ultimately show ?thesis using h by (cases reply) simp
qed


end
